(* ===== verification/Psmpi_Prelude.thy ===== *)
theory Psmpi_Prelude
  imports Main "HOL-Library.Word" "HOL-Library.Monad_Syntax"
begin

text \<open>
  Shared vocabulary of the development: MPI error classes as values, the result types of
  C functions, checked array accesses, and the generic list, option and word lemmas the
  components share.

  A C function that can fail with an MPI error class returns \<open>mpi_error + 'a\<close>.
  A C computation that can also have no defined result (an access outside an array, a failed
  \<open>MPIR_Assert\<close>, a loop that never ends) returns an \<open>option\<close>, and \<open>None\<close> is
  that missing result.  Every theorem that concludes \<open>= Some \<dots>\<close> therefore also
  shows that the code stays inside its arrays, trips none of its assertions and ends.
\<close>

named_theorems carray_simps \<open>rewriting of checked C array accesses\<close>
named_theorems mpi_consts \<open>numeric values of the MPI constants\<close>

section \<open>MPI constants and error classes\<close>

datatype mpi_error =
    MPI_ERR_RANK | MPI_ERR_GROUP | MPI_ERR_ARG | MPI_ERR_OTHER | MPI_ERR_INTERN
  | MPI_ERR_NO_MEM | MPI_ERR_RMA_SYNC | MPI_ERR_DIMS | MPI_ERR_TOPOLOGY
  | MPI_ERR_COUNT | MPI_ERR_INFO_KEY | MPI_ERR_INFO_VALUE | MPI_ERR_INFO_NOKEY

definition MPI_UNDEFINED :: int where [mpi_consts]: "MPI_UNDEFINED = -32766"
definition MPI_PROC_NULL :: int where [mpi_consts]: "MPI_PROC_NULL = -1"
definition MPI_ANY_SOURCE :: int where [mpi_consts]: "MPI_ANY_SOURCE = -2"

datatype MPIR_Comm_kind_t = INTRACOMM | INTERCOMM

type_synonym 'a mpi_result = "mpi_error + 'a"

section \<open>Arrays with checked access\<close>

definition aget :: "'a list \<Rightarrow> int \<Rightarrow> 'a option" where
  "aget xs i = (if 0 \<le> i \<and> i < int (length xs) then Some (xs ! nat i) else None)"

definition aset :: "'a list \<Rightarrow> int \<Rightarrow> 'a \<Rightarrow> 'a list option" where
  "aset xs i v = (if 0 \<le> i \<and> i < int (length xs) then Some (xs[nat i := v]) else None)"

lemma aget_in [carray_simps]: "0 \<le> i \<Longrightarrow> i < int (length xs) \<Longrightarrow> aget xs i = Some (xs ! nat i)"
  by (simp add: aget_def)

lemma aset_in [carray_simps]: "0 \<le> i \<Longrightarrow> i < int (length xs) \<Longrightarrow> aset xs i v = Some (xs[nat i := v])"
  by (simp add: aset_def)

lemma aget_Some_iff: "aget xs i = Some v \<longleftrightarrow> 0 \<le> i \<and> i < int (length xs) \<and> v = xs ! nat i"
  by (auto simp: aget_def)

lemma aset_Some_iff: "aset xs i v = Some ys \<longleftrightarrow> 0 \<le> i \<and> i < int (length xs) \<and> ys = xs[nat i := v]"
  by (auto simp: aset_def)

lemma nat_neq_of_int: "0 \<le> i \<Longrightarrow> 0 \<le> j \<Longrightarrow> i \<noteq> j \<Longrightarrow> nat i \<noteq> nat j"
  by simp

section \<open>Loops and C arithmetic\<close>

text \<open>A counted loop whose body can have no result; \<open>cint\<close> is the range check of a 32-bit
  \<open>int\<close> (signed overflow has no defined result), \<open>cdiv\<close> is C's truncating division.\<close>

fun ofold :: "('a \<Rightarrow> 's \<Rightarrow> 's option) \<Rightarrow> 'a list \<Rightarrow> 's \<Rightarrow> 's option" where
  "ofold f [] s = Some s"
| "ofold f (x # xs) s = do { s' \<leftarrow> f x s; ofold f xs s' }"

lemma ofold_append: "ofold f (xs @ ys) s = do { s' \<leftarrow> ofold f xs s; ofold f ys s' }"
  by (induction xs arbitrary: s) (auto split: Option.bind_splits)

text \<open>A loop over a list, or over a range of integers, that keeps an invariant runs to its end.\<close>

lemma ofold_list:
  assumes "P [] s" "\<And>pre x post s. xs = pre @ x # post \<Longrightarrow> P pre s \<Longrightarrow> \<exists>s'. f x s = Some s' \<and> P (pre @ [x]) s'"
  shows "\<exists>s'. ofold f xs s = Some s' \<and> P xs s'"
  using assms
proof (induction xs rule: rev_induct)
  case (snoc y ys)
  have "\<exists>s'. ofold f ys s = Some s' \<and> P ys s'"
  proof (rule snoc.IH [OF snoc.prems(1)])
    fix pre x post s assume "ys = pre @ x # post" "P pre s"
    then show "\<exists>s'. f x s = Some s' \<and> P (pre @ [x]) s'" using snoc.prems(2) [of pre x "post @ [y]"] by simp
  qed
  then obtain s' where s': "ofold f ys s = Some s'" "P ys s'" by blast
  then show ?case using snoc.prems(2) [of ys y "[]" s'] by (auto simp: ofold_append)
qed simp

lemma ofold_upto:
  assumes "a \<le> b" "P a s" "\<And>i s. a \<le> i \<Longrightarrow> i < b \<Longrightarrow> P i s \<Longrightarrow> \<exists>s'. f i s = Some s' \<and> P (i + 1) s'"
  shows "\<exists>s'. ofold f [a..b - 1] s = Some s' \<and> P (b :: int) s'"
  using assms
proof (induction "nat (b - a)" arbitrary: a s)
  case (Suc n)
  then obtain s' where s': "f a s = Some s'" "P (a + 1) s'" by fastforce
  have "[a..b - 1] = a # [a + 1..b - 1]" using Suc.hyps(2) by (subst upto_rec1) simp_all
  moreover have "\<exists>s''. ofold f [a + 1..b - 1] s' = Some s'' \<and> P b s''"
  proof (rule Suc.hyps(1))
    show "n = nat (b - (a + 1))" "a + 1 \<le> b" using Suc.hyps(2) by simp_all
    show "P (a + 1) s'" by (rule s'(2))
  next
    fix i s assume "a + 1 \<le> i" "i < b" "P i s"
    then show "\<exists>s'. f i s = Some s' \<and> P (i + 1) s'" using Suc.prems(3) [of i s] by simp
  qed
  ultimately show ?case using s'(1) by auto
qed simp

definition INT_MAX :: int where [mpi_consts]: "INT_MAX = 2147483647"

definition cint :: "int \<Rightarrow> int option" where
  "cint x = (if -2147483648 \<le> x \<and> x \<le> INT_MAX then Some x else None)"

definition cdiv :: "int \<Rightarrow> int \<Rightarrow> int" where
  "cdiv a b = sgn a * sgn b * (\<bar>a\<bar> div \<bar>b\<bar>)"

end
