(* ===== verification/Lpid_List.thy ===== *)
theory Lpid_List
  imports Psmpi_Prelude
begin

text \<open>
  The ordered process list of a group (\<open>src/mpi/group/grouputil.c\<close>).  A group keeps its
  processes in rank order in an array; the \<open>next_lpid\<close> fields thread a second order through
  the same array, by increasing lpid.  \<open>mergesort_lpidarray\<close> builds that threading by a merge
  sort that never moves an element.  This theory models it link by link and proves that it
  terminates, stays inside the array, leaves the lpids alone, and threads all elements in
  ascending order.
\<close>

section \<open>The array and its links\<close>

record MPII_Group_pmap_t =
  lpid :: "64 word"
  next_lpid :: int

type_synonym pmap = MPII_Group_pmap_t

definition set_next :: "pmap list \<Rightarrow> int \<Rightarrow> int \<Rightarrow> pmap list option" where
  "set_next a i v = do { e \<leftarrow> aget a i; aset a i (e\<lparr>next_lpid := v\<rparr>) }"

text \<open>The first loop of the merge: append the smaller head until one list is empty.\<close>

partial_function (option) merge_loop ::
  "int \<Rightarrow> pmap list \<Rightarrow> int \<Rightarrow> int \<Rightarrow> int \<Rightarrow> (pmap list \<times> int \<times> int \<times> int) option" where
  "merge_loop off a cur i1 i2 =
    (if i1 \<ge> 0 \<and> i2 \<ge> 0 then do {
       e1 \<leftarrow> aget a i1;
       e2 \<leftarrow> aget a i2;
       (if lpid e1 > lpid e2 then do {
          a' \<leftarrow> set_next a cur i2;
          merge_loop off a' i2 i1 (if next_lpid e2 \<ge> 0 then next_lpid e2 + off else next_lpid e2)
        } else do {
          a' \<leftarrow> set_next a cur i1;
          merge_loop off a' i1 (next_lpid e1) i2
        })
     } else Some (a, cur, i1, i2))"

text \<open>The last loop: make the remaining links of the second half relative to the whole array.\<close>

partial_function (option) rebase_loop :: "int \<Rightarrow> pmap list \<Rightarrow> int \<Rightarrow> pmap list option" where
  "rebase_loop off a i =
    (if i \<ge> 0 then do {
       e \<leftarrow> aget a i;
       (if next_lpid e \<ge> 0 then do {
          a' \<leftarrow> set_next a i (next_lpid e + off);
          rebase_loop off a' (next_lpid e + off)
        } else rebase_loop off a (next_lpid e))
     } else Some a)"

definition merge_lists :: "int \<Rightarrow> pmap list \<Rightarrow> int \<Rightarrow> int \<Rightarrow> int \<Rightarrow> pmap list option" where
  "merge_lists off a cur i1 i2 = do {
     (a, cur, i1, i2) \<leftarrow> merge_loop off a cur i1 i2;
     (if i1 \<ge> 0 then set_next a cur i1
      else do { a \<leftarrow> set_next a cur i2; rebase_loop off a i2 })
   }"

text \<open>
  \<open>mergesort_lpidarray(maparray, n)\<close>: the argument is the slice of \<open>n\<close> elements at
  \<open>maparray\<close>, so the two recursive calls get the two halves, and an access outside its own
  half would have no result.  The pair returned is the index of the first element and the
  slice as the call leaves it.
\<close>

function mergesort_lpidarray :: "pmap list \<Rightarrow> (int \<times> pmap list) option" where
  "mergesort_lpidarray a =
    (let n = length a in
     if n = 2 then
       (if lpid (a ! 0) > lpid (a ! 1)
        then Some (1, [(a ! 0)\<lparr>next_lpid := -1\<rparr>, (a ! 1)\<lparr>next_lpid := 0\<rparr>])
        else Some (0, [(a ! 0)\<lparr>next_lpid := 1\<rparr>, (a ! 1)\<lparr>next_lpid := -1\<rparr>]))
     else if n = 1 then Some (0, [(a ! 0)\<lparr>next_lpid := -1\<rparr>])
     else if n = 0 then Some (-1, a)
     else do {
       (idx1, b) \<leftarrow> mergesort_lpidarray (take (n div 2) a);
       (r2, c) \<leftarrow> mergesort_lpidarray (drop (n div 2) a);
       let off = int (n div 2);
       let idx2 = r2 + off;
       let m = b @ c;
       e1 \<leftarrow> aget m idx1;
       e2 \<leftarrow> aget m idx2;
       (if lpid e1 > lpid e2
        then do { m' \<leftarrow> merge_lists off m idx2 idx1 (next_lpid e2 + off); Some (idx2, m') }
        else do { m' \<leftarrow> merge_lists off m idx1 (next_lpid e1) idx2; Some (idx1, m') })
     })"
  by pat_completeness auto
termination
proof (relation "measure length")
  fix a :: "pmap list" and n and p :: "int \<times> pmap list" and idx1 b
  assume "n = length a" "n \<noteq> 2" "n \<noteq> 1" "n \<noteq> 0"
  then have "0 < n div 2" "n div 2 < n" by linarith+
  with \<open>n = length a\<close>
  show "(take (n div 2) a, a) \<in> measure length" "(drop (n div 2) a, a) \<in> measure length"
    by auto
qed simp

declare mergesort_lpidarray.simps [simp del]

section \<open>Threaded lists\<close>

text \<open>
  \<open>chain off a i js\<close>: following the links from index \<open>i\<close> visits exactly the indices
  \<open>js\<close>, in that order, and ends at \<open>-1\<close>; the links are relative to \<open>off\<close>, as those
  of the second half are before the merge has rebased them.
\<close>

fun chain :: "int \<Rightarrow> pmap list \<Rightarrow> int \<Rightarrow> int list \<Rightarrow> bool" where
  "chain off a i [] \<longleftrightarrow> i = -1"
| "chain off a i (j # js) \<longleftrightarrow>
     i = j \<and> 0 \<le> j \<and> j < int (length a) \<and>
     chain off a (if next_lpid (a ! nat j) \<ge> 0 then next_lpid (a ! nat j) + off
                  else next_lpid (a ! nat j)) js"

text \<open>Merging two index lists by the lpids the indices stand for.\<close>

fun lmerge :: "(int \<Rightarrow> 'k::linorder) \<Rightarrow> int list \<Rightarrow> int list \<Rightarrow> int list" where
  "lmerge k [] ys = ys"
| "lmerge k (x # xs) [] = x # xs"
| "lmerge k (x # xs) (y # ys) =
     (if k x > k y then y # lmerge k (x # xs) ys else x # lmerge k xs (y # ys))"

lemma set_lmerge [simp]: "set (lmerge k xs ys) = set xs \<union> set ys"
  by (induction k xs ys rule: lmerge.induct) auto

lemma distinct_lmerge:
  "distinct (lmerge k xs ys) \<longleftrightarrow> distinct xs \<and> distinct ys \<and> set xs \<inter> set ys = {}"
  by (induction k xs ys rule: lmerge.induct) auto

lemma sorted_lmerge:
  "sorted (map k xs) \<Longrightarrow> sorted (map k ys) \<Longrightarrow> sorted (map k (lmerge k xs ys))"
proof (induction k xs ys rule: lmerge.induct)
  case (3 k x xs y ys)
  then show ?case
    by (cases "k y < k x") (auto simp: not_less intro: order_trans less_imp_le)
qed simp_all

lemma chain_bounds: "chain off a i js \<Longrightarrow> j \<in> set js \<Longrightarrow> 0 \<le> j \<and> j < int (length a)"
  by (induction off a i js rule: chain.induct) auto

lemma chain_cong:
  assumes "chain off a i js" and "length a' = length a"
    and "\<And>j. j \<in> set js \<Longrightarrow> a' ! nat j = a ! nat j"
  shows "chain off a' i js"
  using assms by (induction off a i js rule: chain.induct) auto

lemma chain_neg: "chain off a i js \<Longrightarrow> i < 0 \<Longrightarrow> js = []"
  by (cases js) auto

lemma chain_nonneg: "chain off a i js \<Longrightarrow> 0 \<le> i \<Longrightarrow> \<exists>ks. js = i # ks"
  by (cases js) auto

lemma chain_unique: "chain off a i js \<Longrightarrow> chain off a i ks \<Longrightarrow> js = ks"
proof (induction js arbitrary: i ks)
  case Nil
  then show ?case by (cases ks) auto
next
  case (Cons j js)
  then obtain k ks' where [simp]: "ks = k # ks'" by (cases ks) auto
  with Cons.prems have "k = j" by simp
  with Cons show ?case by simp blast
qed

lemma set_next_in [carray_simps]:
  "0 \<le> i \<Longrightarrow> i < int (length a) \<Longrightarrow>
   set_next a i v = Some (a[nat i := (a ! nat i)\<lparr>next_lpid := v\<rparr>])"
  by (simp add: set_next_def carray_simps)

text \<open>The sort and its loops only write links: lengths and lpids are as before.\<close>

definition same_lpids :: "pmap list \<Rightarrow> pmap list \<Rightarrow> bool" where
  "same_lpids a a' \<longleftrightarrow> map lpid a' = map lpid a"

lemma same_lpids_length [dest]: "same_lpids a a' \<Longrightarrow> length a' = length a"
  unfolding same_lpids_def by (metis length_map)

lemma same_lpids_nth: "same_lpids a a' \<Longrightarrow> i < length a \<Longrightarrow> lpid (a' ! i) = lpid (a ! i)"
  unfolding same_lpids_def by (metis length_map nth_map)

lemma same_lpids_refl [simp]: "same_lpids a a"
  by (simp add: same_lpids_def)

lemma same_lpids_trans [trans]: "same_lpids a b \<Longrightarrow> same_lpids b c \<Longrightarrow> same_lpids a c"
  by (simp add: same_lpids_def)

lemma same_lpids_next [simp]: "same_lpids a (a[i := (a ! i)\<lparr>next_lpid := v\<rparr>])"
  unfolding same_lpids_def
  by (cases "i < length a") (auto simp: map_update list_update_same_conv list_update_beyond)

lemma rebase_loop_correct:
  assumes "chain off a i js" and "distinct js"
  shows "\<exists>a'. rebase_loop off a i = Some a' \<and> same_lpids a a' \<and> chain 0 a' i js \<and>
    (\<forall>j. j \<ge> 0 \<longrightarrow> j \<notin> set js \<longrightarrow> a' ! nat j = a ! nat j)"
  using assms
proof (induction js arbitrary: a i)
  case Nil
  then show ?case by (simp add: rebase_loop.simps)
next
  case (Cons j js)
  then have i: "i = j" "0 \<le> j" "j < int (length a)" by auto
  let ?nx = "next_lpid (a ! nat j)"
  show ?case
  proof (cases "?nx \<ge> 0")
    case True
    let ?a = "a[nat j := (a ! nat j)\<lparr>next_lpid := ?nx + off\<rparr>]"
    have ch: "chain off a (?nx + off) js" using Cons.prems True by simp
    have "chain off ?a (?nx + off) js"
    proof (rule chain_cong [OF ch])
      fix k assume k: "k \<in> set js"
      with ch have "0 \<le> k" by (blast dest: chain_bounds)
      moreover have "k \<noteq> j" using k Cons.prems by auto
      ultimately show "?a ! nat k = a ! nat k" using i by (simp add: nth_list_update nat_eq_iff)
    qed simp
    with Cons.IH [of ?a "?nx + off"] Cons.prems obtain a' where
      a': "rebase_loop off ?a (?nx + off) = Some a'" "same_lpids ?a a'"
        "chain 0 a' (?nx + off) js" "\<forall>k. k \<ge> 0 \<longrightarrow> k \<notin> set js \<longrightarrow> a' ! nat k = ?a ! nat k"
      by auto
    have nj: "next_lpid (a' ! nat j) = ?nx + off"
      using a'(4) i Cons.prems by simp
    have pos: "?nx + off \<ge> 0 \<or> ?nx + off = -1"
      using ch by (cases js) auto
    have "rebase_loop off a i = Some a'"
      using i True a'(1) by (subst rebase_loop.simps) (simp add: carray_simps)
    moreover have "same_lpids a a'" using same_lpids_next a'(2) by (rule same_lpids_trans)
    moreover have "chain 0 a' i (j # js)"
      using i nj a'(3) same_lpids_length [OF a'(2)] pos by auto
    moreover have "\<forall>k. k \<ge> 0 \<longrightarrow> k \<notin> set (j # js) \<longrightarrow> a' ! nat k = a ! nat k"
      using a'(4) i by (auto simp: nth_list_update nat_eq_iff)
    ultimately show ?thesis by blast
  next
    case False
    with Cons.prems have "js = []" "?nx = -1" by (cases js; auto)+
    with i False show ?thesis by (simp add: rebase_loop.simps carray_simps)
  qed
qed

lemma link_off_zero [simp]: "(if P then n + (0::int) else n) = n"
  by simp

lemma lpid_upd_next [simp]: "lpid (a[i := (a ! i)\<lparr>next_lpid := v\<rparr>] ! j) = lpid (a ! j)"
  by (cases "i < length a") (auto simp: nth_list_update list_update_beyond)

lemma chain_set_next:
  assumes "chain off a i js" and "0 \<le> c" and "c \<notin> set js"
  shows "chain off (a[nat c := e]) i js"
proof (rule chain_cong [OF assms(1)])
  fix j assume "j \<in> set js"
  with assms have "0 \<le> j" "j \<noteq> c" by (auto dest: chain_bounds)
  with assms(2) show "a[nat c := e] ! nat j = a ! nat j"
    by (simp add: nth_list_update nat_eq_iff)
qed simp

text \<open>
  Merging threads the merged list behind \<open>cur\<close>; only links of the elements involved change.
\<close>

definition merged :: "pmap list \<Rightarrow> int \<Rightarrow> int list \<Rightarrow> int list \<Rightarrow> pmap list \<Rightarrow> bool" where
  "merged a cur xs ys a' \<longleftrightarrow>
     same_lpids a a' \<and>
     chain 0 a' (next_lpid (a' ! nat cur)) (lmerge (\<lambda>i. lpid (a ! nat i)) xs ys) \<and>
     (\<forall>j. j \<ge> 0 \<longrightarrow> j \<notin> set (cur # xs @ ys) \<longrightarrow> a' ! nat j = a ! nat j)"

lemma lmerge_cong:
  "(\<And>i. i \<in> set xs \<union> set ys \<Longrightarrow> k i = k' i) \<Longrightarrow> lmerge k xs ys = lmerge k' xs ys"
  by (induction k xs ys rule: lmerge.induct) auto

text \<open>One iteration of the merge loop: \<open>z\<close> is linked behind \<open>cur\<close> and becomes the last element.\<close>

lemma merged_step:
  assumes m: "merged (a[nat cur := (a ! nat cur)\<lparr>next_lpid := z\<rparr>]) z xs ys a'"
    and cur: "0 \<le> cur" "cur < int (length a)" "cur \<notin> set (z # xs @ ys)"
    and z: "0 \<le> z" "z < int (length a)"
    and eq: "lmerge (\<lambda>i. lpid (a ! nat i)) xs' ys' = z # lmerge (\<lambda>i. lpid (a ! nat i)) xs ys"
    and sub: "set xs' \<union> set ys' = insert z (set xs \<union> set ys)"
  shows "merged a cur xs' ys' a'"
proof -
  let ?a = "a[nat cur := (a ! nat cur)\<lparr>next_lpid := z\<rparr>]"
  let ?k = "\<lambda>i. lpid (a ! nat i)"
  have same: "same_lpids ?a a'" and
    ch: "chain 0 a' (next_lpid (a' ! nat z)) (lmerge (\<lambda>i. lpid (?a ! nat i)) xs ys)" and
    frame: "\<And>j. j \<ge> 0 \<Longrightarrow> j \<notin> set (z # xs @ ys) \<Longrightarrow> a' ! nat j = ?a ! nat j"
    using m by (auto simp: merged_def)
  have k: "(\<lambda>i. lpid (?a ! nat i)) = ?k"
    by simp
  have "next_lpid (a' ! nat cur) = z"
    using frame [OF cur(1,3)] cur by simp
  moreover have "chain 0 a' z (z # lmerge ?k xs ys)"
  proof -
    have "chain 0 a' (next_lpid (a' ! nat z)) (lmerge ?k xs ys)" using ch k by simp
    then show ?thesis using z same_lpids_length [OF same] by simp
  qed
  moreover have "same_lpids a a'" using same_lpids_next same by (rule same_lpids_trans)
  moreover have "a' ! nat j = a ! nat j" if "j \<ge> 0" "j \<notin> set (cur # xs' @ ys')" for j
  proof -
    have "j \<notin> set (z # xs @ ys)" "j \<noteq> cur" using that sub by auto
    then show ?thesis using frame [OF that(1)] that(1) cur by (simp add: nth_list_update nat_eq_iff)
  qed
  ultimately show ?thesis using eq by (simp add: merged_def)
qed

lemma merge_lists_correct:
  assumes "chain 0 a i1 xs" and "chain off a i2 ys" and "distinct (cur # xs @ ys)"
    and "0 \<le> cur" and "cur < int (length a)"
  shows "\<exists>a'. merge_lists off a cur i1 i2 = Some a' \<and> merged a cur xs ys a'"
  using assms
proof (induction "\<lambda>i. lpid (a ! nat i)" xs ys arbitrary: a cur i1 i2 rule: lmerge.induct)
  case (1 ys)
  let ?a = "a[nat cur := (a ! nat cur)\<lparr>next_lpid := i2\<rparr>]"
  have "chain off ?a i2 ys" using 1 by (simp add: chain_set_next)
  with 1 obtain a' where a': "rebase_loop off ?a i2 = Some a'" "same_lpids ?a a'" "chain 0 a' i2 ys"
    "\<forall>j. j \<ge> 0 \<longrightarrow> j \<notin> set ys \<longrightarrow> a' ! nat j = ?a ! nat j"
    using rebase_loop_correct by fastforce
  have "next_lpid (a' ! nat cur) = i2" using a'(4) 1 by simp
  moreover have "same_lpids a a'" using same_lpids_next a'(2) by (rule same_lpids_trans)
  ultimately have "merged a cur [] ys a'"
    using a' 1(4,5) by (auto simp: merged_def nth_list_update nat_eq_iff)
  moreover have "merge_lists off a cur i1 i2 = Some a'"
    using 1 a'(1) by (simp add: merge_lists_def merge_loop.simps carray_simps)
  ultimately show ?case by blast
next
  case (2 x xs)
  let ?a = "a[nat cur := (a ! nat cur)\<lparr>next_lpid := i1\<rparr>]"
  have "chain 0 ?a i1 (x # xs)" using 2 by (intro chain_set_next) auto
  then have "merged a cur (x # xs) [] ?a"
    using 2 by (auto simp: merged_def nth_list_update nat_eq_iff)
  moreover have "merge_lists off a cur i1 i2 = Some ?a"
    using 2 by (simp add: merge_lists_def merge_loop.simps carray_simps)
  ultimately show ?case by blast
next
  case (3 x xs y ys)
  note prems = "3.prems"
  from prems have x: "i1 = x" "0 \<le> x" "x < int (length a)" and y: "i2 = y" "0 \<le> y" "y < int (length a)"
    by auto
  show ?case
  proof (cases "lpid (a ! nat x) > lpid (a ! nat y)")
    case True
    let ?a = "a[nat cur := (a ! nat cur)\<lparr>next_lpid := y\<rparr>]"
    let ?nx = "if next_lpid (a ! nat y) \<ge> 0 then next_lpid (a ! nat y) + off else next_lpid (a ! nat y)"
    have "\<exists>a'. merge_lists off ?a y x ?nx = Some a' \<and> merged ?a y (x # xs) ys a'"
    proof (rule "3.hyps"(1))
      show "lpid (a ! nat y) < lpid (a ! nat x)" by (rule True)
      show "(\<lambda>i. lpid (a ! nat i)) = (\<lambda>i. lpid (?a ! nat i))"
        by simp
      show "chain 0 ?a x (x # xs)" using prems x by (intro chain_set_next) auto
      show "chain off ?a ?nx ys" using prems y by (intro chain_set_next) auto
    qed (use prems y in auto)
    then obtain a' where a': "merge_lists off ?a y x ?nx = Some a'" "merged ?a y (x # xs) ys a'"
      by blast
    have "merge_lists off a cur i1 i2 = Some a'"
      using a'(1) x y prems True
      by (simp add: merge_lists_def merge_loop.simps [of off a cur] carray_simps)
    moreover have "merged a cur (x # xs) (y # ys) a'"
      by (rule merged_step [OF a'(2)]) (use x y prems True in auto)
    ultimately show ?thesis by blast
  next
    case False
    let ?a = "a[nat cur := (a ! nat cur)\<lparr>next_lpid := x\<rparr>]"
    let ?nx = "next_lpid (a ! nat x)"
    have "\<exists>a'. merge_lists off ?a x ?nx y = Some a' \<and> merged ?a x xs (y # ys) a'"
    proof (rule "3.hyps"(2))
      show "\<not> lpid (a ! nat y) < lpid (a ! nat x)" by (rule False)
      show "(\<lambda>i. lpid (a ! nat i)) = (\<lambda>i. lpid (?a ! nat i))"
        by simp
      show "chain off ?a y (y # ys)" using prems y by (intro chain_set_next) auto
      show "chain 0 ?a ?nx xs" using prems x by (intro chain_set_next) (auto split: if_splits)
    qed (use prems x in auto)
    then obtain a' where a': "merge_lists off ?a x ?nx y = Some a'" "merged ?a x xs (y # ys) a'"
      by blast
    have "merge_lists off a cur i1 i2 = Some a'"
      using a'(1) x y prems False
      by (simp add: merge_lists_def merge_loop.simps [of off a cur] carray_simps)
    moreover have "merged a cur (x # xs) (y # ys) a'"
      by (rule merged_step [OF a'(2)]) (use x y prems False in auto)
    ultimately show ?thesis by blast
  qed
qed

section \<open>The sort\<close>

lemma chain_append_left: "chain 0 b i xs \<Longrightarrow> chain 0 (b @ c) i xs"
  by (induction xs arbitrary: i) (auto simp: nth_append)

lemma chain_append_right:
  "chain 0 c i ys \<Longrightarrow>
   chain (int (length b)) (b @ c) (if i \<ge> 0 then i + int (length b) else i)
     (map (\<lambda>j. j + int (length b)) ys)"
proof (induction ys arbitrary: i)
  case (Cons j js)
  then have "(b @ c) ! nat (j + int (length b)) = c ! nat j"
    by (simp add: nth_append nat_add_distrib)
  moreover have "chain 0 c (next_lpid (c ! nat j)) js" using Cons.prems by simp
  note Cons.IH [OF this]
  ultimately show ?case using Cons.prems by (auto split: if_splits)
qed simp

definition threaded :: "pmap list \<Rightarrow> int \<Rightarrow> int list \<Rightarrow> bool" where
  "threaded a f js \<longleftrightarrow>
     chain 0 a f js \<and> distinct js \<and> set js = {0..<int (length a)} \<and>
     sorted (map (\<lambda>j. lpid (a ! nat j)) js)"

definition sorts_to :: "pmap list \<Rightarrow> int \<Rightarrow> pmap list \<Rightarrow> bool" where
  "sorts_to a f a' \<longleftrightarrow> same_lpids a a' \<and> (\<exists>js. threaded a' f js)"

lemma merged_sorts_to:
  assumes m: "merged a z xs ys a'" and z: "0 \<le> z" "z < int (length a)"
    and js: "lmerge (\<lambda>i. lpid (a ! nat i)) xs' ys' = z # lmerge (\<lambda>i. lpid (a ! nat i)) xs ys"
    and srt: "sorted (map (\<lambda>i. lpid (a ! nat i)) xs')" "sorted (map (\<lambda>i. lpid (a ! nat i)) ys')"
    and dst: "distinct xs'" "distinct ys'" "set xs' \<inter> set ys' = {}"
    and all: "set xs' \<union> set ys' = {0..<int (length a)}"
  shows "sorts_to a z a'"
proof -
  let ?k = "\<lambda>i. lpid (a ! nat i)" and ?k' = "\<lambda>i. lpid (a' ! nat i)"
  let ?js = "lmerge ?k xs' ys'"
  have same: "same_lpids a a'" using m by (simp add: merged_def)
  note len = same_lpids_length [OF same]
  have "chain 0 a' z ?js" using m z len by (simp add: js merged_def)
  moreover have "distinct ?js" using dst by (simp add: distinct_lmerge)
  moreover have "set ?js = {0..<int (length a')}" using all len by simp
  moreover have "sorted (map ?k' ?js)"
  proof -
    have "map ?k' ?js = map ?k ?js"
      using all by (intro map_cong refl same_lpids_nth [OF same]) auto
    with sorted_lmerge [OF srt] show ?thesis by metis
  qed
  ultimately show ?thesis unfolding sorts_to_def threaded_def using same by blast
qed

lemma merge_halves:
  assumes b: "threaded b i1 xs" and c: "threaded c r2 ys"
    and nb: "0 < length b" and nc: "1 < length c"
    and off: "off = int (length b)" and i2: "i2 = r2 + off"
  shows "\<exists>e1 e2 f a'. aget (b @ c) i1 = Some e1 \<and> aget (b @ c) i2 = Some e2 \<and>
     (if lpid e1 > lpid e2 then f = i2 \<and> merge_lists off (b @ c) i2 i1 (next_lpid e2 + off) = Some a'
      else f = i1 \<and> merge_lists off (b @ c) i1 (next_lpid e1) i2 = Some a') \<and>
     sorts_to (b @ c) f a'"
proof -
  let ?m = "b @ c" and ?ys = "map (\<lambda>j. j + off) ys"
  let ?k = "\<lambda>i. lpid (?m ! nat i)"
  obtain xt where xs: "xs = i1 # xt" "0 \<le> i1" "i1 < int (length b)"
    using b nb by (cases xs) (auto simp: threaded_def)
  have "card (set ys) = length c" "distinct ys" using c by (auto simp: threaded_def)
  then have "length ys = length c" by (metis distinct_card)
  with nc obtain y2 yt where ys: "ys = r2 # y2 # yt" "0 \<le> r2" "0 \<le> y2"
    "next_lpid (c ! nat r2) = y2" "r2 < int (length c)"
    using c by (cases ys; cases "tl ys") (auto simp: threaded_def)
  have cy: "c ! nat j = ?m ! nat (j + off)" if "j \<ge> 0" for j
    using that off by (simp add: nth_append nat_add_distrib)
  have n2: "next_lpid (?m ! nat i2) = y2" using ys cy [of r2] i2 by simp
  have ch1: "chain 0 ?m i1 xs" using b by (simp add: chain_append_left threaded_def)
  have ch2: "chain off ?m i2 ?ys"
    using chain_append_right [of c r2 ys b] c ys off i2 by (simp add: threaded_def)
  have kx: "map ?k xs = map (\<lambda>j. lpid (b ! nat j)) xs"
    using b by (auto simp: threaded_def nth_append)
  have ky: "map ?k ?ys = map (\<lambda>j. lpid (c ! nat j)) ys"
    using c by (auto simp: threaded_def cy)
  have srt: "sorted (map ?k xs)" "sorted (map ?k ?ys)"
    unfolding kx ky using b c by (auto simp: threaded_def)
  have sx: "set xs = {0..<off}" and dx: "distinct xs" using b off by (auto simp: threaded_def)
  have dy: "distinct ?ys" using c by (auto simp: threaded_def distinct_map inj_on_def)
  have sy: "set ?ys = {off..<int (length ?m)}"
    using c off image_add_atLeastLessThan' [of off 0 "int (length c)"]
    by (simp add: threaded_def add.commute)
  have all: "set xs \<inter> set ?ys = {}" "set xs \<union> set ?ys = {0..<int (length ?m)}"
    unfolding sx sy using off by auto
  have in1: "0 \<le> i1" "i1 < int (length ?m)" and in2: "0 \<le> i2" "i2 < int (length ?m)"
    using xs ys i2 off by auto
  note get = aget_in [OF in1] aget_in [OF in2]
  show ?thesis
  proof (cases "?k i1 > ?k i2")
    case True
    have "chain off ?m (y2 + off) (map (\<lambda>j. j + off) (y2 # yt))"
      using ch2 n2 ys by simp
    moreover have "distinct (i2 # xs @ map (\<lambda>j. j + off) (y2 # yt))"
      using dx dy all(1) ys i2 by auto
    ultimately obtain a' where a': "merge_lists off ?m i2 i1 (y2 + off) = Some a'"
      "merged ?m i2 xs (map (\<lambda>j. j + off) (y2 # yt)) a'"
      using merge_lists_correct [OF ch1 _ _ in2] by blast
    have "sorts_to ?m i2 a'"
      by (rule merged_sorts_to [OF a'(2) in2 _ srt dx dy all]) (use True xs ys i2 in simp)
    with True a'(1) n2 get show ?thesis by (intro exI [of _ i2] exI [of _ a'] exI) auto
  next
    case False
    have "chain 0 ?m (next_lpid (?m ! nat i1)) xt" using ch1 xs by simp
    moreover have "distinct (i1 # xt @ ?ys)" using dx dy all(1) xs by auto
    ultimately obtain a' where a': "merge_lists off ?m i1 (next_lpid (?m ! nat i1)) i2 = Some a'"
      "merged ?m i1 xt ?ys a'"
      using merge_lists_correct [OF _ ch2 _ in1] by blast
    have "sorts_to ?m i1 a'"
      by (rule merged_sorts_to [OF a'(2) in1 _ srt dx dy all]) (use False xs ys i2 in simp)
    with False a'(1) get show ?thesis by (intro exI [of _ i1] exI [of _ a'] exI) auto
  qed
qed

lemma mergesort_small:
  assumes "length a \<le> 2"
  shows "\<exists>f a'. mergesort_lpidarray a = Some (f, a') \<and> sorts_to a f a'"
proof -
  consider "a = []" | x where "a = [x]" | x y where "a = [x, y]"
    using assms by (cases a; cases "tl a"; cases "tl (tl a)") auto
  then show ?thesis
  proof cases
    case 1
    then show ?thesis
      by (simp add: mergesort_lpidarray.simps sorts_to_def threaded_def)
  next
    case 2
    then show ?thesis
      by (simp add: mergesort_lpidarray.simps sorts_to_def threaded_def same_lpids_def)
        (rule exI [of _ "[0]"], auto)
  next
    case 3
    have two: "{0..<2} = {0, 1 :: int}" by auto
    show ?thesis
    proof (cases "lpid x > lpid y")
      case True
      with 3 show ?thesis
        by (simp add: mergesort_lpidarray.simps sorts_to_def threaded_def same_lpids_def)
          (rule exI [of _ "[1, 0]"], auto simp: two)
    next
      case False
      with 3 show ?thesis
        by (simp add: mergesort_lpidarray.simps sorts_to_def threaded_def same_lpids_def)
          (rule exI [of _ "[0, 1]"], auto simp: two)
    qed
  qed
qed

lemma mergesort_correct: "\<exists>f a'. mergesort_lpidarray a = Some (f, a') \<and> sorts_to a f a'"
proof (induction a rule: length_induct)
  case (1 a)
  show ?case
  proof (cases "length a \<le> 2")
    case True
    then show ?thesis by (rule mergesort_small)
  next
    case False
    let ?h = "length a div 2"
    have h: "0 < ?h" "?h < length a" "1 < length a - ?h" using False by linarith+
    have "length (take ?h a) < length a" "length (drop ?h a) < length a" using h by auto
    note IH = this [THEN "1.IH" [rule_format]]
    obtain f1 b xs where b: "mergesort_lpidarray (take ?h a) = Some (f1, b)"
      "same_lpids (take ?h a) b" "threaded b f1 xs"
      using IH(1) unfolding sorts_to_def by blast
    obtain f2 c ys where c: "mergesort_lpidarray (drop ?h a) = Some (f2, c)"
      "same_lpids (drop ?h a) c" "threaded c f2 ys"
      using IH(2) unfolding sorts_to_def by blast
    have lb: "length b = ?h" and lc: "length c = length a - ?h"
      using same_lpids_length [OF b(2)] same_lpids_length [OF c(2)] h by auto
    have same: "same_lpids a (b @ c)"
      using b(2) c(2) by (simp add: same_lpids_def flip: take_map drop_map)
    obtain e1 e2 f a' where r: "aget (b @ c) f1 = Some e1" "aget (b @ c) (f2 + int ?h) = Some e2"
      "if lpid e1 > lpid e2
       then f = f2 + int ?h \<and> merge_lists (int ?h) (b @ c) (f2 + int ?h) f1 (next_lpid e2 + int ?h) = Some a'
       else f = f1 \<and> merge_lists (int ?h) (b @ c) f1 (next_lpid e1) (f2 + int ?h) = Some a'"
      "sorts_to (b @ c) f a'"
      using merge_halves [OF b(3) c(3), of "int ?h" "f2 + int ?h"] h lb lc by auto
    have "mergesort_lpidarray a = Some (f, a')"
      using False b(1) c(1) r(1,2,3)
      by (subst mergesort_lpidarray.simps) (auto simp: Let_def split: if_splits)
    moreover have "sorts_to a f a'"
      using r(4) same same_lpids_trans by (auto simp: sorts_to_def)
    ultimately show ?thesis by blast
  qed
qed

end
