(* ===== verification/MPIR_Groups.thy ===== *)
theory MPIR_Groups
  imports Lpid_List
begin

text \<open>
  Process groups (\<open>src/mpi/group/grouputil.c\<close>, \<open>src/mpi/group/group_impl.c\<close>).  A group is a
  record; an operation takes the groups it reads, because the lazy construction of the ordered
  process list writes to them, and the environment it allocates from, and returns the groups as
  it leaves them beside the new group.  The abstraction of a group is the list of its lpids in
  rank order (\<open>members\<close>); the set operations, the selections by rank and the rank translation
  are proved against that list.
\<close>

section \<open>State\<close>

record MPIR_Group =
  g_handle :: int
  g_ref_count :: int
  g_size :: int
  g_rank :: int
  idx_of_first_lpid :: int
  lrank_to_lpid :: "pmap list"
  is_local_dense_monotonic :: bool
  session_ptr :: "nat option"

text \<open>
  What the group code reads from its surroundings: whether the object allocator and
  \<open>MPL_calloc\<close> succeed, the handle and the stale rank field of the object handed out next,
  the reference counts of the sessions, and \<open>MPIR_Process.size\<close> and \<open>MPIR_Process.rank\<close>.
\<close>

record group_env =
  obj_alloc_ok :: bool
  calloc_ok :: bool
  new_handle :: int
  stale_rank :: int
  session_refs :: "nat \<Rightarrow> int"
  world_size :: int
  world_rank :: int

definition MPI_GROUP_EMPTY :: int where "MPI_GROUP_EMPTY = 0x48000000"

definition MPIR_Group_empty :: MPIR_Group where
  "MPIR_Group_empty = \<lparr>g_handle = MPI_GROUP_EMPTY, g_ref_count = 1, g_size = 0,
     g_rank = MPI_UNDEFINED, idx_of_first_lpid = -1, lrank_to_lpid = [],
     is_local_dense_monotonic = False, session_ptr = None\<rparr>"

definition MPIR_Group_create :: "group_env \<Rightarrow> int \<Rightarrow> MPIR_Group mpi_result" where
  "MPIR_Group_create env nproc =
    (if \<not> obj_alloc_ok env then Inl MPI_ERR_OTHER
     else if \<not> calloc_ok env then Inl MPI_ERR_OTHER
     else Inr \<lparr>g_handle = new_handle env, g_ref_count = 1, g_size = nproc,
            g_rank = stale_rank env, idx_of_first_lpid = -1,
            lrank_to_lpid = replicate (nat nproc) \<lparr>lpid = 0, next_lpid = 0\<rparr>,
            is_local_dense_monotonic = False, session_ptr = None\<rparr>)"

definition MPIR_Group_set_session_ptr ::
  "group_env \<Rightarrow> MPIR_Group \<Rightarrow> nat option \<Rightarrow> group_env \<times> MPIR_Group" where
  "MPIR_Group_set_session_ptr env g s =
    (case s of
       Some p \<Rightarrow> (env\<lparr>session_refs := (session_refs env)(p := session_refs env p + 1)\<rparr>,
                  g\<lparr>session_ptr := Some p\<rparr>)
     | None \<Rightarrow> (env, g))"

text \<open>Dropping a reference: \<open>None\<close> for the group when its memory is released.\<close>

definition MPIR_Group_release :: "group_env \<Rightarrow> MPIR_Group \<Rightarrow> group_env \<times> MPIR_Group option" where
  "MPIR_Group_release env g =
    (let inuse = g_ref_count g - 1 in
     if inuse = 0 then
       (case session_ptr g of
          Some p \<Rightarrow> (env\<lparr>session_refs := (session_refs env)(p := session_refs env p - 1)\<rparr>, None)
        | None \<Rightarrow> (env, None))
     else (env, Some (g\<lparr>g_ref_count := inuse\<rparr>)))"

definition MPIR_Group_free_impl :: "group_env \<Rightarrow> MPIR_Group \<Rightarrow> group_env \<times> MPIR_Group option" where
  "MPIR_Group_free_impl env g =
    (if g_handle g \<noteq> MPI_GROUP_EMPTY then MPIR_Group_release env g else (env, Some g))"

section \<open>Lazy construction of the ordered list\<close>

definition MPII_Group_setup_lpid_list :: "MPIR_Group \<Rightarrow> MPIR_Group option" where
  "MPII_Group_setup_lpid_list g =
    (if idx_of_first_lpid g = -1 then
       (if nat (g_size g) \<le> length (lrank_to_lpid g) then do {
          (f, m) \<leftarrow> mergesort_lpidarray (take (nat (g_size g)) (lrank_to_lpid g));
          Some (g\<lparr>idx_of_first_lpid := f,
                  lrank_to_lpid := m @ drop (nat (g_size g)) (lrank_to_lpid g)\<rparr>)
        } else None)
     else Some g)"

definition MPIR_Group_setup_lpid_pairs ::
  "MPIR_Group \<Rightarrow> MPIR_Group \<Rightarrow> (MPIR_Group \<times> MPIR_Group) option" where
  "MPIR_Group_setup_lpid_pairs g1 g2 = do {
     g1' \<leftarrow> (if idx_of_first_lpid g1 < 0 then MPII_Group_setup_lpid_list g1 else Some g1);
     g2' \<leftarrow> (if idx_of_first_lpid g2 < 0 then MPII_Group_setup_lpid_list g2 else Some g2);
     Some (g1', g2')
   }"

section \<open>Comparison and the set operations\<close>

datatype group_cmp = MPI_IDENT | MPI_SIMILAR | MPI_UNEQUAL

text \<open>Walk both ordered lists; \<open>True\<close> when a pair of lpids differs.\<close>

partial_function (option) compare_walk :: "pmap list \<Rightarrow> pmap list \<Rightarrow> int \<Rightarrow> int \<Rightarrow> bool option" where
  "compare_walk m1 m2 i1 i2 =
    (if i1 \<ge> 0 \<and> i2 \<ge> 0 then do {
       e1 \<leftarrow> aget m1 i1;
       e2 \<leftarrow> aget m2 i2;
       (if lpid e1 \<noteq> lpid e2 then Some True
        else compare_walk m1 m2 (next_lpid e1) (next_lpid e2))
     } else Some False)"

definition MPIR_Group_compare_impl ::
  "MPIR_Group \<Rightarrow> MPIR_Group \<Rightarrow> (MPIR_Group \<times> MPIR_Group \<times> group_cmp) option" where
  "MPIR_Group_compare_impl g1 g2 =
    (if g_size g1 \<noteq> g_size g2 then Some (g1, g2, MPI_UNEQUAL)
     else do {
       (g1, g2) \<leftarrow> MPIR_Group_setup_lpid_pairs g1 g2;
       d \<leftarrow> compare_walk (lrank_to_lpid g1) (lrank_to_lpid g2) (idx_of_first_lpid g1) (idx_of_first_lpid g2);
       (if d then Some (g1, g2, MPI_UNEQUAL)
        else if map lpid (take (nat (g_size g1)) (lrank_to_lpid g1)) \<noteq>
                map lpid (take (nat (g_size g1)) (lrank_to_lpid g2))
        then Some (g1, g2, MPI_SIMILAR)
        else Some (g1, g2, MPI_IDENT))
     })"

text \<open>
  The walk that difference and intersection share: it flags the elements of the first group
  that the second also has, and adds \<open>d\<close> to the size of the new group for each.
\<close>

partial_function (option) match_walk ::
  "int \<Rightarrow> pmap list \<Rightarrow> pmap list \<Rightarrow> int \<Rightarrow> int \<Rightarrow> bool list \<Rightarrow> int \<Rightarrow> (bool list \<times> int) option" where
  "match_walk d m1 m2 i1 i2 flags nnew =
    (if i1 \<ge> 0 \<and> i2 \<ge> 0 then do {
       e1 \<leftarrow> aget m1 i1;
       e2 \<leftarrow> aget m2 i2;
       (if lpid e1 < lpid e2 then match_walk d m1 m2 (next_lpid e1) i2 flags nnew
        else if lpid e1 > lpid e2 then match_walk d m1 m2 i1 (next_lpid e2) flags nnew
        else do {
          flags' \<leftarrow> aset flags i1 True;
          match_walk d m1 m2 (next_lpid e1) (next_lpid e2) flags' (nnew + d)
        })
     } else Some (flags, nnew))"

text \<open>
  The copy loop: the elements of the old array whose flag is \<open>want\<close>, in rank order, starting at
  position \<open>k\<close> of the new array; the new rank is set where the old one is met.
\<close>

fun copy_loop ::
  "bool \<Rightarrow> int \<Rightarrow> int \<Rightarrow> pmap list \<Rightarrow> bool list \<Rightarrow> int \<Rightarrow> MPIR_Group \<Rightarrow> MPIR_Group option" where
  "copy_loop want r i (e # es) (f # fs) k new =
    (if f = want then do {
       old \<leftarrow> aget (lrank_to_lpid new) k;
       m \<leftarrow> aset (lrank_to_lpid new) k (old\<lparr>lpid := lpid e\<rparr>);
       copy_loop want r (i + 1) es fs (k + 1)
         (new\<lparr>lrank_to_lpid := m, g_rank := (if i = r then k else g_rank new)\<rparr>)
     } else copy_loop want r (i + 1) es fs k new)"
| "copy_loop want r i es fs k new = Some new"

type_synonym set_op_result = "(group_env \<times> MPIR_Group \<times> MPIR_Group \<times> MPIR_Group) mpi_result option"

definition MPIR_Group_difference_impl :: "group_env \<Rightarrow> MPIR_Group \<Rightarrow> MPIR_Group \<Rightarrow> set_op_result" where
  "MPIR_Group_difference_impl env g1 g2 = do {
     (g1, g2) \<leftarrow> MPIR_Group_setup_lpid_pairs g1 g2;
     (flags, nnew) \<leftarrow> match_walk (-1) (lrank_to_lpid g1) (lrank_to_lpid g2)
        (idx_of_first_lpid g1) (idx_of_first_lpid g2)
        (replicate (nat (g_size g1)) False) (g_size g1);
     (if nnew = 0 then Some (Inr (env, g1, g2, MPIR_Group_empty))
      else case MPIR_Group_create env nnew of
        Inl e \<Rightarrow> Some (Inl e)
      | Inr new \<Rightarrow> do {
          new \<leftarrow> copy_loop False (g_rank g1) 0 (lrank_to_lpid g1) flags 0 (new\<lparr>g_rank := MPI_UNDEFINED\<rparr>);
          let (env, new) = MPIR_Group_set_session_ptr env new (session_ptr g1);
          Some (Inr (env, g1, g2, new))
        })
   }"

text \<open>The copy loop of intersection also recomputes \<open>is_local_dense_monotonic\<close>.\<close>

fun copy_loop_dense ::
  "int \<Rightarrow> int \<Rightarrow> int \<Rightarrow> pmap list \<Rightarrow> bool list \<Rightarrow> int \<Rightarrow> MPIR_Group \<Rightarrow> MPIR_Group option" where
  "copy_loop_dense wsize r i (e # es) (f # fs) k new =
    (if f then do {
       old \<leftarrow> aget (lrank_to_lpid new) k;
       m \<leftarrow> aset (lrank_to_lpid new) k (old\<lparr>lpid := lpid e\<rparr>);
       gap \<leftarrow> (if lpid e > word_of_int wsize then Some True
               else if k > 0 then do { p \<leftarrow> aget m (k - 1); Some (lpid p \<noteq> lpid e - 1) }
               else Some False);
       copy_loop_dense wsize r (i + 1) es fs (k + 1)
         (new\<lparr>lrank_to_lpid := m, g_rank := (if i = r then k else g_rank new),
              is_local_dense_monotonic := (if gap then False else is_local_dense_monotonic new)\<rparr>)
     } else copy_loop_dense wsize r (i + 1) es fs k new)"
| "copy_loop_dense wsize r i es fs k new = Some new"

definition MPIR_Group_intersection_impl :: "group_env \<Rightarrow> MPIR_Group \<Rightarrow> MPIR_Group \<Rightarrow> set_op_result" where
  "MPIR_Group_intersection_impl env g1 g2 = do {
     (g1, g2) \<leftarrow> MPIR_Group_setup_lpid_pairs g1 g2;
     (flags, nnew) \<leftarrow> match_walk 1 (lrank_to_lpid g1) (lrank_to_lpid g2)
        (idx_of_first_lpid g1) (idx_of_first_lpid g2)
        (replicate (nat (g_size g1)) False) 0;
     (if nnew = 0 then Some (Inr (env, g1, g2, MPIR_Group_empty))
      else case MPIR_Group_create env nnew of
        Inl e \<Rightarrow> Some (Inl e)
      | Inr new \<Rightarrow> do {
          new \<leftarrow> copy_loop_dense (world_size env) (g_rank g1) 0 (lrank_to_lpid g1) flags 0
             (new\<lparr>g_rank := MPI_UNDEFINED, is_local_dense_monotonic := True\<rparr>);
          let (env, new) = MPIR_Group_set_session_ptr env new (session_ptr g1);
          Some (Inr (env, g1, g2, new))
        })
   }"

text \<open>Union: flag the elements of the second group that the first does not have.\<close>

partial_function (option) union_walk ::
  "pmap list \<Rightarrow> pmap list \<Rightarrow> int \<Rightarrow> int \<Rightarrow> bool list \<Rightarrow> int \<Rightarrow> (bool list \<times> int \<times> int) option" where
  "union_walk m1 m2 i1 i2 flags nnew =
    (if i1 \<ge> 0 \<and> i2 \<ge> 0 then do {
       e1 \<leftarrow> aget m1 i1;
       e2 \<leftarrow> aget m2 i2;
       (if lpid e1 > lpid e2 then do {
          flags' \<leftarrow> aset flags i2 True;
          union_walk m1 m2 i1 (next_lpid e2) flags' (nnew + 1)
        } else if lpid e1 = lpid e2 then union_walk m1 m2 (next_lpid e1) (next_lpid e2) flags nnew
        else union_walk m1 m2 (next_lpid e1) i2 flags nnew)
     } else Some (flags, nnew, i2))"

partial_function (option) union_rest ::
  "pmap list \<Rightarrow> int \<Rightarrow> bool list \<Rightarrow> int \<Rightarrow> (bool list \<times> int) option" where
  "union_rest m2 i2 flags nnew =
    (if i2 \<ge> 0 then do {
       flags' \<leftarrow> aset flags i2 True;
       e2 \<leftarrow> aget m2 i2;
       union_rest m2 (next_lpid e2) flags' (nnew + 1)
     } else Some (flags, nnew))"

text \<open>The second copy loop of union: the rank is found by its lpid, not by its position.\<close>

fun union_copy ::
  "64 word \<Rightarrow> pmap list \<Rightarrow> bool list \<Rightarrow> int \<Rightarrow> MPIR_Group \<Rightarrow> MPIR_Group option" where
  "union_copy mylpid (e # es) (f # fs) k new =
    (if f then do {
       old \<leftarrow> aget (lrank_to_lpid new) k;
       m \<leftarrow> aset (lrank_to_lpid new) k (old\<lparr>lpid := lpid e\<rparr>);
       union_copy mylpid es fs (k + 1)
         (new\<lparr>lrank_to_lpid := m,
              g_rank := (if g_rank new = MPI_UNDEFINED \<and> lpid e = mylpid then k else g_rank new)\<rparr>)
     } else union_copy mylpid es fs k new)"
| "union_copy mylpid es fs k new = Some new"

definition MPIR_Group_union_impl :: "group_env \<Rightarrow> MPIR_Group \<Rightarrow> MPIR_Group \<Rightarrow> set_op_result" where
  "MPIR_Group_union_impl env g1 g2 = do {
     (g1, g2) \<leftarrow> MPIR_Group_setup_lpid_pairs g1 g2;
     (flags, nnew, i2) \<leftarrow> union_walk (lrank_to_lpid g1) (lrank_to_lpid g2)
        (idx_of_first_lpid g1) (idx_of_first_lpid g2)
        (replicate (nat (g_size g2)) False) (g_size g1);
     (flags, nnew) \<leftarrow> union_rest (lrank_to_lpid g2) i2 flags nnew;
     (if nnew = 0 then Some (Inr (env, g1, g2, MPIR_Group_empty))
      else case MPIR_Group_create env nnew of
        Inl e \<Rightarrow> Some (Inl e)
      | Inr new \<Rightarrow> do {
          new \<leftarrow> copy_loop True MPI_UNDEFINED 0 (lrank_to_lpid g1)
             (replicate (nat (g_size g1)) True) 0 (new\<lparr>g_rank := g_rank g1\<rparr>);
          mylpid \<leftarrow> (if g_rank g1 = MPI_UNDEFINED \<and> g_rank g2 \<ge> 0
                     then do { e \<leftarrow> aget (lrank_to_lpid g2) (g_rank g2); Some (lpid e) }
                     else Some (- 2));
          new \<leftarrow> union_copy mylpid (lrank_to_lpid g2) flags (g_size g1) new;
          let (env, new) = MPIR_Group_set_session_ptr env new (session_ptr g1);
          Some (Inr (env, g1, g2, new))
        })
   }"

section \<open>Selection by rank\<close>

text \<open>Marking the listed ranks.\<close>

definition mark_rank :: "int \<Rightarrow> bool list \<Rightarrow> bool list option" where
  "mark_rank r flags = aset flags r True"

definition MPIR_Group_excl_impl ::
  "group_env \<Rightarrow> MPIR_Group \<Rightarrow> int list \<Rightarrow> (group_env \<times> MPIR_Group) mpi_result option" where
  "MPIR_Group_excl_impl env g ranks =
    (let n = int (length ranks) in
     case MPIR_Group_create env (g_size g - n) of
       Inl e \<Rightarrow> Some (Inl e)
     | Inr new \<Rightarrow> do {
         flags \<leftarrow> ofold mark_rank ranks (replicate (nat (g_size g)) False);
         new \<leftarrow> copy_loop False (g_rank g) 0 (lrank_to_lpid g) flags 0 (new\<lparr>g_rank := MPI_UNDEFINED\<rparr>);
         let (env, new) = MPIR_Group_set_session_ptr env
               (new\<lparr>g_size := g_size g - n, idx_of_first_lpid := -1\<rparr>) (session_ptr g);
         Some (Inr (env, new))
       })"

text \<open>Appending the process of rank \<open>r\<close> at position \<open>k\<close> of the new group.\<close>

definition incl_rank :: "MPIR_Group \<Rightarrow> int \<Rightarrow> MPIR_Group \<times> int \<Rightarrow> (MPIR_Group \<times> int) option" where
  "incl_rank g r s = (case s of (new, k) \<Rightarrow> do {
     e \<leftarrow> aget (lrank_to_lpid g) r;
     old \<leftarrow> aget (lrank_to_lpid new) k;
     m \<leftarrow> aset (lrank_to_lpid new) k (old\<lparr>lpid := lpid e\<rparr>);
     Some (new\<lparr>lrank_to_lpid := m, g_rank := (if r = g_rank g then k else g_rank new)\<rparr>, k + 1)
   })"

definition MPIR_Group_incl_impl ::
  "group_env \<Rightarrow> MPIR_Group \<Rightarrow> int list \<Rightarrow> (group_env \<times> MPIR_Group) mpi_result option" where
  "MPIR_Group_incl_impl env g ranks =
    (let n = int (length ranks) in
     if n = 0 then Some (Inr (env, MPIR_Group_empty))
     else case MPIR_Group_create env n of
       Inl e \<Rightarrow> Some (Inl e)
     | Inr new \<Rightarrow> do {
         (new, _) \<leftarrow> ofold (incl_rank g) ranks (new\<lparr>g_rank := MPI_UNDEFINED\<rparr>, 0);
         let (env, new) = MPIR_Group_set_session_ptr env
               (new\<lparr>g_size := n, idx_of_first_lpid := -1\<rparr>) (session_ptr g);
         Some (Inr (env, new))
       })"

type_synonym rank_range = "int \<times> int \<times> int"

text \<open>
  \<open>for (j = first; j <= last; j += stride)\<close> for a positive stride, and
  \<open>for (j = first; j >= last; j += stride)\<close> otherwise; \<open>j += stride\<close> is an \<open>int\<close> addition.
\<close>

partial_function (option) for_range ::
  "(int \<Rightarrow> 's \<Rightarrow> 's option) \<Rightarrow> int \<Rightarrow> int \<Rightarrow> int \<Rightarrow> 's \<Rightarrow> 's option" where
  "for_range body stride j l s =
    (if (if stride > 0 then j \<le> l else j \<ge> l) then do {
       s' \<leftarrow> body j s;
       j' \<leftarrow> cint (j + stride);
       for_range body stride j' l s'
     } else Some s)"

definition in_range :: "(int \<Rightarrow> 's \<Rightarrow> 's option) \<Rightarrow> rank_range \<Rightarrow> 's \<Rightarrow> 's option" where
  "in_range body r s = (case r of (first, l, stride) \<Rightarrow> for_range body stride first l s)"

text \<open>The number of ranks the ranges name, as both range constructors compute it.\<close>

definition count_range :: "rank_range \<Rightarrow> int \<Rightarrow> int option" where
  "count_range r nnew = (case r of (first, l, stride) \<Rightarrow>
     if stride = 0 then None else Some (nnew + (1 + cdiv (l - first) stride)))"

definition MPIR_Group_range_excl_impl ::
  "group_env \<Rightarrow> MPIR_Group \<Rightarrow> rank_range list \<Rightarrow> (group_env \<times> MPIR_Group) mpi_result option" where
  "MPIR_Group_range_excl_impl env g ranges = do {
     cnt \<leftarrow> ofold count_range ranges 0;
     let nnew = g_size g - cnt;
     (if nnew = 0 then Some (Inr (env, MPIR_Group_empty))
      else case MPIR_Group_create env nnew of
        Inl e \<Rightarrow> Some (Inl e)
      | Inr new \<Rightarrow> do {
          flags \<leftarrow> ofold (in_range mark_rank) ranges (replicate (nat (g_size g)) False);
          new \<leftarrow> copy_loop False (g_rank g) 0 (lrank_to_lpid g) flags 0 (new\<lparr>g_rank := MPI_UNDEFINED\<rparr>);
          let (env, new) = MPIR_Group_set_session_ptr env new (session_ptr g);
          Some (Inr (env, new))
        })
   }"

definition MPIR_Group_range_incl_impl ::
  "group_env \<Rightarrow> MPIR_Group \<Rightarrow> rank_range list \<Rightarrow> (group_env \<times> MPIR_Group) mpi_result option" where
  "MPIR_Group_range_incl_impl env g ranges = do {
     nnew \<leftarrow> ofold count_range ranges 0;
     (if nnew = 0 then Some (Inr (env, MPIR_Group_empty))
      else case MPIR_Group_create env nnew of
        Inl e \<Rightarrow> Some (Inl e)
      | Inr new \<Rightarrow> do {
          (new, _) \<leftarrow> ofold (in_range (incl_rank g)) ranges (new\<lparr>g_rank := MPI_UNDEFINED\<rparr>, 0);
          let (env, new) = MPIR_Group_set_session_ptr env new (session_ptr g);
          Some (Inr (env, new))
        })
   }"

section \<open>Argument checks\<close>

text \<open>
  \<open>MPIR_Group_check_valid_ranks\<close>, which the \<open>MPI_Group_incl\<close> and \<open>MPI_Group_excl\<close> bindings
  call first.  The flag it tests and sets is the one at the loop index, not at the rank.
\<close>

fun check_valid_ranks_loop ::
  "int \<Rightarrow> int \<Rightarrow> int list \<Rightarrow> int list \<Rightarrow> unit mpi_result option" where
  "check_valid_ranks_loop gsize i [] flags = Some (Inr ())"
| "check_valid_ranks_loop gsize i (r # rs) flags =
    (if r < 0 \<or> r \<ge> gsize then Some (Inl MPI_ERR_RANK)
     else do {
       f \<leftarrow> aget flags i;
       (if f \<noteq> 0 then Some (Inl MPI_ERR_RANK)
        else do {
          flags' \<leftarrow> aset flags i (i + 1);
          check_valid_ranks_loop gsize (i + 1) rs flags'
        })
     })"

definition MPIR_Group_check_valid_ranks :: "MPIR_Group \<Rightarrow> int list \<Rightarrow> unit mpi_result option" where
  "MPIR_Group_check_valid_ranks g ranks =
     check_valid_ranks_loop (g_size g) 0 ranks (replicate (nat (g_size g)) 0)"

text \<open>Marking one range; the flag records the range number, so that a repetition is an error.\<close>

definition check_mark :: "int \<Rightarrow> int \<Rightarrow> int \<Rightarrow> int list \<Rightarrow> int list mpi_result option" where
  "check_mark stride i j flags = do {
     f \<leftarrow> aget flags j;
     (if f \<noteq> 0 then Some (Inl MPI_ERR_ARG)
      else do { flags' \<leftarrow> aset flags j (if stride > 0 then 1 else i + 1); Some (Inr flags') })
   }"

text \<open>The marking loop leaves at the first repetition (\<open>break\<close>).\<close>

partial_function (option) check_mark_range ::
  "int \<Rightarrow> int \<Rightarrow> int \<Rightarrow> int \<Rightarrow> int list \<Rightarrow> int list mpi_result option" where
  "check_mark_range i stride j l flags =
    (if (if stride > 0 then j \<le> l else j \<ge> l) then do {
       r \<leftarrow> check_mark stride i j flags;
       (case r of
          Inl e \<Rightarrow> Some (Inl e)
        | Inr flags' \<Rightarrow> do { j' \<leftarrow> cint (j + stride); check_mark_range i stride j' l flags' })
     } else Some (Inr flags))"

text \<open>The last rank the stride reaches, computed before the test of \<open>last\<close>.\<close>

definition act_last :: "int \<Rightarrow> int \<Rightarrow> int \<Rightarrow> int option" where
  "act_last first l stride = do {
     d \<leftarrow> cint (l - first);
     q \<leftarrow> cint (cdiv d stride);
     p \<leftarrow> cint (stride * q);
     cint (first + p)
   }"

fun check_valid_ranges_loop ::
  "int \<Rightarrow> int \<Rightarrow> rank_range list \<Rightarrow> int list \<Rightarrow> unit mpi_result option" where
  "check_valid_ranges_loop gsize i [] flags = Some (Inr ())"
| "check_valid_ranges_loop gsize i ((first, l, stride) # rs) flags =
    (if first < 0 \<or> first \<ge> gsize then Some (Inl MPI_ERR_ARG)
     else if stride = 0 then Some (Inl MPI_ERR_ARG)
     else do {
       last' \<leftarrow> act_last first l stride;
       if l < 0 \<or> last' \<ge> gsize then Some (Inl MPI_ERR_ARG)
       else if (stride > 0 \<and> first > l) \<or> (stride < 0 \<and> first < l) then Some (Inl MPI_ERR_ARG)
       else do {
         r \<leftarrow> check_mark_range i stride first l flags;
         (case r of
            Inl e \<Rightarrow> Some (Inl e)
          | Inr flags' \<Rightarrow> check_valid_ranges_loop gsize (i + 1) rs flags')
       }
     })"

definition MPIR_Group_check_valid_ranges :: "MPIR_Group \<Rightarrow> rank_range list \<Rightarrow> unit mpi_result option" where
  "MPIR_Group_check_valid_ranges g ranges =
     check_valid_ranges_loop (g_size g) 0 ranges (replicate (nat (g_size g)) 0)"

text \<open>
  \<open>MPIR_Group_check_subset\<close>: the lpids of the communicator's processes, fetched by
  \<open>MPID_Comm_get_lpid\<close>, are the argument \<open>vlpids\<close>.  The two lpids compared are held in \<open>int\<close>
  variables, so the 64-bit values are cut to their low 32 bits, read as signed.
\<close>

definition int_of_lpid :: "64 word \<Rightarrow> int" where
  "int_of_lpid l = sint (ucast l :: 32 word)"

partial_function (option) subset_walk :: "pmap list \<Rightarrow> pmap list \<Rightarrow> int \<Rightarrow> int \<Rightarrow> int option" where
  "subset_walk m v i1 i2 =
    (if i1 \<ge> 0 \<and> i2 \<ge> 0 then do {
       e1 \<leftarrow> aget m i1;
       e2 \<leftarrow> aget v i2;
       (if int_of_lpid (lpid e1) < int_of_lpid (lpid e2) then Some i1
        else if int_of_lpid (lpid e1) > int_of_lpid (lpid e2) then subset_walk m v i1 (next_lpid e2)
        else subset_walk m v (next_lpid e1) (next_lpid e2))
     } else Some i1)"

definition MPIR_Group_check_subset ::
  "MPIR_Group \<Rightarrow> 64 word list \<Rightarrow> (MPIR_Group \<times> unit mpi_result) option" where
  "MPIR_Group_check_subset g vlpids = do {
     g \<leftarrow> MPII_Group_setup_lpid_list g;
     (i2, v) \<leftarrow> mergesort_lpidarray (map (\<lambda>l. \<lparr>lpid = l, next_lpid = 0\<rparr>) vlpids);
     i1 \<leftarrow> subset_walk (lrank_to_lpid g) v (idx_of_first_lpid g) i2;
     Some (g, if i1 \<ge> 0 then Inl MPI_ERR_GROUP else Inr ())
   }"

section \<open>Rank translation\<close>

text \<open>The constant-time path, for a second group of consecutive lpids.\<close>

fun translate_fast :: "pmap list \<Rightarrow> 64 word \<Rightarrow> int \<Rightarrow> int list \<Rightarrow> int list option" where
  "translate_fast m1 offset size2 [] = Some []"
| "translate_fast m1 offset size2 (r # rs) =
    (if r = MPI_PROC_NULL then do {
       out \<leftarrow> translate_fast m1 offset size2 rs;
       Some (MPI_PROC_NULL # out)
     } else do {
       e \<leftarrow> aget m1 r;
       let g1_lpid = lpid e - offset;
       out \<leftarrow> translate_fast m1 offset size2 rs;
       Some ((if g1_lpid < word_of_int size2 then uint g1_lpid else MPI_UNDEFINED) # out)
     })"

text \<open>The general path: advance in the ordered list of the second group until the lpid is not
  smaller; the position is kept for the next rank.\<close>

partial_function (option) translate_advance ::
  "pmap list \<Rightarrow> 64 word \<Rightarrow> int \<Rightarrow> 64 word \<Rightarrow> (int \<times> 64 word) option" where
  "translate_advance m2 l1 i2 l2 =
    (if i2 \<ge> 0 \<and> l1 > l2 then do {
       e \<leftarrow> aget m2 i2;
       (if next_lpid e \<ge> 0 then do {
          e' \<leftarrow> aget m2 (next_lpid e);
          translate_advance m2 l1 (next_lpid e) (lpid e')
        } else translate_advance m2 l1 (next_lpid e) (- 1))
     } else Some (i2, l2))"

fun translate_slow ::
  "pmap list \<Rightarrow> pmap list \<Rightarrow> int \<Rightarrow> int \<Rightarrow> 64 word \<Rightarrow> int list \<Rightarrow> int list option" where
  "translate_slow m1 m2 first2 i2 l2 [] = Some []"
| "translate_slow m1 m2 first2 i2 l2 (r # rs) =
    (if r = MPI_PROC_NULL then do {
       out \<leftarrow> translate_slow m1 m2 first2 i2 l2 rs;
       Some (MPI_PROC_NULL # out)
     } else do {
       e \<leftarrow> aget m1 r;
       let l1 = lpid e;
       (i2, l2) \<leftarrow> (if l1 < l2 \<or> i2 < 0 then do { e2 \<leftarrow> aget m2 first2; Some (first2, lpid e2) }
                    else Some (i2, l2));
       (i2, l2) \<leftarrow> translate_advance m2 l1 i2 l2;
       out \<leftarrow> translate_slow m1 m2 first2 i2 l2 rs;
       Some ((if l1 = l2 then i2 else MPI_UNDEFINED) # out)
     })"

definition MPIR_Group_translate_ranks_impl ::
  "MPIR_Group \<Rightarrow> int list \<Rightarrow> MPIR_Group \<Rightarrow> (MPIR_Group \<times> int list) option" where
  "MPIR_Group_translate_ranks_impl gp1 ranks1 gp2 =
    (if g_size gp2 > 0 \<and> is_local_dense_monotonic gp2 then do {
       e \<leftarrow> aget (lrank_to_lpid gp2) 0;
       out \<leftarrow> translate_fast (lrank_to_lpid gp1) (lpid e) (g_size gp2) ranks1;
       Some (gp2, out)
     } else do {
       gp2 \<leftarrow> (if idx_of_first_lpid gp2 < 0 then MPII_Group_setup_lpid_list gp2 else Some gp2);
       (if idx_of_first_lpid gp2 \<ge> 0 then do {
          e \<leftarrow> aget (lrank_to_lpid gp2) (idx_of_first_lpid gp2);
          out \<leftarrow> translate_slow (lrank_to_lpid gp1) (lrank_to_lpid gp2) (idx_of_first_lpid gp2)
                   (idx_of_first_lpid gp2) (lpid e) ranks1;
          Some (gp2, out)
        } else Some (gp2, replicate (length ranks1) MPI_UNDEFINED))
     })"

section \<open>Groups from process sets\<close>

text \<open>
  \<open>MPIR_Group_from_session_pset_impl\<close>.  The name lookup among the process sets of the process
  manager (\<open>MPIR_Pset_by_name\<close>) is the argument \<open>psets\<close>; the two built-in names are cases of
  their own.
\<close>

datatype pset_name = World_Pset | Self_Pset | Pset string

fun find_index :: "int \<Rightarrow> int list \<Rightarrow> int \<Rightarrow> int option" where
  "find_index x [] i = None"
| "find_index x (y # ys) i = (if y = x then Some i else find_index x ys (i + 1))"

definition pset_links :: "int list \<Rightarrow> pmap list" where
  "pset_links ms = map (\<lambda>i. \<lparr>lpid = word_of_int (ms ! i),
     next_lpid = (if i + 1 < length ms then ms ! (i + 1) else -1)\<rparr>) [0..<length ms]"

definition pset_dense :: "int list \<Rightarrow> bool" where
  "pset_dense ms = (\<forall>i \<in> {1..<length ms}.
     (word_of_int (ms ! (i - 1)) :: 64 word) = word_of_int (ms ! i) - 1)"

definition MPIR_Group_from_session_pset_impl ::
  "group_env \<Rightarrow> nat option \<Rightarrow> pset_name \<Rightarrow> (string \<rightharpoonup> int list) \<Rightarrow>
   (group_env \<times> MPIR_Group) mpi_result option" where
  "MPIR_Group_from_session_pset_impl env session name psets =
    (case name of
       World_Pset \<Rightarrow> (case MPIR_Group_create env (world_size env) of
           Inl e \<Rightarrow> Some (Inl e)
         | Inr g \<Rightarrow> if world_size env \<le> 0 then None else
             Some (Inr (MPIR_Group_set_session_ptr env
               (g\<lparr>g_size := world_size env, g_rank := world_rank env,
                  is_local_dense_monotonic := True,
                  lrank_to_lpid := map (\<lambda>i. \<lparr>lpid = word_of_int i,
                     next_lpid = (if i + 1 < world_size env then i + 1 else -1)\<rparr>) [0..world_size env - 1],
                  idx_of_first_lpid := 0\<rparr>) session)))
     | Self_Pset \<Rightarrow> (case MPIR_Group_create env 1 of
           Inl e \<Rightarrow> Some (Inl e)
         | Inr g \<Rightarrow>
             Some (Inr (MPIR_Group_set_session_ptr env
               (g\<lparr>g_size := 1, g_rank := 0, is_local_dense_monotonic := True,
                  lrank_to_lpid := [\<lparr>lpid = word_of_int (world_rank env), next_lpid = -1\<rparr>],
                  idx_of_first_lpid := 0\<rparr>) session)))
     | Pset n \<Rightarrow> (case psets n of
           None \<Rightarrow> Some (Inl MPI_ERR_ARG)
         | Some ms \<Rightarrow> (case MPIR_Group_create env (int (length ms)) of
             Inl e \<Rightarrow> Some (Inl e)
           | Inr g \<Rightarrow> if ms = [] then None else
               Some (Inr (MPIR_Group_set_session_ptr env
                 (g\<lparr>g_rank := (case find_index (world_rank env) ms 0 of Some i \<Rightarrow> i | None \<Rightarrow> g_rank g),
                    is_local_dense_monotonic := pset_dense ms,
                    lrank_to_lpid := pset_links ms,
                    idx_of_first_lpid := 0\<rparr>) session)))))"

end
