(* ===== verification/Group_Sets.thy ===== *)
theory Group_Sets
  imports MPIR_Groups "HOL-Library.Multiset"
begin

text \<open>
  Correctness of the group comparison and of the three set operations.  The walks over two
  ordered lists are characterised once, on the index lists they follow; the operations are then
  read off from the lists of lpids.
\<close>

section \<open>Well-formed groups\<close>

definition members :: "MPIR_Group \<Rightarrow> 64 word list" where
  "members g = map lpid (lrank_to_lpid g)"

text \<open>The lpid of the calling process, if it is a member.\<close>

definition own :: "MPIR_Group \<Rightarrow> 64 word option" where
  "own g = (if g_rank g = MPI_UNDEFINED then None else Some (members g ! nat (g_rank g)))"

definition dense :: "64 word list \<Rightarrow> bool" where
  "dense ls \<longleftrightarrow> (\<forall>i < length ls. ls ! i = ls ! 0 + of_nat i)"

definition group_wf :: "MPIR_Group \<Rightarrow> bool" where
  "group_wf g \<longleftrightarrow>
     g_size g = int (length (lrank_to_lpid g)) \<and> g_size g \<le> INT_MAX \<and>
     (g_rank g = MPI_UNDEFINED \<or> 0 \<le> g_rank g \<and> g_rank g < g_size g) \<and>
     distinct (members g) \<and>
     (idx_of_first_lpid g = -1 \<or> (\<exists>js. threaded (lrank_to_lpid g) (idx_of_first_lpid g) js)) \<and>
     (is_local_dense_monotonic g \<longrightarrow> dense (members g))"

lemma group_wfD:
  assumes "group_wf g"
  shows "g_size g = int (length (lrank_to_lpid g))" "g_size g = int (length (members g))"
    "nat (g_size g) = length (lrank_to_lpid g)" "distinct (members g)" "g_size g \<le> INT_MAX"
    "g_rank g = MPI_UNDEFINED \<or> 0 \<le> g_rank g \<and> g_rank g < g_size g"
  using assms by (auto simp: group_wf_def members_def)

lemma group_wf_empty [simp]: "group_wf MPIR_Group_empty"
  by (simp add: group_wf_def MPIR_Group_empty_def members_def INT_MAX_def)

lemma members_empty [simp]: "members MPIR_Group_empty = []" "own MPIR_Group_empty = None"
  by (simp_all add: MPIR_Group_empty_def members_def own_def)

text \<open>A group after the lazy construction: same group, and its ordered list is there.\<close>

definition prepared :: "MPIR_Group \<Rightarrow> MPIR_Group \<Rightarrow> int list \<Rightarrow> bool" where
  "prepared g g' js \<longleftrightarrow>
     group_wf g' \<and> members g' = members g \<and> threaded (lrank_to_lpid g') (idx_of_first_lpid g') js \<and>
     g' = g\<lparr>idx_of_first_lpid := idx_of_first_lpid g', lrank_to_lpid := lrank_to_lpid g'\<rparr>"

lemma prepared_fields:
  assumes "prepared g g' js"
  shows "g_size g' = g_size g" "g_rank g' = g_rank g" "session_ptr g' = session_ptr g"
    "is_local_dense_monotonic g' = is_local_dense_monotonic g" "own g' = own g"
    "group_wf g'" "members g' = members g"
proof -
  have e: "g' = g\<lparr>idx_of_first_lpid := idx_of_first_lpid g', lrank_to_lpid := lrank_to_lpid g'\<rparr>"
    and m: "members g' = members g" and w: "group_wf g'"
    using assms by (auto simp: prepared_def)
  show "g_size g' = g_size g" by (subst e) simp
  show r: "g_rank g' = g_rank g" by (subst e) simp
  show "session_ptr g' = session_ptr g" by (subst e) simp
  show "is_local_dense_monotonic g' = is_local_dense_monotonic g" by (subst e) simp
  show "own g' = own g" by (simp add: own_def r m)
qed (use assms in \<open>auto simp: prepared_def\<close>)

lemma setup_lpid_list_correct:
  assumes "group_wf g"
  shows "\<exists>g' js. MPII_Group_setup_lpid_list g = Some g' \<and> prepared g g' js"
proof (cases "idx_of_first_lpid g = -1")
  case True
  obtain f a' js where s: "mergesort_lpidarray (lrank_to_lpid g) = Some (f, a')"
    "same_lpids (lrank_to_lpid g) a'" "threaded a' f js"
    using mergesort_correct [of "lrank_to_lpid g"] by (auto simp: sorts_to_def)
  let ?g = "g\<lparr>idx_of_first_lpid := f, lrank_to_lpid := a'\<rparr>"
  have m: "members ?g = members g" using s(2) by (simp add: members_def same_lpids_def)
  have "group_wf ?g"
    using assms s m same_lpids_length [OF s(2)] by (auto simp: group_wf_def)
  with s m have "prepared g ?g js" by (simp add: prepared_def)
  moreover have "MPII_Group_setup_lpid_list g = Some ?g"
    using True s(1) group_wfD [OF assms] by (simp add: MPII_Group_setup_lpid_list_def)
  ultimately show ?thesis by blast
next
  case False
  with assms show ?thesis
    by (auto simp: MPII_Group_setup_lpid_list_def prepared_def group_wf_def)
qed

lemma threaded_neg:
  assumes "threaded a f js" and "f < 0"
  shows "f = -1" and "a = []"
  using assms by (cases js; auto simp: threaded_def)+

lemma setup_lpid_pairs_correct:
  assumes "group_wf g1" and "group_wf g2"
  shows "\<exists>g1' g2' js1 js2. MPIR_Group_setup_lpid_pairs g1 g2 = Some (g1', g2') \<and>
    prepared g1 g1' js1 \<and> prepared g2 g2' js2"
proof -
  have one: "\<exists>g' js. (if idx_of_first_lpid g < 0 then MPII_Group_setup_lpid_list g else Some g) = Some g' \<and>
      prepared g g' js" if "group_wf g" for g
  proof (cases "idx_of_first_lpid g < 0")
    case True
    with setup_lpid_list_correct [OF that] show ?thesis by simp
  next
    case False
    with that show ?thesis by (auto simp: group_wf_def prepared_def)
  qed
  from one [OF assms(1)] one [OF assms(2)] show ?thesis
    by (auto simp: MPIR_Group_setup_lpid_pairs_def)
qed

section \<open>Walks over two ordered lists\<close>

abbreviation key :: "pmap list \<Rightarrow> int \<Rightarrow> 64 word" where
  "key m j \<equiv> lpid (m ! nat j)"

lemma threaded_strict:
  assumes "threaded m f js" and "distinct (map lpid m)"
  shows "sorted_wrt (<) (map (key m) js)"
proof -
  have "inj_on (key m) (set js)"
  proof (rule inj_onI)
    fix x y assume "x \<in> set js" "y \<in> set js" "key m x = key m y"
    with assms show "x = y"
      by (auto simp: threaded_def distinct_conv_nth nat_less_iff) (metis eq_nat_nat_iff nat_less_iff)
  qed
  then have "distinct (map (key m) js)"
    using assms by (simp add: threaded_def distinct_map)
  then show ?thesis using assms by (simp add: threaded_def strict_sorted_iff)
qed

definition mark :: "int list \<Rightarrow> bool list \<Rightarrow> bool list" where
  "mark js flags = fold (\<lambda>j f. f[nat j := True]) js flags"

lemma mark_simps [simp]: "mark [] flags = flags" "mark (j # js) flags = mark js (flags[nat j := True])"
  by (simp_all add: mark_def)

lemma mark_append: "mark (xs @ ys) flags = mark ys (mark xs flags)"
  by (simp add: mark_def)

lemma length_mark [simp]: "length (mark js flags) = length flags"
  by (induction js arbitrary: flags) auto

lemma nth_mark:
  "i < length flags \<Longrightarrow> \<forall>j\<in>set js. 0 \<le> j \<Longrightarrow> mark js flags ! i \<longleftrightarrow> flags ! i \<or> int i \<in> set js"
proof (induction js arbitrary: flags)
  case (Cons j js)
  have "flags[nat j := True] ! i \<longleftrightarrow> flags ! i \<or> int i = j"
    using Cons.prems by (cases "nat j = i") auto
  with Cons show ?case by auto
qed simp

lemma mark_filter_all:
  assumes "threaded m f js"
  shows "mark (filter P js) (replicate (length m) False) = map (\<lambda>i. P (int i)) [0..<length m]"
  using assms by (intro nth_equalityI) (auto simp: nth_mark threaded_def)

lemma match_walk_correct:
  assumes "chain 0 m1 i1 js1" and "chain 0 m2 i2 js2"
    and "sorted_wrt (<) (map (key m1) js1)" and "sorted_wrt (<) (map (key m2) js2)"
    and "length flags = length m1"
  shows "match_walk d m1 m2 i1 i2 flags nnew =
    (let hits = filter (\<lambda>j. key m1 j \<in> key m2 ` set js2) js1
     in Some (mark hits flags, nnew + d * int (length hits)))"
  using assms
proof (induction "length js1 + length js2" arbitrary: js1 js2 i1 i2 flags nnew rule: less_induct)
  case less
  show ?case
  proof (cases "js1 = [] \<or> js2 = []")
    case True
    with less.prems show ?thesis by (auto simp: match_walk.simps)
  next
    case False
    then obtain x xs y ys where js: "js1 = x # xs" "js2 = y # ys" by (auto simp: neq_Nil_conv)
    note p = less.prems [unfolded js, simplified]
    have i: "i1 = x" "i2 = y" using p by auto
    note step = match_walk.simps [of d m1 m2 x y flags nnew]
    consider "key m1 x < key m2 y" | "key m1 x > key m2 y" | "key m1 x = key m2 y" by fastforce
    then show ?thesis
    proof cases
      case 1
      then have "key m1 x \<notin> key m2 ` set (y # ys)" using p(4) by auto
      then have eq: "filter (\<lambda>j. key m1 j \<in> key m2 ` set (y # ys)) (x # xs) =
          filter (\<lambda>j. key m1 j \<in> key m2 ` set (y # ys)) xs" by simp
      from 1 p have "match_walk d m1 m2 i1 i2 flags nnew =
          match_walk d m1 m2 (next_lpid (m1 ! nat x)) y flags nnew"
        by (simp add: i step carray_simps)
      also have "\<dots> = (let hits = filter (\<lambda>j. key m1 j \<in> key m2 ` set (y # ys)) xs
         in Some (mark hits flags, nnew + d * int (length hits)))"
        by (rule less.hyps) (use p js in auto)
      finally show ?thesis by (simp only: js eq)
    next
      case 2
      then have eq: "filter (\<lambda>j. key m1 j \<in> key m2 ` set (y # ys)) (x # xs) =
          filter (\<lambda>j. key m1 j \<in> key m2 ` set ys) (x # xs)"
        using p(3) by (intro filter_cong) auto
      from 2 p have "match_walk d m1 m2 i1 i2 flags nnew =
          match_walk d m1 m2 x (next_lpid (m2 ! nat y)) flags nnew"
        by (auto simp: i step carray_simps)
      also have "\<dots> = (let hits = filter (\<lambda>j. key m1 j \<in> key m2 ` set ys) (x # xs)
         in Some (mark hits flags, nnew + d * int (length hits)))"
        by (rule less.hyps) (use p js in auto)
      finally show ?thesis by (simp only: js eq)
    next
      case 3
      have "key m1 j \<noteq> key m2 y" if "j \<in> set xs" for j using p(3) that 3 by auto
      then have "filter (\<lambda>j. key m1 j \<in> key m2 ` set (y # ys)) xs =
          filter (\<lambda>j. key m1 j \<in> key m2 ` set ys) xs"
        by (intro filter_cong) auto
      then have eq: "filter (\<lambda>j. key m1 j \<in> key m2 ` set (y # ys)) (x # xs) =
          x # filter (\<lambda>j. key m1 j \<in> key m2 ` set ys) xs"
        using 3 by simp
      from 3 p have "match_walk d m1 m2 i1 i2 flags nnew =
          match_walk d m1 m2 (next_lpid (m1 ! nat x)) (next_lpid (m2 ! nat y)) (flags[nat x := True]) (nnew + d)"
        by (simp add: i step carray_simps)
      also have "\<dots> = (let hits = filter (\<lambda>j. key m1 j \<in> key m2 ` set ys) xs
         in Some (mark hits (flags[nat x := True]), nnew + d + d * int (length hits)))"
        by (rule less.hyps) (use p js in auto)
      finally show ?thesis unfolding js eq by (simp add: Let_def algebra_simps)
    qed
  qed
qed

text \<open>Union's walk and its second loop, together.\<close>

definition union_both ::
  "pmap list \<Rightarrow> pmap list \<Rightarrow> int \<Rightarrow> int \<Rightarrow> bool list \<Rightarrow> int \<Rightarrow> (bool list \<times> int) option" where
  "union_both m1 m2 i1 i2 flags nnew = do {
     (flags, nnew, i2) \<leftarrow> union_walk m1 m2 i1 i2 flags nnew;
     union_rest m2 i2 flags nnew
   }"

lemma union_rest_correct:
  assumes "chain 0 m2 i2 js2" and "length flags = length m2"
  shows "union_rest m2 i2 flags nnew = Some (mark js2 flags, nnew + int (length js2))"
  using assms
proof (induction js2 arbitrary: i2 flags nnew)
  case Nil
  then show ?case by (simp add: union_rest.simps)
next
  case (Cons y ys)
  then show ?case by (subst union_rest.simps) (simp add: carray_simps)
qed

lemma union_both_correct:
  assumes "chain 0 m1 i1 js1" and "chain 0 m2 i2 js2"
    and "sorted_wrt (<) (map (key m1) js1)" and "sorted_wrt (<) (map (key m2) js2)"
    and "length flags = length m2"
  shows "union_both m1 m2 i1 i2 flags nnew =
    (let new = filter (\<lambda>j. key m2 j \<notin> key m1 ` set js1) js2
     in Some (mark new flags, nnew + int (length new)))"
  using assms
proof (induction "length js1 + length js2" arbitrary: js1 js2 i1 i2 flags nnew rule: less_induct)
  case less
  show ?case
  proof (cases "js1 = [] \<or> js2 = []")
    case True
    then have "union_both m1 m2 i1 i2 flags nnew = union_rest m2 i2 flags nnew"
      using less.prems by (auto simp: union_both_def union_walk.simps)
    with True less.prems union_rest_correct show ?thesis by (auto simp: Let_def)
  next
    case False
    then obtain x xs y ys where js: "js1 = x # xs" "js2 = y # ys" by (auto simp: neq_Nil_conv)
    note p = less.prems [unfolded js, simplified]
    have i: "i1 = x" "i2 = y" using p by auto
    note step = union_both_def union_walk.simps [of m1 m2 x y flags nnew]
    consider "key m1 x > key m2 y" | "key m1 x = key m2 y" | "key m1 x < key m2 y" by fastforce
    then show ?thesis
    proof cases
      case 1
      then have n: "key m2 y \<notin> key m1 ` set (x # xs)" using p(3) by auto
      from 1 p have "union_both m1 m2 i1 i2 flags nnew =
          union_both m1 m2 x (next_lpid (m2 ! nat y)) (flags[nat y := True]) (nnew + 1)"
        by (simp add: i step carray_simps)
      also have "\<dots> = (let new = filter (\<lambda>j. key m2 j \<notin> key m1 ` set (x # xs)) ys
         in Some (mark new (flags[nat y := True]), nnew + 1 + int (length new)))"
        by (rule less.hyps) (use p js in auto)
      finally have u: "union_both m1 m2 i1 i2 flags nnew = \<dots>" .
      have eq: "filter (\<lambda>j. key m2 j \<notin> key m1 ` set (x # xs)) (y # ys) =
          y # filter (\<lambda>j. key m2 j \<notin> key m1 ` set (x # xs)) ys"
        using n by (simp only: filter.simps if_True simp_thms)
      show ?thesis unfolding u js eq by (simp only: Let_def mark_simps) simp
    next
      case 2
      have "key m2 j \<noteq> key m1 x" if "j \<in> set ys" for j using p(4) that 2 by auto
      then have "filter (\<lambda>j. key m2 j \<notin> key m1 ` set (x # xs)) ys =
          filter (\<lambda>j. key m2 j \<notin> key m1 ` set xs) ys"
        by (intro filter_cong) auto
      then have eq: "filter (\<lambda>j. key m2 j \<notin> key m1 ` set (x # xs)) (y # ys) =
          filter (\<lambda>j. key m2 j \<notin> key m1 ` set xs) ys"
        using 2 by simp
      from 2 p have "union_both m1 m2 i1 i2 flags nnew =
          union_both m1 m2 (next_lpid (m1 ! nat x)) (next_lpid (m2 ! nat y)) flags nnew"
        by (simp add: i step carray_simps)
      also have "\<dots> = (let new = filter (\<lambda>j. key m2 j \<notin> key m1 ` set xs) ys
         in Some (mark new flags, nnew + int (length new)))"
        by (rule less.hyps) (use p js in auto)
      finally show ?thesis unfolding js eq .
    next
      case 3
      then have eq: "filter (\<lambda>j. key m2 j \<notin> key m1 ` set (x # xs)) (y # ys) =
          filter (\<lambda>j. key m2 j \<notin> key m1 ` set xs) (y # ys)"
        using p(4) by (intro filter_cong) auto
      from 3 p have "union_both m1 m2 i1 i2 flags nnew =
          union_both m1 m2 (next_lpid (m1 ! nat x)) y flags nnew"
        by (auto simp: i step carray_simps)
      also have "\<dots> = (let new = filter (\<lambda>j. key m2 j \<notin> key m1 ` set xs) (y # ys)
         in Some (mark new flags, nnew + int (length new)))"
        by (rule less.hyps) (use p js in auto)
      finally show ?thesis by (simp only: js eq)
    qed
  qed
qed

lemma compare_walk_correct:
  assumes "chain 0 m1 i1 js1" and "chain 0 m2 i2 js2" and "length js1 = length js2"
  shows "compare_walk m1 m2 i1 i2 = Some (map (key m1) js1 \<noteq> map (key m2) js2)"
  using assms(3,1,2)
proof (induction js1 js2 arbitrary: i1 i2 rule: list_induct2)
  case Nil
  then show ?case by (simp add: compare_walk.simps)
next
  case (Cons x xs y ys)
  then show ?case by (subst compare_walk.simps) (simp add: carray_simps)
qed

section \<open>Copying the selected members\<close>

definition selected :: "bool \<Rightarrow> 'a list \<Rightarrow> bool list \<Rightarrow> 'a list" where
  "selected want es fs = map fst (filter (\<lambda>(e, f). f = want) (zip es fs))"

lemma selected_simps [simp]:
  "selected want [] fs = []" "selected want es [] = []"
  "selected want (e # es) (f # fs) = (if f = want then e # selected want es fs else selected want es fs)"
  by (simp_all add: selected_def)

lemma selected_map: "selected want es (map P es) = filter (\<lambda>e. P e = want) es"
  by (induction es) auto

lemma map_selected: "map h (selected want es fs) = selected want (map h es) fs"
  by (induction es arbitrary: fs) (simp, case_tac fs, auto)

lemma length_selected:
  "length fs = length es \<Longrightarrow> length (selected want es fs) = length (filter (\<lambda>f. f = want) fs)"
  by (induction es arbitrary: fs) (case_tac fs; auto)+

lemma selected_nth:
  assumes "length fs = length es" and "t < length es" and "fs ! t = want"
  shows "length (filter (\<lambda>f. f = want) (take t fs)) < length (selected want es fs)"
    and "selected want es fs ! length (filter (\<lambda>f. f = want) (take t fs)) = es ! t"
  using assms
proof (induction es arbitrary: fs t)
  case (Cons e es)
  {
    case 1
    with Cons show ?case by (cases fs; cases t) auto
  next
    case 2
    with Cons show ?case by (cases fs; cases t) auto
  }
qed auto

text \<open>The rank that a copy loop computes for the process at old rank \<open>r\<close>: step by step, and as
  the number of selected processes before it.\<close>

fun rank_steps :: "bool \<Rightarrow> int \<Rightarrow> int \<Rightarrow> bool list \<Rightarrow> int \<Rightarrow> int \<Rightarrow> int" where
  "rank_steps want r i [] k old = old"
| "rank_steps want r i (f # fs) k old =
    (if f = want then rank_steps want r (i + 1) fs (k + 1) (if i = r then k else old)
     else rank_steps want r (i + 1) fs k old)"

definition new_rank :: "bool \<Rightarrow> int \<Rightarrow> bool list \<Rightarrow> int \<Rightarrow> int" where
  "new_rank want r fs old =
    (if 0 \<le> r \<and> r < int (length fs) \<and> fs ! nat r = want
     then int (length (filter (\<lambda>f. f = want) (take (nat r) fs))) else old)"

lemma rank_steps_past: "r < i \<Longrightarrow> rank_steps want r i fs k old = old"
  by (induction fs arbitrary: i k old) auto

lemma rank_steps_closed:
  "i \<le> r \<Longrightarrow> rank_steps want r i fs k old =
    (if r - i < int (length fs) \<and> fs ! nat (r - i) = want
     then k + int (length (filter (\<lambda>f. f = want) (take (nat (r - i)) fs))) else old)"
proof (induction fs arbitrary: i k old)
  case (Cons f fs)
  show ?case
  proof (cases "i = r")
    case True
    then show ?thesis by (auto simp: rank_steps_past)
  next
    case False
    with Cons.prems have r: "i + 1 \<le> r" "nat (r - i) = Suc (nat (r - (i + 1)))" by auto
    show ?thesis using Cons.IH [OF r(1)] False by (simp add: r(2))
  qed
qed simp

lemma rank_steps_new_rank:
  assumes "r = MPI_UNDEFINED \<or> 0 \<le> r"
  shows "rank_steps want r 0 fs 0 old = new_rank want r fs old"
  using assms rank_steps_closed [of 0 r want fs 0 old]
  by (auto simp: new_rank_def rank_steps_past MPI_UNDEFINED_def)

abbreviation entry :: "64 word \<Rightarrow> pmap" where
  "entry l \<equiv> \<lparr>lpid = l, next_lpid = 0\<rparr>"

text \<open>
  \<open>blank_from k n m\<close>: the array \<open>m\<close> has exactly \<open>n\<close> untouched entries from position \<open>k\<close> on.
\<close>

definition blank_from :: "int \<Rightarrow> nat \<Rightarrow> pmap list \<Rightarrow> bool" where
  "blank_from k n m \<longleftrightarrow> 0 \<le> k \<and> nat k + n = length m \<and> drop (nat k) m = replicate n (entry 0)"

lemma blank_from_Suc:
  assumes "blank_from k (Suc n) m"
  shows "0 \<le> k" "k < int (length m)" "m ! nat k = entry 0"
    "blank_from (k + 1) n (m[nat k := x])"
    "take (nat (k + 1)) (m[nat k := x]) = take (nat k) m @ [x]"
proof -
  show k: "0 \<le> k" "k < int (length m)" using assms by (auto simp: blank_from_def)
  have d: "drop (nat k) m = entry 0 # replicate n (entry 0)" using assms by (simp add: blank_from_def)
  have "m ! (nat k + 0) = drop (nat k) m ! 0" using k by (intro nth_drop [symmetric]) simp
  then show "m ! nat k = entry 0" using d by simp
  have "drop (Suc (nat k)) m = tl (drop (nat k) m)" by (simp add: drop_Suc tl_drop)
  then have "drop (Suc (nat k)) m = replicate n (entry 0)" using d by simp
  then show "blank_from (k + 1) n (m[nat k := x])"
    using assms by (simp add: blank_from_def nat_add_distrib)
  show "take (nat (k + 1)) (m[nat k := x]) = take (nat k) m @ [x]"
    using k by (simp add: nat_add_distrib take_Suc_conv_app_nth nat_less_iff)
qed

lemma copy_loop_correct:
  assumes "length fs = length es"
    and "blank_from k (length (selected want es fs)) (lrank_to_lpid new)"
  shows "copy_loop want r i es fs k new = Some (new\<lparr>
      lrank_to_lpid := take (nat k) (lrank_to_lpid new) @ map (\<lambda>e. entry (lpid e)) (selected want es fs),
      g_rank := rank_steps want r i fs k (g_rank new)\<rparr>)"
  using assms
proof (induction es arbitrary: fs i k new)
  case Nil
  then show ?case by (simp add: blank_from_def)
next
  case (Cons e es)
  then obtain f fs' where fs: "fs = f # fs'" "length fs' = length es" by (cases fs) auto
  show ?case
  proof (cases "f = want")
    case False
    with Cons show ?thesis by (simp add: fs)
  next
    case True
    let ?m = "lrank_to_lpid new"
    have b: "blank_from k (Suc (length (selected want es fs'))) ?m"
      using Cons.prems True by (simp add: fs)
    note bs = blank_from_Suc [OF b]
    let ?new = "new\<lparr>lrank_to_lpid := ?m[nat k := entry (lpid e)], g_rank := (if i = r then k else g_rank new)\<rparr>"
    have "copy_loop want r i (e # es) fs k new = copy_loop want r (i + 1) es fs' (k + 1) ?new"
      using True bs by (simp add: fs carray_simps)
    also have "\<dots> = Some (?new\<lparr>
      lrank_to_lpid := take (nat (k + 1)) (lrank_to_lpid ?new) @ map (\<lambda>e. entry (lpid e)) (selected want es fs'),
      g_rank := rank_steps want r (i + 1) fs' (k + 1) (g_rank ?new)\<rparr>)"
      using bs(4) by (intro Cons.IH) (simp_all add: fs)
    finally show ?thesis using True bs(5) by (simp add: fs)
  qed
qed

text \<open>Intersection's copy loop: the same, and the density flag is cleared at the first gap.\<close>

fun no_gap :: "int \<Rightarrow> 64 word option \<Rightarrow> 64 word list \<Rightarrow> bool" where
  "no_gap ws prev [] = True"
| "no_gap ws prev (l # ls) =
    (\<not> l > word_of_int ws \<and> (case prev of None \<Rightarrow> True | Some p \<Rightarrow> p = l - 1) \<and> no_gap ws (Some l) ls)"

lemma no_gap_Some: "no_gap ws (Some p) ls \<Longrightarrow> i < length ls \<Longrightarrow> ls ! i = p + 1 + of_nat i"
proof (induction ls arbitrary: p i)
  case (Cons l ls)
  then show ?case by (cases i) (auto simp: algebra_simps)
qed simp

lemma no_gap_dense: "no_gap ws None ls \<Longrightarrow> dense ls"
proof (cases ls)
  case (Cons l ls')
  assume "no_gap ws None ls"
  with Cons have "no_gap ws (Some l) ls'" by simp
  with Cons show ?thesis
    by (auto simp: dense_def nth_Cons' no_gap_Some of_nat_diff algebra_simps)
qed (simp add: dense_def)

definition last_before :: "int \<Rightarrow> pmap list \<Rightarrow> 64 word option" where
  "last_before k m = (if k > 0 then Some (lpid (m ! nat (k - 1))) else None)"

lemma copy_loop_dense_correct:
  assumes "length fs = length es"
    and "blank_from k (length (selected True es fs)) (lrank_to_lpid new)"
  shows "copy_loop_dense ws r i es fs k new = Some (new\<lparr>
      lrank_to_lpid := take (nat k) (lrank_to_lpid new) @ map (\<lambda>e. entry (lpid e)) (selected True es fs),
      g_rank := rank_steps True r i fs k (g_rank new),
      is_local_dense_monotonic := is_local_dense_monotonic new \<and>
        no_gap ws (last_before k (lrank_to_lpid new)) (map lpid (selected True es fs))\<rparr>)"
  using assms
proof (induction es arbitrary: fs i k new)
  case Nil
  then show ?case by (simp add: blank_from_def)
next
  case (Cons e es)
  then obtain f fs' where fs: "fs = f # fs'" "length fs' = length es" by (cases fs) auto
  show ?case
  proof (cases f)
    case False
    with Cons show ?thesis by (simp add: fs)
  next
    case True
    let ?m = "lrank_to_lpid new"
    have b: "blank_from k (Suc (length (selected True es fs'))) ?m"
      using Cons.prems True by (simp add: fs)
    note bs = blank_from_Suc [OF b]
    let ?m' = "?m[nat k := entry (lpid e)]"
    let ?gap = "lpid e > word_of_int ws \<or> (k > 0 \<and> lpid (?m ! nat (k - 1)) \<noteq> lpid e - 1)"
    let ?new = "new\<lparr>lrank_to_lpid := ?m', g_rank := (if i = r then k else g_rank new),
        is_local_dense_monotonic := (if ?gap then False else is_local_dense_monotonic new)\<rparr>"
    have prev: "?m' ! nat (k - 1) = ?m ! nat (k - 1)" if "k > 0"
      using that by (simp add: nth_list_update)
    have "copy_loop_dense ws r i (e # es) fs k new = copy_loop_dense ws r (i + 1) es fs' (k + 1) ?new"
      using True bs prev by (auto simp: fs carray_simps)
    also have "\<dots> = Some (?new\<lparr>
      lrank_to_lpid := take (nat (k + 1)) (lrank_to_lpid ?new) @ map (\<lambda>e. entry (lpid e)) (selected True es fs'),
      g_rank := rank_steps True r (i + 1) fs' (k + 1) (g_rank ?new),
      is_local_dense_monotonic := is_local_dense_monotonic ?new \<and>
        no_gap ws (last_before (k + 1) (lrank_to_lpid ?new)) (map lpid (selected True es fs'))\<rparr>)"
      using bs(4) by (intro Cons.IH) (simp_all add: fs)
    finally show ?thesis using True bs by (auto simp: fs last_before_def)
  qed
qed

text \<open>Union's second copy loop: the rank is looked up by lpid, once.\<close>

fun lpid_rank :: "64 word \<Rightarrow> 64 word list \<Rightarrow> int \<Rightarrow> int \<Rightarrow> int" where
  "lpid_rank l [] k old = old"
| "lpid_rank l (x # xs) k old =
    lpid_rank l xs (k + 1) (if old = MPI_UNDEFINED \<and> x = l then k else old)"

lemma union_copy_correct:
  assumes "length fs = length es"
    and "blank_from k (length (selected True es fs)) (lrank_to_lpid new)"
  shows "union_copy l es fs k new = Some (new\<lparr>
      lrank_to_lpid := take (nat k) (lrank_to_lpid new) @ map (\<lambda>e. entry (lpid e)) (selected True es fs),
      g_rank := lpid_rank l (map lpid (selected True es fs)) k (g_rank new)\<rparr>)"
  using assms
proof (induction es arbitrary: fs k new)
  case Nil
  then show ?case by (simp add: blank_from_def)
next
  case (Cons e es)
  then obtain f fs' where fs: "fs = f # fs'" "length fs' = length es" by (cases fs) auto
  show ?case
  proof (cases f)
    case False
    with Cons show ?thesis by (simp add: fs)
  next
    case True
    let ?m = "lrank_to_lpid new"
    have b: "blank_from k (Suc (length (selected True es fs'))) ?m"
      using Cons.prems True by (simp add: fs)
    note bs = blank_from_Suc [OF b]
    let ?new = "new\<lparr>lrank_to_lpid := ?m[nat k := entry (lpid e)],
        g_rank := (if g_rank new = MPI_UNDEFINED \<and> lpid e = l then k else g_rank new)\<rparr>"
    have "union_copy l (e # es) fs k new = union_copy l es fs' (k + 1) ?new"
      using True bs by (simp add: fs carray_simps)
    also have "\<dots> = Some (?new\<lparr>
      lrank_to_lpid := take (nat (k + 1)) (lrank_to_lpid ?new) @ map (\<lambda>e. entry (lpid e)) (selected True es fs'),
      g_rank := lpid_rank l (map lpid (selected True es fs')) (k + 1) (g_rank ?new)\<rparr>)"
      using bs(4) by (intro Cons.IH) (simp_all add: fs)
    finally show ?thesis using True bs(5) by (simp add: fs)
  qed
qed

lemma lpid_rank_keep: "old \<noteq> MPI_UNDEFINED \<Longrightarrow> lpid_rank l xs k old = old"
  by (induction xs arbitrary: k) auto

lemma lpid_rank_found:
  "0 \<le> k \<Longrightarrow> l \<in> set xs \<Longrightarrow>
   \<exists>t < length xs. xs ! t = l \<and> lpid_rank l xs k MPI_UNDEFINED = k + int t"
proof (induction xs arbitrary: k)
  case (Cons x xs)
  show ?case
  proof (cases "x = l")
    case True
    moreover have "k \<noteq> MPI_UNDEFINED" using Cons.prems by (simp add: MPI_UNDEFINED_def)
    ultimately show ?thesis by (intro exI [of _ 0]) (simp add: lpid_rank_keep)
  next
    case False
    then obtain t where "t < length xs" "xs ! t = l" "lpid_rank l xs (k + 1) MPI_UNDEFINED = k + 1 + int t"
      using Cons.IH [of "k + 1"] Cons.prems by auto
    with False show ?thesis by (intro exI [of _ "Suc t"]) simp
  qed
qed simp

lemma lpid_rank_missing: "l \<notin> set xs \<Longrightarrow> lpid_rank l xs k old = old"
  by (induction xs arbitrary: k) auto

section \<open>The set operations\<close>

definition session_env :: "group_env \<Rightarrow> nat option \<Rightarrow> group_env" where
  "session_env env s = (case s of
     Some p \<Rightarrow> env\<lparr>session_refs := (session_refs env)(p := session_refs env p + 1)\<rparr> | None \<Rightarrow> env)"

lemma set_session_ptr_eq:
  "session_ptr g = None \<Longrightarrow>
   MPIR_Group_set_session_ptr env g s = (session_env env s, g\<lparr>session_ptr := s\<rparr>)"
  by (cases s) (auto simp: MPIR_Group_set_session_ptr_def session_env_def)

definition alloc_ok :: "group_env \<Rightarrow> bool" where
  "alloc_ok env \<longleftrightarrow> obj_alloc_ok env \<and> calloc_ok env"

text \<open>What is promised of a new group: well formed, the given members, the caller's own lpid at
  its rank if the caller belongs to it, the session of the group it was derived from.\<close>

definition new_group_ok :: "MPIR_Group \<Rightarrow> 64 word list \<Rightarrow> 64 word option \<Rightarrow> MPIR_Group \<Rightarrow> bool" where
  "new_group_ok src ls me new \<longleftrightarrow>
     group_wf new \<and> members new = ls \<and> own new = me \<and> session_ptr new = session_ptr src \<and>
     g_ref_count new = 1"

definition keep :: "64 word list \<Rightarrow> 64 word option \<Rightarrow> 64 word option" where
  "keep ls me = (case me of Some l \<Rightarrow> if l \<in> set ls then Some l else None | None \<Rightarrow> None)"

definition set_op_ok ::
  "group_env \<Rightarrow> MPIR_Group \<Rightarrow> MPIR_Group \<Rightarrow> 64 word list \<Rightarrow> 64 word option \<Rightarrow> set_op_result \<Rightarrow> bool" where
  "set_op_ok env g1 g2 ls me r \<longleftrightarrow> (\<exists>g1' g2' js1 js2. prepared g1 g1' js1 \<and> prepared g2 g2' js2 \<and>
     (if ls = [] then r = Some (Inr (env, g1', g2', MPIR_Group_empty))
      else if \<not> alloc_ok env then r = Some (Inl MPI_ERR_OTHER)
      else \<exists>new. r = Some (Inr (session_env env (session_ptr g1), g1', g2', new)) \<and>
             new_group_ok g1 ls me new))"

lemma set_op_okI:
  assumes "prepared g1 h1 js1" and "prepared g2 h2 js2"
    and "if ls = [] then r = Some (Inr (env, h1, h2, MPIR_Group_empty))
      else if \<not> alloc_ok env then r = Some (Inl MPI_ERR_OTHER)
      else \<exists>new. r = Some (Inr (session_env env (session_ptr g1), h1, h2, new)) \<and> new_group_ok g1 ls me new"
  shows "set_op_ok env g1 g2 ls me r"
  unfolding set_op_ok_def using assms by blast

lemma new_rank_own:
  assumes wf: "group_wf g" and ls: "ls = filter (\<lambda>l. P l = want) (members g)"
    and r: "r = new_rank want (g_rank g) (map P (members g)) MPI_UNDEFINED"
  shows "r = MPI_UNDEFINED \<and> keep ls (own g) = None \<or>
    0 \<le> r \<and> r < int (length ls) \<and> keep ls (own g) = Some (ls ! nat r)"
proof (cases "g_rank g = MPI_UNDEFINED")
  case True
  then show ?thesis by (simp add: r new_rank_def own_def keep_def MPI_UNDEFINED_def)
next
  case False
  let ?t = "nat (g_rank g)"
  have t: "0 \<le> g_rank g" "?t < length (members g)"
    using False group_wfD [OF wf] by auto
  show ?thesis
  proof (cases "P (members g ! ?t) = want")
    case True
    have "selected want (members g) (map P (members g)) = ls" by (simp add: ls selected_map)
    moreover have "r = int (length (filter (\<lambda>f. f = want) (take ?t (map P (members g)))))"
      using True t by (simp add: r new_rank_def nat_less_iff)
    moreover have "members g ! ?t \<in> set ls" using True t by (simp add: ls)
    ultimately show ?thesis
      using selected_nth [of "map P (members g)" "members g" ?t want] True t False
      by (auto simp: own_def keep_def)
  next
    case nP: False
    then have "members g ! ?t \<notin> set ls" by (simp add: ls)
    moreover have "r = MPI_UNDEFINED" using nP t by (simp add: r new_rank_def nat_less_iff)
    ultimately show ?thesis using False by (simp add: own_def keep_def)
  qed
qed

lemma selected_group_ok:
  assumes wf: "group_wf g" and ls: "ls = filter (\<lambda>l. P l = want) (members g)"
    and d: "d \<longrightarrow> dense ls"
    and arr: "map lpid m = ls" and n: "n = int (length ls)"
    and r: "r = new_rank want (g_rank g) (map P (members g)) MPI_UNDEFINED"
  shows "new_group_ok g ls (keep ls (own g)) \<lparr>g_handle = h, g_ref_count = 1, g_size = n, g_rank = r,
     idx_of_first_lpid = -1, lrank_to_lpid = m, is_local_dense_monotonic = d, session_ptr = session_ptr g\<rparr>"
proof -
  let ?new = "\<lparr>g_handle = h, g_ref_count = 1, g_size = n, g_rank = r, idx_of_first_lpid = -1,
     lrank_to_lpid = m, is_local_dense_monotonic = d, session_ptr = session_ptr g\<rparr>"
  have "length ls \<le> length (members g)" using ls by simp
  then have sz: "n \<le> INT_MAX" using n group_wfD [OF wf] by linarith
  have dist: "distinct ls" using wf ls by (simp add: group_wf_def)
  have len: "length m = length ls" using arr by auto
  have mem: "members ?new = ls" using arr by (simp add: members_def)
  have rank: "r = MPI_UNDEFINED \<or> 0 \<le> r \<and> r < n" and me: "own ?new = keep ls (own g)"
    using new_rank_own [OF wf ls r] n mem by (auto simp: own_def MPI_UNDEFINED_def)
  have "group_wf ?new"
    using rank sz dist len arr d n by (simp add: group_wf_def members_def)
  with me mem show ?thesis by (simp add: new_group_ok_def)
qed

lemma created_blank:
  assumes "alloc_ok env" and "0 \<le> n"
  obtains new where "MPIR_Group_create env n = Inr new" "blank_from 0 (nat n) (lrank_to_lpid new)"
    "new = \<lparr>g_handle = new_handle env, g_ref_count = 1, g_size = n, g_rank = stale_rank env,
       idx_of_first_lpid = -1, lrank_to_lpid = replicate (nat n) (entry 0),
       is_local_dense_monotonic = False, session_ptr = None\<rparr>"
  using assms by (simp add: MPIR_Group_create_def alloc_ok_def blank_from_def)

lemma create_fails: "\<not> alloc_ok env \<Longrightarrow> MPIR_Group_create env n = Inl MPI_ERR_OTHER"
  by (auto simp: MPIR_Group_create_def alloc_ok_def)

text \<open>The flags that the walks compute, on the members in rank order.\<close>

lemma threaded_mset:
  assumes "threaded m f js"
  shows "mset (map (key m) js) = mset (map lpid m)"
proof -
  have "mset js = mset (map int [0..<length m])"
    using assms
    by (intro set_eq_iff_mset_eq_distinct [THEN iffD1])
      (auto simp: threaded_def distinct_map image_int_atLeastLessThan)
  then have "mset (map (key m) js) = mset (map (key m) (map int [0..<length m]))"
    by (metis mset_map)
  also have "map (key m) (map int [0..<length m]) = map lpid m"
    by (intro nth_equalityI) simp_all
  finally show ?thesis .
qed

lemma threaded_keys: "threaded m f js \<Longrightarrow> key m ` set js = set (map lpid m)"
  using threaded_mset by (metis list.set_map mset_eq_setD)

lemma hits_members:
  assumes "threaded m f js"
  shows "mark (filter (\<lambda>j. P (key m j)) js) (replicate (length m) False) = map P (map lpid m)"
    and "length (filter (\<lambda>j. P (key m j)) js) = length (filter P (map lpid m))"
proof -
  show "mark (filter (\<lambda>j. P (key m j)) js) (replicate (length m) False) = map P (map lpid m)"
    by (simp add: mark_filter_all [OF assms]) (intro nth_equalityI; simp)
  have "length (filter (\<lambda>j. P (key m j)) js) = length (filter P (map (key m) js))"
    by (simp add: filter_map comp_def)
  also have "\<dots> = size (filter_mset P (mset (map (key m) js)))"
    by (metis mset_filter size_mset)
  also have "\<dots> = length (filter P (map lpid m))"
    by (metis mset_filter size_mset threaded_mset [OF assms])
  finally show "length (filter (\<lambda>j. P (key m j)) js) = length (filter P (map lpid m))" .
qed

text \<open>Both prepared groups, with the facts the operations use.\<close>

lemma match_prepared:
  assumes p1: "prepared g1 h1 js1" and p2: "prepared g2 h2 js2"
  shows "match_walk d (lrank_to_lpid h1) (lrank_to_lpid h2) (idx_of_first_lpid h1) (idx_of_first_lpid h2)
      (replicate (nat (g_size h1)) False) n =
    Some (map (\<lambda>l. l \<in> set (members g2)) (members g1),
      n + d * int (length (filter (\<lambda>l. l \<in> set (members g2)) (members g1))))"
proof -
  let ?m1 = "lrank_to_lpid h1" and ?m2 = "lrank_to_lpid h2"
  have t: "threaded ?m1 (idx_of_first_lpid h1) js1" "threaded ?m2 (idx_of_first_lpid h2) js2"
    and w: "group_wf h1" "group_wf h2" and m: "members g1 = map lpid ?m1" "members g2 = map lpid ?m2"
    using p1 p2 by (auto simp: prepared_def members_def)
  have d: "distinct (map lpid ?m1)" "distinct (map lpid ?m2)"
    using w by (auto simp: group_wf_def members_def)
  note st = threaded_strict [OF t(1) d(1)] threaded_strict [OF t(2) d(2)]
  have c: "chain 0 ?m1 (idx_of_first_lpid h1) js1" "chain 0 ?m2 (idx_of_first_lpid h2) js2"
    using t by (auto simp: threaded_def)
  have k: "key ?m2 ` set js2 = set (members g2)" using threaded_keys [OF t(2)] m by simp
  have "match_walk d ?m1 ?m2 (idx_of_first_lpid h1) (idx_of_first_lpid h2) (replicate (length ?m1) False) n =
    (let hits = filter (\<lambda>j. key ?m1 j \<in> key ?m2 ` set js2) js1
     in Some (mark hits (replicate (length ?m1) False), n + d * int (length hits)))"
    by (rule match_walk_correct [OF c st]) simp
  then show ?thesis
    by (simp only: group_wfD(3) [OF w(1)] k m(1) Let_def
        hits_members [OF t(1), of "\<lambda>l. l \<in> set (members g2)"])
qed

lemma union_prepared:
  assumes p1: "prepared g1 h1 js1" and p2: "prepared g2 h2 js2"
  shows "union_both (lrank_to_lpid h1) (lrank_to_lpid h2) (idx_of_first_lpid h1) (idx_of_first_lpid h2)
      (replicate (nat (g_size h2)) False) n =
    Some (map (\<lambda>l. l \<notin> set (members g1)) (members g2),
      n + int (length (filter (\<lambda>l. l \<notin> set (members g1)) (members g2))))"
proof -
  let ?m1 = "lrank_to_lpid h1" and ?m2 = "lrank_to_lpid h2"
  have t: "threaded ?m1 (idx_of_first_lpid h1) js1" "threaded ?m2 (idx_of_first_lpid h2) js2"
    and w: "group_wf h1" "group_wf h2" and m: "members g1 = map lpid ?m1" "members g2 = map lpid ?m2"
    using p1 p2 by (auto simp: prepared_def members_def)
  have d: "distinct (map lpid ?m1)" "distinct (map lpid ?m2)"
    using w by (auto simp: group_wf_def members_def)
  note st = threaded_strict [OF t(1) d(1)] threaded_strict [OF t(2) d(2)]
  have c: "chain 0 ?m1 (idx_of_first_lpid h1) js1" "chain 0 ?m2 (idx_of_first_lpid h2) js2"
    using t by (auto simp: threaded_def)
  have k: "key ?m1 ` set js1 = set (members g1)" using threaded_keys [OF t(1)] m by simp
  have "union_both ?m1 ?m2 (idx_of_first_lpid h1) (idx_of_first_lpid h2) (replicate (length ?m2) False) n =
    (let new = filter (\<lambda>j. key ?m2 j \<notin> key ?m1 ` set js1) js2
     in Some (mark new (replicate (length ?m2) False), n + int (length new)))"
    by (rule union_both_correct [OF c st]) simp
  then show ?thesis
    by (simp only: group_wfD(3) [OF w(2)] k m(2) Let_def
        hits_members [OF t(2), of "\<lambda>l. l \<notin> set (members g1)"])
qed

lemma select_members:
  assumes "map lpid es = ls"
  shows "map lpid (selected want es (map P ls)) = filter (\<lambda>l. P l = want) ls"
    and "length (selected want es (map P ls)) = length (filter (\<lambda>l. P l = want) ls)"
    and "length (map P ls) = length es"
proof -
  show m: "map lpid (selected want es (map P ls)) = filter (\<lambda>l. P l = want) ls"
    by (simp add: map_selected assms selected_map)
  show "length (selected want es (map P ls)) = length (filter (\<lambda>l. P l = want) ls)"
    using m by (metis length_map)
qed (use assms in auto)

text \<open>Allocating a group for the selected members and copying them.\<close>

lemma copy_created:
  fixes P :: "64 word \<Rightarrow> bool" and want :: bool
  assumes wf: "group_wf g" and al: "alloc_ok env" and es: "map lpid es = members g"
  defines "ls \<equiv> filter (\<lambda>l. P l = want) (members g)"
  shows "\<exists>new new'. MPIR_Group_create env (int (length ls)) = Inr new \<and>
    copy_loop want (g_rank g) 0 es (map P (members g)) 0 (new\<lparr>g_rank := MPI_UNDEFINED\<rparr>) = Some new' \<and>
    session_ptr new' = None \<and> g_size new' = int (length ls) \<and> idx_of_first_lpid new' = -1 \<and>
    new_group_ok g ls (keep ls (own g)) (new'\<lparr>session_ptr := session_ptr g\<rparr>)"
proof -
  obtain new where new: "MPIR_Group_create env (int (length ls)) = Inr new"
    "blank_from 0 (length ls) (lrank_to_lpid new)"
    "new = \<lparr>g_handle = new_handle env, g_ref_count = 1, g_size = int (length ls), g_rank = stale_rank env,
     idx_of_first_lpid = -1, lrank_to_lpid = replicate (length ls) (entry 0),
     is_local_dense_monotonic = False, session_ptr = None\<rparr>"
    using created_blank [of env "int (length ls)"] al by auto
  let ?fs = "map P (members g)"
  let ?new = "\<lparr>g_handle = new_handle env, g_ref_count = 1, g_size = int (length ls),
     g_rank = new_rank want (g_rank g) ?fs MPI_UNDEFINED, idx_of_first_lpid = -1,
     lrank_to_lpid = map (\<lambda>e. entry (lpid e)) (selected want es ?fs),
     is_local_dense_monotonic = False, session_ptr = None\<rparr>"
  have r: "rank_steps want (g_rank g) 0 ?fs 0 MPI_UNDEFINED = new_rank want (g_rank g) ?fs MPI_UNDEFINED"
    using group_wfD(6) [OF wf] by (auto intro: rank_steps_new_rank)
  note sel = select_members(1,2) [OF es, of want P, folded ls_def] select_members(3) [OF es, of P]
  have "copy_loop want (g_rank g) 0 es ?fs 0 (new\<lparr>g_rank := MPI_UNDEFINED\<rparr>) = Some ?new"
    using copy_loop_correct [OF sel(3), of 0 want "new\<lparr>g_rank := MPI_UNDEFINED\<rparr>"] new(2) sel(2)
    by (simp add: r new(3))
  moreover have "new_group_ok g ls (keep ls (own g)) (?new\<lparr>session_ptr := session_ptr g\<rparr>)"
    using selected_group_ok [OF wf ls_def [THEN meta_eq_to_obj_eq]] sel(1) by (simp add: comp_def)
  ultimately show ?thesis using new(1) by (intro exI conjI) auto
qed

lemma copy_created_dense:
  fixes P :: "64 word \<Rightarrow> bool"
  assumes wf: "group_wf g" and al: "alloc_ok env" and es: "map lpid es = members g"
  defines "ls \<equiv> filter P (members g)"
  shows "\<exists>new new'. MPIR_Group_create env (int (length ls)) = Inr new \<and>
    copy_loop_dense ws (g_rank g) 0 es (map P (members g)) 0
      (new\<lparr>g_rank := MPI_UNDEFINED, is_local_dense_monotonic := True\<rparr>) = Some new' \<and>
    session_ptr new' = None \<and> is_local_dense_monotonic new' = no_gap ws None ls \<and>
    new_group_ok g ls (keep ls (own g)) (new'\<lparr>session_ptr := session_ptr g\<rparr>)"
proof -
  obtain new where new: "MPIR_Group_create env (int (length ls)) = Inr new"
    "blank_from 0 (length ls) (lrank_to_lpid new)"
    "new = \<lparr>g_handle = new_handle env, g_ref_count = 1, g_size = int (length ls), g_rank = stale_rank env,
     idx_of_first_lpid = -1, lrank_to_lpid = replicate (length ls) (entry 0),
     is_local_dense_monotonic = False, session_ptr = None\<rparr>"
    using created_blank [of env "int (length ls)"] al by auto
  let ?fs = "map P (members g)"
  let ?new = "\<lparr>g_handle = new_handle env, g_ref_count = 1, g_size = int (length ls),
     g_rank = new_rank True (g_rank g) ?fs MPI_UNDEFINED, idx_of_first_lpid = -1,
     lrank_to_lpid = map (\<lambda>e. entry (lpid e)) (selected True es ?fs),
     is_local_dense_monotonic = no_gap ws None ls, session_ptr = None\<rparr>"
  have ls: "ls = filter (\<lambda>l. P l = True) (members g)" by (simp add: ls_def)
  have r: "rank_steps True (g_rank g) 0 ?fs 0 MPI_UNDEFINED = new_rank True (g_rank g) ?fs MPI_UNDEFINED"
    using group_wfD(6) [OF wf] by (auto intro: rank_steps_new_rank)
  note sel = select_members(1,2) [OF es, of True P, folded ls] select_members(3) [OF es, of P]
  have "copy_loop_dense ws (g_rank g) 0 es ?fs 0
      (new\<lparr>g_rank := MPI_UNDEFINED, is_local_dense_monotonic := True\<rparr>) = Some ?new"
    using copy_loop_dense_correct [OF sel(3), of 0 "new\<lparr>g_rank := MPI_UNDEFINED, is_local_dense_monotonic := True\<rparr>"]
      new(2) sel(1,2)
    by (simp add: r new(3) last_before_def)
  moreover have "new_group_ok g ls (keep ls (own g)) (?new\<lparr>session_ptr := session_ptr g\<rparr>)"
    using selected_group_ok [OF wf ls] sel(1) no_gap_dense by (simp add: comp_def)
  ultimately show ?thesis using new(1) by (intro exI conjI) auto
qed

lemma difference_correct:
  assumes wf: "group_wf g1" "group_wf g2"
  defines "ls \<equiv> filter (\<lambda>l. l \<notin> set (members g2)) (members g1)"
  shows "set_op_ok env g1 g2 ls (keep ls (own g1)) (MPIR_Group_difference_impl env g1 g2)"
proof -
  obtain h1 h2 js1 js2 where s: "MPIR_Group_setup_lpid_pairs g1 g2 = Some (h1, h2)"
    and p: "prepared g1 h1 js1" "prepared g2 h2 js2"
    using setup_lpid_pairs_correct [OF wf] by blast
  note f1 = prepared_fields [OF p(1)]
  let ?P = "\<lambda>l. l \<in> set (members g2)"
  have ls: "ls = filter (\<lambda>l. ?P l = False) (members g1)" by (simp add: ls_def)
  have cnt: "g_size h1 + - 1 * int (length (filter ?P (members g1))) = int (length ls)"
    using sum_length_filter_compl [of ?P "members g1"] group_wfD(2) [OF wf(1)] f1(1) by (simp add: ls_def)
  note walk = match_prepared [OF p, of "-1" "g_size h1", unfolded cnt]
  note expand = MPIR_Group_difference_impl_def s walk f1(2,3)
  show ?thesis
  proof (rule set_op_okI [OF p], goal_cases)
    case 1
    show ?case
    proof (cases "ls = [] \<or> \<not> alloc_ok env")
      case True
      then show ?thesis by (auto simp: expand create_fails)
    next
      case False
      moreover have "map lpid (lrank_to_lpid h1) = members g1" using f1(7) by (simp add: members_def)
      ultimately obtain new new' where "MPIR_Group_create env (int (length ls)) = Inr new"
        "copy_loop False (g_rank g1) 0 (lrank_to_lpid h1) (map ?P (members g1)) 0 (new\<lparr>g_rank := MPI_UNDEFINED\<rparr>) = Some new'"
        "session_ptr new' = None" "new_group_ok g1 ls (keep ls (own g1)) (new'\<lparr>session_ptr := session_ptr g1\<rparr>)"
        using copy_created [OF wf(1), of env "lrank_to_lpid h1" ?P False] unfolding ls by blast
      with False show ?thesis by (simp add: expand set_session_ptr_eq)
    qed
  qed
qed

lemma intersection_correct:
  assumes wf: "group_wf g1" "group_wf g2"
  defines "ls \<equiv> filter (\<lambda>l. l \<in> set (members g2)) (members g1)"
  shows "set_op_ok env g1 g2 ls (keep ls (own g1)) (MPIR_Group_intersection_impl env g1 g2)"
proof -
  obtain h1 h2 js1 js2 where s: "MPIR_Group_setup_lpid_pairs g1 g2 = Some (h1, h2)"
    and p: "prepared g1 h1 js1" "prepared g2 h2 js2"
    using setup_lpid_pairs_correct [OF wf] by blast
  note f1 = prepared_fields [OF p(1)]
  let ?P = "\<lambda>l. l \<in> set (members g2)"
  note walk = match_prepared [OF p, of 1 0, folded ls_def]
  note expand = MPIR_Group_intersection_impl_def s walk f1(2,3)
  show ?thesis
  proof (rule set_op_okI [OF p], goal_cases)
    case 1
    show ?case
    proof (cases "ls = [] \<or> \<not> alloc_ok env")
      case True
      then show ?thesis by (auto simp: expand create_fails)
    next
      case False
      moreover have "map lpid (lrank_to_lpid h1) = members g1" using f1(7) by (simp add: members_def)
      ultimately obtain new new' where "MPIR_Group_create env (int (length ls)) = Inr new"
        "copy_loop_dense (world_size env) (g_rank g1) 0 (lrank_to_lpid h1) (map ?P (members g1)) 0
          (new\<lparr>g_rank := MPI_UNDEFINED, is_local_dense_monotonic := True\<rparr>) = Some new'"
        "session_ptr new' = None" "new_group_ok g1 ls (keep ls (own g1)) (new'\<lparr>session_ptr := session_ptr g1\<rparr>)"
        using copy_created_dense [OF wf(1), of env "lrank_to_lpid h1" ?P "world_size env"] unfolding ls_def by blast
      with False show ?thesis by (simp add: expand set_session_ptr_eq)
    qed
  qed
qed

definition union_own :: "MPIR_Group \<Rightarrow> MPIR_Group \<Rightarrow> 64 word option" where
  "union_own g1 g2 = (case own g1 of Some l \<Rightarrow> Some l
     | None \<Rightarrow> (case own g2 of Some l \<Rightarrow> if l \<in> set (members g1) then None else Some l | None \<Rightarrow> None))"

text \<open>The lpid that union looks its caller up by; \<open>-2\<close> when there is nothing to look up.\<close>

definition union_mylpid :: "MPIR_Group \<Rightarrow> MPIR_Group \<Rightarrow> 64 word" where
  "union_mylpid g1 g2 = (if g_rank g1 = MPI_UNDEFINED \<and> g_rank g2 \<ge> 0
     then members g2 ! nat (g_rank g2) else - 2)"

lemma union_rank:
  assumes wf: "group_wf g1" "group_wf g2" and lp: "- 2 \<notin> set (members g2)"
  defines "new2 \<equiv> filter (\<lambda>l. l \<notin> set (members g1)) (members g2)"
  defines "r \<equiv> lpid_rank (union_mylpid g1 g2) new2 (g_size g1) (g_rank g1)"
  shows "r = MPI_UNDEFINED \<and> union_own g1 g2 = None \<or>
    0 \<le> r \<and> r < g_size g1 + int (length new2) \<and> union_own g1 g2 = Some ((members g1 @ new2) ! nat r)"
proof (cases "g_rank g1 = MPI_UNDEFINED")
  case False
  with group_wfD [OF wf(1)] have "0 \<le> g_rank g1" "g_rank g1 < int (length (members g1))" by auto
  with False show ?thesis
    by (simp add: r_def lpid_rank_keep union_own_def own_def group_wfD(2) [OF wf(1)] nth_append nat_less_iff)
next
  case True
  note und = this
  have n: "0 \<le> g_size g1" "nat (g_size g1) = length (members g1)" using group_wfD(2) [OF wf(1)] by auto
  show ?thesis
  proof (cases "g_rank g2 = MPI_UNDEFINED \<or> members g2 ! nat (g_rank g2) \<in> set (members g1)")
    case True
    have "union_mylpid g1 g2 \<notin> set new2"
      using True lp und by (auto simp: union_mylpid_def new2_def MPI_UNDEFINED_def)
    then have "r = MPI_UNDEFINED" by (simp add: r_def lpid_rank_missing und)
    moreover have "union_own g1 g2 = None" using True und by (auto simp: union_own_def own_def)
    ultimately show ?thesis by simp
  next
    case False
    with group_wfD [OF wf(2)] have r2: "0 \<le> g_rank g2" "nat (g_rank g2) < length (members g2)" by auto
    let ?l = "members g2 ! nat (g_rank g2)"
    have l: "union_mylpid g1 g2 = ?l" using und r2 by (simp add: union_mylpid_def)
    have "?l \<in> set new2" using False r2 by (simp add: new2_def)
    then obtain t where t: "t < length new2" "new2 ! t = ?l" "r = g_size g1 + int t"
      using lpid_rank_found [OF n(1)] und l by (metis r_def)
    moreover have "union_own g1 g2 = Some ?l" using und False by (simp add: union_own_def own_def)
    moreover have "nat r = length (members g1) + t" using t(3) n by (simp add: nat_add_distrib)
    ultimately show ?thesis using n by (simp add: nth_append)
  qed
qed

lemma copy_all:
  assumes "k + length es \<le> length (lrank_to_lpid g)" and "0 \<le> i"
    and "take (length es) (drop k (lrank_to_lpid g)) = replicate (length es) (entry 0)"
  shows "copy_loop True MPI_UNDEFINED i es (replicate (length es) True) (int k) g = Some
      (g\<lparr>lrank_to_lpid := take k (lrank_to_lpid g) @ map (\<lambda>e. entry (lpid e)) es @
         drop (k + length es) (lrank_to_lpid g)\<rparr>)"
  using assms
proof (induction es arbitrary: i k g)
  case (Cons e es)
  let ?m = "lrank_to_lpid g"
  have k: "k < length ?m" using Cons.prems(1) by simp
  have d: "drop k ?m = ?m ! k # drop (Suc k) ?m" using k by (rule Cons_nth_drop_Suc [symmetric])
  then have mk: "?m ! k = entry 0" and rest: "take (length es) (drop (Suc k) ?m) = replicate (length es) (entry 0)"
    using Cons.prems(3) by auto
  let ?g = "g\<lparr>lrank_to_lpid := ?m[k := entry (lpid e)]\<rparr>"
  have "copy_loop True MPI_UNDEFINED i (e # es) (replicate (length (e # es)) True) (int k) g =
      copy_loop True MPI_UNDEFINED (i + 1) es (replicate (length es) True) (int (Suc k)) ?g"
    using k mk Cons.prems(2) by (simp add: carray_simps MPI_UNDEFINED_def add.commute)
  also have "\<dots> = Some (?g\<lparr>lrank_to_lpid := take (Suc k) (lrank_to_lpid ?g) @ map (\<lambda>e. entry (lpid e)) es @
      drop (Suc k + length es) (lrank_to_lpid ?g)\<rparr>)"
    using Cons.prems rest by (intro Cons.IH) auto
  finally show ?case using k by (simp add: take_Suc_conv_app_nth)
qed simp

text \<open>Allocating the union and filling it in two loops.\<close>

lemma union_created:
  assumes wf: "group_wf g1" "group_wf g2" and lp: "- 2 \<notin> set (members g2)" and al: "alloc_ok env"
    and es: "map lpid es1 = members g1" "map lpid es2 = members g2"
  defines "new2 \<equiv> filter (\<lambda>l. l \<notin> set (members g1)) (members g2)"
  assumes sz: "g_size g1 + int (length new2) \<le> INT_MAX"
  shows "\<exists>new new1 new'. MPIR_Group_create env (g_size g1 + int (length new2)) = Inr new \<and>
    copy_loop True MPI_UNDEFINED 0 es1 (replicate (length es1) True) 0 (new\<lparr>g_rank := g_rank g1\<rparr>) = Some new1 \<and>
    union_copy (union_mylpid g1 g2) es2 (map (\<lambda>l. l \<notin> set (members g1)) (members g2)) (g_size g1) new1 = Some new' \<and>
    session_ptr new' = None \<and>
    new_group_ok g1 (members g1 @ new2) (union_own g1 g2) (new'\<lparr>session_ptr := session_ptr g1\<rparr>)"
proof -
  let ?P = "\<lambda>l. l \<notin> set (members g1)"
  have n1: "g_size g1 = int (length es1)" "length es1 = length (members g1)"
    using group_wfD(2) [OF wf(1)] es(1) by (metis length_map)+
  obtain new where new: "MPIR_Group_create env (g_size g1 + int (length new2)) = Inr new"
    "new = \<lparr>g_handle = new_handle env, g_ref_count = 1, g_size = g_size g1 + int (length new2),
       g_rank = stale_rank env, idx_of_first_lpid = -1,
       lrank_to_lpid = replicate (length es1 + length new2) (entry 0),
       is_local_dense_monotonic = False, session_ptr = None\<rparr>"
    using al n1 by (simp add: MPIR_Group_create_def alloc_ok_def nat_add_distrib)
  let ?new1 = "new\<lparr>g_rank := g_rank g1,
     lrank_to_lpid := map (\<lambda>e. entry (lpid e)) es1 @ replicate (length new2) (entry 0)\<rparr>"
  have c1: "copy_loop True MPI_UNDEFINED 0 es1 (replicate (length es1) True) 0 (new\<lparr>g_rank := g_rank g1\<rparr>) = Some ?new1"
    using copy_all [of 0 es1 "new\<lparr>g_rank := g_rank g1\<rparr>" 0] by (simp add: new(2))
  note sel = select_members(1,2) [OF es(2), of True ?P] select_members(3) [OF es(2), of ?P]
  let ?sel = "selected True es2 (map ?P (members g2))"
  have len2: "length ?sel = length new2" and lp2: "map lpid ?sel = new2" using sel by (simp_all add: new2_def)
  let ?r = "lpid_rank (union_mylpid g1 g2) new2 (g_size g1) (g_rank g1)"
  let ?new' = "\<lparr>g_handle = new_handle env, g_ref_count = 1, g_size = g_size g1 + int (length new2),
     g_rank = ?r, idx_of_first_lpid = -1,
     lrank_to_lpid = map (\<lambda>e. entry (lpid e)) es1 @ map (\<lambda>e. entry (lpid e)) ?sel,
     is_local_dense_monotonic = False, session_ptr = None\<rparr>"
  have c2: "union_copy (union_mylpid g1 g2) es2 (map ?P (members g2)) (g_size g1) ?new1 = Some ?new'"
    using union_copy_correct [OF sel(3), of "g_size g1" ?new1] len2 lp2
    by (simp add: blank_from_def n1(1) new(2))
  have mem: "members (?new'\<lparr>session_ptr := session_ptr g1\<rparr>) = members g1 @ new2"
    using es(1) lp2 by (simp add: members_def comp_def)
  have dist: "distinct (members g1 @ new2)"
    using group_wfD(4) [OF wf(1)] group_wfD(4) [OF wf(2)] by (auto simp: new2_def)
  have rr: "?r = MPI_UNDEFINED \<and> union_own g1 g2 = None \<or>
    0 \<le> ?r \<and> ?r < g_size g1 + int (length new2) \<and> union_own g1 g2 = Some ((members g1 @ new2) ! nat ?r)"
    unfolding new2_def by (rule union_rank [OF wf lp])
  have "group_wf (?new'\<lparr>session_ptr := session_ptr g1\<rparr>)"
    using rr sz dist mem n1 len2 by (auto simp: group_wf_def)
  moreover have "own (?new'\<lparr>session_ptr := session_ptr g1\<rparr>) = union_own g1 g2"
    using rr mem by (auto simp: own_def MPI_UNDEFINED_def)
  ultimately have "new_group_ok g1 (members g1 @ new2) (union_own g1 g2) (?new'\<lparr>session_ptr := session_ptr g1\<rparr>)"
    using mem by (simp add: new_group_ok_def)
  with new(1) c1 c2 show ?thesis by (intro exI conjI) auto
qed

lemma union_correct:
  assumes wf: "group_wf g1" "group_wf g2" and lp: "- 2 \<notin> set (members g2)"
  defines "new2 \<equiv> filter (\<lambda>l. l \<notin> set (members g1)) (members g2)"
  assumes sz: "g_size g1 + int (length new2) \<le> INT_MAX"
  shows "set_op_ok env g1 g2 (members g1 @ new2) (union_own g1 g2) (MPIR_Group_union_impl env g1 g2)"
proof -
  obtain h1 h2 js1 js2 where s: "MPIR_Group_setup_lpid_pairs g1 g2 = Some (h1, h2)"
    and p: "prepared g1 h1 js1" "prepared g2 h2 js2"
    using setup_lpid_pairs_correct [OF wf] by blast
  note f1 = prepared_fields [OF p(1)] and f2 = prepared_fields [OF p(2)]
  let ?fs = "map (\<lambda>l. l \<notin> set (members g1)) (members g2)"
  obtain fl n i2 where walk: "union_walk (lrank_to_lpid h1) (lrank_to_lpid h2) (idx_of_first_lpid h1)
      (idx_of_first_lpid h2) (replicate (nat (g_size h2)) False) (g_size h1) = Some (fl, n, i2)"
    and rest: "union_rest (lrank_to_lpid h2) i2 fl n = Some (?fs, g_size h1 + int (length new2))"
    using union_prepared [OF p, of "g_size h1"]
    by (auto simp: union_both_def new2_def bind_eq_Some_conv)
  have len1: "nat (g_size g1) = length (lrank_to_lpid h1)" using group_wfD(3) [OF f1(6)] f1(1) by simp
  have es: "map lpid (lrank_to_lpid h1) = members g1" "map lpid (lrank_to_lpid h2) = members g2"
    using f1(7) f2(7) by (auto simp: members_def)
  have my: "(if g_rank h1 = MPI_UNDEFINED \<and> g_rank h2 \<ge> 0
       then do { e \<leftarrow> aget (lrank_to_lpid h2) (g_rank h2); Some (lpid e) } else Some (- 2)) =
     Some (union_mylpid g1 g2)"
  proof (cases "g_rank h1 = MPI_UNDEFINED \<and> g_rank h2 \<ge> 0")
    case True
    then have "g_rank h2 < int (length (lrank_to_lpid h2))"
      using group_wfD [OF f2(6)] by (auto simp: MPI_UNDEFINED_def)
    moreover have "members g2 ! nat (g_rank h2) = lpid (lrank_to_lpid h2 ! nat (g_rank h2))"
      using calculation True by (simp add: nat_less_iff flip: es(2))
    ultimately show ?thesis
      using True by (simp add: aget_in union_mylpid_def f1(2) f2(2))
  next
    case False
    then show ?thesis by (auto simp: union_mylpid_def f1(2) f2(2))
  qed
  have nil: "g_size h1 + int (length new2) = 0 \<longleftrightarrow> members g1 @ new2 = []"
    using group_wfD(2) [OF wf(1)] f1(1) by (auto simp flip: of_nat_add)
  have expand: "MPIR_Group_union_impl env g1 g2 =
    (if members g1 @ new2 = [] then Some (Inr (env, h1, h2, MPIR_Group_empty))
     else case MPIR_Group_create env (g_size h1 + int (length new2)) of
        Inl e \<Rightarrow> Some (Inl e)
      | Inr new \<Rightarrow> do {
          new \<leftarrow> copy_loop True MPI_UNDEFINED 0 (lrank_to_lpid h1)
             (replicate (nat (g_size h1)) True) 0 (new\<lparr>g_rank := g_rank h1\<rparr>);
          new \<leftarrow> union_copy (union_mylpid g1 g2) (lrank_to_lpid h2) ?fs (g_size h1) new;
          let (env, new) = MPIR_Group_set_session_ptr env new (session_ptr h1);
          Some (Inr (env, h1, h2, new))
        })"
    unfolding MPIR_Group_union_impl_def s walk rest my
    by (simp only: bind.bind_lunit prod.case walk rest nil my)
  show ?thesis
  proof (rule set_op_okI [OF p], goal_cases)
    case 1
    show ?case
    proof (cases "members g1 @ new2 = [] \<or> \<not> alloc_ok env")
      case True
      then show ?thesis by (auto simp: expand create_fails)
    next
      case False
      obtain new n1 new' where "MPIR_Group_create env (g_size h1 + int (length new2)) = Inr new"
        "copy_loop True MPI_UNDEFINED 0 (lrank_to_lpid h1) (replicate (nat (g_size h1)) True) 0
          (new\<lparr>g_rank := g_rank h1\<rparr>) = Some n1"
        "union_copy (union_mylpid g1 g2) (lrank_to_lpid h2) ?fs (g_size h1) n1 = Some new'"
        "session_ptr new' = None"
        "new_group_ok g1 (members g1 @ new2) (union_own g1 g2) (new'\<lparr>session_ptr := session_ptr g1\<rparr>)"
        using union_created [OF wf lp _ es sz [unfolded new2_def]] False
        unfolding f1(1,2) len1 new2_def by blast
      with False show ?thesis
        by (simp only: expand if_False sum.case bind.bind_lunit simp_thms)
          (auto simp: set_session_ptr_eq f1(3))
    qed
  qed
qed

definition cmp_spec :: "64 word list \<Rightarrow> 64 word list \<Rightarrow> group_cmp" where
  "cmp_spec xs ys = (if xs = ys then MPI_IDENT else if set xs = set ys then MPI_SIMILAR else MPI_UNEQUAL)"

lemma compare_correct:
  assumes wf: "group_wf g1" "group_wf g2"
  shows "\<exists>h1 h2. MPIR_Group_compare_impl g1 g2 = Some (h1, h2, cmp_spec (members g1) (members g2)) \<and>
    members h1 = members g1 \<and> members h2 = members g2 \<and> group_wf h1 \<and> group_wf h2"
proof (cases "g_size g1 = g_size g2")
  case False
  then have "length (members g1) \<noteq> length (members g2)"
    using group_wfD(2) [OF wf(1)] group_wfD(2) [OF wf(2)] by simp
  then have "set (members g1) \<noteq> set (members g2)" "members g1 \<noteq> members g2"
    using group_wfD(4) [OF wf(1)] group_wfD(4) [OF wf(2)] by (metis distinct_card)+
  with False wf show ?thesis by (simp add: MPIR_Group_compare_impl_def cmp_spec_def)
next
  case True
  obtain h1 h2 js1 js2 where s: "MPIR_Group_setup_lpid_pairs g1 g2 = Some (h1, h2)"
    and p: "prepared g1 h1 js1" "prepared g2 h2 js2"
    using setup_lpid_pairs_correct [OF wf] by blast
  note f1 = prepared_fields [OF p(1)] and f2 = prepared_fields [OF p(2)]
  let ?m1 = "lrank_to_lpid h1" and ?m2 = "lrank_to_lpid h2"
  have t: "threaded ?m1 (idx_of_first_lpid h1) js1" "threaded ?m2 (idx_of_first_lpid h2) js2"
    using p by (auto simp: prepared_def)
  have mm: "members g1 = map lpid ?m1" "members g2 = map lpid ?m2" using f1(7) f2(7) by (auto simp: members_def)
  have len: "length ?m1 = length ?m2" using True f1(1) f2(1) group_wfD(1) [OF f1(6)] group_wfD(1) [OF f2(6)] by simp
  have k: "mset (map (key ?m1) js1) = mset (members g1)" "mset (map (key ?m2) js2) = mset (members g2)"
    using threaded_mset [OF t(1)] threaded_mset [OF t(2)] mm by auto
  then have lj: "length js1 = length js2" by (metis len length_map mm mset_eq_length)
  have srt: "sorted (map (key ?m1) js1)" "sorted (map (key ?m2) js2)" using t by (auto simp: threaded_def)
  have same: "map (key ?m1) js1 = map (key ?m2) js2 \<longleftrightarrow> set (members g1) = set (members g2)"
  proof
    assume "map (key ?m1) js1 = map (key ?m2) js2"
    then have "mset (members g1) = mset (members g2)" using k by argo
    then show "set (members g1) = set (members g2)" by (rule mset_eq_setD)
  next
    assume "set (members g1) = set (members g2)"
    then have "mset (members g1) = mset (members g2)"
      using group_wfD(4) [OF wf(1)] group_wfD(4) [OF wf(2)] by (simp add: set_eq_iff_mset_eq_distinct)
    then have "mset (map (key ?m1) js1) = mset (map (key ?m2) js2)" using k by argo
    then have "sort (map (key ?m2) js2) = map (key ?m1) js1"
      using srt(1) by (rule properties_for_sort)
    then show "map (key ?m1) js1 = map (key ?m2) js2" using sorted_sort_id [OF srt(2)] by argo
  qed
  have walk: "compare_walk ?m1 ?m2 (idx_of_first_lpid h1) (idx_of_first_lpid h2) =
      Some (set (members g1) \<noteq> set (members g2))"
    using compare_walk_correct [OF _ _ lj] t same by (simp add: threaded_def)
  have tk: "take (nat (g_size h1)) ?m1 = ?m1" "take (nat (g_size h1)) ?m2 = ?m2"
    using group_wfD(3) [OF f1(6)] len by simp_all
  have "MPIR_Group_compare_impl g1 g2 = Some (h1, h2, cmp_spec (members g1) (members g2))"
    using True by (auto simp: MPIR_Group_compare_impl_def s walk tk cmp_spec_def simp flip: mm)
  with f1 f2 show ?thesis by blast
qed

end
