(* ===== verification/Group_Ranks.thy ===== *)
theory Group_Ranks
  imports Group_Sets
begin

text \<open>
  Correctness of the constructors that select processes by rank (\<open>incl\<close>, \<open>excl\<close> and their range
  versions), of the range check, and of the rank translation on both of its paths.
\<close>

section \<open>Inclusion\<close>

text \<open>The rank the inclusion loop computes: the last position at which the caller's rank is listed.\<close>

fun listed_rank :: "int \<Rightarrow> int list \<Rightarrow> int \<Rightarrow> int \<Rightarrow> int" where
  "listed_rank me [] k old = old"
| "listed_rank me (r # rs) k old = listed_rank me rs (k + 1) (if r = me then k else old)"

lemma listed_rank_missing: "me \<notin> set rs \<Longrightarrow> listed_rank me rs k old = old"
  by (induction rs arbitrary: k) auto

lemma listed_rank_found:
  "distinct rs \<Longrightarrow> me \<in> set rs \<Longrightarrow> \<exists>t < length rs. rs ! t = me \<and> listed_rank me rs k old = k + int t"
proof (induction rs arbitrary: k old)
  case (Cons r rs)
  show ?case
  proof (cases "r = me")
    case True
    with Cons.prems show ?thesis by (intro exI [of _ 0]) (simp add: listed_rank_missing)
  next
    case False
    then obtain t where "t < length rs" "rs ! t = me" "listed_rank me rs (k + 1) old = k + 1 + int t"
      using Cons by auto
    with False show ?thesis by (intro exI [of _ "Suc t"]) simp
  qed
qed simp

lemma incl_loop_correct:
  assumes "\<forall>r\<in>set rs. 0 \<le> r \<and> r < int (length (lrank_to_lpid g))"
    and "blank_from k (length rs) (lrank_to_lpid new)"
  shows "ofold (incl_rank g) rs (new, k) = Some (new\<lparr>
      lrank_to_lpid := take (nat k) (lrank_to_lpid new) @ map (\<lambda>r. entry (lpid (lrank_to_lpid g ! nat r))) rs,
      g_rank := listed_rank (g_rank g) rs k (g_rank new)\<rparr>, k + int (length rs))"
  using assms
proof (induction rs arbitrary: k new)
  case Nil
  then show ?case by (simp add: blank_from_def)
next
  case (Cons r rs)
  have b: "blank_from k (Suc (length rs)) (lrank_to_lpid new)" using Cons.prems by simp
  note bs = blank_from_Suc [OF b]
  let ?e = "entry (lpid (lrank_to_lpid g ! nat r))"
  let ?new = "new\<lparr>lrank_to_lpid := (lrank_to_lpid new)[nat k := ?e],
     g_rank := (if r = g_rank g then k else g_rank new)\<rparr>"
  have "incl_rank g r (new, k) = Some (?new, k + 1)"
    using Cons.prems(1) bs by (simp add: incl_rank_def carray_simps)
  then have "ofold (incl_rank g) (r # rs) (new, k) = ofold (incl_rank g) rs (?new, k + 1)" by simp
  also have "\<dots> = Some (?new\<lparr>
      lrank_to_lpid := take (nat (k + 1)) (lrank_to_lpid ?new) @ map (\<lambda>r. entry (lpid (lrank_to_lpid g ! nat r))) rs,
      g_rank := listed_rank (g_rank g) rs (k + 1) (g_rank ?new)\<rparr>, k + 1 + int (length rs))"
    using Cons.prems(1) bs(4) by (intro Cons.IH) auto
  finally show ?case using bs(5) by simp
qed

definition valid_ranks :: "MPIR_Group \<Rightarrow> int list \<Rightarrow> bool" where
  "valid_ranks g rs \<longleftrightarrow> distinct rs \<and> (\<forall>r\<in>set rs. 0 \<le> r \<and> r < g_size g)"

definition at_ranks :: "MPIR_Group \<Rightarrow> int list \<Rightarrow> 64 word list" where
  "at_ranks g rs = map (\<lambda>r. members g ! nat r) rs"

lemma member_at_eq:
  assumes "group_wf g" and "0 \<le> r" "r < g_size g" and "0 \<le> s" "s < g_size g"
  shows "members g ! nat r = members g ! nat s \<longleftrightarrow> r = s"
  using assms group_wfD(2,4) [OF assms(1)] by (auto simp: nth_eq_iff_index_eq nat_less_iff)

lemma valid_ranks_inj: "group_wf g \<Longrightarrow> valid_ranks g rs \<Longrightarrow> inj_on (\<lambda>r. members g ! nat r) (set rs)"
  by (rule inj_onI) (simp add: valid_ranks_def member_at_eq)

lemma distinct_at_ranks: "group_wf g \<Longrightarrow> valid_ranks g rs \<Longrightarrow> distinct (at_ranks g rs)"
  by (simp add: at_ranks_def distinct_map valid_ranks_inj) (simp add: valid_ranks_def)

lemma own_in_at_ranks:
  assumes "group_wf g" and "valid_ranks g rs" and "0 \<le> g_rank g" "g_rank g < g_size g"
  shows "members g ! nat (g_rank g) \<in> set (at_ranks g rs) \<longleftrightarrow> g_rank g \<in> set rs"
  using assms member_at_eq [OF assms(1,3,4)] by (auto simp: at_ranks_def valid_ranks_def)

lemma listed_group_ok:
  assumes wf: "group_wf g" and v: "valid_ranks g rs" and m: "map lpid m = at_ranks g rs"
    and n: "n = int (length rs)"
  shows "new_group_ok g (at_ranks g rs) (keep (at_ranks g rs) (own g)) \<lparr>g_handle = h, g_ref_count = 1,
     g_size = n, g_rank = listed_rank (g_rank g) rs 0 MPI_UNDEFINED, idx_of_first_lpid = -1,
     lrank_to_lpid = m, is_local_dense_monotonic = False, session_ptr = session_ptr g\<rparr>"
proof -
  let ?r = "listed_rank (g_rank g) rs 0 MPI_UNDEFINED" and ?ls = "at_ranks g rs"
  have len: "length m = length rs" "length ?ls = length rs"
    using m by (metis at_ranks_def length_map)+
  have "set rs \<subseteq> {0..<g_size g}" using v by (auto simp: valid_ranks_def)
  then have "card (set rs) \<le> card {0..<g_size g}" by (intro card_mono) simp_all
  then have "int (length rs) \<le> g_size g"
    using v group_wfD(1) [OF wf] by (simp add: valid_ranks_def distinct_card)
  then have sz: "n \<le> INT_MAX" using n group_wfD(5) [OF wf] by linarith
  have rr: "?r = MPI_UNDEFINED \<and> keep ?ls (own g) = None \<or>
      0 \<le> ?r \<and> ?r < n \<and> keep ?ls (own g) = Some (?ls ! nat ?r)"
  proof (cases "g_rank g \<in> set rs")
    case True
    then have g: "0 \<le> g_rank g" "g_rank g < g_size g" using v by (auto simp: valid_ranks_def)
    obtain t where t: "t < length rs" "rs ! t = g_rank g" "?r = int t"
      using listed_rank_found [OF _ True, of 0 MPI_UNDEFINED] v by (auto simp: valid_ranks_def)
    then have "?ls ! t = members g ! nat (g_rank g)" by (simp add: at_ranks_def)
    moreover have "keep ?ls (own g) = Some (members g ! nat (g_rank g))"
      using own_in_at_ranks [OF wf v g] True g by (simp add: own_def keep_def MPI_UNDEFINED_def)
    ultimately show ?thesis using t n by simp
  next
    case False
    then have "keep ?ls (own g) = None"
      using group_wfD(6) [OF wf] own_in_at_ranks [OF wf v] by (auto simp: own_def keep_def)
    with False show ?thesis by (simp add: listed_rank_missing)
  qed
  let ?new = "\<lparr>g_handle = h, g_ref_count = 1, g_size = n, g_rank = ?r, idx_of_first_lpid = -1,
     lrank_to_lpid = m, is_local_dense_monotonic = False, session_ptr = session_ptr g\<rparr>"
  have mem: "members ?new = ?ls" using m by (simp add: members_def)
  have "group_wf ?new"
    using rr sz len n m distinct_at_ranks [OF wf v] by (auto simp: group_wf_def members_def)
  moreover have "own ?new = keep ?ls (own g)"
    using rr mem by (auto simp: own_def MPI_UNDEFINED_def)
  ultimately show ?thesis using mem by (simp add: new_group_ok_def)
qed

text \<open>What the selections by rank promise.\<close>

definition select_ok ::
  "group_env \<Rightarrow> MPIR_Group \<Rightarrow> 64 word list \<Rightarrow> (group_env \<times> MPIR_Group) mpi_result option \<Rightarrow> bool" where
  "select_ok env g ls r \<longleftrightarrow>
     (if ls = [] then r = Some (Inr (env, MPIR_Group_empty))
      else if \<not> alloc_ok env then r = Some (Inl MPI_ERR_OTHER)
      else \<exists>new. r = Some (Inr (session_env env (session_ptr g), new)) \<and>
             new_group_ok g ls (keep ls (own g)) new)"

lemma valid_ranks_range:
  "group_wf g \<Longrightarrow> valid_ranks g rs \<Longrightarrow> \<forall>r\<in>set rs. 0 \<le> r \<and> r < int (length (lrank_to_lpid g))"
  using group_wfD(1) by (auto simp: valid_ranks_def)

lemma at_ranks_lpids:
  "group_wf g \<Longrightarrow> valid_ranks g rs \<Longrightarrow>
   map (lpid \<circ> (\<lambda>r. entry (lpid (lrank_to_lpid g ! nat r)))) rs = at_ranks g rs"
  using valid_ranks_range by (auto simp: at_ranks_def members_def nat_less_iff)

lemma incl_created:
  assumes wf: "group_wf g" and v: "valid_ranks g rs" and al: "alloc_ok env"
  shows "\<exists>new new'. MPIR_Group_create env (int (length rs)) = Inr new \<and>
    ofold (incl_rank g) rs (new\<lparr>g_rank := MPI_UNDEFINED\<rparr>, 0) = Some (new', int (length rs)) \<and>
    session_ptr new' = None \<and> g_size new' = int (length rs) \<and> idx_of_first_lpid new' = -1 \<and>
    new_group_ok g (at_ranks g rs) (keep (at_ranks g rs) (own g)) (new'\<lparr>session_ptr := session_ptr g\<rparr>)"
proof -
  obtain new where new: "MPIR_Group_create env (int (length rs)) = Inr new"
    "blank_from 0 (length rs) (lrank_to_lpid new)"
    "new = \<lparr>g_handle = new_handle env, g_ref_count = 1, g_size = int (length rs), g_rank = stale_rank env,
     idx_of_first_lpid = -1, lrank_to_lpid = replicate (length rs) (entry 0),
     is_local_dense_monotonic = False, session_ptr = None\<rparr>"
    using created_blank [of env "int (length rs)"] al by auto
  let ?new = "\<lparr>g_handle = new_handle env, g_ref_count = 1, g_size = int (length rs),
     g_rank = listed_rank (g_rank g) rs 0 MPI_UNDEFINED, idx_of_first_lpid = -1,
     lrank_to_lpid = map (\<lambda>r. entry (lpid (lrank_to_lpid g ! nat r))) rs,
     is_local_dense_monotonic = False, session_ptr = None\<rparr>"
  have "ofold (incl_rank g) rs (new\<lparr>g_rank := MPI_UNDEFINED\<rparr>, 0) = Some (?new, int (length rs))"
    using incl_loop_correct [OF valid_ranks_range [OF wf v], of 0 "new\<lparr>g_rank := MPI_UNDEFINED\<rparr>"] new(2)
    by (simp add: new(3))
  moreover have "new_group_ok g (at_ranks g rs) (keep (at_ranks g rs) (own g)) (?new\<lparr>session_ptr := session_ptr g\<rparr>)"
    using listed_group_ok [OF wf v, of "lrank_to_lpid ?new"] at_ranks_lpids [OF wf v] by simp
  ultimately show ?thesis using new(1) by (intro exI conjI) auto
qed

lemma upd_same_size: "g_size new = n \<Longrightarrow> idx_of_first_lpid new = i \<Longrightarrow>
    new\<lparr>g_size := n, idx_of_first_lpid := i\<rparr> = (new :: MPIR_Group)"
  by simp

lemma at_ranks_Nil [simp]: "at_ranks g rs = [] \<longleftrightarrow> rs = []"
  by (simp add: at_ranks_def)

lemma incl_correct:
  assumes wf: "group_wf g" and v: "valid_ranks g rs"
  shows "select_ok env g (at_ranks g rs) (MPIR_Group_incl_impl env g rs)"
proof (cases "rs = [] \<or> \<not> alloc_ok env")
  case True
  then show ?thesis by (auto simp: select_ok_def MPIR_Group_incl_impl_def create_fails)
next
  case False
  then obtain new new' where "MPIR_Group_create env (int (length rs)) = Inr new"
    "ofold (incl_rank g) rs (new\<lparr>g_rank := MPI_UNDEFINED\<rparr>, 0) = Some (new', int (length rs))"
    "session_ptr new' = None" "g_size new' = int (length rs)" "idx_of_first_lpid new' = -1"
    "new_group_ok g (at_ranks g rs) (keep (at_ranks g rs) (own g)) (new'\<lparr>session_ptr := session_ptr g\<rparr>)"
    using incl_created [OF wf v] by blast
  with False show ?thesis
    by (simp add: select_ok_def MPIR_Group_incl_impl_def set_session_ptr_eq upd_same_size)
qed

section \<open>Exclusion\<close>

lemma mark_ranks:
  assumes "\<forall>r\<in>set rs. 0 \<le> r \<and> r < int (length flags)"
  shows "ofold mark_rank rs flags = Some (mark rs flags)"
  using assms by (induction rs arbitrary: flags) (auto simp: mark_rank_def carray_simps)

definition not_at_ranks :: "MPIR_Group \<Rightarrow> int list \<Rightarrow> 64 word list" where
  "not_at_ranks g rs = filter (\<lambda>l. l \<notin> set (at_ranks g rs)) (members g)"

lemma mark_members:
  assumes wf: "group_wf g" and v: "valid_ranks g rs"
  shows "mark rs (replicate (nat (g_size g)) False) = map (\<lambda>l. l \<in> set (at_ranks g rs)) (members g)"
proof (rule nth_equalityI)
  show "length (mark rs (replicate (nat (g_size g)) False)) = length (map (\<lambda>l. l \<in> set (at_ranks g rs)) (members g))"
    using group_wfD(2) [OF wf] by simp
  fix i assume "i < length (mark rs (replicate (nat (g_size g)) False))"
  then have i: "i < length (members g)" using group_wfD(2) [OF wf] by simp
  have "int i \<in> set rs \<longleftrightarrow> members g ! i \<in> set (at_ranks g rs)"
    using i v group_wfD(2,4) [OF wf]
    by (auto simp: at_ranks_def valid_ranks_def nth_eq_iff_index_eq nat_less_iff image_iff) (metis nat_int)
  then show "mark rs (replicate (nat (g_size g)) False) ! i = map (\<lambda>l. l \<in> set (at_ranks g rs)) (members g) ! i"
    using i v group_wfD(2) [OF wf] by (subst nth_mark) (auto simp: valid_ranks_def)
qed

lemma length_not_at_ranks:
  assumes wf: "group_wf g" and v: "valid_ranks g rs"
  shows "int (length (not_at_ranks g rs)) = g_size g - int (length rs)"
proof -
  let ?P = "\<lambda>l. l \<in> set (at_ranks g rs)"
  have "set (at_ranks g rs) \<subseteq> set (members g)"
    using v group_wfD(2) [OF wf] by (auto simp: at_ranks_def valid_ranks_def nat_less_iff)
  then have "set (filter ?P (members g)) = set (at_ranks g rs)" by auto
  moreover have "distinct (filter ?P (members g))" using group_wfD(4) [OF wf] by simp
  ultimately have "length (filter ?P (members g)) = length (at_ranks g rs)"
    using distinct_at_ranks [OF wf v] by (metis distinct_card)
  moreover have "length (at_ranks g rs) = length rs" by (simp add: at_ranks_def)
  ultimately show ?thesis
    using sum_length_filter_compl [of ?P "members g"] group_wfD(2) [OF wf] by (simp add: not_at_ranks_def)
qed

lemma excl_created:
  assumes wf: "group_wf g" and v: "valid_ranks g rs" and al: "alloc_ok env"
  shows "\<exists>new new'. MPIR_Group_create env (g_size g - int (length rs)) = Inr new \<and>
    copy_loop False (g_rank g) 0 (lrank_to_lpid g) (mark rs (replicate (nat (g_size g)) False)) 0
      (new\<lparr>g_rank := MPI_UNDEFINED\<rparr>) = Some new' \<and>
    session_ptr new' = None \<and> g_size new' = g_size g - int (length rs) \<and> idx_of_first_lpid new' = -1 \<and>
    new_group_ok g (not_at_ranks g rs) (keep (not_at_ranks g rs) (own g)) (new'\<lparr>session_ptr := session_ptr g\<rparr>)"
  using copy_created [OF wf al, of "lrank_to_lpid g" "\<lambda>l. l \<in> set (at_ranks g rs)" False]
    mark_members [OF wf v] length_not_at_ranks [OF wf v]
  by (simp add: members_def [symmetric] not_at_ranks_def [symmetric])

lemma excl_correct:
  assumes wf: "group_wf g" and v: "valid_ranks g rs" and ne: "int (length rs) < g_size g"
  shows "select_ok env g (not_at_ranks g rs) (MPIR_Group_excl_impl env g rs)"
proof (cases "alloc_ok env")
  case False
  then show ?thesis
    using length_not_at_ranks [OF wf v] ne
    by (auto simp: select_ok_def MPIR_Group_excl_impl_def create_fails)
next
  case True
  have "not_at_ranks g rs \<noteq> []" using length_not_at_ranks [OF wf v] ne by auto
  moreover have "ofold mark_rank rs (replicate (nat (g_size g)) False) = Some (mark rs (replicate (nat (g_size g)) False))"
    using v by (intro mark_ranks) (auto simp: valid_ranks_def)
  ultimately show ?thesis
    using excl_created [OF wf v True] True
    by (auto simp: select_ok_def MPIR_Group_excl_impl_def set_session_ptr_eq upd_same_size)
qed

section \<open>Ranges\<close>

definition range_ranks :: "rank_range \<Rightarrow> int list" where
  "range_ranks r = (case r of (f, l, s) \<Rightarrow> map (\<lambda>t. f + int t * s) [0..<nat (1 + cdiv (l - f) s)])"

text \<open>
  A range the code accepts: it starts inside the group, its stride is not zero and points from the
  first to the last rank, and the last rank that it reaches is inside the group.
\<close>

definition valid_range :: "int \<Rightarrow> rank_range \<Rightarrow> bool" where
  "valid_range n r = (case r of (f, l, s) \<Rightarrow>
     0 \<le> f \<and> f < n \<and> s \<noteq> 0 \<and> 0 \<le> l \<and> f + s * cdiv (l - f) s < n \<and> (s > 0 \<longrightarrow> f \<le> l) \<and> (s < 0 \<longrightarrow> l \<le> f))"

text \<open>The loop variable \<open>j += stride\<close> stays an \<open>int\<close>.\<close>

definition no_overflow :: "rank_range \<Rightarrow> bool" where
  "no_overflow r = (case r of (f, l, s) \<Rightarrow> f \<le> INT_MAX \<and> l + \<bar>s\<bar> \<le> INT_MAX)"

abbreviation continues :: "int \<Rightarrow> int \<Rightarrow> int \<Rightarrow> bool" where
  "continues s l j \<equiv> (if s > 0 then j \<le> l else j \<ge> l)"

definition loop_trace :: "int \<Rightarrow> int \<Rightarrow> int \<Rightarrow> nat \<Rightarrow> bool" where
  "loop_trace s l j m \<longleftrightarrow> (\<forall>t < m. continues s l (j + int t * s)) \<and> \<not> continues s l (j + int m * s) \<and>
     (\<forall>t \<le> m. cint (j + int t * s) = Some (j + int t * s))"

lemma loop_trace_0: "loop_trace s l j 0 \<Longrightarrow> \<not> continues s l j"
  unfolding loop_trace_def by auto

lemma loop_trace_Suc:
  assumes "loop_trace s l j (Suc m)"
  shows "continues s l j" "cint (j + s) = Some (j + s)" "loop_trace s l (j + s) m"
    "map (\<lambda>t. j + int t * s) [0..<Suc m] = j # map (\<lambda>t. (j + s) + int t * s) [0..<m]"
proof -
  have sh: "j + s + int t * s = j + int (Suc t) * s" for t by (simp add: algebra_simps)
  show "continues s l j" using assms by (auto simp: loop_trace_def dest: spec [of _ 0])
  show "cint (j + s) = Some (j + s)" using assms by (auto simp: loop_trace_def dest: spec [of _ 1])
  show "loop_trace s l (j + s) m" using assms unfolding loop_trace_def sh by auto
  show "map (\<lambda>t. j + int t * s) [0..<Suc m] = j # map (\<lambda>t. (j + s) + int t * s) [0..<m]"
    unfolding sh by (simp only: upt_conv_Cons [OF zero_less_Suc] map_Suc_upt [symmetric] list.map map_map comp_def) simp
qed

lemma for_range_trace:
  "loop_trace s l j m \<Longrightarrow> for_range body s j l st = ofold body (map (\<lambda>t. j + int t * s) [0..<m]) st"
proof (induction m arbitrary: j st)
  case 0
  from loop_trace_0 [OF this] show ?case by (subst for_range.simps) simp
next
  case (Suc m)
  note tr = loop_trace_Suc [OF Suc.prems]
  show ?case
    unfolding tr(4) by (subst for_range.simps) (simp add: tr(1,2) Suc.IH [OF tr(3)])
qed

lemma cdiv_pos: "0 \<le> a \<Longrightarrow> 0 < b \<Longrightarrow> cdiv a b = a div b"
  by (cases "a = 0") (auto simp: cdiv_def)

lemma cdiv_neg: "a \<le> 0 \<Longrightarrow> b < 0 \<Longrightarrow> cdiv a b = (- a) div (- b)"
  by (cases "a = 0") (auto simp: cdiv_def)

lemma range_steps:
  assumes "valid_range n (f, l, s)"
  defines "q \<equiv> cdiv (l - f) s"
  shows "0 \<le> q" and "\<And>t. 0 \<le> t \<Longrightarrow> t \<le> q \<Longrightarrow> continues s l (f + t * s)"
    and "\<not> continues s l (f + (q + 1) * s)"
    and "\<And>t. 0 \<le> t \<Longrightarrow> t \<le> q \<Longrightarrow> 0 \<le> f + t * s \<and> f + t * s < n"
proof -
  have v: "0 \<le> f" "f < n" "s \<noteq> 0" "0 \<le> l" "f + s * q < n" "s > 0 \<Longrightarrow> f \<le> l" "s < 0 \<Longrightarrow> l \<le> f"
    using assms by (auto simp: valid_range_def)
  have q: "0 \<le> q \<and> (s > 0 \<longrightarrow> q * s \<le> l - f \<and> l - f < (q + 1) * s) \<and>
      (s < 0 \<longrightarrow> l - f \<le> q * s \<and> (q + 1) * s < l - f)"
  proof (cases "s > 0")
    case True
    then have "q = (l - f) div s" using v by (simp add: q_def cdiv_pos)
    then have "q * s + (l - f) mod s = l - f" "0 \<le> q"
      using True v(6) by (simp_all add: pos_imp_zdiv_nonneg_iff)
    moreover have "(l - f) mod s < s" "0 \<le> (l - f) mod s" using True by simp_all
    ultimately have "0 \<le> q" "q * s \<le> l - f" "l - f < q * s + s" by linarith+
    then show ?thesis using True by (auto simp: distrib_right)
  next
    case False
    then have s: "s < 0" using v by simp
    then have q: "q = (f - l) div (- s)" using v by (simp add: q_def cdiv_neg)
    then have "q * (- s) + (f - l) mod (- s) = f - l" by (simp only: div_mult_mod_eq)
    moreover have "0 \<le> q" unfolding q using s v(7) by (subst pos_imp_zdiv_nonneg_iff) auto
    moreover have "(f - l) mod (- s) < - s" "0 \<le> (f - l) mod (- s)"
      using s by (auto intro!: pos_mod_bound pos_mod_sign)
    ultimately have "0 \<le> q" "q * (- s) \<le> f - l" "f - l < q * (- s) + (- s)" by linarith+
    then show ?thesis using s by (auto simp: distrib_right)
  qed
  show "0 \<le> q" using q by simp
  have b: "0 \<le> t \<Longrightarrow> t \<le> q \<Longrightarrow> (s > 0 \<longrightarrow> 0 \<le> t * s \<and> t * s \<le> q * s) \<and> (s < 0 \<longrightarrow> q * s \<le> t * s \<and> t * s \<le> 0)" for t
    by (auto simp: mult_right_mono mult_right_mono_neg mult_nonneg_nonpos)
  have c: "(s > 0 \<longrightarrow> f + t * s \<le> l) \<and> (s < 0 \<longrightarrow> l \<le> f + t * s)" if "0 \<le> t" "t \<le> q" for t
    using b [OF that] q by linarith
  show "continues s l (f + t * s)" if "0 \<le> t" "t \<le> q" for t
    using c [OF that] v(3) by auto
  have "(s > 0 \<longrightarrow> l < f + (q + 1) * s) \<and> (s < 0 \<longrightarrow> f + (q + 1) * s < l)"
    using q by linarith
  then show "\<not> continues s l (f + (q + 1) * s)" using v(3) by auto
  show "0 \<le> f + t * s \<and> f + t * s < n" if "0 \<le> t" "t \<le> q" for t
  proof (cases "s > 0")
    case True
    then have "0 \<le> t * s" "t * s \<le> s * q" using b [OF that] by (simp_all add: mult.commute)
    then show ?thesis using v(1,5) by linarith
  next
    case False
    then show ?thesis using b [OF that] c [OF that] v(2,3,4) by linarith
  qed
qed

lemma range_trace:
  assumes v: "valid_range n (f, l, s)" and o: "no_overflow (f, l, s)"
  shows "loop_trace s l f (nat (1 + cdiv (l - f) s))"
proof -
  let ?q = "cdiv (l - f) s"
  note st = range_steps [OF v]
  have m: "int (nat (1 + ?q)) = ?q + 1" using st(1) by simp
  have fl: "f \<le> INT_MAX" "l + \<bar>s\<bar> \<le> INT_MAX" "0 \<le> f" "0 \<le> l" "s \<noteq> 0"
    using v o by (auto simp: valid_range_def no_overflow_def)
  have last: "continues s l (f + ?q * s)" "0 \<le> f + ?q * s" using st(2,4) [of ?q] st(1) by auto
  have "cint (f + int t * s) = Some (f + int t * s)" if "t \<le> nat (1 + ?q)" for t
  proof (cases "int t \<le> ?q")
    case True
    then have c: "continues s l (f + int t * s)" "0 \<le> f + int t * s" using st(2,4) [of "int t"] by auto
    have "f + int t * s \<le> INT_MAX"
    proof (cases "s > 0")
      case False
      then have "int t * s \<le> 0" by (simp add: mult_nonneg_nonpos)
      then show ?thesis using fl by linarith
    qed (use c fl in auto)
    with c show ?thesis by (simp add: cint_def)
  next
    case False
    then have "int t = ?q + 1" using that st(1) by (simp add: le_nat_iff)
    then have e: "f + int t * s = (f + ?q * s) + s" by (simp add: algebra_simps)
    have "s \<le> 0 \<Longrightarrow> ?q * s \<le> 0" using st(1) by (simp add: mult_nonneg_nonpos)
    then have "- 2147483648 \<le> (f + ?q * s) + s \<and> (f + ?q * s) + s \<le> INT_MAX"
      using last fl by (cases "s > 0") (auto simp: INT_MAX_def)
    with e show ?thesis by (simp add: cint_def)
  qed
  moreover have "continues s l (f + int t * s)" if "t < nat (1 + ?q)" for t
    using that by (intro st(2)) auto
  ultimately show ?thesis using st(3) unfolding loop_trace_def m by blast
qed

definition ranges_ranks :: "rank_range list \<Rightarrow> int list" where
  "ranges_ranks rs = concat (map range_ranks rs)"

lemma ranges_ranks_Cons [simp]: "ranges_ranks [] = []" "ranges_ranks (r # rs) = range_ranks r @ ranges_ranks rs"
  by (simp_all add: ranges_ranks_def)

lemma in_ranges:
  assumes "\<forall>r\<in>set rs. valid_range n r \<and> no_overflow r"
  shows "ofold (in_range body) rs st = ofold body (ranges_ranks rs) st"
  using assms
proof (induction rs arbitrary: st)
  case (Cons r rs)
  obtain f l s where r: "r = (f, l, s)" by (cases r) auto
  have "in_range body r st = ofold body (range_ranks r) st" for st
    using for_range_trace [OF range_trace, of n f l s] Cons.prems by (simp add: in_range_def range_ranks_def r)
  moreover have "ofold (in_range body) rs = ofold body (ranges_ranks rs)"
    using Cons by (intro ext) auto
  ultimately show ?case by (simp add: ofold_append)
qed simp

lemma count_ranges:
  assumes "\<forall>r\<in>set rs. valid_range n r"
  shows "ofold count_range rs c = Some (c + int (length (ranges_ranks rs)))"
  using assms
proof (induction rs arbitrary: c)
  case (Cons r rs)
  obtain f l s where r: "r = (f, l, s)" by (cases r) auto
  have v: "valid_range n (f, l, s)" using Cons.prems r by auto
  have "0 \<le> cdiv (l - f) s" "s \<noteq> 0" using range_steps(1) [OF v] v by (auto simp: valid_range_def)
  with Cons show ?case by (simp add: r count_range_def range_ranks_def)
qed simp

text \<open>The range constructors are the rank constructors on the ranks the ranges list.\<close>

lemma range_incl_correct:
  assumes wf: "group_wf g" and rs: "\<forall>r\<in>set rs. valid_range (g_size g) r \<and> no_overflow r"
    and v: "valid_ranks g (ranges_ranks rs)"
  shows "select_ok env g (at_ranks g (ranges_ranks rs)) (MPIR_Group_range_incl_impl env g rs)"
proof -
  note cnt = count_ranges [of rs "g_size g" 0]
  show ?thesis
  proof (cases "ranges_ranks rs = [] \<or> \<not> alloc_ok env")
    case True
    then show ?thesis using cnt rs by (auto simp: select_ok_def MPIR_Group_range_incl_impl_def create_fails)
  next
    case False
    then obtain new new' where "MPIR_Group_create env (int (length (ranges_ranks rs))) = Inr new"
      "ofold (incl_rank g) (ranges_ranks rs) (new\<lparr>g_rank := MPI_UNDEFINED\<rparr>, 0) = Some (new', int (length (ranges_ranks rs)))"
      "session_ptr new' = None"
      "new_group_ok g (at_ranks g (ranges_ranks rs)) (keep (at_ranks g (ranges_ranks rs)) (own g)) (new'\<lparr>session_ptr := session_ptr g\<rparr>)"
      using incl_created [OF wf v] by blast
    with False show ?thesis
      using cnt rs
      by (simp add: in_ranges [OF rs] select_ok_def MPIR_Group_range_incl_impl_def set_session_ptr_eq)
  qed
qed

lemma range_excl_correct:
  assumes wf: "group_wf g" and rs: "\<forall>r\<in>set rs. valid_range (g_size g) r \<and> no_overflow r"
    and v: "valid_ranks g (ranges_ranks rs)"
  shows "select_ok env g (not_at_ranks g (ranges_ranks rs)) (MPIR_Group_range_excl_impl env g rs)"
proof -
  let ?rr = "ranges_ranks rs"
  note cnt = count_ranges [of rs "g_size g" 0]
  have n: "g_size g - int (length ?rr) = int (length (not_at_ranks g ?rr))"
    using length_not_at_ranks [OF wf v] by simp
  have mk: "ofold (in_range mark_rank) rs (replicate (nat (g_size g)) False) =
      Some (mark ?rr (replicate (nat (g_size g)) False))"
    using v by (subst in_ranges [OF rs], intro mark_ranks) (auto simp: valid_ranks_def)
  show ?thesis
  proof (cases "not_at_ranks g ?rr = [] \<or> \<not> alloc_ok env")
    case True
    then show ?thesis
      using cnt rs n by (auto simp: select_ok_def MPIR_Group_range_excl_impl_def create_fails)
  next
    case False
    then obtain new new' where "MPIR_Group_create env (g_size g - int (length ?rr)) = Inr new"
      "copy_loop False (g_rank g) 0 (lrank_to_lpid g) (mark ?rr (replicate (nat (g_size g)) False)) 0
        (new\<lparr>g_rank := MPI_UNDEFINED\<rparr>) = Some new'"
      "session_ptr new' = None"
      "new_group_ok g (not_at_ranks g ?rr) (keep (not_at_ranks g ?rr) (own g)) (new'\<lparr>session_ptr := session_ptr g\<rparr>)"
      using excl_created [OF wf v] by blast
    with False show ?thesis
      using cnt rs mk n by (auto simp: select_ok_def MPIR_Group_range_excl_impl_def set_session_ptr_eq)
  qed
qed

section \<open>The range check\<close>

text \<open>The set of ranks that are flagged.\<close>

definition flagged :: "int list \<Rightarrow> int set" where
  "flagged flags = {j. 0 \<le> j \<and> j < int (length flags) \<and> flags ! nat j \<noteq> 0}"

lemma flagged_replicate [simp]: "flagged (replicate n 0) = {}"
  by (auto simp: flagged_def)

lemma flagged_upd:
  "0 \<le> j \<Longrightarrow> j < int (length flags) \<Longrightarrow> v \<noteq> 0 \<Longrightarrow> flagged (flags[nat j := v]) = insert j (flagged flags)"
  by (auto simp: flagged_def nth_list_update nat_eq_iff split: if_splits)

lemma check_mark_trace:
  assumes "loop_trace s l j m" and "s \<noteq> 0" and "0 \<le> i"
    and "\<forall>t < m. 0 \<le> j + int t * s \<and> j + int t * s < int (length flags)"
  defines "js \<equiv> map (\<lambda>t. j + int t * s) [0..<m]"
  shows "if set js \<inter> flagged flags = {}
    then \<exists>flags'. check_mark_range i s j l flags = Some (Inr flags') \<and> length flags' = length flags \<and>
           flagged flags' = flagged flags \<union> set js
    else check_mark_range i s j l flags = Some (Inl MPI_ERR_ARG)"
  using assms(1,4) unfolding js_def
proof (induction m arbitrary: j flags)
  case 0
  from loop_trace_0 [OF 0(1)] show ?case by (subst check_mark_range.simps) simp
next
  case (Suc m)
  note tr = loop_trace_Suc [OF Suc.prems(1)]
  have j: "0 \<le> j" "j < int (length flags)" using Suc.prems(2) by (auto dest: spec [of _ 0])
  have sh: "j + s + int t * s = j + int (Suc t) * s" for t by (simp add: algebra_simps)
  show ?case
  proof (cases "j \<in> flagged flags")
    case True
    then show ?thesis
      unfolding tr(4) using j
      by (subst check_mark_range.simps) (auto simp: tr(1) check_mark_def carray_simps flagged_def)
  next
    case False
    let ?v = "if s > 0 then 1 else i + 1" and ?js = "map (\<lambda>t. (j + s) + int t * s) [0..<m]"
    let ?f = "flags[nat j := ?v]"
    have fl: "flagged ?f = insert j (flagged flags)" using j assms(3) by (intro flagged_upd) auto
    have "check_mark_range i s j l flags = check_mark_range i s (j + s) l ?f"
      using j False by (subst check_mark_range.simps) (simp add: tr(1,2) check_mark_def carray_simps flagged_def)
    moreover have "j \<notin> set ?js"
    proof
      assume "j \<in> set ?js"
      then obtain t where "int (Suc t) * s = 0" by (auto simp: sh)
      with assms(2) show False by simp
    qed
    moreover have bnd: "\<forall>t<m. 0 \<le> j + s + int t * s \<and> j + s + int t * s < int (length ?f)"
      unfolding sh using Suc.prems(2) by (metis Suc_less_eq length_list_update)
    moreover note Suc.IH [OF tr(3) bnd]
    ultimately show ?thesis unfolding tr(4) fl using False by (simp split: if_splits)
  qed
qed

text \<open>The difference \<open>last - first\<close> and its quotient by the stride stay an \<open>int\<close>; together with \<open>no_overflow\<close>
  this is all the arithmetic of the check.\<close>

definition last_fits :: "rank_range \<Rightarrow> bool" where
  "last_fits r = (case r of (f, l, s) \<Rightarrow> - INT_MAX \<le> l - f)"

lemma act_last_eq:
  assumes "0 \<le> f" "no_overflow (f, l, s)" "last_fits (f, l, s)" "s \<noteq> 0"
  shows "act_last f l s = Some (f + s * cdiv (l - f) s)"
proof -
  let ?d = "l - f" and ?q = "\<bar>l - f\<bar> div \<bar>s\<bar>"
  have d: "- INT_MAX \<le> ?d" "l \<le> INT_MAX" "f \<le> INT_MAX" using assms(2,3) by (auto simp: no_overflow_def last_fits_def)
  have q: "0 \<le> ?q" "\<bar>s\<bar> * ?q \<le> \<bar>?d\<bar>" using assms(4) by (simp_all add: pos_imp_zdiv_nonneg_iff flip: minus_mod_eq_mult_div)
  have "1 * ?q \<le> \<bar>s\<bar> * ?q" using assms(4) q(1) by (intro mult_right_mono) auto
  then have q': "?q \<le> \<bar>?d\<bar>" using q(2) by simp
  have sp: "s * cdiv ?d s = sgn ?d * (\<bar>s\<bar> * ?q)"
    by (simp add: cdiv_def) (metis (no_types) abs_sgn mult.assoc mult.commute)
  have c: "\<bar>cdiv ?d s\<bar> \<le> \<bar>?d\<bar>" using q' q(1) by (simp add: cdiv_def abs_mult abs_sgn_eq)
  have p: "0 \<le> \<bar>s\<bar> * ?q" using q(1) by simp
  have "cint ?d = Some ?d" using d assms(1) by (simp add: cint_def INT_MAX_def)
  moreover have "cint (cdiv ?d s) = Some (cdiv ?d s)" using c d assms(1) by (simp add: cint_def INT_MAX_def abs_if split: if_splits)
  moreover have "cint (s * cdiv ?d s) = Some (s * cdiv ?d s)" "cint (f + s * cdiv ?d s) = Some (f + s * cdiv ?d s)"
    unfolding sp using q(2) p d assms(1) by (auto simp: cint_def INT_MAX_def sgn_if)
  ultimately show ?thesis by (simp add: act_last_def)
qed

lemma check_ranges_loop:
  assumes "\<forall>r\<in>set rs. no_overflow r \<and> last_fits r" and "0 \<le> i" and "int (length flags) = n"
  shows "check_valid_ranges_loop n i rs flags =
    Some (if (\<forall>r\<in>set rs. valid_range n r) \<and> distinct (ranges_ranks rs) \<and>
             set (ranges_ranks rs) \<inter> flagged flags = {}
          then Inr () else Inl MPI_ERR_ARG)"
  using assms
proof (induction rs arbitrary: i flags)
  case (Cons r rs)
  obtain f l s where r: "r = (f, l, s)" by (cases r) auto
  show ?case
  proof (cases "valid_range n (f, l, s)")
    case False
    then show ?thesis using Cons.prems(1) act_last_eq [of f l s] by (auto simp: r valid_range_def)
  next
    case True
    have o: "no_overflow (f, l, s)" using Cons.prems r by simp
    let ?m = "nat (1 + cdiv (l - f) s)"
    have s: "s \<noteq> 0" using True by (simp add: valid_range_def)
    have bnd: "\<forall>t < ?m. 0 \<le> f + int t * s \<and> f + int t * s < int (length flags)"
      using range_steps(4) [OF True] Cons.prems(3) by auto
    have rr: "range_ranks r = map (\<lambda>t. f + int t * s) [0..<?m]" by (simp add: range_ranks_def r)
    have dist: "distinct (range_ranks r)" using s by (simp add: rr distinct_map inj_on_def)
    have unf: "check_valid_ranges_loop n i (r # rs) flags = do {
         x \<leftarrow> check_mark_range i s f l flags;
         (case x of Inl e \<Rightarrow> Some (Inl e) | Inr flags' \<Rightarrow> check_valid_ranges_loop n (i + 1) rs flags') }"
      using True Cons.prems(1) act_last_eq [of f l s] by (auto simp: r valid_range_def)
    show ?thesis
    proof (cases "set (range_ranks r) \<inter> flagged flags = {}")
      case clean: True
      with check_mark_trace [OF range_trace [OF True o] s Cons.prems(2) bnd] obtain flags' where
        fl: "check_mark_range i s f l flags = Some (Inr flags')" "length flags' = length flags"
          "flagged flags' = flagged flags \<union> set (range_ranks r)"
        unfolding rr by auto
      have "check_valid_ranges_loop n (i + 1) rs flags' =
          Some (if (\<forall>r\<in>set rs. valid_range n r) \<and> distinct (ranges_ranks rs) \<and>
             set (ranges_ranks rs) \<inter> flagged flags' = {} then Inr () else Inl MPI_ERR_ARG)"
        using Cons.prems fl(2) by (intro Cons.IH) auto
      then show ?thesis using True clean dist by (auto simp: unf fl(1,3) r [symmetric])
    next
      case False
      with check_mark_trace [OF range_trace [OF True o] s Cons.prems(2) bnd]
      have "check_mark_range i s f l flags = Some (Inl MPI_ERR_ARG)" unfolding rr by simp
      with False show ?thesis by (auto simp: unf)
    qed
  qed
qed simp

lemma ranges_ranks_bounds:
  assumes "\<forall>r\<in>set rs. valid_range n r" and "j \<in> set (ranges_ranks rs)"
  shows "0 \<le> j \<and> j < n"
  using assms
proof (induction rs)
  case (Cons r rs)
  obtain f l s where r: "r = (f, l, s)" by (cases r) auto
  have v: "valid_range n (f, l, s)" using Cons.prems(1) r by simp
  show ?case
  proof (cases "j \<in> set (range_ranks r)")
    case True
    then show ?thesis using range_steps(4) [OF v] by (auto simp: range_ranks_def r)
  next
    case False
    with Cons show ?thesis by simp
  qed
qed simp

lemma check_ranges_correct:
  assumes wf: "group_wf g" and "\<forall>r\<in>set rs. no_overflow r \<and> last_fits r"
  shows "MPIR_Group_check_valid_ranges g rs =
    Some (if (\<forall>r\<in>set rs. valid_range (g_size g) r) \<and> valid_ranks g (ranges_ranks rs)
          then Inr () else Inl MPI_ERR_ARG)"
proof -
  have "MPIR_Group_check_valid_ranges g rs =
    Some (if (\<forall>r\<in>set rs. valid_range (g_size g) r) \<and> distinct (ranges_ranks rs) then Inr () else Inl MPI_ERR_ARG)"
    using check_ranges_loop [OF assms(2), of 0 "replicate (nat (g_size g)) 0" "g_size g"] group_wfD(1) [OF wf]
    by (simp add: MPIR_Group_check_valid_ranges_def)
  then show ?thesis using ranges_ranks_bounds [of rs "g_size g"] by (auto simp: valid_ranks_def)
qed

section \<open>Rank translation\<close>

text \<open>The rank of a process in a group.\<close>

fun rank_in :: "'a list \<Rightarrow> 'a \<Rightarrow> int option" where
  "rank_in [] x = None"
| "rank_in (y # ys) x = (if y = x then Some 0 else map_option ((+) 1) (rank_in ys x))"

lemma rank_in_None: "rank_in ys x = None \<longleftrightarrow> x \<notin> set ys"
  by (induction ys) auto

lemma rank_in_nth: "distinct ys \<Longrightarrow> i < length ys \<Longrightarrow> rank_in ys (ys ! i) = Some (int i)"
  by (induction ys arbitrary: i) (auto simp: nth_Cons')

definition translated :: "MPIR_Group \<Rightarrow> MPIR_Group \<Rightarrow> int \<Rightarrow> int" where
  "translated gp1 gp2 r = (if r = MPI_PROC_NULL then MPI_PROC_NULL
     else case rank_in (members gp2) (members gp1 ! nat r) of Some i \<Rightarrow> i | None \<Rightarrow> MPI_UNDEFINED)"

text \<open>On a dense group the distance from the first lpid is the rank.\<close>

lemma dense_rank:
  assumes d: "dense ls" and dist: "distinct ls" and ne: "ls \<noteq> []" and sz: "int (length ls) \<le> INT_MAX"
  shows "(if l - hd ls < word_of_int (int (length ls)) then uint (l - hd ls) else MPI_UNDEFINED) =
    (case rank_in ls l of Some i \<Rightarrow> i | None \<Rightarrow> MPI_UNDEFINED)"
proof -
  let ?n = "length ls"
  have n: "?n < 2 ^ 64" using sz by (simp add: INT_MAX_def)
  have un: "uint (word_of_int (int ?n) :: 64 word) = int ?n"
    using n by (simp add: unsigned_of_nat take_bit_nat_eq_self_iff)
  have lt: "l - hd ls < word_of_int (int ?n) \<longleftrightarrow> uint (l - hd ls) < int ?n"
    by (simp only: word_less_def un)
  show ?thesis
  proof (cases "uint (l - hd ls) < int ?n")
    case True
    let ?i = "nat (uint (l - hd ls))"
    have i: "?i < ?n" using True by (meson nat_less_iff unsigned_greater_eq)
    have "ls ! ?i = hd ls + of_nat ?i"
      using d i unfolding dense_def hd_conv_nth [OF ne] by blast
    also have "of_nat ?i = (l - hd ls)" by (simp only: nat_uint_eq) simp
    finally have "ls ! ?i = l" by simp
    then show ?thesis using rank_in_nth [OF dist i] True unfolding lt by simp
  next
    case False
    have "l \<notin> set ls"
    proof
      assume "l \<in> set ls"
      then obtain i where i: "i < ?n" "ls ! i = l" by (auto simp: in_set_conv_nth)
      then have "l = hd ls + of_nat i" using d unfolding dense_def hd_conv_nth [OF ne] by blast
      then have "l - hd ls = of_nat i" by simp
      then have "uint (l - hd ls) = int i" using i n by (simp add: unsigned_of_nat take_bit_nat_eq_self_iff)
      with i False show False by simp
    qed
    then show ?thesis using False unfolding lt by (simp add: rank_in_None [symmetric])
  qed
qed

definition translatable :: "MPIR_Group \<Rightarrow> int list \<Rightarrow> bool" where
  "translatable gp1 rs \<longleftrightarrow> (\<forall>r\<in>set rs. r = MPI_PROC_NULL \<or> 0 \<le> r \<and> r < g_size gp1)"

lemma aget_member:
  assumes "group_wf g" and "0 \<le> r" "r < g_size g"
  shows "\<exists>e. aget (lrank_to_lpid g) r = Some e \<and> lpid e = members g ! nat r"
  using assms group_wfD(1) [OF assms(1)] by (simp add: aget_in members_def nat_less_iff)

lemma translate_fast_correct:
  assumes wf: "group_wf gp1" "group_wf gp2" and d: "dense (members gp2)" and ne: "members gp2 \<noteq> []"
    and tr: "translatable gp1 rs"
  shows "translate_fast (lrank_to_lpid gp1) (hd (members gp2)) (g_size gp2) rs = Some (map (translated gp1 gp2) rs)"
  using tr
proof (induction rs)
  case (Cons r rs)
  then have IH: "translate_fast (lrank_to_lpid gp1) (hd (members gp2)) (g_size gp2) rs =
    Some (map (translated gp1 gp2) rs)" by (simp add: translatable_def)
  show ?case
  proof (cases "r = MPI_PROC_NULL")
    case True
    then show ?thesis by (simp add: IH translated_def)
  next
    case False
    then obtain e where e: "aget (lrank_to_lpid gp1) r = Some e" "lpid e = members gp1 ! nat r"
      using Cons.prems aget_member [OF wf(1), of r] by (auto simp: translatable_def)
    show ?thesis
      using False e IH dense_rank [OF d group_wfD(4) [OF wf(2)] ne, of "lpid e"] group_wfD(2,5) [OF wf(2)]
      by (simp add: translated_def Let_def)
  qed
qed simp

lemma translate_advance_correct:
  assumes "chain 0 m i (j # js)" and "sorted_wrt (<) (map (key m) (j # js))"
  shows "translate_advance m l1 i (key m j) =
    (case dropWhile (\<lambda>x. key m x < l1) (j # js) of [] \<Rightarrow> Some (-1, -1) | x # xs \<Rightarrow> Some (x, key m x))"
  using assms
proof (induction js arbitrary: i j)
  case Nil
  then show ?case
    by (subst translate_advance.simps) (auto simp: carray_simps translate_advance.simps [of m l1 "-1"])
next
  case (Cons k js)
  have IH: "translate_advance m l1 k (key m k) =
    (case dropWhile (\<lambda>x. key m x < l1) (k # js) of [] \<Rightarrow> Some (-1, -1) | x # xs \<Rightarrow> Some (x, key m x))"
    using Cons.prems by (intro Cons.IH) auto
  have nx: "next_lpid (m ! nat j) = k" "0 \<le> k" "k < int (length m)" "i = j" "0 \<le> j" "j < int (length m)"
    using Cons.prems(1) by auto
  show ?case
    by (subst translate_advance.simps) (simp add: nx carray_simps IH)
qed

text \<open>
  The position the general path keeps between two ranks: past the end of the ordered list, or at
  one of its elements.
\<close>

definition tr_pos :: "pmap list \<Rightarrow> int list \<Rightarrow> int \<Rightarrow> 64 word \<Rightarrow> bool" where
  "tr_pos m js i l \<longleftrightarrow> i = -1 \<and> l = -1 \<or>
     (\<exists>pre suf. js = pre @ suf \<and> suf \<noteq> [] \<and> i = hd suf \<and> l = key m i)"

lemma chain_suffix: "chain 0 m i (pre @ x # suf) \<Longrightarrow> chain 0 m x (x # suf)"
  by (induction pre arbitrary: i) (auto split: if_splits)

lemma dropWhile_skip: "\<forall>x\<in>set xs. P x \<Longrightarrow> dropWhile P (xs @ ys) = dropWhile P ys"
  by (induction xs) auto

lemma translate_step:
  assumes ch: "chain 0 m f js" and so: "sorted_wrt (<) (map (key m) js)" and ne: "js \<noteq> []"
    and pos: "tr_pos m js i l"
  shows "do { (i, l) \<leftarrow> (if l1 < l \<or> i < 0 then do { e \<leftarrow> aget m f; Some (f, lpid e) } else Some (i, l));
              translate_advance m l1 i l } =
    (case dropWhile (\<lambda>x. key m x < l1) js of [] \<Rightarrow> Some (-1, -1) | x # xs \<Rightarrow> Some (x, key m x))"
proof (cases "l1 < l \<or> i < 0")
  case True
  obtain j ks where js: "js = j # ks" using ne by (cases js) auto
  with ch have "aget m f = Some (m ! nat j)" "f = j" by (auto simp: carray_simps)
  with True translate_advance_correct [of m f j ks l1] ch so show ?thesis by (simp add: js)
next
  case False
  then obtain pre suf where ps: "js = pre @ suf" "suf \<noteq> []" "i = hd suf" "l = key m i"
    using pos by (auto simp: tr_pos_def)
  obtain j ks where suf: "suf = j # ks" using ps(2) by (cases suf) auto
  have "\<forall>x\<in>set pre. key m x < l1" using so False ps suf by (force simp: sorted_wrt_append)
  then have dw: "dropWhile (\<lambda>x. key m x < l1) js = dropWhile (\<lambda>x. key m x < l1) (j # ks)"
    unfolding ps(1) suf by (rule dropWhile_skip)
  have "translate_advance m l1 j (key m j) =
    (case dropWhile (\<lambda>x. key m x < l1) (j # ks) of [] \<Rightarrow> Some (-1, -1) | x # xs \<Rightarrow> Some (x, key m x))"
    using chain_suffix [of m f pre j ks] ch so ps(1) suf
    by (intro translate_advance_correct) (auto simp: sorted_wrt_append)
  with False ps suf show ?thesis unfolding dw by simp
qed

lemma tr_pos_dropWhile:
  "tr_pos m js (fst p) (snd p)"
  if "p = (case dropWhile P js of [] \<Rightarrow> (-1, -1) | x # xs \<Rightarrow> (x, key m x))"
proof (cases "dropWhile P js")
  case (Cons x xs)
  then have "js = takeWhile P js @ x # xs" by (metis takeWhile_dropWhile_id)
  then have "\<exists>pre suf. js = pre @ suf \<and> suf \<noteq> [] \<and> x = hd suf" by (metis list.distinct(1) list.sel(1))
  with Cons that show ?thesis by (simp add: tr_pos_def)
next
  case Nil
  show ?thesis unfolding that Nil by (simp add: tr_pos_def)
qed

lemma translate_lookup:
  assumes th: "threaded m f js" and so: "sorted_wrt (<) (map (key m) js)" and dist: "distinct (map lpid m)"
    and l1: "l1 \<noteq> -1" and p: "p = (case dropWhile (\<lambda>x. key m x < l1) js of [] \<Rightarrow> (-1, -1) | x # xs \<Rightarrow> (x, key m x))"
  shows "(if l1 = snd p then fst p else MPI_UNDEFINED) =
    (case rank_in (map lpid m) l1 of Some i \<Rightarrow> i | None \<Rightarrow> MPI_UNDEFINED)"
proof (cases "l1 \<in> set (map lpid m)")
  case False
  then have "l1 \<noteq> key m x" if "x \<in> set js" for x
    using that th False nth_mem [of "nat x" "map lpid m"] by (auto simp: threaded_def nat_less_iff)
  moreover have "set (dropWhile (\<lambda>x. key m x < l1) js) \<subseteq> set js" by (auto dest: set_dropWhileD)
  ultimately have "l1 \<noteq> snd p" using p l1
    by (cases "dropWhile (\<lambda>x. key m x < l1) js") (auto simp del: dropWhile_eq_Nil_conv)
  moreover have "rank_in (map lpid m) l1 = None" using False by (simp only: rank_in_None) simp
  ultimately show ?thesis by simp
next
  case True
  then obtain n where n: "n < length m" "lpid (m ! n) = l1" by (auto simp: in_set_conv_nth)
  then have "int n \<in> set js" using th by (auto simp: threaded_def)
  then obtain pre suf where js: "js = pre @ int n # suf" by (meson split_list)
  have "\<forall>x\<in>set pre. key m x < l1" using so js n by (force simp: sorted_wrt_append)
  then have "dropWhile (\<lambda>x. key m x < l1) js = int n # suf"
    unfolding js by (subst dropWhile_skip) (simp_all add: n)
  with p n have "p = (int n, l1)" by simp
  moreover have "rank_in (map lpid m) l1 = Some (int n)" using rank_in_nth [OF dist, of n] n by simp
  ultimately show ?thesis by simp
qed

lemma translate_slow_correct:
  assumes wf: "group_wf gp1" "group_wf gp2" and ne: "members gp2 \<noteq> []" and tr: "translatable gp1 rs"
    and th: "threaded (lrank_to_lpid gp2) f js" and m1: "-1 \<notin> set (members gp1)"
    and pos: "tr_pos (lrank_to_lpid gp2) js i l"
  shows "translate_slow (lrank_to_lpid gp1) (lrank_to_lpid gp2) f i l rs = Some (map (translated gp1 gp2) rs)"
  using tr pos
proof (induction rs arbitrary: i l)
  case (Cons r rs)
  let ?m = "lrank_to_lpid gp2"
  have tl: "translatable gp1 rs" using Cons.prems by (simp add: translatable_def)
  show ?case
  proof (cases "r = MPI_PROC_NULL")
    case True
    then show ?thesis using Cons.IH [OF tl Cons.prems(2)] by (simp add: translated_def)
  next
    case False
    then have r: "0 \<le> r" "r < g_size gp1" using Cons.prems by (auto simp: translatable_def)
    then obtain e where e: "aget (lrank_to_lpid gp1) r = Some e" "lpid e = members gp1 ! nat r"
      using aget_member [OF wf(1)] by blast
    define p where "p = (case dropWhile (\<lambda>x. key ?m x < lpid e) js of [] \<Rightarrow> (-1, -1) | x # xs \<Rightarrow> (x, key ?m x))"
    have so: "sorted_wrt (<) (map (key ?m) js)"
      using threaded_strict [OF th] group_wfD(4) [OF wf(2)] by (simp add: members_def)
    have js: "js \<noteq> []" using th ne by (auto simp: threaded_def members_def)
    have st: "do { (i, l) \<leftarrow> (if lpid e < l \<or> i < 0 then do { e \<leftarrow> aget ?m f; Some (f, lpid e) } else Some (i, l));
              translate_advance ?m (lpid e) i l } = Some (fst p, snd p)"
      using translate_step [OF _ so js Cons.prems(2), of f "lpid e"] th
      by (cases "dropWhile (\<lambda>x. key ?m x < lpid e) js")
        (simp_all add: threaded_def p_def del: dropWhile_eq_Nil_conv)
    have ne1: "lpid e \<noteq> -1" using e m1 r group_wfD(2) [OF wf(1)] by (metis nat_less_iff nth_mem)
    have "translate_slow (lrank_to_lpid gp1) ?m f (fst p) (snd p) rs = Some (map (translated gp1 gp2) rs)"
      using tr_pos_dropWhile [OF p_def] by (intro Cons.IH [OF tl])
    moreover have "(if lpid e = snd p then fst p else MPI_UNDEFINED) = translated gp1 gp2 r"
      using translate_lookup [OF th so _ ne1 p_def] group_wfD(4) [OF wf(2)] e False
      by (simp add: translated_def members_def)
    moreover obtain i' l' where
      "(if lpid e < l \<or> i < 0 then do { e \<leftarrow> aget ?m f; Some (f, lpid e) } else Some (i, l)) = Some (i', l')"
      "translate_advance ?m (lpid e) i' l' = Some (fst p, snd p)"
      using st by (elim bind_eq_Some_conv [THEN iffD1, elim_format]) auto
    ultimately show ?thesis using False e(1) by (simp add: case_prod_beta)
  qed
qed simp

lemma translate_correct:
  assumes wf: "group_wf gp1" "group_wf gp2" and ne: "members gp2 \<noteq> []" and tr: "translatable gp1 rs"
    and m1: "-1 \<notin> set (members gp1)"
  shows "\<exists>gp2'. MPIR_Group_translate_ranks_impl gp1 rs gp2 = Some (gp2', map (translated gp1 gp2) rs) \<and>
    group_wf gp2' \<and> members gp2' = members gp2"
proof (cases "is_local_dense_monotonic gp2")
  case True
  have d: "dense (members gp2)" using True wf(2) by (simp add: group_wf_def)
  have "aget (lrank_to_lpid gp2) 0 = Some (lrank_to_lpid gp2 ! 0)" "g_size gp2 > 0"
    "lpid (lrank_to_lpid gp2 ! 0) = hd (members gp2)"
    using ne group_wfD(1) [OF wf(2)] by (auto simp: members_def carray_simps hd_conv_nth)
  with True translate_fast_correct [OF wf d ne tr] show ?thesis
    by (simp add: MPIR_Group_translate_ranks_impl_def wf)
next
  case False
  obtain g js where g: "(if idx_of_first_lpid gp2 < 0 then MPII_Group_setup_lpid_list gp2 else Some gp2) = Some g"
    "prepared gp2 g js"
    using setup_lpid_pairs_correct [OF wf(2) wf(2)] by (auto simp: MPIR_Group_setup_lpid_pairs_def bind_eq_Some_conv)
  then have th: "threaded (lrank_to_lpid g) (idx_of_first_lpid g) js" and w: "group_wf g" and mm: "members g = members gp2"
    by (auto simp: prepared_def)
  obtain j ks where js: "js = j # ks" using th ne mm by (cases js) (auto simp: threaded_def members_def)
  then have ix: "idx_of_first_lpid g = j" "0 \<le> j" "aget (lrank_to_lpid g) j = Some (lrank_to_lpid g ! nat j)"
    using th by (auto simp: threaded_def carray_simps)
  have "tr_pos (lrank_to_lpid g) js j (key (lrank_to_lpid g) j)"
    unfolding tr_pos_def js by (metis append_Nil list.distinct(1) list.sel(1))
  from translate_slow_correct [OF wf(1) w _ tr th m1 this] ne mm
  have "translate_slow (lrank_to_lpid gp1) (lrank_to_lpid g) (idx_of_first_lpid g) j (key (lrank_to_lpid g) j) rs =
    Some (map (translated gp1 gp2) rs)" by (simp add: translated_def [abs_def])
  with False g(1) ix w mm show ?thesis by (simp add: MPIR_Group_translate_ranks_impl_def)
qed

end
