(* ===== verification/Group_Theorems.thy ===== *)
theory Group_Theorems
  imports Group_Ranks
begin

text \<open>
  What the group component promises, stated on the operations of \<open>MPIR_Groups\<close>: the contract of
  process sets as a locale, its interpretation on the three set operations, the membership check
  against a communicator, the groups made from process sets, and the properties of the component
  with a concrete instance for each.
\<close>

section \<open>Membership in a communicator\<close>

text \<open>lpids below \<open>2^31\<close>, which an \<open>int\<close> variable holds unchanged.\<close>

definition int_lpids :: "64 word list \<Rightarrow> bool" where
  "int_lpids ls \<longleftrightarrow> (\<forall>l\<in>set ls. uint l \<le> INT_MAX)"

lemma int_of_lpid_id:
  assumes "uint l \<le> INT_MAX"
  shows "int_of_lpid l = uint l"
proof -
  have "take_bit 32 (uint l) = uint l" "signed_take_bit 31 (uint l) = uint l"
    using assms by (auto simp: INT_MAX_def take_bit_int_eq_self_iff signed_take_bit_int_eq_self_iff
        intro: order_trans [OF _ unsigned_greater_eq])
  then show ?thesis unfolding int_of_lpid_def by (simp add: signed_ucast_eq)
qed

lemma subset_walk_correct:
  assumes "chain 0 m i1 js1" and "chain 0 v i2 js2"
    and "sorted_wrt (<) (map (key m) js1)" and "sorted_wrt (<) (map (key v) js2)"
    and "\<forall>j\<in>set js1. uint (key m j) \<le> INT_MAX" and "\<forall>j\<in>set js2. uint (key v j) \<le> INT_MAX"
  shows "\<exists>i. subset_walk m v i1 i2 = Some i \<and> (0 \<le> i \<longleftrightarrow> \<not> key m ` set js1 \<subseteq> key v ` set js2)"
  using assms
proof (induction "length js1 + length js2" arbitrary: js1 js2 i1 i2 rule: less_induct)
  case less
  show ?case
  proof (cases "js1 = [] \<or> js2 = []")
    case True
    with less.prems show ?thesis by (cases js1) (auto simp: subset_walk.simps)
  next
    case False
    then obtain x xs y ys where js: "js1 = x # xs" "js2 = y # ys" by (auto simp: neq_Nil_conv)
    note p = less.prems [unfolded js, simplified]
    have i: "i1 = x" "i2 = y" using p by auto
    have cmp: "int_of_lpid (key m x) < int_of_lpid (key v y) \<longleftrightarrow> key m x < key v y"
      "int_of_lpid (key v y) < int_of_lpid (key m x) \<longleftrightarrow> key v y < key m x"
      using p(5,6) by (simp_all add: int_of_lpid_id word_less_def)
    note step = subset_walk.simps [of m v x y]
    consider "key m x < key v y" | "key m x > key v y" | "key m x = key v y" by fastforce
    then show ?thesis
    proof cases
      case 1
      then have "key m x \<notin> key v ` set (y # ys)" using p(4) by auto
      with 1 p show ?thesis by (auto simp: i js step carray_simps cmp)
    next
      case 2
      from 2 p have "subset_walk m v i1 i2 = subset_walk m v x (next_lpid (v ! nat y))"
        by (auto simp: i step carray_simps cmp)
      moreover have "key m ` set (x # xs) \<subseteq> key v ` set (y # ys) \<longleftrightarrow> key m ` set (x # xs) \<subseteq> key v ` set ys"
      proof -
        have "key v y \<notin> key m ` set (x # xs)" using 2 p(3) by (auto dest: less_trans)
        from subset_insert [OF this, of "key v ` set ys"] show ?thesis by simp
      qed
      ultimately show ?thesis using less.hyps [of "x # xs" ys x "next_lpid (v ! nat y)"] p by (simp add: js)
    next
      case 3
      from 3 p have "subset_walk m v i1 i2 = subset_walk m v (next_lpid (m ! nat x)) (next_lpid (v ! nat y))"
        by (auto simp: i step carray_simps cmp)
      moreover have "key m ` set (x # xs) \<subseteq> key v ` set (y # ys) \<longleftrightarrow> key m ` set xs \<subseteq> key v ` set ys"
        using 3 p(3) by force
      ultimately show ?thesis
        using less.hyps [of xs ys "next_lpid (m ! nat x)" "next_lpid (v ! nat y)"] p by (simp add: js)
    qed
  qed
qed

lemma check_subset_correct:
  assumes wf: "group_wf g" and v: "distinct ls" and b: "int_lpids (members g)" "int_lpids ls"
  shows "\<exists>g' js. MPIR_Group_check_subset g ls =
      Some (g', if set (members g) \<subseteq> set ls then Inr () else Inl MPI_ERR_GROUP) \<and> prepared g g' js"
proof -
  obtain g' js1 where g: "MPII_Group_setup_lpid_list g = Some g'" "prepared g g' js1"
    using setup_lpid_list_correct [OF wf] by blast
  then have th1: "threaded (lrank_to_lpid g') (idx_of_first_lpid g') js1" and mm: "members g' = members g"
    by (simp_all add: prepared_def)
  let ?v = "map (\<lambda>l. \<lparr>lpid = l, next_lpid = 0\<rparr>) ls"
  obtain f w js2 where w: "mergesort_lpidarray ?v = Some (f, w)" "map lpid w = ls" "threaded w f js2"
    using mergesort_correct [of ?v] by (auto simp: sorts_to_def same_lpids_def comp_def)
  note k1 = threaded_keys [OF th1] and k2 = threaded_keys [OF w(3)]
  have "\<exists>i. subset_walk (lrank_to_lpid g') w (idx_of_first_lpid g') f = Some i \<and>
    (0 \<le> i \<longleftrightarrow> \<not> key (lrank_to_lpid g') ` set js1 \<subseteq> key w ` set js2)"
  proof (rule subset_walk_correct)
    show "sorted_wrt (<) (map (key (lrank_to_lpid g')) js1)"
      using threaded_strict [OF th1] group_wfD(4) [OF wf] mm by (simp add: members_def)
    show "sorted_wrt (<) (map (key w) js2)" using threaded_strict [OF w(3)] v w(2) by simp
    show "\<forall>j\<in>set js1. uint (key (lrank_to_lpid g') j) \<le> INT_MAX"
      using k1 b(1) mm unfolding int_lpids_def members_def by (metis imageI)
    show "\<forall>j\<in>set js2. uint (key w j) \<le> INT_MAX" using k2 b(2) w(2) by (auto simp: int_lpids_def)
  qed (use th1 w(3) in \<open>simp_all add: threaded_def\<close>)
  then obtain i where "subset_walk (lrank_to_lpid g') w (idx_of_first_lpid g') f = Some i"
    "0 \<le> i \<longleftrightarrow> \<not> set (members g) \<subseteq> set ls"
    unfolding k1 k2 w(2) using mm unfolding members_def by metis
  then show ?thesis using g w by (auto simp: MPIR_Group_check_subset_def)
qed

section \<open>Process sets as an interface\<close>

text \<open>
  What a client of the group operations relies on: an ordered list of distinct processes for each
  group, and the list that each set operation returns.
\<close>

locale process_sets =
  fixes wf :: "'g \<Rightarrow> bool" and mem :: "'g \<Rightarrow> 'p list"
    and un :: "'g \<Rightarrow> 'g \<Rightarrow> 'g option" and inter :: "'g \<Rightarrow> 'g \<Rightarrow> 'g option" and diff :: "'g \<Rightarrow> 'g \<Rightarrow> 'g option"
  assumes dist: "wf a \<Longrightarrow> distinct (mem a)"
    and un_ok: "wf a \<Longrightarrow> wf b \<Longrightarrow>
      \<exists>c. un a b = Some c \<and> wf c \<and> mem c = mem a @ filter (\<lambda>p. p \<notin> set (mem a)) (mem b)"
    and inter_ok: "wf a \<Longrightarrow> wf b \<Longrightarrow> \<exists>c. inter a b = Some c \<and> wf c \<and> mem c = filter (\<lambda>p. p \<in> set (mem b)) (mem a)"
    and diff_ok: "wf a \<Longrightarrow> wf b \<Longrightarrow> \<exists>c. diff a b = Some c \<and> wf c \<and> mem c = filter (\<lambda>p. p \<notin> set (mem b)) (mem a)"
begin

lemma un_assoc:
  assumes "wf a" and "wf b" and "wf c"
  shows "\<exists>l r. (un a b \<bind> (\<lambda>x. un x c)) = Some l \<and> (un b c \<bind> un a) = Some r \<and> mem l = mem r"
proof -
  obtain ab bc where ab: "un a b = Some ab" "wf ab" "mem ab = mem a @ filter (\<lambda>p. p \<notin> set (mem a)) (mem b)"
    and bc: "un b c = Some bc" "wf bc" "mem bc = mem b @ filter (\<lambda>p. p \<notin> set (mem b)) (mem c)"
    using un_ok assms by meson
  obtain l r where "un ab c = Some l" "mem l = mem ab @ filter (\<lambda>p. p \<notin> set (mem ab)) (mem c)"
    "un a bc = Some r" "mem r = mem a @ filter (\<lambda>p. p \<notin> set (mem a)) (mem bc)"
    using un_ok [OF ab(2) assms(3)] un_ok [OF assms(1) bc(2)] by blast
  moreover have "filter (\<lambda>p. p \<notin> set (mem ab)) (mem c) =
    filter (\<lambda>p. p \<notin> set (mem a)) (filter (\<lambda>p. p \<notin> set (mem b)) (mem c))"
    by (auto simp: ab(3) intro!: filter_cong)
  ultimately show ?thesis using ab bc by simp
qed

lemma sizes:
  assumes "wf a" and "wf b"
  shows "\<exists>u i. un a b = Some u \<and> inter a b = Some i \<and> length (mem u) + length (mem i) = length (mem a) + length (mem b)"
proof -
  obtain u i where u: "un a b = Some u" "mem u = mem a @ filter (\<lambda>p. p \<notin> set (mem a)) (mem b)"
    and i: "inter a b = Some i" "mem i = filter (\<lambda>p. p \<in> set (mem b)) (mem a)"
    using un_ok inter_ok assms by meson
  have "length (filter (\<lambda>p. p \<in> set (mem b)) (mem a)) = length (filter (\<lambda>p. p \<in> set (mem a)) (mem b))"
    using dist [OF assms(1)] dist [OF assms(2)]
    by (simp add: distinct_card [symmetric]) (metis Collect_conj_eq Collect_mem_eq inf_commute)
  then show ?thesis using u i sum_length_filter_compl [of "\<lambda>p. p \<in> set (mem a)" "mem b"] by simp
qed

lemma partition:
  assumes "wf a" and "wf b"
  shows "\<exists>d i u. diff a b = Some d \<and> inter a b = Some i \<and> un d i = Some u \<and> wf u \<and>
    set (mem d) \<inter> set (mem i) = {} \<and> set (mem u) = set (mem a) \<and> length (mem u) = length (mem a)"
proof -
  obtain d i where d: "diff a b = Some d" "wf d" "mem d = filter (\<lambda>p. p \<notin> set (mem b)) (mem a)"
    and i: "inter a b = Some i" "wf i" "mem i = filter (\<lambda>p. p \<in> set (mem b)) (mem a)"
    using diff_ok inter_ok assms by meson
  obtain u where u: "un d i = Some u" "wf u" "mem u = mem d @ filter (\<lambda>p. p \<notin> set (mem d)) (mem i)"
    using un_ok [OF d(2) i(2)] by blast
  have su: "set (mem u) = set (mem a)" by (auto simp: u(3) d(3) i(3))
  have "length (mem u) = length (mem a)"
    using su dist [OF u(2)] dist [OF assms(1)] by (metis distinct_card)
  with su d i u show ?thesis by auto
qed

end

text \<open>The group operations in an environment whose allocations succeed.\<close>

definition with_memory :: "group_env \<Rightarrow> group_env" where
  "with_memory env = env\<lparr>obj_alloc_ok := True, calloc_ok := True\<rparr>"

definition new_of :: "set_op_result \<Rightarrow> MPIR_Group option" where
  "new_of r = (case r of Some (Inr (env, g1, g2, new)) \<Rightarrow> Some new | _ \<Rightarrow> None)"

definition lpid_group :: "MPIR_Group \<Rightarrow> bool" where
  "lpid_group g \<longleftrightarrow> group_wf g \<and> (\<forall>l\<in>set (members g). uint l < INT_MAX)"

lemma set_op_new_of:
  assumes "set_op_ok (with_memory env) g1 g2 ls me r" and "\<forall>l\<in>set ls. uint l < INT_MAX"
  shows "\<exists>c. new_of r = Some c \<and> lpid_group c \<and> members c = ls"
  using assms unfolding set_op_ok_def lpid_group_def
  by (cases "ls = []") (auto simp: new_of_def with_memory_def alloc_ok_def new_group_ok_def)

lemma lpids_bound:
  assumes "distinct ls" and "\<forall>l\<in>set ls. uint (l :: 64 word) < INT_MAX"
  shows "int (length ls) \<le> INT_MAX"
proof -
  have "card (uint ` set ls) \<le> card {0..<INT_MAX}" using assms(2) by (intro card_mono) auto
  moreover have "card (uint ` set ls) = length ls"
    using assms(1) by (subst card_image) (auto simp: inj_on_def distinct_card word_uint_eq_iff)
  ultimately show ?thesis by (simp add: INT_MAX_def)
qed

lemma union_fits:
  assumes "lpid_group a" and "lpid_group b"
  shows "g_size a + int (length (filter (\<lambda>l. l \<notin> set (members a)) (members b))) \<le> INT_MAX"
proof -
  have wf: "group_wf a" "group_wf b" using assms by (simp_all add: lpid_group_def)
  have "int (length (members a @ filter (\<lambda>l. l \<notin> set (members a)) (members b))) \<le> INT_MAX"
    using assms group_wfD(4) [OF wf(1)] group_wfD(4) [OF wf(2)]
    by (intro lpids_bound) (auto simp: lpid_group_def)
  then show ?thesis using group_wfD(2) [OF wf(1)] by simp
qed

interpretation groups: process_sets lpid_group members
  "\<lambda>a b. new_of (MPIR_Group_union_impl (with_memory env) a b)"
  "\<lambda>a b. new_of (MPIR_Group_intersection_impl (with_memory env) a b)"
  "\<lambda>a b. new_of (MPIR_Group_difference_impl (with_memory env) a b)" for env
proof (unfold_locales, goal_cases)
  case (1 a)
  then show ?case by (simp add: lpid_group_def group_wfD)
next
  case (2 a b)
  have "- 2 \<notin> set (members b)" using 2(2) by (auto simp: lpid_group_def INT_MAX_def)
  with 2 show ?case
    by (intro set_op_new_of [OF union_correct] union_fits) (auto simp: lpid_group_def)
next
  case (3 a b)
  then show ?case by (intro set_op_new_of [OF intersection_correct]) (auto simp: lpid_group_def)
next
  case (4 a b)
  then show ?case by (intro set_op_new_of [OF difference_correct]) (auto simp: lpid_group_def)
qed

section \<open>Groups from process sets\<close>

lemma chain_upto:
  assumes "0 \<le> i" and "i \<le> int (length m)" and "\<And>j. 0 \<le> j \<Longrightarrow> j < int (length m) \<Longrightarrow>
    next_lpid (m ! nat j) = (if j + 1 < int (length m) then j + 1 else -1)"
  shows "chain 0 m (if i < int (length m) then i else -1) [i..int (length m) - 1]"
  using assms(1,2)
proof (induction "nat (int (length m) - i)" arbitrary: i)
  case (Suc n)
  then have "chain 0 m (if i + 1 < int (length m) then i + 1 else -1) [i + 1..int (length m) - 1]" by simp
  with Suc assms(3) [of i] show ?case by (auto simp: upto_rec1 [of i])
qed auto

lemma world_group:
  assumes n: "0 < world_size env" "world_size env \<le> INT_MAX" and r: "0 \<le> world_rank env" "world_rank env < world_size env"
    and al: "alloc_ok env"
  shows "\<exists>g. MPIR_Group_from_session_pset_impl env s World_Pset psets = Some (Inr (session_env env s, g)) \<and>
    group_wf g \<and> members g = map word_of_int [0..world_size env - 1] \<and> own g = Some (word_of_int (world_rank env)) \<and>
    is_local_dense_monotonic g \<and> session_ptr g = s"
proof -
  let ?n = "world_size env"
  let ?m = "map (\<lambda>i. \<lparr>lpid = word_of_int i, next_lpid = (if i + 1 < ?n then i + 1 else -1)\<rparr>) [0..?n - 1]"
  let ?g = "\<lparr>g_handle = new_handle env, g_ref_count = 1, g_size = ?n, g_rank = world_rank env, idx_of_first_lpid = 0,
     lrank_to_lpid = ?m, is_local_dense_monotonic = True, session_ptr = s\<rparr>"
  have ran: "MPIR_Group_from_session_pset_impl env s World_Pset psets = Some (Inr (session_env env s, ?g))"
    using n al by (simp add: MPIR_Group_from_session_pset_impl_def MPIR_Group_create_def alloc_ok_def set_session_ptr_eq)
  have len: "int (length ?m) = ?n" using n by simp
  have mem: "members ?g = map word_of_int [0..?n - 1]" by (simp add: members_def)
  have u: "uint (word_of_int i :: 64 word) = i" if "0 \<le> i" "i < ?n" for i
    using that n by (simp add: uint_word_of_int INT_MAX_def)
  have "inj_on (word_of_int :: int \<Rightarrow> 64 word) {0..?n - 1}"
    by (rule inj_on_inverseI [of _ uint]) (use u in auto)
  then have dist: "distinct (members ?g)" by (simp add: mem distinct_map)
  have ch: "chain 0 ?m 0 [0..?n - 1]"
    using chain_upto [of 0 ?m, unfolded len] n by (simp add: nth_upto)
  have srt: "sorted (map (\<lambda>j. lpid (?m ! nat j)) [0..?n - 1])"
  proof -
    have "map (\<lambda>j. lpid (?m ! nat j)) [0..?n - 1] = map word_of_int [0..?n - 1]"
      by (rule nth_equalityI) (auto simp: nth_upto)
    moreover have "sorted (map (word_of_int :: int \<Rightarrow> 64 word) [0..?n - 1])"
    proof (rule sorted_map_mono)
      show "sorted [0..?n - 1]" by simp
      show "mono_on (set [0..?n - 1]) (word_of_int :: int \<Rightarrow> 64 word)"
        using u by (auto intro!: mono_onI simp: word_le_def)
    qed
    ultimately show ?thesis by (simp only:)
  qed
  have "threaded ?m 0 [0..?n - 1]" using ch srt n by (auto simp: threaded_def)
  moreover have "dense (members ?g)" unfolding mem by (auto simp: dense_def nth_upto)
  ultimately have wf: "group_wf ?g" using dist n r len by (auto simp: group_wf_def)
  have "own ?g = Some (word_of_int (world_rank env))"
    unfolding own_def mem using r by (simp add: nth_upto MPI_UNDEFINED_def)
  with ran wf mem show ?thesis by auto
qed

lemma pset_bad_link:
  assumes al: "alloc_ok env" and p: "psets n = Some ms" and l: "2 \<le> length ms" "int (length ms) \<le> ms ! 1"
  shows "\<exists>env' g. MPIR_Group_from_session_pset_impl env s (Pset n) psets = Some (Inr (env', g)) \<and>
    g_size g = int (length ms) \<and> next_lpid (lrank_to_lpid g ! 0) = ms ! 1 \<and> MPIR_Group_compare_impl g g = None"
proof -
  obtain g where g: "MPIR_Group_from_session_pset_impl env s (Pset n) psets = Some (Inr (session_env env s, g))"
    "g_size g = int (length ms)" "lrank_to_lpid g = pset_links ms" "idx_of_first_lpid g = 0"
    using al p l by (cases ms)
      (auto simp: MPIR_Group_from_session_pset_impl_def MPIR_Group_create_def alloc_ok_def set_session_ptr_eq)
  have "0 < length ms" "Suc 0 < length ms" using l(1) by linarith+
  then have m: "length (pset_links ms) = length ms" "next_lpid (pset_links ms ! 0) = ms ! 1"
    by (simp_all add: pset_links_def)
  have "compare_walk (pset_links ms) (pset_links ms) 0 0 = None"
    using m l by (subst compare_walk.simps, subst compare_walk.simps) (simp add: carray_simps aget_def)
  with g m show ?thesis by (auto simp: MPIR_Group_compare_impl_def MPIR_Group_setup_lpid_pairs_def)
qed

section \<open>The check of a rank list\<close>

lemma check_ranks_loop:
  assumes "0 \<le> i" and "i + int (length rs) \<le> int (length flags)" and "\<forall>j\<ge>nat i. j < length flags \<longrightarrow> flags ! j = 0"
  shows "check_valid_ranks_loop n i rs flags =
    Some (if \<forall>r\<in>set rs. 0 \<le> r \<and> r < n then Inr () else Inl MPI_ERR_RANK)"
  using assms
proof (induction rs arbitrary: i flags)
  case (Cons r rs)
  have "check_valid_ranks_loop n (i + 1) rs (flags[nat i := i + 1]) =
    Some (if \<forall>r\<in>set rs. 0 \<le> r \<and> r < n then Inr () else Inl MPI_ERR_RANK)"
    using Cons.prems by (intro Cons.IH) (auto simp: nth_list_update)
  with Cons.prems show ?case by (auto simp: carray_simps)
qed simp

lemma copy_loop_overflow:
  assumes "length fs = length es" and "0 \<le> k" and "int (length (lrank_to_lpid new)) < k + int (length (selected want es fs))"
    and "k \<le> int (length (lrank_to_lpid new))"
  shows "copy_loop want r i es fs k new = None"
  using assms
proof (induction es fs arbitrary: i k new rule: list_induct2')
  case (4 e es f fs)
  show ?case
  proof (cases "f = want")
    case True
    show ?thesis
    proof (cases "k < int (length (lrank_to_lpid new))")
      case True
      then show ?thesis using 4 \<open>f = want\<close> by (simp add: carray_simps)
    qed (use True in \<open>simp add: aget_def\<close>)
  qed (use 4 in simp)
qed auto

lemma excl_repeated:
  assumes wf: "group_wf g" and al: "alloc_ok env" and r: "0 \<le> r" "r < g_size g" and n: "2 \<le> g_size g"
  shows "MPIR_Group_excl_impl env g [r, r] = None"
proof -
  let ?fs = "(replicate (nat (g_size g)) False)[nat r := True]"
  have v: "valid_ranks g [r]" using r by (simp add: valid_ranks_def)
  have fl: "ofold mark_rank [r, r] (replicate (nat (g_size g)) False) = Some ?fs"
    using r by (simp add: mark_rank_def carray_simps)
  have "?fs = map (\<lambda>l. l \<in> set (at_ranks g [r])) (members g)"
    using mark_members [OF wf v] by simp
  then have "map lpid (selected False (lrank_to_lpid g) ?fs) = not_at_ranks g [r]"
    unfolding map_selected members_def [symmetric] by (simp only: selected_map not_at_ranks_def) simp
  then have "length (selected False (lrank_to_lpid g) ?fs) = length (not_at_ranks g [r])"
    by (metis length_map)
  also have "\<dots> = nat (g_size g - 1)" using length_not_at_ranks [OF wf v] by simp
  finally have "copy_loop False q 0 (lrank_to_lpid g) ?fs 0 new = None"
    if "length (lrank_to_lpid new) = nat (g_size g - 2)" for new q
    using that n group_wfD(3) [OF wf] by (intro copy_loop_overflow) auto
  then show ?thesis using al n unfolding MPIR_Group_excl_impl_def fl
    by (simp add: MPIR_Group_create_def alloc_ok_def Let_def)
qed

section \<open>Concrete groups\<close>

definition group_of :: "64 word list \<Rightarrow> int \<Rightarrow> MPIR_Group" where
  "group_of ls r = \<lparr>g_handle = 7, g_ref_count = 1, g_size = int (length ls), g_rank = r, idx_of_first_lpid = -1,
     lrank_to_lpid = map (\<lambda>l. \<lparr>lpid = l, next_lpid = 0\<rparr>) ls, is_local_dense_monotonic = False, session_ptr = None\<rparr>"

definition four_procs :: group_env where
  "four_procs = \<lparr>obj_alloc_ok = True, calloc_ok = True, new_handle = 9, stale_rank = 77,
     session_refs = (\<lambda>_. 1), world_size = 4, world_rank = 2\<rparr>"

lemma group_of_members [simp]: "members (group_of ls r) = ls" "g_size (group_of ls r) = int (length ls)"
  by (simp_all add: group_of_def members_def comp_def)

lemma group_of_wf:
  "group_wf (group_of ls r) \<longleftrightarrow> int (length ls) \<le> INT_MAX \<and> distinct ls \<and> (r = MPI_UNDEFINED \<or> 0 \<le> r \<and> r < int (length ls))"
  using group_of_members(1) [of ls r] by (auto simp: group_wf_def group_of_def)

lemma group_of_own [simp]: "own (group_of ls r) = (if r = MPI_UNDEFINED then None else Some (ls ! nat r))"
  by (simp add: own_def) (simp add: group_of_def)

lemma four_procs_alloc [simp]: "alloc_ok four_procs" "world_size four_procs = 4" "world_rank four_procs = 2"
  by (simp_all add: alloc_ok_def four_procs_def)

lemmas examples = group_of_wf lpid_group_def INT_MAX_def MPI_UNDEFINED_def MPI_PROC_NULL_def

section \<open>Properties of the component\<close>

text \<open>C1: the lazy sort of a process map terminates without leaving the array, keeps every lpid at its
  rank, and threads the entries into one list that visits each index once, in lpid order.\<close>

theorem lpid_list_sorted:
  "\<exists>f a' js. mergesort_lpidarray a = Some (f, a') \<and> map lpid a' = map lpid a \<and> chain 0 a' f js \<and>
     distinct js \<and> set js = {0..<int (length a)} \<and> sorted (map (\<lambda>j. lpid (a' ! nat j)) js)"
proof -
  obtain f a' js where "mergesort_lpidarray a = Some (f, a')" "same_lpids a a'" "threaded a' f js"
    using mergesort_correct [of a] by (auto simp: sorts_to_def)
  then show ?thesis using same_lpids_length [of a a'] by (auto simp: same_lpids_def threaded_def)
qed

text \<open>C3: \<open>MPIR_Group_difference_impl\<close> returns the members of the first group that the second lacks,
  in their order, with the caller's new rank; the inputs only gain their ordered list, and a failed
  allocation is reported.\<close>

theorem group_difference:
  assumes "group_wf g1" and "group_wf g2"
  shows "set_op_ok env g1 g2 (filter (\<lambda>l. l \<notin> set (members g2)) (members g1))
    (keep (filter (\<lambda>l. l \<notin> set (members g2)) (members g1)) (own g1)) (MPIR_Group_difference_impl env g1 g2)"
  using assms by (rule difference_correct)

theorem group_difference_witness:
  "group_wf (group_of [5, 2, 9] 1) \<and> group_wf (group_of [9, 5] 0) \<and>
   set_op_ok four_procs (group_of [5, 2, 9] 1) (group_of [9, 5] 0) [2] (Some 2)
     (MPIR_Group_difference_impl four_procs (group_of [5, 2, 9] 1) (group_of [9, 5] 0))"
  using group_difference [of "group_of [5, 2, 9] 1" "group_of [9, 5] 0" four_procs]
  by (simp add: examples keep_def)

text \<open>C4: \<open>MPIR_Group_intersection_impl\<close> returns the common members in the order of the first group.\<close>

theorem group_intersection:
  assumes "group_wf g1" and "group_wf g2"
  shows "set_op_ok env g1 g2 (filter (\<lambda>l. l \<in> set (members g2)) (members g1))
    (keep (filter (\<lambda>l. l \<in> set (members g2)) (members g1)) (own g1)) (MPIR_Group_intersection_impl env g1 g2)"
  using assms by (rule intersection_correct)

theorem group_intersection_witness:
  "group_wf (group_of [5, 2, 9] 1) \<and> group_wf (group_of [9, 5] 0) \<and>
   set_op_ok four_procs (group_of [5, 2, 9] 1) (group_of [9, 5] 0) [5, 9] None
     (MPIR_Group_intersection_impl four_procs (group_of [5, 2, 9] 1) (group_of [9, 5] 0))"
  using group_intersection [of "group_of [5, 2, 9] 1" "group_of [9, 5] 0" four_procs]
  by (simp add: examples keep_def)

text \<open>C2: \<open>MPIR_Group_union_impl\<close> returns the first group followed by the members only the second has,
  and finds the caller's rank in either, provided the lpid \<open>-2\<close>, which the code uses as a mark, is not
  in use and the new size is an \<open>int\<close>.\<close>

theorem group_union:
  assumes "group_wf g1" and "group_wf g2" and "- 2 \<notin> set (members g2)"
    and "g_size g1 + int (length (filter (\<lambda>l. l \<notin> set (members g1)) (members g2))) \<le> INT_MAX"
  shows "set_op_ok env g1 g2 (members g1 @ filter (\<lambda>l. l \<notin> set (members g1)) (members g2))
    (union_own g1 g2) (MPIR_Group_union_impl env g1 g2)"
  using assms by (rule union_correct)

theorem group_union_witness:
  "group_wf (group_of [5, 2] MPI_UNDEFINED) \<and> group_wf (group_of [2, 9] 1) \<and>
   set_op_ok four_procs (group_of [5, 2] MPI_UNDEFINED) (group_of [2, 9] 1) [5, 2, 9] (Some 9)
     (MPIR_Group_union_impl four_procs (group_of [5, 2] MPI_UNDEFINED) (group_of [2, 9] 1))"
  using group_union [of "group_of [5, 2] MPI_UNDEFINED" "group_of [2, 9] 1" four_procs]
  by (simp add: examples union_own_def)

text \<open>C6: \<open>MPIR_Group_compare_impl\<close> answers identical, similar or unequal exactly as the ordered and
  unordered membership of the two groups does.\<close>

theorem group_compare:
  assumes "group_wf g1" and "group_wf g2"
  shows "\<exists>h1 h2. MPIR_Group_compare_impl g1 g2 = Some (h1, h2,
      if members g1 = members g2 then MPI_IDENT
      else if set (members g1) = set (members g2) then MPI_SIMILAR else MPI_UNEQUAL) \<and>
    members h1 = members g1 \<and> members h2 = members g2 \<and> group_wf h1 \<and> group_wf h2"
  using compare_correct [OF assms] by (simp add: cmp_spec_def)

theorem group_compare_witness:
  "\<exists>h1 h2. MPIR_Group_compare_impl (group_of [5, 2, 9] 1) (group_of [9, 5, 2] 2) = Some (h1, h2, MPI_SIMILAR)"
  using group_compare [of "group_of [5, 2, 9] 1" "group_of [9, 5, 2] 2"]
  by (auto simp: examples)

text \<open>C10: the set operations obey the laws of ordered sets: \<open>a\<close> splits into \<open>a - b\<close> and
  \<open>a \<inter> b\<close>, which are disjoint and whose union has the members of \<open>a\<close> again.\<close>

theorem group_partition:
  assumes "lpid_group a" and "lpid_group b"
  shows "\<exists>d i u. new_of (MPIR_Group_difference_impl (with_memory env) a b) = Some d \<and>
    new_of (MPIR_Group_intersection_impl (with_memory env) a b) = Some i \<and>
    new_of (MPIR_Group_union_impl (with_memory env) d i) = Some u \<and> lpid_group u \<and>
    set (members d) \<inter> set (members i) = {} \<and> set (members u) = set (members a) \<and>
    length (members u) = length (members a)"
  using assms by (rule groups.partition)

theorem group_partition_witness:
  "lpid_group (group_of [5, 2, 9] 1) \<and> lpid_group (group_of [9, 5] 0) \<and>
   (\<exists>d i u. new_of (MPIR_Group_difference_impl (with_memory four_procs) (group_of [5, 2, 9] 1) (group_of [9, 5] 0)) = Some d \<and>
    new_of (MPIR_Group_intersection_impl (with_memory four_procs) (group_of [5, 2, 9] 1) (group_of [9, 5] 0)) = Some i \<and>
    new_of (MPIR_Group_union_impl (with_memory four_procs) d i) = Some u \<and> set (members u) = {5, 2, 9})"
proof -
  have g: "lpid_group (group_of [5, 2, 9] 1)" "lpid_group (group_of [9, 5] 0)" by (simp_all add: examples)
  from group_partition [OF this, of four_procs] g show ?thesis by auto
qed

text \<open>The union of groups is associative, rank by rank.\<close>

theorem group_union_assoc:
  assumes "lpid_group a" and "lpid_group b" and "lpid_group c"
  shows "\<exists>l r.
    (new_of (MPIR_Group_union_impl (with_memory env) a b) \<bind>
       (\<lambda>x. new_of (MPIR_Group_union_impl (with_memory env) x c))) = Some l \<and>
    (new_of (MPIR_Group_union_impl (with_memory env) b c) \<bind>
       (\<lambda>x. new_of (MPIR_Group_union_impl (with_memory env) a x))) = Some r \<and> members l = members r"
  using assms by (rule groups.un_assoc)

theorem group_union_assoc_witness:
  "\<exists>l r.
    (new_of (MPIR_Group_union_impl (with_memory four_procs) (group_of [3] 0) (group_of [1, 3] 1)) \<bind>
       (\<lambda>x. new_of (MPIR_Group_union_impl (with_memory four_procs) x (group_of [2, 1] 0)))) = Some l \<and>
    (new_of (MPIR_Group_union_impl (with_memory four_procs) (group_of [1, 3] 1) (group_of [2, 1] 0)) \<bind>
       (\<lambda>x. new_of (MPIR_Group_union_impl (with_memory four_procs) (group_of [3] 0) x))) = Some r \<and>
    members l = members r"
  by (rule group_union_assoc) (simp_all add: examples)

text \<open>C9: \<open>MPIR_Group_incl_impl\<close> builds the group of the listed ranks in the listed order.\<close>

theorem group_incl:
  assumes "group_wf g" and "valid_ranks g rs"
  shows "select_ok env g (at_ranks g rs) (MPIR_Group_incl_impl env g rs)"
  using assms by (rule incl_correct)

theorem group_incl_witness:
  "valid_ranks (group_of [5, 2, 9] 1) [2, 1] \<and>
   select_ok four_procs (group_of [5, 2, 9] 1) [9, 2] (MPIR_Group_incl_impl four_procs (group_of [5, 2, 9] 1) [2, 1])"
  using group_incl [of "group_of [5, 2, 9] 1" "[2, 1]" four_procs]
  by (simp add: examples valid_ranks_def at_ranks_def)

text \<open>\<open>MPIR_Group_excl_impl\<close> builds the group of the ranks that are not listed, in their old order.\<close>

theorem group_excl:
  assumes "group_wf g" and "valid_ranks g rs" and "int (length rs) < g_size g"
  shows "select_ok env g (not_at_ranks g rs) (MPIR_Group_excl_impl env g rs)"
  using assms by (rule excl_correct)

theorem group_excl_witness:
  "valid_ranks (group_of [5, 2, 9] 1) [0] \<and>
   select_ok four_procs (group_of [5, 2, 9] 1) [2, 9] (MPIR_Group_excl_impl four_procs (group_of [5, 2, 9] 1) [0])"
  using group_excl [of "group_of [5, 2, 9] 1" "[0]" four_procs]
  by (simp add: examples valid_ranks_def at_ranks_def not_at_ranks_def)

text \<open>C8: the two range constructors select exactly the ranks that the ranges enumerate, and the
  complement of them.\<close>

theorem group_ranges:
  assumes "group_wf g" and "\<forall>r\<in>set rs. valid_range (g_size g) r \<and> no_overflow r" and "valid_ranks g (ranges_ranks rs)"
  shows "select_ok env g (at_ranks g (ranges_ranks rs)) (MPIR_Group_range_incl_impl env g rs) \<and>
    select_ok env g (not_at_ranks g (ranges_ranks rs)) (MPIR_Group_range_excl_impl env g rs)"
  using range_incl_correct [OF assms] range_excl_correct [OF assms] by blast

lemma example_ranges:
  "ranges_ranks [(3, 0, -2), (0, 0, 1)] = [3, 1, 0]"
  by (simp add: range_ranks_def cdiv_def upt_rec)

theorem group_ranges_witness:
  "valid_ranks (group_of [5, 2, 9, 4] 1) [3, 1, 0] \<and>
   select_ok four_procs (group_of [5, 2, 9, 4] 1) [4, 2, 5]
     (MPIR_Group_range_incl_impl four_procs (group_of [5, 2, 9, 4] 1) [(3, 0, -2), (0, 0, 1)])"
  using group_ranges [of "group_of [5, 2, 9, 4] 1" "[(3, 0, -2), (0, 0, 1)]" four_procs]
  unfolding example_ranges
  by (simp add: examples valid_ranks_def at_ranks_def valid_range_def no_overflow_def cdiv_def)

text \<open>C7: \<open>MPIR_Group_check_valid_ranges\<close> accepts exactly the range lists that the constructors handle:
  every range inside the group and no rank named twice.  Each range keeps the 32-bit arithmetic of the
  check in range: the difference of its last and first rank is above \<open>INT_MIN\<close> and one step past its last
  rank is at most \<open>INT_MAX\<close>.\<close>

theorem check_ranges_decides:
  assumes "group_wf g" and "\<forall>r\<in>set rs. no_overflow r \<and> last_fits r"
  shows "MPIR_Group_check_valid_ranges g rs =
    Some (if (\<forall>r\<in>set rs. valid_range (g_size g) r) \<and> valid_ranks g (ranges_ranks rs) then Inr () else Inl MPI_ERR_ARG)"
  using assms by (rule check_ranges_correct)

theorem check_ranges_decides_witness:
  "MPIR_Group_check_valid_ranges (group_of [5, 2, 9, 4] 1) [(3, 0, -2), (0, 0, 1)] = Some (Inr ())"
  using check_ranges_decides [of "group_of [5, 2, 9, 4] 1" "[(3, 0, -2), (0, 0, 1)]"]
  unfolding example_ranges by (simp add: examples valid_ranks_def valid_range_def no_overflow_def last_fits_def cdiv_def INT_MAX_def)

text \<open>The check divides before it rejects a negative last rank: the largest difference, divided by -1, has
  no result.\<close>

lemma check_ranges_overflow: "MPIR_Group_check_valid_ranges (group_of [5, 2, 9, 4] 1) [(0, - 2147483648, - 1)] = None"
  by (simp add: MPIR_Group_check_valid_ranges_def examples act_last_def cint_def cdiv_def INT_MAX_def)

text \<open>\<open>MPIR_Group_check_valid_ranks\<close> tests the flag at the loop index, so on a list no longer than
  the group it accepts every list of ranks in range: a repeated rank is never reported.\<close>

theorem check_ranks_accepts_repeats:
  assumes "group_wf g" and "int (length rs) \<le> g_size g"
  shows "MPIR_Group_check_valid_ranks g rs =
    Some (if \<forall>r\<in>set rs. 0 \<le> r \<and> r < g_size g then Inr () else Inl MPI_ERR_RANK)"
  unfolding MPIR_Group_check_valid_ranks_def using assms(2) by (intro check_ranks_loop) auto

theorem check_ranks_accepts_repeats_witness:
  "MPIR_Group_check_valid_ranks (group_of [5, 2, 9] 1) [0, 0] = Some (Inr ())"
  using check_ranks_accepts_repeats [of "group_of [5, 2, 9] 1" "[0, 0]"] by (simp add: examples)

text \<open>C12: and the exclusion of such a list writes past the end of the new group's process map.\<close>

theorem excl_repeated_overruns:
  assumes "group_wf g" and "alloc_ok env" and "0 \<le> r" and "r < g_size g" and "2 \<le> g_size g"
  shows "MPIR_Group_check_valid_ranks g [r, r] = Some (Inr ()) \<and> MPIR_Group_excl_impl env g [r, r] = None"
  using excl_repeated [OF assms] assms(3-5)
  unfolding MPIR_Group_check_valid_ranks_def by (subst check_ranks_loop) auto

theorem excl_repeated_overruns_witness:
  "MPIR_Group_check_valid_ranks (group_of [5, 2, 9] 1) [2, 2] = Some (Inr ()) \<and>
   MPIR_Group_excl_impl four_procs (group_of [5, 2, 9] 1) [2, 2] = None"
  by (rule excl_repeated_overruns) (simp_all add: examples)

text \<open>C5: rank translation gives, on both of its paths, the rank in the second group of each process
  named by its rank in the first, \<open>MPI_UNDEFINED\<close> for a process that is not there, and keeps
  \<open>MPI_PROC_NULL\<close>.\<close>

theorem group_translate:
  assumes "group_wf gp1" and "group_wf gp2" and "members gp2 \<noteq> []" and "translatable gp1 rs"
    and "-1 \<notin> set (members gp1)"
  shows "\<exists>gp2'. MPIR_Group_translate_ranks_impl gp1 rs gp2 = Some (gp2', map (translated gp1 gp2) rs) \<and>
    group_wf gp2' \<and> members gp2' = members gp2"
  using assms by (rule translate_correct)

theorem group_translate_witness:
  "\<exists>gp2'. MPIR_Group_translate_ranks_impl (group_of [5, 2, 9] 1) [2, MPI_PROC_NULL, 1, 0] (group_of [9, 5] 0) =
     Some (gp2', [0, MPI_PROC_NULL, MPI_UNDEFINED, 1])"
  using group_translate [of "group_of [5, 2, 9] 1" "group_of [9, 5] 0" "[2, MPI_PROC_NULL, 1, 0]"]
  by (auto simp: examples translatable_def translated_def)

text \<open>\<open>MPIR_Group_check_subset\<close> reports an error exactly when some member of the group is not a
  process of the communicator, for lpids that an \<open>int\<close> holds.\<close>

theorem group_check_subset:
  assumes "group_wf g" and "distinct ls" and "int_lpids (members g)" and "int_lpids ls"
  shows "\<exists>g' js. MPIR_Group_check_subset g ls =
    Some (g', if set (members g) \<subseteq> set ls then Inr () else Inl MPI_ERR_GROUP) \<and> prepared g g' js"
  using assms by (rule check_subset_correct)

theorem group_check_subset_witness:
  "\<exists>g'. MPIR_Group_check_subset (group_of [5, 2] 1) [2, 3, 9] = Some (g', Inl MPI_ERR_GROUP)"
  using group_check_subset [of "group_of [5, 2] 1" "[2, 3, 9]"] by (auto simp: examples int_lpids_def)

text \<open>C11: the group of the world process set is well formed with its ordered list in place, has the
  processes in order, the caller at its own rank, and a reference to the session.\<close>

theorem group_of_world:
  assumes "0 < world_size env" and "world_size env \<le> INT_MAX" and "0 \<le> world_rank env"
    and "world_rank env < world_size env" and "alloc_ok env"
  shows "\<exists>g. MPIR_Group_from_session_pset_impl env s World_Pset psets = Some (Inr (session_env env s, g)) \<and>
    group_wf g \<and> members g = map word_of_int [0..world_size env - 1] \<and> own g = Some (word_of_int (world_rank env)) \<and>
    is_local_dense_monotonic g \<and> session_ptr g = s"
  using assms by (rule world_group)

theorem group_of_world_witness:
  "\<exists>g. MPIR_Group_from_session_pset_impl four_procs (Some 3) World_Pset Map.empty =
      Some (Inr (session_env four_procs (Some 3), g)) \<and> members g = [0, 1, 2, 3] \<and> own g = Some 2"
  using group_of_world [of four_procs "Some 3" Map.empty] by (auto simp: INT_MAX_def upto.simps)

text \<open>the group of a named process set stores the following member's rank where the index of its
  entry belongs: when that rank is not an index of the group, the comparison of the group with itself
  reads past the process map.\<close>

theorem group_of_pset_bad_link:
  assumes "alloc_ok env" and "psets n = Some ms" and "2 \<le> length ms" and "int (length ms) \<le> ms ! 1"
  shows "\<exists>env' g. MPIR_Group_from_session_pset_impl env s (Pset n) psets = Some (Inr (env', g)) \<and>
    g_size g = int (length ms) \<and> next_lpid (lrank_to_lpid g ! 0) = ms ! 1 \<and> MPIR_Group_compare_impl g g = None"
  using assms by (rule pset_bad_link)

theorem group_of_pset_bad_link_witness:
  "\<exists>env' g. MPIR_Group_from_session_pset_impl four_procs None (Pset ''app'') [''app'' \<mapsto> [2, 3]] =
      Some (Inr (env', g)) \<and> g_size g = 2 \<and> next_lpid (lrank_to_lpid g ! 0) = 3 \<and> MPIR_Group_compare_impl g g = None"
  using group_of_pset_bad_link [of four_procs "[''app'' \<mapsto> [2, 3]]" "''app''" "[2, 3]" None] by simp

end
