(* ===== verification/Rma_Window.thy ===== *)
theory Rma_Window
  imports Psmpi_Prelude
begin

text \<open>
  The window object of the ParaStation device and the control messages of its one-sided
  communication (\<open>src/mpid/psp/include/mpidpre.h\<close>, \<open>src/mpid/psp/src/mpid_psp_ctrl_msgs.c\<close>).
  The messages a process sends are appended to the \<open>outbox\<close> of the window, in the order in which
  they are handed to pscom.  Unsigned counters are 32-bit words; the one signed counter,
  \<open>rma_source_rank_received\<close>, is only added to and compared with zero, and is a 32-bit word too.
\<close>

datatype MPID_PSP_MSGTYPE =
    MSGTYPE_RMA_LOCK_SHARED_REQUEST | MSGTYPE_RMA_LOCK_EXCLUSIVE_REQUEST | MSGTYPE_RMA_LOCK_ANSWER
  | MSGTYPE_RMA_UNLOCK_REQUEST | MSGTYPE_RMA_UNLOCK_ANSWER
  | MSGTYPE_RMA_FLUSH_REQUEST | MSGTYPE_RMA_FLUSH_ANSWER
  | MSGTYPE_RMA_INTERNAL_LOCK_REQUEST | MSGTYPE_RMA_INTERNAL_LOCK_ANSWER
  | MSGTYPE_RMA_INTERNAL_UNLOCK_REQUEST | MSGTYPE_RMA_INTERNAL_UNLOCK_ANSWER
  | MSGTYPE_RMA_POST | MSGTYPE_RMA_COMPLETE

datatype MPID_PSP_Win_lock_state = LOCK_UNLOCKED | LOCK_LOCKED | LOCK_LOCKED_ALL

datatype MPID_PSP_Win_epoch_states =
    EPOCH_NONE | EPOCH_FENCE | EPOCH_FENCE_ISSUED | EPOCH_POST | EPOCH_START | EPOCH_PSCW
  | EPOCH_LOCK | EPOCH_LOCK_ALL

text \<open>A control message: the peer, the type, the tag, and the operation counter of the types that
  carry one.\<close>

record ctrl_msg =
  cm_dest :: int
  cm_type :: MPID_PSP_MSGTYPE
  cm_tag :: int
  cm_counter :: "32 word option"

text \<open>A received control request: the peer of its connection and the header fields in use.\<close>

record pscom_request =
  rq_con :: int
  rq_type :: MPID_PSP_MSGTYPE
  rq_src_rank :: int
  rq_op_counter :: "32 word"
  rq_exclusive :: bool

record MPIR_Win =
  win_rank :: int
  local_size :: int
  shared_flavor :: bool
  enable_explicit_wait_on_passive_side :: bool
  rma_source_rank_received :: "32 word list"
  rma_puts_accs :: "32 word list"
  rma_puts_accs_received :: "32 word"
  rma_local_pending_cnt :: "32 word"
  rma_local_pending_rank :: "32 word list"
  rma_passive_pending_rank :: "32 word list"
  ranks_start :: "int list option"
  ranks_post :: "int list option"
  lock_list :: "pscom_request list"
  lock_list_internal :: "pscom_request list"
  lock_exclusive :: bool
  lock_cnt :: "32 word"
  lock_internal :: bool
  remote_lock_state :: "MPID_PSP_Win_lock_state list"
  epoch_state :: MPID_PSP_Win_epoch_states
  epoch_lock_count :: int
  outbox :: "ctrl_msg list"

text \<open>The window as \<open>MPID_Win_create\<close> initialises it, for the process \<open>r\<close> of \<open>n\<close>.\<close>

definition MPID_Win_create :: "int \<Rightarrow> int \<Rightarrow> MPIR_Win" where
  "MPID_Win_create r n = \<lparr>win_rank = r, local_size = n, shared_flavor = False,
     enable_explicit_wait_on_passive_side = True,
     rma_source_rank_received = replicate (nat n) 0, rma_puts_accs = replicate (nat n) 0,
     rma_puts_accs_received = 0, rma_local_pending_cnt = 0,
     rma_local_pending_rank = replicate (nat n) 0, rma_passive_pending_rank = replicate (nat n) 0,
     ranks_start = None, ranks_post = None, lock_list = [], lock_list_internal = [],
     lock_exclusive = False, lock_cnt = 0, lock_internal = False,
     remote_lock_state = replicate (nat n) LOCK_UNLOCKED, epoch_state = EPOCH_NONE,
     epoch_lock_count = 0, outbox = []\<rparr>"

text \<open>\<open>pscom_post_send\<close> on a request whose header was turned into an answer.\<close>

definition pscom_post_send :: "pscom_request \<Rightarrow> MPIR_Win \<Rightarrow> MPIR_Win" where
  "pscom_post_send req w =
     w\<lparr>outbox := outbox w @ [\<lparr>cm_dest = rq_con req, cm_type = rq_type req, cm_tag = 0, cm_counter = None\<rparr>]\<rparr>"

definition CTRL_TAG_WIN_POST :: int where "CTRL_TAG_WIN_POST = 11"
definition CTRL_TAG_WIN_COMPLETE :: int where "CTRL_TAG_WIN_COMPLETE = 12"

text \<open>\<open>MPIDI_PSP_SendRmaCtrl\<close>: the counter sent is the number of operations issued to the peer; a
  type of no RMA request is reported and not sent.\<close>

definition MPIDI_PSP_SendRmaCtrl :: "int \<Rightarrow> int \<Rightarrow> MPID_PSP_MSGTYPE \<Rightarrow> MPIR_Win \<Rightarrow> MPIR_Win option" where
  "MPIDI_PSP_SendRmaCtrl tag dest_rank msgtype w =
    (let send = (\<lambda>c. w\<lparr>outbox := outbox w @
         [\<lparr>cm_dest = dest_rank, cm_type = msgtype, cm_tag = tag, cm_counter = c\<rparr>]\<rparr>) in
     if msgtype = MSGTYPE_RMA_POST then Some (send None)
     else if msgtype \<in> {MSGTYPE_RMA_COMPLETE, MSGTYPE_RMA_UNLOCK_REQUEST, MSGTYPE_RMA_FLUSH_REQUEST,
                        MSGTYPE_RMA_INTERNAL_UNLOCK_REQUEST}
     then do { c \<leftarrow> aget (rma_puts_accs w) dest_rank; Some (send (Some c)) }
     else if msgtype \<in> {MSGTYPE_RMA_LOCK_EXCLUSIVE_REQUEST, MSGTYPE_RMA_LOCK_SHARED_REQUEST,
                        MSGTYPE_RMA_INTERNAL_LOCK_REQUEST}
     then Some (send None)
     else Some w)"

section \<open>Waiting for the communication layer\<close>

text \<open>
  \<open>pscom_wait_any\<close> and \<open>pscom_test_any\<close> belong to the pscom library; what they do to the window,
  through the callbacks they run, is the argument \<open>step\<close>.
\<close>

partial_function (option) wait_while ::
  "(MPIR_Win \<Rightarrow> bool) \<Rightarrow> (MPIR_Win \<Rightarrow> MPIR_Win) \<Rightarrow> MPIR_Win \<Rightarrow> MPIR_Win option" where
  "wait_while cond step w = (if cond w then wait_while cond step (step w) else Some w)"

lemma wait_while_Some:
  assumes "wait_while cond step w = Some w'"
  shows "\<exists>n. w' = (step ^^ n) w \<and> \<not> cond w' \<and> (\<forall>k<n. cond ((step ^^ k) w))"
proof (rule wait_while.raw_induct [OF _ assms], goal_cases)
  case (1 rec cond step w w')
  show ?case
  proof (cases "cond w")
    case True
    with 1(2) have "rec cond step (step w) = Some w'" by simp
    from 1(1) [OF this] obtain n where n: "w' = (step ^^ n) (step w)" "\<not> cond w'"
      "\<forall>k<n. cond ((step ^^ k) (step w))" by blast
    have "\<forall>k<Suc n. cond ((step ^^ k) w)"
      using n(3) True by (auto simp: less_Suc_eq_0_disj funpow_Suc_right simp del: funpow.simps)
    with n show ?thesis by (intro exI [of _ "Suc n"]) (auto simp: funpow_Suc_right simp del: funpow.simps)
  qed (use 1(2) in \<open>auto intro: exI [of _ 0]\<close>)
qed

lemma wait_while_ends:
  assumes "\<not> cond ((step ^^ n) w)"
  shows "\<exists>w'. wait_while cond step w = Some w'"
  using assms
proof (induction n arbitrary: w)
  case (Suc n)
  then show ?case by (subst wait_while.simps) (simp add: funpow_swap1)
qed (simp add: wait_while.simps)

end
