(* ===== verification/Rma_Lock.thy ===== *)
theory Rma_Lock
  imports Rma_Window "HOL-Library.Multiset"
begin

text \<open>
  The two locks that a window keeps for its peers (\<open>src/mpid/psp/src/mpid_rma_sync.c\<close>): the
  shared or exclusive lock of the passive target epochs, and the internal lock of the atomic
  operations.  Both grant at once or queue, and hand over when a holder releases.  Their common
  contract is the locale \<open>lock_queue\<close>, interpreted on both.
\<close>

section \<open>The window lock\<close>

definition do_trylock :: "MPIR_Win \<Rightarrow> bool \<Rightarrow> bool \<times> MPIR_Win" where
  "do_trylock w exclusive =
    (if lock_cnt w = 0 \<or> (\<not> lock_exclusive w \<and> \<not> exclusive)
     then (True, w\<lparr>lock_cnt := lock_cnt w + 1, lock_exclusive := exclusive\<rparr>)
     else (False, w))"

definition do_lock :: "MPIR_Win \<Rightarrow> pscom_request \<Rightarrow> MPIR_Win" where
  "do_lock w req =
    (case do_trylock w (rq_exclusive req) of
       (True, w) \<Rightarrow> pscom_post_send req w
     | (False, w) \<Rightarrow> w\<lparr>lock_list := lock_list w @ [req]\<rparr>)"

definition do_unlock :: "MPIR_Win \<Rightarrow> MPIR_Win" where
  "do_unlock w =
    (let w = w\<lparr>lock_cnt := lock_cnt w - 1\<rparr> in
     case lock_list w of
       [] \<Rightarrow> w
     | lreq # rest \<Rightarrow>
         (let w = w\<lparr>lock_list := rest\<rparr> in
          case do_trylock w (rq_exclusive lreq) of
            (True, w) \<Rightarrow> pscom_post_send lreq w
          | (False, w) \<Rightarrow> w\<lparr>lock_list := lreq # lock_list w\<rparr>))"

definition MPID_do_recv_rma_lock_req :: "pscom_request \<Rightarrow> bool \<Rightarrow> MPIR_Win \<Rightarrow> MPIR_Win" where
  "MPID_do_recv_rma_lock_req req exclusive w =
     do_lock w (req\<lparr>rq_type := MSGTYPE_RMA_LOCK_ANSWER, rq_src_rank := MPI_ANY_SOURCE, rq_exclusive := exclusive\<rparr>)"

definition MPID_do_recv_rma_lock_exclusive_req :: "pscom_request \<Rightarrow> MPIR_Win \<Rightarrow> MPIR_Win" where
  "MPID_do_recv_rma_lock_exclusive_req req w = MPID_do_recv_rma_lock_req req True w"

definition MPID_do_recv_rma_lock_shared_req :: "pscom_request \<Rightarrow> MPIR_Win \<Rightarrow> MPIR_Win" where
  "MPID_do_recv_rma_lock_shared_req req w = MPID_do_recv_rma_lock_req req False w"

text \<open>
  The operations that the source announces with its unlock or flush are added to its counter, and
  the answer is held back until they have all arrived.
\<close>

definition await_source ::
  "(MPIR_Win \<Rightarrow> MPIR_Win) \<Rightarrow> pscom_request \<Rightarrow> MPIR_Win \<Rightarrow> MPIR_Win option" where
  "await_source wait_any req w = do {
     let src_rank = rq_src_rank req;
     r \<leftarrow> aget (rma_source_rank_received w) src_rank;
     srr \<leftarrow> aset (rma_source_rank_received w) src_rank (r + rq_op_counter req);
     w \<leftarrow> wait_while (\<lambda>w. aget (rma_source_rank_received w) src_rank \<noteq> Some 0) wait_any
            (w\<lparr>rma_source_rank_received := srr\<rparr>);
     Some (w\<lparr>rma_puts_accs_received := rma_puts_accs_received w - rq_op_counter req\<rparr>)
   }"

definition MPID_do_recv_rma_unlock_req ::
  "(MPIR_Win \<Rightarrow> MPIR_Win) \<Rightarrow> pscom_request \<Rightarrow> MPIR_Win \<Rightarrow> MPIR_Win option" where
  "MPID_do_recv_rma_unlock_req wait_any req w = do {
     w \<leftarrow> await_source wait_any req w;
     Some (do_unlock (pscom_post_send
       (req\<lparr>rq_type := MSGTYPE_RMA_UNLOCK_ANSWER, rq_src_rank := MPI_ANY_SOURCE\<rparr>) w))
   }"

definition MPID_do_recv_rma_flush_req ::
  "(MPIR_Win \<Rightarrow> MPIR_Win) \<Rightarrow> pscom_request \<Rightarrow> MPIR_Win \<Rightarrow> MPIR_Win option" where
  "MPID_do_recv_rma_flush_req wait_any req w = do {
     w \<leftarrow> await_source wait_any req w;
     Some (pscom_post_send (req\<lparr>rq_type := MSGTYPE_RMA_FLUSH_ANSWER, rq_src_rank := MPI_ANY_SOURCE\<rparr>) w)
   }"

section \<open>The internal lock\<close>

definition do_trylock_internal :: "MPIR_Win \<Rightarrow> bool \<times> MPIR_Win" where
  "do_trylock_internal w =
    (if \<not> lock_internal w then (True, w\<lparr>lock_internal := True\<rparr>) else (False, w))"

definition do_lock_internal :: "MPIR_Win \<Rightarrow> pscom_request \<Rightarrow> MPIR_Win" where
  "do_lock_internal w req =
    (case do_trylock_internal w of
       (True, w) \<Rightarrow> pscom_post_send req w
     | (False, w) \<Rightarrow> w\<lparr>lock_list_internal := lock_list_internal w @ [req]\<rparr>)"

definition do_unlock_internal :: "MPIR_Win \<Rightarrow> MPIR_Win" where
  "do_unlock_internal w =
    (let w = w\<lparr>lock_internal := False\<rparr> in
     case lock_list_internal w of
       [] \<Rightarrow> w
     | lreq # rest \<Rightarrow>
         (let w = w\<lparr>lock_list_internal := rest\<rparr> in
          case do_trylock_internal w of
            (True, w) \<Rightarrow> pscom_post_send lreq w
          | (False, w) \<Rightarrow> w\<lparr>lock_list_internal := lreq # lock_list_internal w\<rparr>))"

definition MPID_do_recv_rma_lock_internal_req :: "pscom_request \<Rightarrow> MPIR_Win \<Rightarrow> MPIR_Win" where
  "MPID_do_recv_rma_lock_internal_req req w =
     do_lock_internal w (req\<lparr>rq_type := MSGTYPE_RMA_INTERNAL_LOCK_ANSWER, rq_src_rank := MPI_ANY_SOURCE\<rparr>)"

definition MPIDI_PSP_Win_wait_passive_completion ::
  "(MPIR_Win \<Rightarrow> MPIR_Win) \<Rightarrow> int \<Rightarrow> MPIR_Win \<Rightarrow> MPIR_Win option" where
  "MPIDI_PSP_Win_wait_passive_completion wait_any rank w =
    (if enable_explicit_wait_on_passive_side w
     then wait_while (\<lambda>w. aget (rma_passive_pending_rank w) rank \<noteq> Some 0) wait_any w
     else Some w)"

definition MPID_do_recv_rma_unlock_internal_req ::
  "(MPIR_Win \<Rightarrow> MPIR_Win) \<Rightarrow> pscom_request \<Rightarrow> MPIR_Win \<Rightarrow> MPIR_Win option" where
  "MPID_do_recv_rma_unlock_internal_req wait_any req w = do {
     w \<leftarrow> MPIDI_PSP_Win_wait_passive_completion wait_any (rq_src_rank req) w;
     Some (do_unlock_internal (pscom_post_send
       (req\<lparr>rq_type := MSGTYPE_RMA_INTERNAL_UNLOCK_ANSWER, rq_src_rank := MPI_ANY_SOURCE\<rparr>) w))
   }"

section \<open>The contract of both locks\<close>

text \<open>
  \<open>cnt\<close> holders, a \<open>queue\<close> of requests that wait, the \<open>answers\<close> sent so far, and whether a
  request is admitted at once.  \<open>cap\<close> bounds the number of holders the counter can represent.
\<close>

locale lock_queue =
  fixes inv :: "'w \<Rightarrow> bool" and cap :: nat and cnt :: "'w \<Rightarrow> nat" and queue :: "'w \<Rightarrow> 'r list"
    and answers :: "'w \<Rightarrow> 'm list" and answer :: "'r \<Rightarrow> 'm" and admits :: "'w \<Rightarrow> 'r \<Rightarrow> bool"
    and lock :: "'w \<Rightarrow> 'r \<Rightarrow> 'w" and unlock :: "'w \<Rightarrow> 'w"
  assumes lock_now: "inv w \<Longrightarrow> admits w r \<Longrightarrow> cnt w + 1 < cap \<Longrightarrow>
      inv (lock w r) \<and> cnt (lock w r) = cnt w + 1 \<and> queue (lock w r) = queue w \<and>
      answers (lock w r) = answers w @ [answer r]"
    and lock_later: "inv w \<Longrightarrow> \<not> admits w r \<Longrightarrow>
      inv (lock w r) \<and> cnt (lock w r) = cnt w \<and> queue (lock w r) = queue w @ [r] \<and> answers (lock w r) = answers w"
    and unlock_empty: "inv w \<Longrightarrow> 0 < cnt w \<Longrightarrow> queue w = [] \<Longrightarrow>
      inv (unlock w) \<and> cnt (unlock w) = cnt w - 1 \<and> queue (unlock w) = [] \<and> answers (unlock w) = answers w"
    and unlock_head: "inv w \<Longrightarrow> 0 < cnt w \<Longrightarrow> queue w = r # rs \<Longrightarrow>
      inv (unlock w) \<and>
      (cnt (unlock w) = cnt w \<and> queue (unlock w) = rs \<and> answers (unlock w) = answers w @ [answer r] \<or>
       1 < cnt w \<and> cnt (unlock w) = cnt w - 1 \<and> queue (unlock w) = r # rs \<and> answers (unlock w) = answers w)"
    and waiting_held: "inv w \<Longrightarrow> queue w \<noteq> [] \<Longrightarrow> 0 < cnt w"
begin

text \<open>Every release uses up a holder or a waiting request.\<close>

lemma unlock_measure:
  assumes "inv w" and "0 < cnt w"
  shows "cnt (unlock w) + length (queue (unlock w)) + 1 = cnt w + length (queue w)"
  using assms unlock_empty [of w] unlock_head [of w] by (cases "queue w") force+

text \<open>When the holders release and nobody arrives, all waiting requests are answered, in order.\<close>

lemma drains:
  assumes "inv w" and "n = cnt w + length (queue w)"
  shows "inv ((unlock ^^ n) w) \<and> cnt ((unlock ^^ n) w) = 0 \<and> queue ((unlock ^^ n) w) = [] \<and>
    answers ((unlock ^^ n) w) = answers w @ map answer (queue w)"
  using assms
proof (induction n arbitrary: w)
  case (Suc n)
  have pos: "0 < cnt w" using Suc.prems waiting_held [of w] by (cases "queue w") auto
  have inv': "inv (unlock w)" using unlock_empty [of w] unlock_head [of w] Suc.prems(1) pos by (cases "queue w") auto
  have "n = cnt (unlock w) + length (queue (unlock w))" using unlock_measure [OF Suc.prems(1) pos] Suc.prems(2) by simp
  note IH = Suc.IH [OF inv' this]
  have "answers (unlock w) @ map answer (queue (unlock w)) = answers w @ map answer (queue w)"
    using unlock_empty [of w] unlock_head [of w] Suc.prems(1) pos by (cases "queue w") force+
  with IH show ?case by (simp add: funpow_swap1)
qed simp

end

section \<open>Both locks keep the contract\<close>

definition lock_answer :: "pscom_request \<Rightarrow> ctrl_msg" where
  "lock_answer r = \<lparr>cm_dest = rq_con r, cm_type = rq_type r, cm_tag = 0, cm_counter = None\<rparr>"

definition lock_inv :: "MPIR_Win \<Rightarrow> bool" where
  "lock_inv w \<longleftrightarrow> (lock_exclusive w \<longrightarrow> lock_cnt w \<le> 1) \<and> (lock_list w \<noteq> [] \<longrightarrow> lock_cnt w \<noteq> 0)"

lemma post_send_fields [simp]:
  "lock_cnt (pscom_post_send r w) = lock_cnt w" "lock_exclusive (pscom_post_send r w) = lock_exclusive w"
  "lock_list (pscom_post_send r w) = lock_list w" "lock_internal (pscom_post_send r w) = lock_internal w"
  "lock_list_internal (pscom_post_send r w) = lock_list_internal w"
  "outbox (pscom_post_send r w) = outbox w @ [lock_answer r]"
  by (simp_all add: pscom_post_send_def lock_answer_def)

lemma unat_inc: "unat (x :: 32 word) + 1 < 2 ^ 32 \<Longrightarrow> unat (x + 1) = unat x + 1"
  by (simp add: unat_word_ariths)

lemma unat_dec: "x \<noteq> 0 \<Longrightarrow> unat ((x :: 32 word) - 1) = unat x - 1"
  by (simp add: unat_minus_one)

lemma word_le_1: "(x :: 32 word) \<le> 1 \<longleftrightarrow> x = 0 \<or> x = 1"
  by (metis linorder_not_less order_antisym_conv order_refl word_gt_0 word_less_1 word_zero_le)

lemma do_lock_cases:
  "do_lock w r =
    (if lock_cnt w = 0 \<or> \<not> lock_exclusive w \<and> \<not> rq_exclusive r
     then pscom_post_send r (w\<lparr>lock_cnt := lock_cnt w + 1, lock_exclusive := rq_exclusive r\<rparr>)
     else w\<lparr>lock_list := lock_list w @ [r]\<rparr>)"
  by (simp add: do_lock_def do_trylock_def)

lemma do_unlock_cases:
  "do_unlock w =
    (case lock_list w of
       [] \<Rightarrow> w\<lparr>lock_cnt := lock_cnt w - 1\<rparr>
     | r # rs \<Rightarrow>
         if lock_cnt w - 1 = 0 \<or> \<not> lock_exclusive w \<and> \<not> rq_exclusive r
         then pscom_post_send r (w\<lparr>lock_cnt := lock_cnt w, lock_list := rs, lock_exclusive := rq_exclusive r\<rparr>)
         else w\<lparr>lock_cnt := lock_cnt w - 1, lock_list := r # rs\<rparr>)"
  by (simp add: do_unlock_def do_trylock_def Let_def split: list.split)

interpretation win_lock: lock_queue lock_inv "2 ^ 32" "\<lambda>w. unat (lock_cnt w)" lock_list outbox lock_answer
  "\<lambda>w r. fst (do_trylock w (rq_exclusive r))" do_lock do_unlock
proof (unfold_locales, goal_cases)
  case (1 w r)
  then have "lock_cnt w = 0 \<or> \<not> lock_exclusive w \<and> \<not> rq_exclusive r" by (simp add: do_trylock_def split: if_splits)
  moreover have "lock_cnt w + 1 \<noteq> 0" using unat_inc [of "lock_cnt w"] 1(3) by force
  ultimately show ?case using 1 unat_inc [of "lock_cnt w"] by (auto simp: do_lock_cases lock_inv_def)
next
  case (2 w r)
  then have "lock_cnt w \<noteq> 0" "\<not> (\<not> lock_exclusive w \<and> \<not> rq_exclusive r)" by (auto simp: do_trylock_def split: if_splits)
  then show ?case using 2 by (simp add: do_lock_cases lock_inv_def)
next
  case (3 w)
  then show ?case using unat_dec [of "lock_cnt w"] by (auto simp: do_unlock_cases lock_inv_def unat_gt_0 word_le_1)
next
  case (4 w r rs)
  have c: "lock_cnt w \<noteq> 0" using 4(2) by (simp add: unat_gt_0)
  show ?case
  proof (cases "lock_cnt w - 1 = 0 \<or> \<not> lock_exclusive w \<and> \<not> rq_exclusive r")
    case True
    then show ?thesis using 4 c by (auto simp: do_unlock_cases lock_inv_def)
  next
    case False
    then have "lock_cnt w \<noteq> 1" by auto
    then have "unat (lock_cnt w) \<noteq> 1" by (metis unat_1 word_unat_eq_iff)
    then have "1 < unat (lock_cnt w)" using 4(2) by linarith
    with False 4 c unat_dec [OF c] show ?thesis
      by (auto simp: do_unlock_cases lock_inv_def word_le_1)
  qed
next
  case (5 w)
  then show ?case by (simp add: lock_inv_def unat_gt_0)
qed

definition internal_inv :: "MPIR_Win \<Rightarrow> bool" where
  "internal_inv w \<longleftrightarrow> (lock_list_internal w \<noteq> [] \<longrightarrow> lock_internal w)"

interpretation internal_lock: lock_queue internal_inv 2 "\<lambda>w. of_bool (lock_internal w)" lock_list_internal
  outbox lock_answer "\<lambda>w r. fst (do_trylock_internal w)" do_lock_internal do_unlock_internal
  by unfold_locales
    (auto simp: do_trylock_internal_def do_lock_internal_def do_unlock_internal_def internal_inv_def Let_def
      split: if_splits list.splits)

section \<open>Runs of the window lock\<close>

text \<open>
  The window lock under any interleaving of its users.  \<open>lock_run w A H D\<close>: the window \<open>w\<close> was
  reached with the requests \<open>A\<close> made, of which \<open>H\<close> hold the lock and \<open>D\<close> have released it.  A
  request arrives from a peer, or is the local process's own, which takes the lock without a
  message when it can; a holder releases; other steps leave the lock alone and send no lock answer.
  The requests that came as a message are the \<open>remote\<close> ones, whose header was turned into the answer;
  \<open>lock_answers\<close> are the answers the window has really sent.
\<close>

definition remote :: "pscom_request \<Rightarrow> bool" where
  "remote q \<longleftrightarrow> rq_type q = MSGTYPE_RMA_LOCK_ANSWER"

definition lock_answers :: "MPIR_Win \<Rightarrow> ctrl_msg list" where
  "lock_answers w = filter (\<lambda>m. cm_type m = MSGTYPE_RMA_LOCK_ANSWER) (outbox w)"

definition granted :: "MPIR_Win \<Rightarrow> MPIR_Win \<Rightarrow> pscom_request multiset" where
  "granted w w' = (if length (lock_list w') < length (lock_list w) then {#hd (lock_list w)#} else {#})"

inductive lock_run ::
  "MPIR_Win \<Rightarrow> pscom_request multiset \<Rightarrow> pscom_request multiset \<Rightarrow> pscom_request multiset \<Rightarrow> bool" where
  run_init: "lock_run (MPID_Win_create r n) {#} {#} {#}"
| run_arrive: "lock_run w A H D \<Longrightarrow> size A + 1 < 2 ^ 32 \<Longrightarrow>
    q = req\<lparr>rq_type := MSGTYPE_RMA_LOCK_ANSWER, rq_src_rank := MPI_ANY_SOURCE, rq_exclusive := ex\<rparr> \<Longrightarrow>
    w' = MPID_do_recv_rma_lock_req req ex w \<Longrightarrow>
    lock_run w' (add_mset q A) (if lock_list w' = lock_list w then add_mset q H else H) D"
| run_local: "lock_run w A H D \<Longrightarrow> size A + 1 < 2 ^ 32 \<Longrightarrow>
    do_trylock w (rq_exclusive q) = (True, w') \<Longrightarrow> \<not> remote q \<Longrightarrow> lock_run w' (add_mset q A) (add_mset q H) D"
| run_release: "lock_run w A H D \<Longrightarrow> q \<in># H \<Longrightarrow> w' = do_unlock w \<Longrightarrow>
    lock_run w' A (H - {#q#} + granted w w') (add_mset q D)"
| run_other: "lock_run w A H D \<Longrightarrow> lock_cnt w' = lock_cnt w \<Longrightarrow> lock_exclusive w' = lock_exclusive w \<Longrightarrow>
    lock_list w' = lock_list w \<Longrightarrow> lock_answers w' = lock_answers w \<Longrightarrow> lock_run w' A H D"

definition run_inv ::
  "MPIR_Win \<Rightarrow> pscom_request multiset \<Rightarrow> pscom_request multiset \<Rightarrow> pscom_request multiset \<Rightarrow> bool" where
  "run_inv w A H D \<longleftrightarrow> A = H + mset (lock_list w) + D \<and> size A < 2 ^ 32 \<and> unat (lock_cnt w) = size H \<and>
     (lock_list w \<noteq> [] \<longrightarrow> H \<noteq> {#}) \<and>
     (if lock_exclusive w then size H \<le> 1 \<and> (\<forall>r\<in>#H. rq_exclusive r) else \<forall>r\<in>#H. \<not> rq_exclusive r)"

lemma run_invD:
  assumes "run_inv w A H D"
  shows "A = H + mset (lock_list w) + D" "size A < 2 ^ 32" "unat (lock_cnt w) = size H"
    "lock_list w \<noteq> [] \<Longrightarrow> H \<noteq> {#}" "lock_exclusive w \<Longrightarrow> size H \<le> 1"
    "r \<in># H \<Longrightarrow> rq_exclusive r = lock_exclusive w"
  using assms by (auto simp: run_inv_def split: if_splits)

lemma run_inv_grant:
  assumes i: "run_inv w A H D" and sz: "size A + 1 < 2 ^ 32"
    and ok: "lock_cnt w = 0 \<or> \<not> lock_exclusive w \<and> \<not> rq_exclusive q"
    and w': "lock_cnt w' = lock_cnt w + 1" "lock_exclusive w' = rq_exclusive q" "lock_list w' = lock_list w"
  shows "run_inv w' (add_mset q A) (add_mset q H) D"
proof -
  have "size H \<le> size A" using run_invD(1) [OF i] by simp
  then have "unat (lock_cnt w') = size H + 1"
    using unat_inc [of "lock_cnt w"] run_invD(3) [OF i] sz w'(1) by simp
  moreover have "H = {#} \<or> \<not> rq_exclusive q \<and> (\<forall>r\<in>#H. \<not> rq_exclusive r)"
    using ok run_invD(3,6) [OF i] by (auto simp: unat_eq_zero)
  ultimately show ?thesis using i sz w' unfolding run_inv_def by auto
qed

lemma run_inv_release:
  assumes i: "run_inv w A H D" and q: "q \<in># H"
  shows "run_inv (do_unlock w) A (H - {#q#} + granted w (do_unlock w)) (add_mset q D)"
proof -
  have sz: "size (H - {#q#}) + 1 = size H" using q by (metis insert_DiffM size_add_mset Suc_eq_plus1)
  have c: "lock_cnt w \<noteq> 0" using run_invD(3) [OF i] q by (auto simp: unat_eq_zero [symmetric] simp del: unat_eq_zero)
  have dec: "unat (lock_cnt w - 1) = size (H - {#q#})" using unat_dec [OF c] run_invD(3) [OF i] sz by simp
  have hq: "H = add_mset q (H - {#q#})" using q by simp
  have memb: "rq_exclusive r = lock_exclusive w" if "r \<in># H - {#q#}" for r
    using run_invD(6) [OF i in_diffD [OF that]] .
  have le: "H - {#q#} = {#}" if "lock_exclusive w"
  proof -
    have "size (H - {#q#}) = 0" using run_invD(5) [OF i that] sz by linarith
    then show ?thesis by (simp only: size_eq_0_iff_empty)
  qed
  note A = run_invD(1,2) [OF i]
  show ?thesis
  proof (cases "lock_list w")
    case Nil
    then show ?thesis using A dec hq memb le
      by (auto simp: run_inv_def do_unlock_cases granted_def)
  next
    case (Cons r rs)
    show ?thesis
    proof (cases "lock_cnt w - 1 = 0 \<or> \<not> lock_exclusive w \<and> \<not> rq_exclusive r")
      case True
      then have "H - {#q#} = {#} \<or> \<not> rq_exclusive r \<and> \<not> lock_exclusive w" using dec by auto
      moreover have "do_unlock w = pscom_post_send r (w\<lparr>lock_cnt := lock_cnt w, lock_list := rs, lock_exclusive := rq_exclusive r\<rparr>)"
        using True Cons by (simp add: do_unlock_cases)
      ultimately show ?thesis using A hq memb Cons sz run_invD(3) [OF i]
        by (auto simp: run_inv_def granted_def)
    next
      case False
      then have "size (H - {#q#}) \<noteq> 0" using dec by (metis unat_eq_zero)
      moreover have "do_unlock w = w\<lparr>lock_cnt := lock_cnt w - 1, lock_list := r # rs\<rparr>"
        using False Cons by (auto simp: do_unlock_cases)
      ultimately show ?thesis using A hq memb Cons le dec
        by (auto simp: run_inv_def granted_def)
    qed
  qed
qed

lemma lock_answers_simps [simp]:
  "lock_answers (w\<lparr>lock_cnt := c\<rparr>) = lock_answers w" "lock_answers (w\<lparr>lock_exclusive := x\<rparr>) = lock_answers w"
  "lock_answers (w\<lparr>lock_list := ls\<rparr>) = lock_answers w"
  "lock_answers (pscom_post_send q w) = lock_answers w @ (if remote q then [lock_answer q] else [])"
  by (simp_all add: lock_answers_def remote_def) (simp add: lock_answer_def)

lemma lock_run_inv: "lock_run w A H D \<Longrightarrow> run_inv w A H D"
proof (induction rule: lock_run.induct)
  case (run_arrive w A H D q req ex w')
  show ?case
  proof (cases "lock_cnt w = 0 \<or> \<not> lock_exclusive w \<and> \<not> rq_exclusive q")
    case True
    then have "w' = pscom_post_send q (w\<lparr>lock_cnt := lock_cnt w + 1, lock_exclusive := rq_exclusive q\<rparr>)"
      using run_arrive by (simp add: MPID_do_recv_rma_lock_req_def do_lock_cases)
    then show ?thesis using run_inv_grant [OF run_arrive.IH run_arrive.hyps(2) True] by simp
  next
    case False
    then have w': "w' = w\<lparr>lock_list := lock_list w @ [q]\<rparr>"
      using run_arrive by (auto simp: MPID_do_recv_rma_lock_req_def do_lock_cases)
    have "H \<noteq> {#}" using False run_invD(3) [OF run_arrive.IH] by (auto simp: unat_eq_zero)
    then show ?thesis using w' run_arrive.IH run_arrive.hyps(2) by (auto simp: run_inv_def)
  qed
next
  case (run_local w A H D q w')
  then show ?case by (intro run_inv_grant [OF run_local.IH]) (auto simp: do_trylock_def split: if_splits)
next
  case (run_release w A H D q w')
  then show ?case using run_inv_release by simp
qed (auto simp: run_inv_def MPID_Win_create_def)

text \<open>
  The answers along a run: only requests that came as a message wait, and those that do not wait
  any more have been answered once each.
\<close>

definition answers_inv ::
  "MPIR_Win \<Rightarrow> pscom_request multiset \<Rightarrow> pscom_request multiset \<Rightarrow> bool" where
  "answers_inv w H D \<longleftrightarrow> (\<forall>q\<in>set (lock_list w). remote q) \<and>
     mset (lock_answers w) = image_mset lock_answer (filter_mset remote (H + D))"

lemma answers_inv_release:
  assumes i: "answers_inv w H D" and q: "q \<in># H"
  shows "answers_inv (do_unlock w) (H - {#q#} + granted w (do_unlock w)) (add_mset q D)"
proof -
  obtain K where K: "H = add_mset q K" using q by (metis insert_DiffM)
  have hq: "filter_mset remote (H - {#q#} + G + add_mset q D) = filter_mset remote (H + D) + filter_mset remote G" for G
    by (simp add: K ac_simps)
  show ?thesis
  proof (cases "lock_list w")
    case Nil
    then show ?thesis using i unfolding answers_inv_def hq by (simp add: do_unlock_cases granted_def)
  next
    case (Cons r rs)
    then show ?thesis using i unfolding answers_inv_def hq by (auto simp: do_unlock_cases granted_def)
  qed
qed

lemma lock_run_answers: "lock_run w A H D \<Longrightarrow> answers_inv w H D"
proof (induction rule: lock_run.induct)
  case (run_arrive w A H D q req ex w')
  have "remote q" using run_arrive.hyps(3) by (simp add: remote_def)
  then show ?case using run_arrive by (auto simp: answers_inv_def MPID_do_recv_rma_lock_req_def do_lock_cases)
next
  case (run_local w A H D q w')
  then show ?case by (auto simp: answers_inv_def do_trylock_def split: if_splits)
next
  case (run_release w A H D q w')
  then show ?case using answers_inv_release by simp
qed (auto simp: answers_inv_def MPID_Win_create_def lock_answers_def)

end
