(* ===== verification/Rma_Sync.thy ===== *)
theory Rma_Sync
  imports Rma_Lock MPIR_Groups
begin

text \<open>
  The synchronisation calls of one-sided communication at the origin
  (\<open>src/mpid/psp/src/mpid_rma_sync.c\<close>): fence, post, start, complete, wait and test, the passive
  target locks, and the flushes.  Each call returns the window and its MPI result; \<open>None\<close> is an
  access outside an array, a failed assertion or a wait that never ends.
\<close>

section \<open>The environment\<close>

text \<open>
  What the calls use of other libraries: progress in pscom (\<open>pscom_wait_any\<close>, \<open>pscom_test_any\<close>),
  the window as a blocking receive of a control message leaves it with the counter the message
  carried, the probe for a message, the two collectives of the fence, and the group of the
  window's communicator.
\<close>

record pscom_env =
  wait_any :: "MPIR_Win \<Rightarrow> MPIR_Win"
  test_any :: "MPIR_Win \<Rightarrow> MPIR_Win"
  pscom_recv :: "int \<Rightarrow> int \<Rightarrow> MPID_PSP_MSGTYPE \<Rightarrow> MPIR_Win \<Rightarrow> MPIR_Win \<times> 32 word"
  pscom_iprobe :: "int \<Rightarrow> int \<Rightarrow> MPID_PSP_MSGTYPE \<Rightarrow> MPIR_Win \<Rightarrow> bool"
  reduce_scatter :: "32 word list \<Rightarrow> 32 word mpi_result"
  barrier :: "MPIR_Win \<Rightarrow> MPIR_Win \<times> unit mpi_result"
  comm_group :: "MPIR_Group mpi_result"

type_synonym win_result = "(MPIR_Win \<times> unit mpi_result) option"

definition rank2connection :: "MPIR_Win \<Rightarrow> int \<Rightarrow> int option" where
  "rank2connection w rank = (if 0 \<le> rank \<and> rank < local_size w then Some rank else None)"

definition MPIDI_PSP_RecvRmaCtrl ::
  "pscom_env \<Rightarrow> int \<Rightarrow> int \<Rightarrow> MPID_PSP_MSGTYPE \<Rightarrow> MPIR_Win \<Rightarrow> MPIR_Win option" where
  "MPIDI_PSP_RecvRmaCtrl env tag src_rank msgtype w =
    (case pscom_recv env tag src_rank msgtype w of (w, c) \<Rightarrow>
       if msgtype = MSGTYPE_RMA_COMPLETE then do {
         r \<leftarrow> aget (rma_source_rank_received w) src_rank;
         srr \<leftarrow> aset (rma_source_rank_received w) src_rank (r + c);
         Some (w\<lparr>rma_source_rank_received := srr, rma_puts_accs_received := rma_puts_accs_received w - c\<rparr>)
       } else Some w)"

text \<open>The ranks of the group's members in the communicator of the window.\<close>

definition get_group_ranks :: "pscom_env \<Rightarrow> MPIR_Group \<Rightarrow> int list option" where
  "get_group_ranks env group_ptr =
    (case comm_group env of
       Inl e \<Rightarrow> Some (replicate (nat (g_size group_ptr)) MPI_UNDEFINED)
     | Inr win_grp \<Rightarrow> do {
         (_, res) \<leftarrow> MPIR_Group_translate_ranks_impl group_ptr [0..g_size group_ptr - 1] win_grp;
         Some res
       })"

section \<open>Active target synchronisation\<close>

definition zero_first :: "int \<Rightarrow> 32 word list \<Rightarrow> 32 word list option" where
  "zero_first n xs = (if nat n \<le> length xs then Some (replicate (nat n) 0 @ drop (nat n) xs) else None)"

definition fence_issued :: "MPIR_Win \<Rightarrow> MPIR_Win option" where
  "fence_issued w =
    (if epoch_state w = EPOCH_NONE then Some (w\<lparr>epoch_state := EPOCH_FENCE_ISSUED\<rparr>)
     else if epoch_state w = EPOCH_FENCE then Some (w\<lparr>epoch_state := EPOCH_FENCE_ISSUED\<rparr>)
     else if epoch_state w = EPOCH_FENCE_ISSUED then Some w else None)"

definition MPID_Win_fence :: "pscom_env \<Rightarrow> MPIR_Win \<Rightarrow> win_result" where
  "MPID_Win_fence env w =
    (if epoch_state w \<noteq> EPOCH_NONE \<and> epoch_state w \<noteq> EPOCH_FENCE \<and> epoch_state w \<noteq> EPOCH_FENCE_ISSUED
     then Some (w, Inl MPI_ERR_RMA_SYNC)
     else case reduce_scatter env (rma_puts_accs w) of
       Inl e \<Rightarrow> Some (w, Inl e)
     | Inr tot \<Rightarrow> do {
         w \<leftarrow> wait_while (\<lambda>w. rma_puts_accs_received w \<noteq> tot \<or> rma_local_pending_cnt w \<noteq> 0) (wait_any env) w;
         w \<leftarrow> fence_issued w;
         pa \<leftarrow> zero_first (local_size w) (rma_puts_accs w);
         sr \<leftarrow> zero_first (local_size w) (rma_source_rank_received w);
         Some (barrier env (w\<lparr>rma_puts_accs := pa, rma_source_rank_received := sr, rma_puts_accs_received := 0\<rparr>))
       })"

definition send_to :: "int \<Rightarrow> MPID_PSP_MSGTYPE \<Rightarrow> int \<Rightarrow> MPIR_Win \<Rightarrow> MPIR_Win option" where
  "send_to tag msgtype rank w = do {
     con \<leftarrow> rank2connection w rank;
     MPIDI_PSP_SendRmaCtrl tag con msgtype w
   }"

definition MPID_Win_post :: "pscom_env \<Rightarrow> MPIR_Group \<Rightarrow> MPIR_Win \<Rightarrow> win_result" where
  "MPID_Win_post env group_ptr w =
    (if epoch_state w \<noteq> EPOCH_NONE \<and> epoch_state w \<noteq> EPOCH_FENCE_ISSUED \<and> epoch_state w \<noteq> EPOCH_START
     then Some (w, Inl MPI_ERR_RMA_SYNC)
     else do {
       let w = w\<lparr>epoch_state := (if epoch_state w = EPOCH_START then EPOCH_PSCW else EPOCH_POST)\<rparr>;
       ranks \<leftarrow> get_group_ranks env group_ptr;
       w \<leftarrow> ofold (send_to CTRL_TAG_WIN_POST MSGTYPE_RMA_POST) ranks w;
       Some (w\<lparr>ranks_post := Some ranks\<rparr>, Inr ())
     })"

definition recv_from :: "pscom_env \<Rightarrow> int \<Rightarrow> MPID_PSP_MSGTYPE \<Rightarrow> int \<Rightarrow> MPIR_Win \<Rightarrow> MPIR_Win option" where
  "recv_from env tag msgtype rank w = do {
     con \<leftarrow> rank2connection w rank;
     MPIDI_PSP_RecvRmaCtrl env tag con msgtype w
   }"

definition MPID_Win_start :: "pscom_env \<Rightarrow> MPIR_Group \<Rightarrow> MPIR_Win \<Rightarrow> win_result" where
  "MPID_Win_start env group_ptr w =
    (if epoch_state w \<noteq> EPOCH_NONE \<and> epoch_state w \<noteq> EPOCH_FENCE_ISSUED \<and> epoch_state w \<noteq> EPOCH_POST
     then Some (w, Inl MPI_ERR_RMA_SYNC)
     else do {
       let w = w\<lparr>epoch_state := (if epoch_state w = EPOCH_POST then EPOCH_PSCW else EPOCH_START)\<rparr>;
       ranks \<leftarrow> get_group_ranks env group_ptr;
       w \<leftarrow> ofold (recv_from env CTRL_TAG_WIN_POST MSGTYPE_RMA_POST) ranks w;
       Some (w\<lparr>ranks_start := Some ranks\<rparr>, Inr ())
     })"

definition ranks_of :: "int list option \<Rightarrow> int list" where
  "ranks_of rs = (case rs of Some r \<Rightarrow> r | None \<Rightarrow> [])"

definition complete_rank :: "int \<Rightarrow> MPIR_Win \<Rightarrow> MPIR_Win option" where
  "complete_rank rank w = do {
     w \<leftarrow> send_to CTRL_TAG_WIN_COMPLETE MSGTYPE_RMA_COMPLETE rank w;
     pa \<leftarrow> aset (rma_puts_accs w) rank 0;
     Some (w\<lparr>rma_puts_accs := pa\<rparr>)
   }"

definition MPID_Win_complete :: "pscom_env \<Rightarrow> MPIR_Win \<Rightarrow> win_result" where
  "MPID_Win_complete env w =
    (let ranks = ranks_of (ranks_start w) in
     if epoch_state w \<noteq> EPOCH_PSCW \<and> epoch_state w \<noteq> EPOCH_START then Some (w, Inl MPI_ERR_RMA_SYNC)
     else do {
       let w = w\<lparr>epoch_state := (if epoch_state w = EPOCH_PSCW then EPOCH_POST else EPOCH_NONE)\<rparr>;
       w \<leftarrow> wait_while (\<lambda>w. rma_local_pending_cnt w \<noteq> 0) (wait_any env) w;
       w \<leftarrow> ofold complete_rank ranks w;
       Some (w\<lparr>ranks_start := None\<rparr>, Inr ())
     })"

definition await_complete :: "pscom_env \<Rightarrow> int \<Rightarrow> MPIR_Win \<Rightarrow> MPIR_Win option" where
  "await_complete env rank w = do {
     w \<leftarrow> recv_from env CTRL_TAG_WIN_COMPLETE MSGTYPE_RMA_COMPLETE rank w;
     wait_while (\<lambda>w. aget (rma_source_rank_received w) rank \<noteq> Some 0) (wait_any env) w
   }"

definition MPID_Win_wait :: "pscom_env \<Rightarrow> MPIR_Win \<Rightarrow> win_result" where
  "MPID_Win_wait env w =
    (let ranks = ranks_of (ranks_post w) in
     if epoch_state w \<noteq> EPOCH_PSCW \<and> epoch_state w \<noteq> EPOCH_POST then Some (w, Inl MPI_ERR_RMA_SYNC)
     else do {
       let w = w\<lparr>epoch_state := (if epoch_state w = EPOCH_PSCW then EPOCH_START else EPOCH_NONE)\<rparr>;
       w \<leftarrow> ofold (await_complete env) ranks w;
       Some (w\<lparr>ranks_post := None\<rparr>, Inr ())
     })"

text \<open>The probes stop at the first missing message; the result is the flag and the call's result.\<close>

fun all_probed :: "pscom_env \<Rightarrow> int list \<Rightarrow> MPIR_Win \<Rightarrow> bool option" where
  "all_probed env [] w = Some True"
| "all_probed env (rank # ranks) w = do {
     con \<leftarrow> rank2connection w rank;
     (if pscom_iprobe env CTRL_TAG_WIN_COMPLETE con MSGTYPE_RMA_COMPLETE w
      then all_probed env ranks w else Some False)
   }"

definition MPID_Win_test :: "pscom_env \<Rightarrow> MPIR_Win \<Rightarrow> (MPIR_Win \<times> bool option \<times> unit mpi_result) option" where
  "MPID_Win_test env w =
    (if epoch_state w \<noteq> EPOCH_PSCW \<and> epoch_state w \<noteq> EPOCH_POST then Some (w, None, Inl MPI_ERR_RMA_SYNC)
     else do {
       flag \<leftarrow> all_probed env (ranks_of (ranks_post w)) w;
       (if flag then do { (w, r) \<leftarrow> MPID_Win_wait env w; Some (w, Some True, r) }
        else Some (w, Some False, Inr ()))
     })"

section \<open>Passive target synchronisation\<close>

datatype lock_type = MPI_LOCK_EXCLUSIVE | MPI_LOCK_SHARED | No_lock_type

text \<open>Getting the lock: directly for the own window if it is free, with a request and its answer
  otherwise.\<close>

definition lock_at :: "pscom_env \<Rightarrow> bool \<Rightarrow> int \<Rightarrow> MPIR_Win \<Rightarrow> MPIR_Win option" where
  "lock_at env exclusive dest w = do {
     let msgt = (if exclusive then MSGTYPE_RMA_LOCK_EXCLUSIVE_REQUEST else MSGTYPE_RMA_LOCK_SHARED_REQUEST);
     let w = (if dest = win_rank w then test_any env w else w);
     let (got, w) = (if dest = win_rank w then do_trylock w exclusive else (False, w));
     (if got then Some w
      else do {
        w \<leftarrow> send_to 0 msgt dest w;
        MPIDI_PSP_RecvRmaCtrl env 0 MPI_ANY_SOURCE MSGTYPE_RMA_LOCK_ANSWER w
      })
   }"

definition MPID_Win_lock :: "pscom_env \<Rightarrow> lock_type \<Rightarrow> int \<Rightarrow> MPIR_Win \<Rightarrow> win_result" where
  "MPID_Win_lock env lock_type dest w =
    (if dest = MPI_PROC_NULL then Some (w, Inr ())
     else do {
       s \<leftarrow> aget (remote_lock_state w) dest;
       (if s \<noteq> LOCK_UNLOCKED then Some (w, Inl MPI_ERR_RMA_SYNC)
        else if epoch_state w \<noteq> EPOCH_NONE \<and> epoch_state w \<noteq> EPOCH_FENCE_ISSUED \<and> epoch_state w \<noteq> EPOCH_LOCK
        then Some (w, Inl MPI_ERR_RMA_SYNC)
        else if lock_type = No_lock_type then Some (w, Inl MPI_ERR_ARG)
        else do {
          w \<leftarrow> lock_at env (lock_type = MPI_LOCK_EXCLUSIVE) dest w;
          rs \<leftarrow> aset (remote_lock_state w) dest LOCK_LOCKED;
          Some (w\<lparr>remote_lock_state := rs, epoch_state := EPOCH_LOCK,
                  epoch_lock_count := epoch_lock_count w + 1\<rparr>, Inr ())
        })
     })"

definition in_passive_epoch :: "MPIR_Win \<Rightarrow> bool" where
  "in_passive_epoch w \<longleftrightarrow> epoch_state w = EPOCH_LOCK \<or> epoch_state w = EPOCH_LOCK_ALL"

text \<open>Giving the lock back: directly for the own window, with a request and its answer otherwise.\<close>

definition unlock_at :: "pscom_env \<Rightarrow> int \<Rightarrow> MPIR_Win \<Rightarrow> MPIR_Win option" where
  "unlock_at env dest w =
    (if dest = win_rank w then Some (do_unlock w)
     else do {
       con \<leftarrow> rank2connection w dest;
       w \<leftarrow> wait_while (\<lambda>w. rma_local_pending_cnt w \<noteq> 0) (test_any env) w;
       w \<leftarrow> MPIDI_PSP_SendRmaCtrl 0 con MSGTYPE_RMA_UNLOCK_REQUEST w;
       w \<leftarrow> MPIDI_PSP_RecvRmaCtrl env 0 MPI_ANY_SOURCE MSGTYPE_RMA_UNLOCK_ANSWER w;
       pa \<leftarrow> aset (rma_puts_accs w) dest 0;
       Some (w\<lparr>rma_puts_accs := pa\<rparr>)
     })"

definition MPID_Win_unlock :: "pscom_env \<Rightarrow> int \<Rightarrow> MPIR_Win \<Rightarrow> win_result" where
  "MPID_Win_unlock env dest w =
    (if dest = MPI_PROC_NULL then Some (w, Inr ())
     else do {
       s \<leftarrow> aget (remote_lock_state w) dest;
       (if s = LOCK_UNLOCKED then Some (w, Inl MPI_ERR_RMA_SYNC)
        else if \<not> in_passive_epoch w then Some (w, Inl MPI_ERR_RMA_SYNC)
        else do {
          w \<leftarrow> unlock_at env dest w;
          rs \<leftarrow> aset (remote_lock_state w) dest LOCK_UNLOCKED;
          let cnt = epoch_lock_count w - 1;
          Some (w\<lparr>remote_lock_state := rs, epoch_lock_count := cnt,
                  epoch_state := (if cnt = 0 then EPOCH_NONE else epoch_state w)\<rparr>, Inr ())
        })
     })"

definition MPID_Win_sync :: "MPIR_Win \<Rightarrow> win_result" where
  "MPID_Win_sync w = (if \<not> in_passive_epoch w then Some (w, Inl MPI_ERR_RMA_SYNC) else Some (w, Inr ()))"

fun lock_all_loop :: "pscom_env \<Rightarrow> int list \<Rightarrow> MPIR_Win \<Rightarrow> win_result" where
  "lock_all_loop env [] w = Some (w, Inr ())"
| "lock_all_loop env (i # is) w = do {
     s \<leftarrow> aget (remote_lock_state w) i;
     (if s \<noteq> LOCK_UNLOCKED then Some (w, Inl MPI_ERR_RMA_SYNC)
      else do {
        (w, r) \<leftarrow> MPID_Win_lock env MPI_LOCK_SHARED i w;
        (case r of
           Inl e \<Rightarrow> Some (w, Inl e)
         | Inr _ \<Rightarrow> do {
             rs \<leftarrow> aset (remote_lock_state w) i LOCK_LOCKED_ALL;
             lock_all_loop env is (w\<lparr>remote_lock_state := rs\<rparr>)
           })
      })
   }"

definition MPID_Win_lock_all :: "pscom_env \<Rightarrow> MPIR_Win \<Rightarrow> win_result" where
  "MPID_Win_lock_all env w = lock_all_loop env [0..local_size w - 1] w"

fun unlock_all_loop :: "pscom_env \<Rightarrow> int list \<Rightarrow> MPIR_Win \<Rightarrow> win_result" where
  "unlock_all_loop env [] w = Some (w, Inr ())"
| "unlock_all_loop env (i # is) w = do {
     s \<leftarrow> aget (remote_lock_state w) i;
     (if s \<noteq> LOCK_LOCKED_ALL then Some (w, Inl MPI_ERR_RMA_SYNC)
      else do {
        (w, r) \<leftarrow> MPID_Win_unlock env i w;
        (case r of
           Inl e \<Rightarrow> Some (w, Inl e)
         | Inr _ \<Rightarrow> do {
             rs \<leftarrow> aset (remote_lock_state w) i LOCK_UNLOCKED;
             unlock_all_loop env is (w\<lparr>remote_lock_state := rs\<rparr>)
           })
      })
   }"

definition MPID_Win_unlock_all :: "pscom_env \<Rightarrow> MPIR_Win \<Rightarrow> win_result" where
  "MPID_Win_unlock_all env w = unlock_all_loop env [0..local_size w - 1] w"

section \<open>Flushes\<close>

definition MPIDI_PSP_Win_wait_local_completion :: "pscom_env \<Rightarrow> int \<Rightarrow> MPIR_Win \<Rightarrow> MPIR_Win option" where
  "MPIDI_PSP_Win_wait_local_completion env rank w = do {
     _ \<leftarrow> aget (rma_local_pending_rank w) rank;
     wait_while (\<lambda>w. aget (rma_local_pending_rank w) rank \<noteq> Some 0) (wait_any env) w
   }"

definition MPID_Win_flush_local :: "pscom_env \<Rightarrow> int \<Rightarrow> MPIR_Win \<Rightarrow> win_result" where
  "MPID_Win_flush_local env rank w =
    (if \<not> in_passive_epoch w then Some (w, Inl MPI_ERR_RMA_SYNC)
     else do { w \<leftarrow> MPIDI_PSP_Win_wait_local_completion env rank w; Some (w, Inr ()) })"

definition MPID_Win_flush_local_all :: "pscom_env \<Rightarrow> MPIR_Win \<Rightarrow> win_result" where
  "MPID_Win_flush_local_all env w =
    (if \<not> in_passive_epoch w then Some (w, Inl MPI_ERR_RMA_SYNC)
     else do { w \<leftarrow> wait_while (\<lambda>w. rma_local_pending_cnt w \<noteq> 0) (wait_any env) w; Some (w, Inr ()) })"

definition MPID_Win_flush :: "pscom_env \<Rightarrow> int \<Rightarrow> MPIR_Win \<Rightarrow> win_result" where
  "MPID_Win_flush env dest w =
    (if \<not> in_passive_epoch w then Some (w, Inl MPI_ERR_RMA_SYNC)
     else do {
       (w, _) \<leftarrow> MPID_Win_flush_local env dest w;
       (if dest = win_rank w then Some (test_any env w, Inr ())
        else do {
          w \<leftarrow> send_to 0 MSGTYPE_RMA_FLUSH_REQUEST dest w;
          w \<leftarrow> MPIDI_PSP_RecvRmaCtrl env 0 MPI_ANY_SOURCE MSGTYPE_RMA_FLUSH_ANSWER w;
          pa \<leftarrow> aset (rma_puts_accs w) dest 0;
          Some (w\<lparr>rma_puts_accs := pa\<rparr>, Inr ())
        })
     })"

definition flush_send :: "int \<Rightarrow> MPIR_Win \<Rightarrow> MPIR_Win option" where
  "flush_send i w = (if i \<noteq> win_rank w then send_to 0 MSGTYPE_RMA_FLUSH_REQUEST i w else Some w)"

definition flush_answer :: "pscom_env \<Rightarrow> int \<Rightarrow> MPIR_Win \<Rightarrow> MPIR_Win option" where
  "flush_answer env i w =
    (if i \<noteq> win_rank w then do {
       w \<leftarrow> MPIDI_PSP_RecvRmaCtrl env 0 MPI_ANY_SOURCE MSGTYPE_RMA_FLUSH_ANSWER w;
       pa \<leftarrow> aset (rma_puts_accs w) i 0;
       Some (w\<lparr>rma_puts_accs := pa\<rparr>)
     } else Some w)"

definition MPID_Win_flush_all :: "pscom_env \<Rightarrow> MPIR_Win \<Rightarrow> win_result" where
  "MPID_Win_flush_all env w =
    (if \<not> in_passive_epoch w then Some (w, Inl MPI_ERR_RMA_SYNC)
     else do {
       (w, _) \<leftarrow> MPID_Win_flush_local_all env w;
       w \<leftarrow> ofold flush_send [0..local_size w - 1] w;
       w \<leftarrow> ofold (flush_answer env) [0..local_size w - 1] w;
       Some (w, Inr ())
     })"

section \<open>The internal lock at the origin\<close>

definition MPIDI_PSP_Win_lock_internal :: "pscom_env \<Rightarrow> int \<Rightarrow> MPIR_Win \<Rightarrow> win_result" where
  "MPIDI_PSP_Win_lock_internal env dest w =
    (if dest = MPI_PROC_NULL then Some (w, Inr ())
     else do {
       let w = (if dest = win_rank w then test_any env w else w);
       let (got, w) = (if dest = win_rank w then do_trylock_internal w else (False, w));
       (if got then Some (w, Inr ())
        else do {
          w \<leftarrow> send_to 0 MSGTYPE_RMA_INTERNAL_LOCK_REQUEST dest w;
          w \<leftarrow> MPIDI_PSP_RecvRmaCtrl env 0 MPI_ANY_SOURCE MSGTYPE_RMA_INTERNAL_LOCK_ANSWER w;
          Some (w, Inr ())
        })
     })"

definition MPIDI_PSP_Win_unlock_internal :: "pscom_env \<Rightarrow> int \<Rightarrow> MPIR_Win \<Rightarrow> win_result" where
  "MPIDI_PSP_Win_unlock_internal env dest w =
    (if dest = MPI_PROC_NULL then Some (w, Inr ())
     else if dest = win_rank w then Some (do_unlock_internal w, Inr ())
     else do {
       con \<leftarrow> rank2connection w dest;
       w \<leftarrow> wait_while (\<lambda>w. rma_local_pending_cnt w \<noteq> 0) (test_any env) w;
       w \<leftarrow> MPIDI_PSP_SendRmaCtrl 0 con MSGTYPE_RMA_INTERNAL_UNLOCK_REQUEST w;
       w \<leftarrow> MPIDI_PSP_RecvRmaCtrl env 0 MPI_ANY_SOURCE MSGTYPE_RMA_INTERNAL_UNLOCK_ANSWER w;
       Some (w, Inr ())
     })"

end
