(* ===== verification/Rma_Epochs.thy ===== *)
theory Rma_Epochs
  imports Rma_Sync Group_Ranks
begin

text \<open>
  The epochs of a window.  The calls of \<open>Rma_Sync\<close> are collected in one relation on windows, the
  bookkeeping that they share is an invariant of it, and the calls that an epoch permits are a
  table that the code refines.
\<close>

section \<open>What progress leaves alone\<close>

text \<open>
  The part of a window that only the local process's own calls change.  pscom's callbacks serve the
  peers: they change the counters, the locks the window grants and the messages, never this part.
\<close>

definition origin :: "MPIR_Win \<Rightarrow> MPID_PSP_Win_epoch_states \<times> int \<times> MPID_PSP_Win_lock_state list \<times>
    int list option \<times> int list option \<times> int \<times> int" where
  "origin w = (epoch_state w, epoch_lock_count w, remote_lock_state w, ranks_start w, ranks_post w,
     local_size w, win_rank w)"

definition env_frame :: "pscom_env \<Rightarrow> bool" where
  "env_frame env \<longleftrightarrow> (\<forall>w. origin (wait_any env w) = origin w \<and> origin (test_any env w) = origin w \<and>
     origin (fst (barrier env w)) = origin w \<and> (\<forall>t s m. origin (fst (pscom_recv env t s m w)) = origin w))"

lemma env_frameD:
  assumes "env_frame env"
  shows "origin (wait_any env w) = origin w" "origin (test_any env w) = origin w"
    "origin (fst (barrier env w)) = origin w" "origin (fst (pscom_recv env t s m w)) = origin w"
  using assms by (simp_all add: env_frame_def)

lemma funpow_origin: "(\<And>w. origin (f w) = origin w) \<Longrightarrow> origin ((f ^^ n) w) = origin w"
  by (induction n) auto

lemma wait_while_origin:
  assumes "wait_while cond step w = Some w'" and "\<And>w. origin (step w) = origin w"
  shows "origin w' = origin w"
  using wait_while_Some [OF assms(1)] funpow_origin [of step, OF assms(2)] by auto

lemma wait_any_origin: "env_frame env \<Longrightarrow> wait_while cond (wait_any env) w = Some w' \<Longrightarrow> origin w' = origin w"
  by (erule wait_while_origin) (rule env_frameD)

lemma test_any_origin: "env_frame env \<Longrightarrow> wait_while cond (test_any env) w = Some w' \<Longrightarrow> origin w' = origin w"
  by (erule wait_while_origin) (rule env_frameD)

lemma ofold_origin:
  assumes "ofold f xs w = Some w'" and "\<And>x v v'. f x v = Some v' \<Longrightarrow> origin v' = origin v"
  shows "origin w' = origin w"
  using assms(1)
proof (induction xs arbitrary: w)
  case (Cons x xs)
  then obtain v where "f x w = Some v" "ofold f xs v = Some w'" by (auto simp: bind_eq_Some_conv)
  with Cons.IH assms(2) show ?case by metis
qed simp

lemma upd_origin [simp]:
  "origin (w\<lparr>outbox := a\<rparr>) = origin w" "origin (w\<lparr>rma_puts_accs := b\<rparr>) = origin w"
  "origin (w\<lparr>rma_source_rank_received := b\<rparr>) = origin w" "origin (w\<lparr>rma_puts_accs_received := c\<rparr>) = origin w"
  "origin (w\<lparr>lock_cnt := c\<rparr>) = origin w" "origin (w\<lparr>lock_exclusive := d\<rparr>) = origin w"
  "origin (w\<lparr>lock_list := e\<rparr>) = origin w" "origin (w\<lparr>lock_internal := d\<rparr>) = origin w"
  "origin (w\<lparr>lock_list_internal := e\<rparr>) = origin w" "origin (pscom_post_send r w) = origin w"
  by (simp_all add: origin_def pscom_post_send_def)

lemma trylock_origin: "do_trylock w ex = (got, w') \<Longrightarrow> origin w' = origin w"
  by (auto simp: do_trylock_def split: if_splits)

lemma do_unlock_origin [simp]: "origin (do_unlock w) = origin w"
  by (auto simp: do_unlock_cases split: list.split)

lemma SendRmaCtrl_origin: "MPIDI_PSP_SendRmaCtrl tag dest m w = Some w' \<Longrightarrow> origin w' = origin w"
  by (auto simp: MPIDI_PSP_SendRmaCtrl_def Let_def bind_eq_Some_conv split: if_splits)

lemma send_to_origin: "send_to tag m dest w = Some w' \<Longrightarrow> origin w' = origin w"
  by (auto simp: send_to_def bind_eq_Some_conv dest: SendRmaCtrl_origin)

lemma RecvRmaCtrl_origin:
  assumes "env_frame env" and "MPIDI_PSP_RecvRmaCtrl env tag src m w = Some w'"
  shows "origin w' = origin w"
  using env_frameD(4) [OF assms(1), of tag src m w] assms(2)
  by (auto simp: MPIDI_PSP_RecvRmaCtrl_def bind_eq_Some_conv split: prod.splits if_splits)

lemma recv_from_origin: "env_frame env \<Longrightarrow> recv_from env tag m src w = Some w' \<Longrightarrow> origin w' = origin w"
  by (auto simp: recv_from_def bind_eq_Some_conv dest: RecvRmaCtrl_origin)

lemma complete_rank_origin: "complete_rank r w = Some w' \<Longrightarrow> origin w' = origin w"
  by (auto simp: complete_rank_def bind_eq_Some_conv dest: send_to_origin)

lemma await_complete_origin:
  assumes "env_frame env" and "await_complete env r w = Some w'"
  shows "origin w' = origin w"
  using assms(2) by (auto simp: await_complete_def bind_eq_Some_conv
      dest!: wait_any_origin [OF assms(1)] recv_from_origin [OF assms(1)])

lemma flush_send_origin: "flush_send i w = Some w' \<Longrightarrow> origin w' = origin w"
  by (auto simp: flush_send_def dest: send_to_origin split: if_splits)

lemma flush_answer_origin: "env_frame env \<Longrightarrow> flush_answer env i w = Some w' \<Longrightarrow> origin w' = origin w"
  by (auto simp: flush_answer_def bind_eq_Some_conv dest: RecvRmaCtrl_origin split: if_splits)

section \<open>The calls and the bookkeeping they share\<close>

datatype win_call =
    Fence | Post MPIR_Group | Start MPIR_Group | Complete | Wait | Test
  | Lock lock_type int | Unlock int | Lock_all | Unlock_all | Sync
  | Flush int | Flush_all | Flush_local int | Flush_local_all

fun win_exec :: "pscom_env \<Rightarrow> win_call \<Rightarrow> MPIR_Win \<Rightarrow> win_result" where
  "win_exec env Fence w = MPID_Win_fence env w"
| "win_exec env (Post g) w = MPID_Win_post env g w"
| "win_exec env (Start g) w = MPID_Win_start env g w"
| "win_exec env Complete w = MPID_Win_complete env w"
| "win_exec env Wait w = MPID_Win_wait env w"
| "win_exec env Test w = do { (w, _, r) \<leftarrow> MPID_Win_test env w; Some (w, r) }"
| "win_exec env (Lock t d) w = MPID_Win_lock env t d w"
| "win_exec env (Unlock d) w = MPID_Win_unlock env d w"
| "win_exec env Lock_all w = MPID_Win_lock_all env w"
| "win_exec env Unlock_all w = MPID_Win_unlock_all env w"
| "win_exec env Sync w = MPID_Win_sync w"
| "win_exec env (Flush d) w = MPID_Win_flush env d w"
| "win_exec env Flush_all w = MPID_Win_flush_all env w"
| "win_exec env (Flush_local d) w = MPID_Win_flush_local env d w"
| "win_exec env Flush_local_all w = MPID_Win_flush_local_all env w"

definition locked_count :: "MPID_PSP_Win_lock_state list \<Rightarrow> int" where
  "locked_count ls = int (length (filter (\<lambda>s. s \<noteq> LOCK_UNLOCKED) ls))"

lemma locked_count_upd:
  assumes "i < length ls"
  shows "locked_count (ls[i := s]) + of_bool (ls ! i \<noteq> LOCK_UNLOCKED) = locked_count ls + of_bool (s \<noteq> LOCK_UNLOCKED)"
  using assms
proof (induction ls arbitrary: i)
  case (Cons x xs)
  then show ?case by (cases i) (auto simp: locked_count_def algebra_simps)
qed simp

lemma locked_count_pos: "i < length ls \<Longrightarrow> ls ! i \<noteq> LOCK_UNLOCKED \<Longrightarrow> 0 < locked_count ls"
  unfolding locked_count_def using nth_mem by (fastforce simp: filter_empty_conv length_greater_0_conv)

text \<open>
  A window counts the ranks it has locked and is in a lock epoch exactly while there are some; it
  remembers the ranks of \<open>post\<close> and \<open>start\<close> exactly while the matching epoch is open.
\<close>

definition epoch_inv :: "MPIR_Win \<Rightarrow> bool" where
  "epoch_inv w \<longleftrightarrow> length (remote_lock_state w) = nat (local_size w) \<and>
     epoch_lock_count w = locked_count (remote_lock_state w) \<and> epoch_state w \<noteq> EPOCH_LOCK_ALL \<and>
     (epoch_state w = EPOCH_LOCK \<longleftrightarrow> 0 < epoch_lock_count w) \<and>
     (ranks_start w \<noteq> None \<longleftrightarrow> epoch_state w \<in> {EPOCH_START, EPOCH_PSCW}) \<and>
     (ranks_post w \<noteq> None \<longleftrightarrow> epoch_state w \<in> {EPOCH_POST, EPOCH_PSCW})"

lemma epoch_inv_origin: "origin w = origin w' \<Longrightarrow> epoch_inv w \<longleftrightarrow> epoch_inv w'"
  by (simp add: epoch_inv_def origin_def)

lemma originD:
  assumes "origin w = origin w'"
  shows "epoch_state w = epoch_state w'" "epoch_lock_count w = epoch_lock_count w'"
    "remote_lock_state w = remote_lock_state w'" "ranks_start w = ranks_start w'" "ranks_post w = ranks_post w'"
    "local_size w = local_size w'" "win_rank w = win_rank w'"
  using assms by (simp_all add: origin_def)

lemmas some_simps = bind_eq_Some_conv Let_def

lemma lock_at_origin:
  assumes fr: "env_frame env" and "lock_at env ex d w = Some u"
  shows "origin u = origin w"
proof -
  let ?w = "if d = win_rank w then test_any env w else w"
  have ow: "origin ?w = origin w" using env_frameD(2) [OF fr] by simp
  obtain got v where gv: "(if d = win_rank ?w then do_trylock ?w ex else (False, ?w)) = (got, v)" by force
  have ov: "origin v = origin w" using gv ow by (auto split: if_splits dest: trylock_origin)
  define m where "m = (if ex then MSGTYPE_RMA_LOCK_EXCLUSIVE_REQUEST else MSGTYPE_RMA_LOCK_SHARED_REQUEST)"
  have eq: "(if got then Some v else do { w \<leftarrow> send_to 0 m d v;
      MPIDI_PSP_RecvRmaCtrl env 0 MPI_ANY_SOURCE MSGTYPE_RMA_LOCK_ANSWER w }) = Some u"
    using assms(2) unfolding lock_at_def Let_def gv m_def by simp
  show ?thesis
  proof (cases got)
    case True
    with eq ov show ?thesis by simp
  next
    case False
    with eq obtain x where x: "send_to 0 m d v = Some x"
      "MPIDI_PSP_RecvRmaCtrl env 0 MPI_ANY_SOURCE MSGTYPE_RMA_LOCK_ANSWER x = Some u"
      by (cases "send_to 0 m d v") auto
    show ?thesis using ov send_to_origin [OF x(1)] RecvRmaCtrl_origin [OF fr x(2)] by simp
  qed
qed

lemma lock_effect:
  assumes fr: "env_frame env" and ex: "MPID_Win_lock env t d w = Some (w', r)"
  shows "(\<exists>e. r = Inl e) \<and> w' = w \<or> r = Inr () \<and> d = MPI_PROC_NULL \<and> w' = w \<or>
    r = Inr () \<and> 0 \<le> d \<and> d < int (length (remote_lock_state w)) \<and> remote_lock_state w ! nat d = LOCK_UNLOCKED \<and>
    epoch_state w \<in> {EPOCH_NONE, EPOCH_FENCE_ISSUED, EPOCH_LOCK} \<and>
    origin w' = (EPOCH_LOCK, epoch_lock_count w + 1, (remote_lock_state w)[nat d := LOCK_LOCKED],
      ranks_start w, ranks_post w, local_size w, win_rank w)"
proof (cases "d = MPI_PROC_NULL \<or> w' = w \<and> (\<exists>e. r = Inl e)")
  case True
  then show ?thesis using ex by (auto simp: MPID_Win_lock_def)
next
  case False
  then have np: "d \<noteq> MPI_PROC_NULL" by simp
  obtain s where s: "aget (remote_lock_state w) d = Some s"
    using ex np by (auto simp: MPID_Win_lock_def some_simps)
  have un: "s = LOCK_UNLOCKED" and ep: "epoch_state w \<in> {EPOCH_NONE, EPOCH_FENCE_ISSUED, EPOCH_LOCK}"
    and ty: "t \<noteq> No_lock_type"
    using ex np s False by (auto simp: MPID_Win_lock_def split: if_splits)
  obtain u rs where la: "lock_at env (t = MPI_LOCK_EXCLUSIVE) d w = Some u"
    and rs: "aset (remote_lock_state u) d LOCK_LOCKED = Some rs"
    and w': "w' = u\<lparr>remote_lock_state := rs, epoch_state := EPOCH_LOCK, epoch_lock_count := epoch_lock_count u + 1\<rparr>"
    and r: "r = Inr ()"
  proof -
    have ne: "\<not> (epoch_state w \<noteq> EPOCH_NONE \<and> epoch_state w \<noteq> EPOCH_FENCE_ISSUED \<and> epoch_state w \<noteq> EPOCH_LOCK)"
      using ep by blast
    have "do { w \<leftarrow> lock_at env (t = MPI_LOCK_EXCLUSIVE) d w; rs \<leftarrow> aset (remote_lock_state w) d LOCK_LOCKED;
        Some (w\<lparr>remote_lock_state := rs, epoch_state := EPOCH_LOCK, epoch_lock_count := epoch_lock_count w + 1\<rparr>, Inr ()) } =
      Some (w', r)"
      using ex np s un ty unfolding MPID_Win_lock_def if_not_P [OF ne] by simp
    then show ?thesis using that
      by (cases "lock_at env (t = MPI_LOCK_EXCLUSIVE) d w"; simp)
        (case_tac "aset (remote_lock_state a) d LOCK_LOCKED"; simp)
  qed
  have "origin u = origin w" using lock_at_origin [OF fr la] .
  note o = originD [OF this]
  show ?thesis using s un ep r rs w' o by (auto simp: aget_Some_iff aset_Some_iff origin_def)
qed

lemma unlock_at_origin:
  assumes fr: "env_frame env" and "unlock_at env d w = Some u"
  shows "origin u = origin w"
  using assms(2) by (auto simp: unlock_at_def some_simps split: if_splits
      dest!: test_any_origin [OF fr] SendRmaCtrl_origin RecvRmaCtrl_origin [OF fr])

lemma unlock_effect:
  assumes fr: "env_frame env" and ex: "MPID_Win_unlock env d w = Some (w', r)"
  shows "(\<exists>e. r = Inl e) \<and> w' = w \<or> r = Inr () \<and> d = MPI_PROC_NULL \<and> w' = w \<or>
    r = Inr () \<and> 0 \<le> d \<and> d < int (length (remote_lock_state w)) \<and> remote_lock_state w ! nat d \<noteq> LOCK_UNLOCKED \<and>
    in_passive_epoch w \<and>
    origin w' = (if epoch_lock_count w - 1 = 0 then EPOCH_NONE else epoch_state w, epoch_lock_count w - 1,
      (remote_lock_state w)[nat d := LOCK_UNLOCKED], ranks_start w, ranks_post w, local_size w, win_rank w)"
proof (cases "d = MPI_PROC_NULL \<or> w' = w \<and> (\<exists>e. r = Inl e)")
  case True
  then show ?thesis using ex by (auto simp: MPID_Win_unlock_def)
next
  case False
  then have np: "d \<noteq> MPI_PROC_NULL" by simp
  obtain s where s: "aget (remote_lock_state w) d = Some s"
    using ex np by (auto simp: MPID_Win_unlock_def some_simps)
  have un: "s \<noteq> LOCK_UNLOCKED" and ep: "in_passive_epoch w"
    using ex np s False by (auto simp: MPID_Win_unlock_def split: if_splits)
  obtain u rs where u: "origin u = origin w" and rs: "aset (remote_lock_state u) d LOCK_UNLOCKED = Some rs"
    and w': "w' = u\<lparr>remote_lock_state := rs, epoch_lock_count := epoch_lock_count u - 1,
        epoch_state := (if epoch_lock_count u - 1 = 0 then EPOCH_NONE else epoch_state u)\<rparr>"
    and r: "r = Inr ()"
  proof -
    from ex np s un ep obtain u rs where "unlock_at env d w = Some u" "aset (remote_lock_state u) d LOCK_UNLOCKED = Some rs"
      "w' = u\<lparr>remote_lock_state := rs, epoch_lock_count := epoch_lock_count u - 1,
        epoch_state := (if epoch_lock_count u - 1 = 0 then EPOCH_NONE else epoch_state u)\<rparr>" "r = Inr ()"
      by (auto simp: MPID_Win_unlock_def some_simps)
    with that unlock_at_origin [OF fr] show ?thesis by blast
  qed
  note o = originD [OF u]
  show ?thesis using s un ep r rs w' o by (auto simp: aget_Some_iff aset_Some_iff origin_def)
qed

section \<open>The invariant\<close>

lemma epoch_inv_of_origin:
  "origin w = (e, c, ls, rs, rp, n, k) \<Longrightarrow> epoch_inv w \<longleftrightarrow> length ls = nat n \<and> c = locked_count ls \<and>
     e \<noteq> EPOCH_LOCK_ALL \<and> (e = EPOCH_LOCK \<longleftrightarrow> 0 < c) \<and> (rs \<noteq> None \<longleftrightarrow> e \<in> {EPOCH_START, EPOCH_PSCW}) \<and>
     (rp \<noteq> None \<longleftrightarrow> e \<in> {EPOCH_POST, EPOCH_PSCW})"
  unfolding epoch_inv_def origin_def by simp

lemma epoch_inv_idle:
  "epoch_inv w \<Longrightarrow> epoch_state w \<in> {EPOCH_NONE, EPOCH_FENCE, EPOCH_FENCE_ISSUED, EPOCH_LOCK} \<Longrightarrow>
   ranks_start w = None \<and> ranks_post w = None"
  unfolding epoch_inv_def by auto

lemma locked_count_nonneg: "0 \<le> locked_count ls"
  by (simp add: locked_count_def)

lemma lock_inv_kept:
  assumes "env_frame env" and ex: "MPID_Win_lock env t d w = Some (w', r)" and inv: "epoch_inv w"
  shows "epoch_inv w'"
proof (cases "w' = w")
  case False
  with lock_effect [OF assms(1) ex] have d: "0 \<le> d" "d < int (length (remote_lock_state w))"
    and un: "remote_lock_state w ! nat d = LOCK_UNLOCKED"
    and ep: "epoch_state w \<in> {EPOCH_NONE, EPOCH_FENCE_ISSUED, EPOCH_LOCK}"
    and o: "origin w' = (EPOCH_LOCK, epoch_lock_count w + 1, (remote_lock_state w)[nat d := LOCK_LOCKED],
      ranks_start w, ranks_post w, local_size w, win_rank w)" by blast+
  have "nat d < length (remote_lock_state w)" using d by linarith
  from locked_count_upd [OF this, of LOCK_LOCKED] un
  have "locked_count ((remote_lock_state w)[nat d := LOCK_LOCKED]) = locked_count (remote_lock_state w) + 1" by simp
  moreover have "ranks_start w = None \<and> ranks_post w = None" using epoch_inv_idle [OF inv] ep by auto
  moreover have "length (remote_lock_state w) = nat (local_size w)" "epoch_lock_count w = locked_count (remote_lock_state w)"
    using inv by (simp_all add: epoch_inv_def)
  ultimately show ?thesis using locked_count_nonneg [of "remote_lock_state w"] by (simp add: epoch_inv_of_origin [OF o])
qed (use inv in simp)

lemma unlock_inv_kept:
  assumes "env_frame env" and ex: "MPID_Win_unlock env d w = Some (w', r)" and inv: "epoch_inv w"
  shows "epoch_inv w'"
proof (cases "w' = w")
  case False
  with unlock_effect [OF assms(1) ex] have d: "0 \<le> d" "d < int (length (remote_lock_state w))"
    and un: "remote_lock_state w ! nat d \<noteq> LOCK_UNLOCKED" and ep: "in_passive_epoch w"
    and o: "origin w' = (if epoch_lock_count w - 1 = 0 then EPOCH_NONE else epoch_state w, epoch_lock_count w - 1,
      (remote_lock_state w)[nat d := LOCK_UNLOCKED], ranks_start w, ranks_post w, local_size w, win_rank w)" by blast+
  have e: "epoch_state w = EPOCH_LOCK" using inv ep by (auto simp: epoch_inv_def in_passive_epoch_def)
  have "nat d < length (remote_lock_state w)" using d by linarith
  from locked_count_upd [OF this, of LOCK_UNLOCKED] un
  have "locked_count ((remote_lock_state w)[nat d := LOCK_UNLOCKED]) = locked_count (remote_lock_state w) - 1" by simp
  moreover have "ranks_start w = None \<and> ranks_post w = None" using epoch_inv_idle [OF inv] e by auto
  moreover have "length (remote_lock_state w) = nat (local_size w)" "epoch_lock_count w = locked_count (remote_lock_state w)"
    "0 < epoch_lock_count w" using inv e by (simp_all add: epoch_inv_def)
  ultimately show ?thesis using e by (simp add: epoch_inv_of_origin [OF o])
qed (use inv in simp)

lemma relabel_inv:
  assumes "epoch_inv w" and "aset (remote_lock_state w) i s = Some rs" and "s \<noteq> LOCK_UNLOCKED"
    and "remote_lock_state w ! nat i \<noteq> LOCK_UNLOCKED"
  shows "epoch_inv (w\<lparr>remote_lock_state := rs\<rparr>)"
proof -
  have i: "nat i < length (remote_lock_state w)" "rs = (remote_lock_state w)[nat i := s]"
    using assms(2) by (auto simp: aset_Some_iff)
  have "locked_count rs = locked_count (remote_lock_state w)"
    using locked_count_upd [OF i(1), of s] assms(3,4) i(2) by simp
  with assms(1) i show ?thesis by (simp add: epoch_inv_def)
qed

lemma lock_all_inv:
  assumes fr: "env_frame env" and "lock_all_loop env is w = Some (w', r)" and "epoch_inv w"
  shows "epoch_inv w'"
  using assms(2,3)
proof (induction "is" arbitrary: w)
  case (Cons i "is")
  from Cons.prems(1) obtain s where s: "aget (remote_lock_state w) i = Some s" by (auto simp: some_simps)
  then have i: "0 \<le> i" "i < int (length (remote_lock_state w))" by (auto simp: aget_Some_iff)
  show ?case
  proof (cases "s = LOCK_UNLOCKED")
    case True
    then obtain v q where v: "MPID_Win_lock env MPI_LOCK_SHARED i w = Some (v, q)"
      using Cons.prems(1) s by (auto simp: some_simps)
    note inv = lock_inv_kept [OF fr v Cons.prems(2)]
    show ?thesis
    proof (cases q)
      case (Inl e)
      then show ?thesis using Cons.prems(1) s v True inv by simp
    next
      case (Inr u)
      then obtain rs where rs: "aset (remote_lock_state v) i LOCK_LOCKED_ALL = Some rs"
        "lock_all_loop env is (v\<lparr>remote_lock_state := rs\<rparr>) = Some (w', r)"
        using Cons.prems(1) s v True by (auto simp: some_simps)
      have "remote_lock_state v ! nat i = LOCK_LOCKED"
        using lock_effect [OF fr v] Inr i by (auto simp: origin_def MPI_PROC_NULL_def)
      then have "epoch_inv (v\<lparr>remote_lock_state := rs\<rparr>)" using relabel_inv [OF inv rs(1)] by simp
      with Cons.IH rs show ?thesis by blast
    qed
  qed (use Cons.prems s in simp)
qed simp

lemma unlock_all_inv:
  assumes fr: "env_frame env" and "unlock_all_loop env is w = Some (w', r)" and "epoch_inv w"
  shows "epoch_inv w'"
  using assms(2,3)
proof (induction "is" arbitrary: w)
  case (Cons i "is")
  from Cons.prems(1) obtain s where s: "aget (remote_lock_state w) i = Some s" by (auto simp: some_simps)
  then have i: "0 \<le> i" "i < int (length (remote_lock_state w))" by (auto simp: aget_Some_iff)
  show ?case
  proof (cases "s = LOCK_LOCKED_ALL")
    case True
    then obtain v q where v: "MPID_Win_unlock env i w = Some (v, q)"
      using Cons.prems(1) s by (auto simp: some_simps)
    note inv = unlock_inv_kept [OF fr v Cons.prems(2)]
    show ?thesis
    proof (cases q)
      case (Inl e)
      then show ?thesis using Cons.prems(1) s v True inv by simp
    next
      case (Inr u)
      then obtain rs where rs: "aset (remote_lock_state v) i LOCK_UNLOCKED = Some rs"
        "unlock_all_loop env is (v\<lparr>remote_lock_state := rs\<rparr>) = Some (w', r)"
        using Cons.prems(1) s v True by (auto simp: some_simps)
      have "remote_lock_state v ! nat i = LOCK_UNLOCKED"
        using unlock_effect [OF fr v] Inr i by (auto simp: origin_def MPI_PROC_NULL_def)
      then have "rs = remote_lock_state v" using rs(1) by (metis aset_Some_iff list_update_id)
      then have "epoch_inv (v\<lparr>remote_lock_state := rs\<rparr>)" using inv by simp
      with Cons.IH rs show ?thesis by blast
    qed
  qed (use Cons.prems s in simp)
qed simp

text \<open>The active target calls, by their effect on the part of the window that they own.\<close>

lemma ofold_send_to_origin: "ofold (send_to t m) rs w = Some w' \<Longrightarrow> origin w' = origin w"
  by (erule ofold_origin) (rule send_to_origin)

lemma fence_effect:
  assumes fr: "env_frame env" and ex: "MPID_Win_fence env w = Some (w', r)"
  shows "w' = w \<or> epoch_state w \<in> {EPOCH_NONE, EPOCH_FENCE, EPOCH_FENCE_ISSUED} \<and>
    origin w' = origin (w\<lparr>epoch_state := EPOCH_FENCE_ISSUED\<rparr>)"
proof (cases "w' = w")
  case False
  then have ep: "epoch_state w \<in> {EPOCH_NONE, EPOCH_FENCE, EPOCH_FENCE_ISSUED}"
    using ex by (auto simp: MPID_Win_fence_def split: if_splits)
  with ex False obtain tot where "reduce_scatter env (rma_puts_accs w) = Inr tot"
    by (auto simp: MPID_Win_fence_def split: sum.splits if_splits)
  with ep ex obtain v u pa sr where
    v: "wait_while (\<lambda>w. rma_puts_accs_received w \<noteq> tot \<or> rma_local_pending_cnt w \<noteq> 0) (wait_any env) w = Some v"
    and u: "fence_issued v = Some u"
    and b: "barrier env (u\<lparr>rma_puts_accs := pa, rma_source_rank_received := sr, rma_puts_accs_received := 0\<rparr>) = (w', r)"
    by (auto simp: MPID_Win_fence_def bind_eq_Some_conv)
  have "origin w' = origin u"
    using env_frameD(3) [OF fr, of "u\<lparr>rma_puts_accs := pa, rma_source_rank_received := sr, rma_puts_accs_received := 0\<rparr>"]
    unfolding b by simp
  moreover have "origin u = origin (w\<lparr>epoch_state := EPOCH_FENCE_ISSUED\<rparr>)"
    using wait_any_origin [OF fr v] u by (auto simp: origin_def fence_issued_def split: if_splits)
  ultimately show ?thesis using ep by simp
qed simp

lemma post_effect:
  assumes ex: "MPID_Win_post env g w = Some (w', r)"
  shows "w' = w \<and> r = Inl MPI_ERR_RMA_SYNC \<or> epoch_state w \<in> {EPOCH_NONE, EPOCH_FENCE_ISSUED, EPOCH_START} \<and> r = Inr () \<and>
    (\<exists>ranks. get_group_ranks env g = Some ranks \<and>
      origin w' = origin (w\<lparr>epoch_state := (if epoch_state w = EPOCH_START then EPOCH_PSCW else EPOCH_POST),
        ranks_post := Some ranks\<rparr>))"
  using ex by (auto simp: MPID_Win_post_def some_simps origin_def split: if_splits
      dest!: ofold_send_to_origin)

lemma start_effect:
  assumes fr: "env_frame env" and ex: "MPID_Win_start env g w = Some (w', r)"
  shows "w' = w \<and> r = Inl MPI_ERR_RMA_SYNC \<or> epoch_state w \<in> {EPOCH_NONE, EPOCH_FENCE_ISSUED, EPOCH_POST} \<and> r = Inr () \<and>
    (\<exists>ranks. get_group_ranks env g = Some ranks \<and>
      origin w' = origin (w\<lparr>epoch_state := (if epoch_state w = EPOCH_POST then EPOCH_PSCW else EPOCH_START),
        ranks_start := Some ranks\<rparr>))"
  using ex by (auto simp: MPID_Win_start_def some_simps origin_def split: if_splits
      dest!: ofold_origin [OF _ recv_from_origin [OF fr]])

lemma complete_effect:
  assumes fr: "env_frame env" and ex: "MPID_Win_complete env w = Some (w', r)"
  shows "w' = w \<and> r = Inl MPI_ERR_RMA_SYNC \<or> epoch_state w \<in> {EPOCH_PSCW, EPOCH_START} \<and> r = Inr () \<and>
    origin w' = origin (w\<lparr>epoch_state := (if epoch_state w = EPOCH_PSCW then EPOCH_POST else EPOCH_NONE), ranks_start := None\<rparr>)"
  using ex by (auto simp: MPID_Win_complete_def some_simps origin_def split: if_splits
      dest!: ofold_origin [OF _ complete_rank_origin] wait_any_origin [OF fr])

lemma wait_effect:
  assumes fr: "env_frame env" and ex: "MPID_Win_wait env w = Some (w', r)"
  shows "w' = w \<and> r = Inl MPI_ERR_RMA_SYNC \<or> epoch_state w \<in> {EPOCH_PSCW, EPOCH_POST} \<and> r = Inr () \<and>
    origin w' = origin (w\<lparr>epoch_state := (if epoch_state w = EPOCH_PSCW then EPOCH_START else EPOCH_NONE), ranks_post := None\<rparr>)"
  using ex by (auto simp: MPID_Win_wait_def some_simps origin_def split: if_splits
      dest!: ofold_origin [OF _ await_complete_origin [OF fr]])

lemma flush_local_origin: "env_frame env \<Longrightarrow> MPID_Win_flush_local env d w = Some (w', r) \<Longrightarrow> origin w' = origin w"
  by (auto simp: MPID_Win_flush_local_def MPIDI_PSP_Win_wait_local_completion_def some_simps
      split: if_splits dest: wait_any_origin)

lemma flush_local_all_origin: "env_frame env \<Longrightarrow> MPID_Win_flush_local_all env w = Some (w', r) \<Longrightarrow> origin w' = origin w"
  by (auto simp: MPID_Win_flush_local_all_def some_simps split: if_splits dest: wait_any_origin)

lemma flush_origin:
  assumes fr: "env_frame env" and ex: "MPID_Win_flush env d w = Some (w', r)"
  shows "origin w' = origin w"
  using ex by (auto simp: MPID_Win_flush_def some_simps env_frameD [OF fr] split: if_splits
      dest!: flush_local_origin [OF fr] send_to_origin RecvRmaCtrl_origin [OF fr])

lemma ofold_flush_origin:
  "ofold flush_send is w = Some w' \<Longrightarrow> origin w' = origin w"
  "env_frame env \<Longrightarrow> ofold (flush_answer env) is w = Some w' \<Longrightarrow> origin w' = origin w"
  by (auto elim!: ofold_origin dest: flush_send_origin flush_answer_origin)

lemma flush_all_origin:
  assumes fr: "env_frame env" and ex: "MPID_Win_flush_all env w = Some (w', r)"
  shows "origin w' = origin w"
  using ex by (auto simp: MPID_Win_flush_all_def some_simps split: if_splits
      dest!: flush_local_all_origin [OF fr] ofold_flush_origin(1) ofold_flush_origin(2) [OF fr])

lemma active_inv:
  assumes "epoch_inv w"
  shows "epoch_state w \<in> {EPOCH_NONE, EPOCH_FENCE, EPOCH_FENCE_ISSUED} \<Longrightarrow> origin w' = origin (w\<lparr>epoch_state := EPOCH_FENCE_ISSUED\<rparr>) \<Longrightarrow> epoch_inv w'"
    "epoch_state w \<in> {EPOCH_NONE, EPOCH_FENCE_ISSUED, EPOCH_START} \<Longrightarrow>
     origin w' = origin (w\<lparr>epoch_state := (if epoch_state w = EPOCH_START then EPOCH_PSCW else EPOCH_POST), ranks_post := Some ranks\<rparr>) \<Longrightarrow> epoch_inv w'"
    "epoch_state w \<in> {EPOCH_NONE, EPOCH_FENCE_ISSUED, EPOCH_POST} \<Longrightarrow>
     origin w' = origin (w\<lparr>epoch_state := (if epoch_state w = EPOCH_POST then EPOCH_PSCW else EPOCH_START), ranks_start := Some ranks\<rparr>) \<Longrightarrow> epoch_inv w'"
    "epoch_state w \<in> {EPOCH_PSCW, EPOCH_START} \<Longrightarrow>
     origin w' = origin (w\<lparr>epoch_state := (if epoch_state w = EPOCH_PSCW then EPOCH_POST else EPOCH_NONE), ranks_start := None\<rparr>) \<Longrightarrow> epoch_inv w'"
    "epoch_state w \<in> {EPOCH_PSCW, EPOCH_POST} \<Longrightarrow>
     origin w' = origin (w\<lparr>epoch_state := (if epoch_state w = EPOCH_PSCW then EPOCH_START else EPOCH_NONE), ranks_post := None\<rparr>) \<Longrightarrow> epoch_inv w'"
  using assms unfolding epoch_inv_def origin_def by auto

lemma wait_inv_kept: "env_frame env \<Longrightarrow> MPID_Win_wait env w = Some (w', r) \<Longrightarrow> epoch_inv w \<Longrightarrow> epoch_inv w'"
  using wait_effect active_inv(5) by metis

lemma exec_inv_kept:
  assumes fr: "env_frame env" and ex: "win_exec env c w = Some (w', r)" and inv: "epoch_inv w"
  shows "epoch_inv w'"
proof (cases c)
  case Fence
  then show ?thesis using fence_effect [OF fr] ex inv active_inv(1) [OF inv] by auto
next
  case (Post g)
  then show ?thesis using post_effect [of env g w] ex inv active_inv(2) [OF inv] by fastforce
next
  case (Start g)
  then show ?thesis using start_effect [OF fr, of g w] ex inv active_inv(3) [OF inv] by fastforce
next
  case Complete
  then show ?thesis using complete_effect [OF fr] ex inv active_inv(4) [OF inv] by fastforce
next
  case Wait
  then show ?thesis using wait_inv_kept [OF fr] ex inv by simp
next
  case Test
  then show ?thesis using wait_inv_kept [OF fr] ex inv
    by (auto simp: MPID_Win_test_def some_simps split: if_splits)
next
  case (Lock t d)
  then show ?thesis using lock_inv_kept [OF fr] ex inv by simp
next
  case (Unlock d)
  then show ?thesis using unlock_inv_kept [OF fr] ex inv by simp
next
  case Lock_all
  then show ?thesis using lock_all_inv [OF fr] ex inv by (simp add: MPID_Win_lock_all_def)
next
  case Unlock_all
  then show ?thesis using unlock_all_inv [OF fr] ex inv by (simp add: MPID_Win_unlock_all_def)
next
  case Sync
  then show ?thesis using ex inv by (auto simp: MPID_Win_sync_def split: if_splits)
next
  case (Flush d)
  then show ?thesis using epoch_inv_origin [OF flush_origin [OF fr]] ex inv by simp
next
  case Flush_all
  then show ?thesis using epoch_inv_origin [OF flush_all_origin [OF fr]] ex inv by simp
next
  case (Flush_local d)
  then show ?thesis using epoch_inv_origin [OF flush_local_origin [OF fr]] ex inv by simp
next
  case Flush_local_all
  then show ?thesis using epoch_inv_origin [OF flush_local_all_origin [OF fr]] ex inv by simp
qed

text \<open>
  The windows that a process can be in: after creation, after any call, after progress on behalf of
  its peers, and after an operation of a fence epoch has been recorded.
\<close>

inductive win_reach :: "pscom_env \<Rightarrow> MPIR_Win \<Rightarrow> bool" for env where
  reach_create: "win_reach env (MPID_Win_create r n)"
| reach_call: "win_reach env w \<Longrightarrow> win_exec env c w = Some (w', res) \<Longrightarrow> win_reach env w'"
| reach_peers: "win_reach env w \<Longrightarrow> origin w' = origin w \<Longrightarrow> win_reach env w'"
| reach_access: "win_reach env w \<Longrightarrow> epoch_state w = EPOCH_FENCE_ISSUED \<Longrightarrow> win_reach env (w\<lparr>epoch_state := EPOCH_FENCE\<rparr>)"

inductive_cases reach_cases: "win_reach env w"

lemma reach_inv: "win_reach env w \<Longrightarrow> env_frame env \<Longrightarrow> epoch_inv w"
proof (induction rule: win_reach.induct)
  case (reach_create r n)
  then show ?case by (simp add: epoch_inv_def MPID_Win_create_def locked_count_def)
next
  case (reach_call w c w' res)
  then show ?case using exec_inv_kept by blast
next
  case (reach_peers w w')
  then show ?case using epoch_inv_origin by blast
next
  case (reach_access w)
  then show ?case by (auto simp: epoch_inv_def)
qed

end
