(* ===== verification/Rma_Theorems.thy ===== *)
theory Rma_Theorems
  imports Rma_Epochs Group_Theorems
begin

text \<open>
  The properties of one-sided synchronisation: mutual exclusion and progress of the window locks,
  the invariant and the table of the epochs, and the calls that lock all ranks.
\<close>

section \<open>Locking all ranks\<close>

lemma lock_at_ends:
  assumes fr: "env_frame env" and d: "0 \<le> d" "d < local_size w"
  shows "\<exists>u. lock_at env ex d w = Some u"
proof -
  let ?w = "if d = win_rank w then test_any env w else w"
  have ow: "origin ?w = origin w" using env_frameD(2) [OF fr] by simp
  obtain got v where gv: "(if d = win_rank ?w then do_trylock ?w ex else (False, ?w)) = (got, v)" by force
  have ov: "origin v = origin w" using gv ow by (auto split: if_splits dest: trylock_origin)
  have c: "rank2connection v d = Some d" using originD(6) [OF ov] d by (simp add: rank2connection_def)
  define m where "m = (if ex then MSGTYPE_RMA_LOCK_EXCLUSIVE_REQUEST else MSGTYPE_RMA_LOCK_SHARED_REQUEST)"
  obtain x where x: "send_to 0 m d v = Some x"
    using c by (cases "send_to 0 m d v"; cases ex) (simp_all add: send_to_def MPIDI_PSP_SendRmaCtrl_def m_def)
  obtain y where y: "MPIDI_PSP_RecvRmaCtrl env 0 MPI_ANY_SOURCE MSGTYPE_RMA_LOCK_ANSWER x = Some y"
    by (cases "pscom_recv env 0 MPI_ANY_SOURCE MSGTYPE_RMA_LOCK_ANSWER x") (simp add: MPIDI_PSP_RecvRmaCtrl_def)
  have "lock_at env ex d w = (if got then Some v else Some y)"
    unfolding lock_at_def Let_def gv m_def [symmetric] by (simp add: x y)
  then show ?thesis by (cases got) simp_all
qed

lemma lock_succeeds:
  assumes fr: "env_frame env" and t: "t \<noteq> No_lock_type" and d: "0 \<le> d" "d < local_size w"
    and len: "length (remote_lock_state w) = nat (local_size w)"
    and un: "remote_lock_state w ! nat d = LOCK_UNLOCKED"
    and ep: "epoch_state w \<in> {EPOCH_NONE, EPOCH_FENCE_ISSUED, EPOCH_LOCK}"
  shows "\<exists>w'. MPID_Win_lock env t d w = Some (w', Inr ()) \<and>
    origin w' = (EPOCH_LOCK, epoch_lock_count w + 1, (remote_lock_state w)[nat d := LOCK_LOCKED],
      ranks_start w, ranks_post w, local_size w, win_rank w)"
proof -
  have np: "d \<noteq> MPI_PROC_NULL" using d by (simp add: MPI_PROC_NULL_def)
  obtain u where u: "lock_at env (t = MPI_LOCK_EXCLUSIVE) d w = Some u" using lock_at_ends [OF fr d] by blast
  note ou = lock_at_origin [OF fr u]
  have di: "d < int (length (remote_lock_state w))" using d len by simp
  have "aget (remote_lock_state w) d = Some LOCK_UNLOCKED" using d di un by (simp add: carray_simps)
  moreover have "aset (remote_lock_state u) d LOCK_LOCKED = Some ((remote_lock_state w)[nat d := LOCK_LOCKED])"
    using originD(3) [OF ou] d di by (simp add: carray_simps)
  ultimately have "MPID_Win_lock env t d w = Some (u\<lparr>remote_lock_state := (remote_lock_state w)[nat d := LOCK_LOCKED],
      epoch_state := EPOCH_LOCK, epoch_lock_count := epoch_lock_count u + 1\<rparr>, Inr ())"
    using np ep t u by (auto simp: MPID_Win_lock_def)
  then show ?thesis using originD [OF ou] by (simp add: origin_def)
qed

lemma lock_all_append:
  "lock_all_loop env (xs @ ys) w = do {
     (w, r) \<leftarrow> lock_all_loop env xs w;
     (case r of Inl e \<Rightarrow> Some (w, Inl e) | Inr _ \<Rightarrow> lock_all_loop env ys w)
   }"
proof (induction xs arbitrary: w)
  case (Cons x xs)
  show ?case
    by (auto simp: Cons.IH split: Option.bind_splits sum.splits)
qed simp

lemma lock_all_prefix:
  assumes fr: "env_frame env" and "0 \<le> k" "k \<le> j" "j \<le> local_size w"
    and "length (remote_lock_state w) = nat (local_size w)"
    and "\<forall>i. k \<le> i \<and> i < j \<longrightarrow> remote_lock_state w ! nat i = LOCK_UNLOCKED"
    and "epoch_state w \<in> {EPOCH_NONE, EPOCH_FENCE_ISSUED, EPOCH_LOCK}"
  shows "\<exists>w'. lock_all_loop env [k..j - 1] w = Some (w', Inr ()) \<and>
    epoch_state w' = (if k < j then EPOCH_LOCK else epoch_state w) \<and>
    epoch_lock_count w' = epoch_lock_count w + (j - k) \<and> local_size w' = local_size w \<and>
    length (remote_lock_state w') = length (remote_lock_state w) \<and>
    (\<forall>i. 0 \<le> i \<and> i < local_size w \<longrightarrow> remote_lock_state w' ! nat i =
      (if k \<le> i \<and> i < j then LOCK_LOCKED_ALL else remote_lock_state w ! nat i))"
  using assms(2-)
proof (induction "nat (j - k)" arbitrary: k w)
  case 0
  then show ?case by simp
next
  case (Suc n)
  then have kj: "k < j" by simp
  obtain v where v: "MPID_Win_lock env MPI_LOCK_SHARED k w = Some (v, Inr ())"
    "origin v = (EPOCH_LOCK, epoch_lock_count w + 1, (remote_lock_state w)[nat k := LOCK_LOCKED],
      ranks_start w, ranks_post w, local_size w, win_rank w)"
    using lock_succeeds [OF fr, of MPI_LOCK_SHARED k w] Suc.prems kj by auto
  let ?ls = "(remote_lock_state w)[nat k := LOCK_LOCKED_ALL]"
  let ?v = "v\<lparr>remote_lock_state := ?ls\<rparr>"
  have f: "epoch_state ?v = EPOCH_LOCK" "epoch_lock_count ?v = epoch_lock_count w + 1" "local_size ?v = local_size w"
    using v(2) by (simp_all add: origin_def)
  have k: "nat k < length (remote_lock_state w)" using Suc.prems kj by simp
  have ix: "?ls ! nat i = (if i = k then LOCK_LOCKED_ALL else remote_lock_state w ! nat i)" if "0 \<le> i" for i
    using that Suc.prems(1) k by (auto simp: nth_list_update)
  have "\<exists>w'. lock_all_loop env [k + 1..j - 1] ?v = Some (w', Inr ()) \<and>
    epoch_state w' = (if k + 1 < j then EPOCH_LOCK else epoch_state ?v) \<and>
    epoch_lock_count w' = epoch_lock_count ?v + (j - (k + 1)) \<and> local_size w' = local_size ?v \<and>
    length (remote_lock_state w') = length (remote_lock_state ?v) \<and>
    (\<forall>i. 0 \<le> i \<and> i < local_size ?v \<longrightarrow> remote_lock_state w' ! nat i =
      (if k + 1 \<le> i \<and> i < j then LOCK_LOCKED_ALL else remote_lock_state ?v ! nat i))"
    using Suc.prems kj f Suc.hyps(2) ix by (intro Suc.hyps(1)) auto
  then obtain w' where raw: "lock_all_loop env [k + 1..j - 1] ?v = Some (w', Inr ())"
    "epoch_state w' = (if k + 1 < j then EPOCH_LOCK else epoch_state ?v)"
    "epoch_lock_count w' = epoch_lock_count ?v + (j - (k + 1))" "local_size w' = local_size ?v"
    "length (remote_lock_state w') = length (remote_lock_state ?v)"
    "\<forall>i. 0 \<le> i \<and> i < local_size ?v \<longrightarrow> remote_lock_state w' ! nat i =
      (if k + 1 \<le> i \<and> i < j then LOCK_LOCKED_ALL else remote_lock_state ?v ! nat i)" by blast
  then have w': "lock_all_loop env [k + 1..j - 1] ?v = Some (w', Inr ())"
    "epoch_state w' = EPOCH_LOCK" "epoch_lock_count w' = epoch_lock_count w + (j - k)" "local_size w' = local_size w"
    "length (remote_lock_state w') = length (remote_lock_state w)"
    "\<forall>i. 0 \<le> i \<and> i < local_size w \<longrightarrow> remote_lock_state w' ! nat i =
      (if k + 1 \<le> i \<and> i < j then LOCK_LOCKED_ALL else ?ls ! nat i)"
    unfolding f by simp_all
  have "aget (remote_lock_state w) k = Some LOCK_UNLOCKED"
    using Suc.prems kj k by (simp add: aget_def)
  moreover have "aset (remote_lock_state v) k LOCK_LOCKED_ALL = Some ?ls"
    using v(2) Suc.prems kj k by (simp add: origin_def aset_def)
  ultimately have "lock_all_loop env [k..j - 1] w = Some (w', Inr ())"
    using v(1) w'(1) kj by (simp add: upto_rec1)
  moreover have "remote_lock_state w' ! nat i =
      (if k \<le> i \<and> i < j then LOCK_LOCKED_ALL else remote_lock_state w ! nat i)" if "0 \<le> i" "i < local_size w" for i
    using w'(6) ix [of i] that kj by auto
  ultimately show ?case using w' kj by auto
qed

section \<open>Unlocking all ranks\<close>

text \<open>
  What the waits rely on: testing often enough lets the pending operations complete, and progress
  does not resize the counters.
\<close>

definition env_progress :: "pscom_env \<Rightarrow> bool" where
  "env_progress env \<longleftrightarrow> (\<forall>w. (\<exists>n. rma_local_pending_cnt ((test_any env ^^ n) w) = 0) \<and>
     length (rma_puts_accs (test_any env w)) = length (rma_puts_accs w) \<and>
     (\<forall>t s m. length (rma_puts_accs (fst (pscom_recv env t s m w))) = length (rma_puts_accs w)))"

lemma progress_wait:
  assumes "env_progress env"
  shows "\<exists>v. wait_while (\<lambda>w. rma_local_pending_cnt w \<noteq> 0) (test_any env) w = Some v \<and>
    length (rma_puts_accs v) = length (rma_puts_accs w)"
proof -
  obtain n where "rma_local_pending_cnt ((test_any env ^^ n) w) = 0"
    using assms unfolding env_progress_def by blast
  then obtain v where v: "wait_while (\<lambda>w. rma_local_pending_cnt w \<noteq> 0) (test_any env) w = Some v"
    using wait_while_ends [of "\<lambda>w. rma_local_pending_cnt w \<noteq> 0" n "test_any env" w] by auto
  have "length (rma_puts_accs ((test_any env ^^ k) w)) = length (rma_puts_accs w)" for k
    using assms by (induction k) (auto simp: env_progress_def)
  with wait_while_Some [OF v] v show ?thesis by auto
qed

lemma do_unlock_counters [simp]: "rma_puts_accs (do_unlock w) = rma_puts_accs w"
  by (auto simp: do_unlock_cases pscom_post_send_def split: list.split)

lemma unlock_at_ends:
  assumes pr: "env_progress env" and fr: "env_frame env" and d: "0 \<le> d" "d < local_size w"
    and len: "length (rma_puts_accs w) = nat (local_size w)"
  shows "\<exists>u. unlock_at env d w = Some u \<and> length (rma_puts_accs u) = length (rma_puts_accs w)"
proof (cases "d = win_rank w")
  case False
  obtain v where v: "wait_while (\<lambda>w. rma_local_pending_cnt w \<noteq> 0) (test_any env) w = Some v"
    "length (rma_puts_accs v) = length (rma_puts_accs w)" using progress_wait [OF pr] by blast
  have dv: "d < int (length (rma_puts_accs v))" using v(2) len d by simp
  define x where "x = v\<lparr>outbox := outbox v @ [\<lparr>cm_dest = d, cm_type = MSGTYPE_RMA_UNLOCK_REQUEST, cm_tag = 0,
      cm_counter = Some (rma_puts_accs v ! nat d)\<rparr>]\<rparr>"
  have s: "MPIDI_PSP_SendRmaCtrl 0 d MSGTYPE_RMA_UNLOCK_REQUEST v = Some x"
    using d dv by (simp add: MPIDI_PSP_SendRmaCtrl_def carray_simps x_def)
  define y where "y = fst (pscom_recv env 0 MPI_ANY_SOURCE MSGTYPE_RMA_UNLOCK_ANSWER x)"
  have r: "MPIDI_PSP_RecvRmaCtrl env 0 MPI_ANY_SOURCE MSGTYPE_RMA_UNLOCK_ANSWER x = Some y"
    by (simp add: MPIDI_PSP_RecvRmaCtrl_def y_def case_prod_beta)
  have ly: "length (rma_puts_accs y) = length (rma_puts_accs w)"
    using pr v(2) by (simp add: env_progress_def y_def x_def)
  have "unlock_at env d w = Some (y\<lparr>rma_puts_accs := (rma_puts_accs y)[nat d := 0]\<rparr>)"
    using False d len ly v(1) s r by (simp add: unlock_at_def rank2connection_def carray_simps)
  with ly show ?thesis by simp
qed (simp add: unlock_at_def)

lemma unlock_succeeds:
  assumes pr: "env_progress env" and fr: "env_frame env" and inv: "epoch_inv w" and d: "0 \<le> d" "d < local_size w"
    and len: "length (rma_puts_accs w) = nat (local_size w)" and lk: "remote_lock_state w ! nat d \<noteq> LOCK_UNLOCKED"
  shows "\<exists>w'. MPID_Win_unlock env d w = Some (w', Inr ()) \<and> epoch_inv w' \<and>
    length (rma_puts_accs w') = length (rma_puts_accs w) \<and> local_size w' = local_size w \<and>
    remote_lock_state w' = (remote_lock_state w)[nat d := LOCK_UNLOCKED] \<and>
    epoch_state w' = (if epoch_lock_count w = 1 then EPOCH_NONE else EPOCH_LOCK)"
proof -
  have np: "d \<noteq> MPI_PROC_NULL" using d by (simp add: MPI_PROC_NULL_def)
  have ll: "length (remote_lock_state w) = nat (local_size w)" using inv by (simp add: epoch_inv_def)
  then have dn: "nat d < length (remote_lock_state w)" using d by simp
  have e: "epoch_state w = EPOCH_LOCK" using locked_count_pos [OF dn lk] inv by (simp add: epoch_inv_def)
  obtain u where u: "unlock_at env d w = Some u" "length (rma_puts_accs u) = length (rma_puts_accs w)"
    using unlock_at_ends [OF pr fr d len] by blast
  note o = originD [OF unlock_at_origin [OF fr u(1)]]
  let ?w = "u\<lparr>remote_lock_state := (remote_lock_state w)[nat d := LOCK_UNLOCKED], epoch_lock_count := epoch_lock_count w - 1,
     epoch_state := (if epoch_lock_count w = 1 then EPOCH_NONE else EPOCH_LOCK)\<rparr>"
  have ex: "MPID_Win_unlock env d w = Some (?w, Inr ())"
    using np d ll lk e u o by (simp add: MPID_Win_unlock_def aget_def aset_def in_passive_epoch_def Let_def)
  from unlock_inv_kept [OF fr ex inv] ex u(2) o(6) show ?thesis by simp
qed

lemma all_entries:
  assumes "\<forall>i. 0 \<le> i \<and> i < n \<longrightarrow> xs ! nat i = c" and "length xs = nat n"
  shows "\<forall>s\<in>set xs. s = c"
proof
  fix s assume "s \<in> set xs"
  then obtain j where "j < length xs" "xs ! j = s" by (auto simp: in_set_conv_nth)
  with assms(1) [rule_format, of "int j"] assms(2) show "s = c" by auto
qed

lemma unlock_all_from:
  assumes pr: "env_progress env" and fr: "env_frame env" and "0 \<le> k" "k \<le> local_size w" and "epoch_inv w"
    and "length (rma_puts_accs w) = nat (local_size w)"
    and "\<forall>i. 0 \<le> i \<and> i < local_size w \<longrightarrow> remote_lock_state w ! nat i = (if i < k then LOCK_UNLOCKED else LOCK_LOCKED_ALL)"
  shows "\<exists>w'. unlock_all_loop env [k..local_size w - 1] w = Some (w', Inr ()) \<and> epoch_inv w' \<and> local_size w' = local_size w \<and>
    epoch_state w' = (if k < local_size w then EPOCH_NONE else epoch_state w) \<and>
    (\<forall>s\<in>set (remote_lock_state w'). s = LOCK_UNLOCKED)"
  using assms(3-)
proof (induction "nat (local_size w - k)" arbitrary: k w)
  case 0
  have "length (remote_lock_state w) = nat (local_size w)" using "0.prems" by (simp add: epoch_inv_def)
  then have "\<forall>s\<in>set (remote_lock_state w). s = LOCK_UNLOCKED"
    using 0 by (intro all_entries [of "local_size w"]) auto
  with 0 show ?case by simp
next
  case (Suc n)
  then have kn: "k < local_size w" by simp
  have lk: "remote_lock_state w ! nat k = LOCK_LOCKED_ALL" using Suc.prems kn by simp
  have ll: "length (remote_lock_state w) = nat (local_size w)" using Suc.prems by (simp add: epoch_inv_def)
  obtain v where v: "MPID_Win_unlock env k w = Some (v, Inr ())" "epoch_inv v"
    "length (rma_puts_accs v) = length (rma_puts_accs w)" "local_size v = local_size w"
    "remote_lock_state v = (remote_lock_state w)[nat k := LOCK_UNLOCKED]"
    "epoch_state v = (if epoch_lock_count w = 1 then EPOCH_NONE else EPOCH_LOCK)"
    using unlock_succeeds [OF pr fr Suc.prems(3) Suc.prems(1) kn Suc.prems(4)] lk by auto
  have rv: "\<forall>i. 0 \<le> i \<and> i < local_size v \<longrightarrow> remote_lock_state v ! nat i = (if i < k + 1 then LOCK_UNLOCKED else LOCK_LOCKED_ALL)"
    using Suc.prems(1,5) ll kn by (auto simp: v(4,5) nth_list_update)
  have "\<exists>w'. unlock_all_loop env [k + 1..local_size v - 1] v = Some (w', Inr ()) \<and> epoch_inv w' \<and> local_size w' = local_size v \<and>
    epoch_state w' = (if k + 1 < local_size v then EPOCH_NONE else epoch_state v) \<and>
    (\<forall>s\<in>set (remote_lock_state w'). s = LOCK_UNLOCKED)"
    using Suc.prems Suc.hyps(2) kn v rv by (intro Suc.hyps(1)) auto
  then obtain w' where w': "unlock_all_loop env [k + 1..local_size v - 1] v = Some (w', Inr ())" "epoch_inv w'"
    "local_size w' = local_size v" "epoch_state w' = (if k + 1 < local_size v then EPOCH_NONE else epoch_state v)"
    "\<forall>s\<in>set (remote_lock_state w'). s = LOCK_UNLOCKED" by blast
  have "epoch_lock_count v = locked_count (remote_lock_state v)" using v(2) by (simp add: epoch_inv_def)
  have last: "epoch_state v = EPOCH_NONE" if "\<not> k + 1 < local_size v"
  proof -
    have "\<forall>s\<in>set (remote_lock_state v). s = LOCK_UNLOCKED"
      using rv that kn ll v(4,5) by (intro all_entries [of "local_size v"]) auto
    then have "locked_count (remote_lock_state v) = 0" by (simp add: locked_count_def filter_empty_conv)
    then show ?thesis using v(2,6) by (auto simp: epoch_inv_def split: if_splits)
  qed
  have "aset (remote_lock_state v) k LOCK_UNLOCKED = Some (remote_lock_state v)"
    using Suc.prems(1) kn ll v(5) by (simp add: aset_def)
  then have "unlock_all_loop env [k..local_size w - 1] w = unlock_all_loop env [k + 1..local_size v - 1] v"
    using v(1,4) lk ll Suc.prems(1) kn by (simp add: upto_rec1 aget_def)
  with w' last v(4) kn show ?case by auto
qed

text \<open>Locking leaves the size of the operation counters alone.\<close>

lemma send_to_counters: "send_to tag m d w = Some w' \<Longrightarrow> rma_puts_accs w' = rma_puts_accs w"
  by (cases m; cases "rank2connection w d"; cases "aget (rma_puts_accs w) d")
    (auto simp: send_to_def MPIDI_PSP_SendRmaCtrl_def rank2connection_def split: if_splits)

lemma lock_at_counters:
  assumes pr: "env_progress env" and "lock_at env ex d w = Some u"
  shows "length (rma_puts_accs u) = length (rma_puts_accs w)"
proof -
  let ?w = "if d = win_rank w then test_any env w else w"
  have lw: "length (rma_puts_accs ?w) = length (rma_puts_accs w)" using pr by (simp add: env_progress_def)
  obtain got v where gv: "(if d = win_rank ?w then do_trylock ?w ex else (False, ?w)) = (got, v)" by force
  have lv: "length (rma_puts_accs v) = length (rma_puts_accs w)"
    using gv lw by (auto simp: do_trylock_def split: if_splits)
  define m where "m = (if ex then MSGTYPE_RMA_LOCK_EXCLUSIVE_REQUEST else MSGTYPE_RMA_LOCK_SHARED_REQUEST)"
  have eq: "(if got then Some v else do { w \<leftarrow> send_to 0 m d v;
      MPIDI_PSP_RecvRmaCtrl env 0 MPI_ANY_SOURCE MSGTYPE_RMA_LOCK_ANSWER w }) = Some u"
    using assms(2) unfolding lock_at_def Let_def gv m_def by simp
  show ?thesis
  proof (cases got)
    case True
    with eq lv show ?thesis by simp
  next
    case False
    with eq obtain x where x: "send_to 0 m d v = Some x"
      "u = fst (pscom_recv env 0 MPI_ANY_SOURCE MSGTYPE_RMA_LOCK_ANSWER x)"
      by (cases "send_to 0 m d v") (auto simp: MPIDI_PSP_RecvRmaCtrl_def case_prod_beta)
    show ?thesis using lv send_to_counters [OF x(1)] pr by (simp add: x(2) env_progress_def)
  qed
qed

lemma lock_counters:
  assumes pr: "env_progress env" and "MPID_Win_lock env t d w = Some (w', r)"
  shows "length (rma_puts_accs w') = length (rma_puts_accs w)"
proof (cases "lock_at env (t = MPI_LOCK_EXCLUSIVE) d w")
  case None
  then have "w' = w" using assms(2) unfolding MPID_Win_lock_def
    by (cases "aget (remote_lock_state w) d") (simp_all split: if_splits)
  then show ?thesis by simp
next
  case (Some u)
  note lu = lock_at_counters [OF pr Some]
  have "w' = w \<or> (\<exists>rs. w' = u\<lparr>remote_lock_state := rs, epoch_state := EPOCH_LOCK, epoch_lock_count := epoch_lock_count u + 1\<rparr>)"
    using assms(2) Some unfolding MPID_Win_lock_def
    by (cases "aget (remote_lock_state w) d"; cases "aset (remote_lock_state u) d LOCK_LOCKED")
      (simp_all split: if_splits, blast+)
  then show ?thesis using lu by auto
qed

lemma lock_all_counters:
  assumes pr: "env_progress env" and "lock_all_loop env is w = Some (w', r)"
  shows "length (rma_puts_accs w') = length (rma_puts_accs w)"
  using assms(2)
proof (induction "is" arbitrary: w)
  case (Cons i "is")
  from Cons.prems obtain s where s: "aget (remote_lock_state w) i = Some s" by (auto simp: bind_eq_Some_conv)
  show ?case
  proof (cases "s = LOCK_UNLOCKED")
    case True
    then obtain v q where v: "MPID_Win_lock env MPI_LOCK_SHARED i w = Some (v, q)"
      using Cons.prems s by (auto simp: bind_eq_Some_conv)
    note lv = lock_counters [OF pr v]
    show ?thesis
    proof (cases q)
      case (Inl e)
      then show ?thesis using Cons.prems s v True lv by simp
    next
      case (Inr x)
      then obtain rs where "lock_all_loop env is (v\<lparr>remote_lock_state := rs\<rparr>) = Some (w', r)"
        using Cons.prems s v True by (auto simp: bind_eq_Some_conv)
      from Cons.IH [OF this] lv show ?thesis by simp
    qed
  qed (use Cons.prems s in simp)
qed simp

section \<open>The table of the epochs\<close>

fun permits :: "win_call \<Rightarrow> MPID_PSP_Win_epoch_states \<Rightarrow> bool" where
  "permits Fence e \<longleftrightarrow> e \<in> {EPOCH_NONE, EPOCH_FENCE, EPOCH_FENCE_ISSUED}"
| "permits (Post g) e \<longleftrightarrow> e \<in> {EPOCH_NONE, EPOCH_FENCE_ISSUED, EPOCH_START}"
| "permits (Start g) e \<longleftrightarrow> e \<in> {EPOCH_NONE, EPOCH_FENCE_ISSUED, EPOCH_POST}"
| "permits Complete e \<longleftrightarrow> e \<in> {EPOCH_PSCW, EPOCH_START}"
| "permits Wait e \<longleftrightarrow> e \<in> {EPOCH_PSCW, EPOCH_POST}"
| "permits Test e \<longleftrightarrow> e \<in> {EPOCH_PSCW, EPOCH_POST}"
| "permits (Lock t d) e \<longleftrightarrow> e \<in> {EPOCH_NONE, EPOCH_FENCE_ISSUED, EPOCH_LOCK}"
| "permits Lock_all e \<longleftrightarrow> e \<in> {EPOCH_NONE, EPOCH_FENCE_ISSUED, EPOCH_LOCK}"
| "permits _ e \<longleftrightarrow> e \<in> {EPOCH_LOCK, EPOCH_LOCK_ALL}"

text \<open>The call names a rank of the window, where it names one.\<close>

fun call_in_range :: "win_call \<Rightarrow> MPIR_Win \<Rightarrow> bool" where
  "call_in_range (Lock t d) w \<longleftrightarrow> 0 \<le> d \<and> d < int (length (remote_lock_state w))"
| "call_in_range (Unlock d) w \<longleftrightarrow> 0 \<le> d \<and> d < int (length (remote_lock_state w))"
| "call_in_range Lock_all w \<longleftrightarrow> 0 < local_size w \<and> int (length (remote_lock_state w)) = local_size w"
| "call_in_range Unlock_all w \<longleftrightarrow> 0 < local_size w \<and> int (length (remote_lock_state w)) = local_size w"
| "call_in_range _ w \<longleftrightarrow> True"

lemma lock_refused:
  assumes "\<not> permits (Lock t d) (epoch_state w)" and "0 \<le> d" "d < int (length (remote_lock_state w))"
  shows "MPID_Win_lock env t d w = Some (w, Inl MPI_ERR_RMA_SYNC)"
  using assms by (simp add: MPID_Win_lock_def carray_simps MPI_PROC_NULL_def)

lemma unlock_refused:
  assumes "\<not> permits (Unlock d) (epoch_state w)" and "0 \<le> d" "d < int (length (remote_lock_state w))"
  shows "MPID_Win_unlock env d w = Some (w, Inl MPI_ERR_RMA_SYNC)"
  using assms by (simp add: MPID_Win_unlock_def carray_simps MPI_PROC_NULL_def in_passive_epoch_def)

lemma exec_refused:
  assumes "\<not> permits c (epoch_state w)" and "call_in_range c w"
  shows "win_exec env c w = Some (w, Inl MPI_ERR_RMA_SYNC)"
proof (cases c)
  case (Lock t d)
  then show ?thesis using assms lock_refused by simp
next
  case (Unlock d)
  then show ?thesis using assms unlock_refused by simp
next
  case Lock_all
  then have "MPID_Win_lock env MPI_LOCK_SHARED 0 w = Some (w, Inl MPI_ERR_RMA_SYNC)"
    using assms by (intro lock_refused) auto
  then show ?thesis using assms Lock_all by (simp add: MPID_Win_lock_all_def upto_rec1 aget_def)
next
  case Unlock_all
  then have "MPID_Win_unlock env 0 w = Some (w, Inl MPI_ERR_RMA_SYNC)"
    using assms by (intro unlock_refused) auto
  then show ?thesis using assms Unlock_all by (simp add: MPID_Win_unlock_all_def upto_rec1 aget_def)
qed (use assms in \<open>auto simp: MPID_Win_fence_def MPID_Win_post_def MPID_Win_start_def MPID_Win_complete_def MPID_Win_wait_def
  MPID_Win_test_def MPID_Win_sync_def MPID_Win_flush_def MPID_Win_flush_all_def MPID_Win_flush_local_def
  MPID_Win_flush_local_all_def in_passive_epoch_def Let_def\<close>)

section \<open>Posting to a group\<close>

definition post_msg :: "int \<Rightarrow> ctrl_msg" where
  "post_msg r = \<lparr>cm_dest = r, cm_type = MSGTYPE_RMA_POST, cm_tag = CTRL_TAG_WIN_POST, cm_counter = None\<rparr>"

lemma send_posts:
  assumes "\<forall>r\<in>set rs. 0 \<le> r \<and> r < local_size w"
  shows "ofold (send_to CTRL_TAG_WIN_POST MSGTYPE_RMA_POST) rs w = Some (w\<lparr>outbox := outbox w @ map post_msg rs\<rparr>)"
  using assms
proof (induction rs arbitrary: w)
  case (Cons r rs)
  have "send_to CTRL_TAG_WIN_POST MSGTYPE_RMA_POST r w = Some (w\<lparr>outbox := outbox w @ [post_msg r]\<rparr>)"
    using Cons.prems by (simp add: send_to_def rank2connection_def MPIDI_PSP_SendRmaCtrl_def post_msg_def)
  with Cons show ?case by simp
qed simp

lemma rank_in_bounds: "rank_in ys x = Some i \<Longrightarrow> 0 \<le> i \<and> i < int (length ys) \<and> ys ! nat i = x"
proof (induction ys arbitrary: i)
  case (Cons y ys)
  show ?case
  proof (cases "y = x")
    case False
    then obtain z where "rank_in ys x = Some z" "i = 1 + z" using Cons.prems by auto
    with Cons.IH [of z] show ?thesis by (simp add: nat_add_distrib)
  qed (use Cons.prems in simp)
qed simp

lemma group_ranks_translated:
  assumes wf: "group_wf g" "group_wf cg" and cg: "comm_group env = Inr cg" "members cg \<noteq> []" and m1: "-1 \<notin> set (members g)"
  shows "get_group_ranks env g = Some (map (translated g cg) [0..g_size g - 1])"
proof -
  have "translatable g [0..g_size g - 1]" by (auto simp: translatable_def)
  from translate_correct [OF wf cg(2) this m1] cg(1) show ?thesis by (auto simp: get_group_ranks_def)
qed

lemma translated_member:
  assumes wf: "group_wf g" and sub: "set (members g) \<subseteq> set (members cg)" and r: "0 \<le> r" "r < g_size g"
  shows "0 \<le> translated g cg r \<and> translated g cg r < int (length (members cg)) \<and>
    members cg ! nat (translated g cg r) = members g ! nat r"
proof -
  have "nat r < length (members g)" using r group_wfD(2) [OF wf] by linarith
  then have "members g ! nat r \<in> set (members cg)" using sub nth_mem by blast
  then obtain i where "rank_in (members cg) (members g ! nat r) = Some i" using rank_in_None by (metis option.exhaust)
  with rank_in_bounds [OF this] r show ?thesis by (simp add: translated_def MPI_PROC_NULL_def)
qed

section \<open>A concrete environment\<close>

text \<open>Progress completes what is pending, every receive finds its message, and the communicator has
  three processes.\<close>

definition three_env :: pscom_env where
  "three_env = \<lparr>wait_any = (\<lambda>w. w\<lparr>rma_local_pending_cnt := 0\<rparr>), test_any = (\<lambda>w. w\<lparr>rma_local_pending_cnt := 0\<rparr>),
     pscom_recv = (\<lambda>t s m w. (w, 0)), pscom_iprobe = (\<lambda>t s m w. True), reduce_scatter = (\<lambda>_. Inr 0),
     barrier = (\<lambda>w. (w, Inr ())), comm_group = Inr (group_of [10, 20, 30] 0)\<rparr>"

lemma three_env_frame [simp]: "env_frame three_env"
  by (simp add: env_frame_def three_env_def origin_def)

lemma three_env_progress [simp]: "env_progress three_env"
proof -
  have "\<exists>n. rma_local_pending_cnt ((test_any three_env ^^ n) w) = 0" for w
    by (rule exI [of _ 1]) (simp add: three_env_def)
  then show ?thesis unfolding env_progress_def by (simp add: three_env_def)
qed

lemma win_create_inv: "epoch_inv (MPID_Win_create r n)"
  by (simp add: epoch_inv_def MPID_Win_create_def locked_count_def)

definition lock_request :: "int \<Rightarrow> pscom_request" where
  "lock_request src = \<lparr>rq_con = src, rq_type = MSGTYPE_RMA_LOCK_SHARED_REQUEST, rq_src_rank = src,
     rq_op_counter = 0, rq_exclusive = False\<rparr>"

definition answer_of :: "int \<Rightarrow> bool \<Rightarrow> pscom_request" where
  "answer_of src ex = (lock_request src)\<lparr>rq_type := MSGTYPE_RMA_LOCK_ANSWER, rq_src_rank := MPI_ANY_SOURCE, rq_exclusive := ex\<rparr>"

text \<open>A run in which rank 1 holds the lock exclusively and rank 2 waits for it.\<close>

definition contended :: MPIR_Win where
  "contended = MPID_do_recv_rma_lock_shared_req (lock_request 2)
     (MPID_do_recv_rma_lock_exclusive_req (lock_request 1) (MPID_Win_create 0 3))"

lemma contended_fields: "lock_list contended = [answer_of 2 False]" "lock_cnt contended = 1" "lock_exclusive contended"
  "outbox contended = [lock_answer (answer_of 1 True)]" "lock_list_internal contended = []"
  by (simp_all add: contended_def MPID_do_recv_rma_lock_shared_req_def MPID_do_recv_rma_lock_exclusive_req_def
      MPID_do_recv_rma_lock_req_def do_lock_cases MPID_Win_create_def answer_of_def lock_request_def)

lemma contended_run:
  "lock_run contended {#answer_of 2 False, answer_of 1 True#} {#answer_of 1 True#} {#}"
proof -
  let ?w0 = "MPID_Win_create 0 3" and ?w1 = "MPID_do_recv_rma_lock_req (lock_request 1) True (MPID_Win_create 0 3)"
  have f: "lock_list ?w1 = lock_list ?w0"
    by (simp add: MPID_do_recv_rma_lock_req_def do_lock_cases MPID_Win_create_def)
  have "lock_run ?w1 (add_mset (answer_of 1 True) {#})
      (if lock_list ?w1 = lock_list ?w0 then add_mset (answer_of 1 True) {#} else {#}) {#}"
    by (rule run_arrive [OF run_init]) (simp_all add: answer_of_def)
  then have "lock_run ?w1 {#answer_of 1 True#} {#answer_of 1 True#} {#}" unfolding f by simp
  from run_arrive [OF this _ _ refl, where q = "answer_of 2 False" and req = "lock_request 2" and ex = False]
  show ?thesis using f contended_fields(1)
    by (simp add: answer_of_def contended_def MPID_do_recv_rma_lock_shared_req_def
        MPID_do_recv_rma_lock_exclusive_req_def MPID_Win_create_def)
qed

section \<open>Properties of the component\<close>

text \<open>C13: under every interleaving of requests, local attempts and releases, a process that holds the
  window lock exclusively is its only holder, the counter counts the holders, and every request
  made either holds the lock, waits in the queue or has released it.  Each request that came as a
  message and no longer waits has been sent one lock answer, no waiting request has been sent any, and
  no other lock answer leaves the window.\<close>

theorem win_lock_exclusion:
  assumes "lock_run w A H D"
  shows "(\<forall>q\<in>#H. rq_exclusive q \<longrightarrow> H = {#q#}) \<and> unat (lock_cnt w) = size H \<and> A = H + mset (lock_list w) + D \<and>
    (lock_list w \<noteq> [] \<longrightarrow> H \<noteq> {#}) \<and>
    mset (filter (\<lambda>m. cm_type m = MSGTYPE_RMA_LOCK_ANSWER) (outbox w)) =
      image_mset lock_answer (filter_mset remote (A - mset (lock_list w)))"
proof -
  note inv = run_invD [OF lock_run_inv [OF assms]]
  have "H = {#q#}" if q: "q \<in># H" "rq_exclusive q" for q
  proof -
    have "size H \<le> 1" using inv(5) inv(6) [OF q(1)] q(2) by simp
    then show ?thesis using q(1) by (metis One_nat_def insert_DiffM le_zero_eq not_less_eq_eq size_add_mset size_eq_0_iff_empty Suc_le_mono)
  qed
  moreover have "A - mset (lock_list w) = H + D" using inv(1) by (simp add: ac_simps)
  moreover have "mset (lock_answers w) = image_mset lock_answer (filter_mset remote (H + D))"
    using lock_run_answers [OF assms] by (simp add: answers_inv_def)
  ultimately show ?thesis using inv(1,3,4) unfolding lock_answers_def by simp
qed

theorem win_lock_exclusion_witness:
  "lock_run contended {#answer_of 2 False, answer_of 1 True#} {#answer_of 1 True#} {#} \<and>
   unat (lock_cnt contended) = 1 \<and> lock_list contended \<noteq> [] \<and>
   mset (filter (\<lambda>m. cm_type m = MSGTYPE_RMA_LOCK_ANSWER) (outbox contended)) = {#lock_answer (answer_of 1 True)#}"
  using win_lock_exclusion [OF contended_run] contended_run contended_fields(1)
  by (simp add: remote_def answer_of_def)

text \<open>C14: when the holders release and nobody else arrives, every waiting request is answered, in the
  order of arrival, after as many releases as there are holders and waiting requests.\<close>

theorem win_lock_drains:
  assumes "lock_run w A H D"
  shows "lock_list ((do_unlock ^^ (size H + length (lock_list w))) w) = [] \<and>
    lock_cnt ((do_unlock ^^ (size H + length (lock_list w))) w) = 0 \<and>
    outbox ((do_unlock ^^ (size H + length (lock_list w))) w) = outbox w @ map lock_answer (lock_list w)"
proof -
  note inv = run_invD [OF lock_run_inv [OF assms]]
  have "lock_inv w"
    unfolding lock_inv_def word_le_nat_alt using inv(3,4,5) by (auto simp: unat_eq_zero [symmetric] simp del: unat_eq_zero)
  from win_lock.drains [OF this refl] show ?thesis unfolding inv(3) by (simp add: word_unat_eq_iff)
qed

theorem win_lock_drains_witness:
  "outbox ((do_unlock ^^ 2) contended) = [lock_answer (answer_of 1 True), lock_answer (answer_of 2 False)]"
  using win_lock_drains [OF contended_run] by (simp add: contended_fields numeral_2_eq_2)

text \<open>The internal lock of the atomic operations hands over in the same way.\<close>

theorem internal_lock_drains:
  assumes "lock_list_internal w \<noteq> [] \<longrightarrow> lock_internal w" and "n = of_bool (lock_internal w) + length (lock_list_internal w)"
  shows "lock_list_internal ((do_unlock_internal ^^ n) w) = [] \<and> \<not> lock_internal ((do_unlock_internal ^^ n) w) \<and>
    outbox ((do_unlock_internal ^^ n) w) = outbox w @ map lock_answer (lock_list_internal w)"
  using internal_lock.drains [of w n] assms by (simp add: internal_inv_def)

theorem internal_lock_drains_witness:
  "lock_list_internal ((do_unlock_internal ^^ 2)
     (do_lock_internal (do_lock_internal (MPID_Win_create 0 3) (answer_of 1 True)) (answer_of 2 True))) = []"
  using internal_lock_drains [of "do_lock_internal (do_lock_internal (MPID_Win_create 0 3) (answer_of 1 True)) (answer_of 2 True)" 2]
  by (simp add: do_lock_internal_def do_trylock_internal_def MPID_Win_create_def)

text \<open>A stream of shared lockers that overlap keeps an exclusive request waiting forever: the
  shared request is granted past the queue, and the release does not empty the lock.\<close>

theorem exclusive_can_starve:
  assumes "lock_cnt w = 1" and "\<not> lock_exclusive w" and "lock_list w = q # rest" and "rq_exclusive q"
  shows "lock_list (((\<lambda>w. do_unlock (MPID_do_recv_rma_lock_shared_req r w)) ^^ n) w) = q # rest \<and>
    lock_cnt (((\<lambda>w. do_unlock (MPID_do_recv_rma_lock_shared_req r w)) ^^ n) w) = 1 \<and>
    length (outbox (((\<lambda>w. do_unlock (MPID_do_recv_rma_lock_shared_req r w)) ^^ n) w)) = length (outbox w) + n \<and>
    \<not> lock_exclusive (((\<lambda>w. do_unlock (MPID_do_recv_rma_lock_shared_req r w)) ^^ n) w)"
  using assms
  by (induction n) (auto simp: MPID_do_recv_rma_lock_shared_req_def MPID_do_recv_rma_lock_req_def do_lock_cases do_unlock_cases)

theorem exclusive_can_starve_witness:
  "lock_list (((\<lambda>w. do_unlock (MPID_do_recv_rma_lock_shared_req (lock_request 1) w)) ^^ 5)
     (MPID_do_recv_rma_lock_exclusive_req (lock_request 2)
       (MPID_do_recv_rma_lock_shared_req (lock_request 1) (MPID_Win_create 0 3)))) = [answer_of 2 True]"
  using exclusive_can_starve [of "MPID_do_recv_rma_lock_exclusive_req (lock_request 2)
       (MPID_do_recv_rma_lock_shared_req (lock_request 1) (MPID_Win_create 0 3))" "answer_of 2 True" "[]" 5 "lock_request 1"]
  by (simp add: MPID_do_recv_rma_lock_shared_req_def MPID_do_recv_rma_lock_exclusive_req_def
      MPID_do_recv_rma_lock_req_def do_lock_cases MPID_Win_create_def answer_of_def lock_request_def)

text \<open>C19: the handler of an unlock request answers and hands the lock over only after every
  operation that the source announced has arrived, and it does so as soon as that is the case.\<close>

theorem unlock_waits_for_operations:
  fixes step :: "MPIR_Win \<Rightarrow> MPIR_Win"
  assumes "aget (rma_source_rank_received w) (rq_src_rank req) = Some c"
    and "w0 = w\<lparr>rma_source_rank_received := (rma_source_rank_received w)[nat (rq_src_rank req) := c + rq_op_counter req]\<rparr>"
    and "aget (rma_source_rank_received ((step ^^ k) w0)) (rq_src_rank req) = Some 0"
  shows "\<exists>n v. n \<le> k \<and> v = (step ^^ n) w0 \<and> aget (rma_source_rank_received v) (rq_src_rank req) = Some 0 \<and>
    MPID_do_recv_rma_unlock_req step req w = Some (do_unlock (pscom_post_send
      (req\<lparr>rq_type := MSGTYPE_RMA_UNLOCK_ANSWER, rq_src_rank := MPI_ANY_SOURCE\<rparr>)
      (v\<lparr>rma_puts_accs_received := rma_puts_accs_received v - rq_op_counter req\<rparr>)))"
proof -
  let ?cond = "\<lambda>w. aget (rma_source_rank_received w) (rq_src_rank req) \<noteq> Some 0"
  obtain v where v: "wait_while ?cond step w0 = Some v" using wait_while_ends [of ?cond k step w0] assms(3) by auto
  then obtain n where n: "v = (step ^^ n) w0" "\<not> ?cond v" "\<forall>j<n. ?cond ((step ^^ j) w0)"
    using wait_while_Some by blast
  have "n \<le> k" using n(3) assms(3) by (meson not_le)
  moreover have "aset (rma_source_rank_received w) (rq_src_rank req) (c + rq_op_counter req) =
      Some ((rma_source_rank_received w)[nat (rq_src_rank req) := c + rq_op_counter req])"
    using assms(1) by (auto simp: aget_Some_iff aset_def)
  ultimately show ?thesis using v n assms(1,2)
    by (auto simp: MPID_do_recv_rma_unlock_req_def await_source_def Let_def)
qed

text \<open>One announced put that has not arrived yet; the first step of progress delivers it.\<close>

theorem unlock_waits_for_operations_witness:
  "\<exists>w'. MPID_do_recv_rma_unlock_req (\<lambda>w. w\<lparr>rma_source_rank_received := [0, 0, 0]\<rparr>)
     ((lock_request 1)\<lparr>rq_op_counter := 1\<rparr>) contended = Some w'"
proof -
  have "rma_source_rank_received contended = [0, 0, 0]"
    by (simp add: contended_def MPID_do_recv_rma_lock_shared_req_def MPID_do_recv_rma_lock_exclusive_req_def
        MPID_do_recv_rma_lock_req_def do_lock_cases MPID_Win_create_def lock_request_def pscom_post_send_def
        numeral_3_eq_3)
  then show ?thesis
    using unlock_waits_for_operations [of contended "(lock_request 1)\<lparr>rq_op_counter := 1\<rparr>" 0 _ 1
        "\<lambda>w. w\<lparr>rma_source_rank_received := [0, 0, 0]\<rparr>", OF _ refl]
    by (auto simp: lock_request_def aget_def)
qed

text \<open>C15: in every window that a process can reach, the number of locked ranks is the count the
  code keeps, a lock epoch is open exactly while there is a locked rank, and the ranks of a start
  or a post are kept exactly while that epoch is open; the state \<open>EPOCH_LOCK_ALL\<close> is never
  entered.\<close>

theorem epoch_bookkeeping:
  assumes "win_reach env w" and "env_frame env"
  shows "epoch_lock_count w = locked_count (remote_lock_state w) \<and> epoch_state w \<noteq> EPOCH_LOCK_ALL \<and>
    (epoch_state w = EPOCH_LOCK \<longleftrightarrow> (\<exists>s\<in>set (remote_lock_state w). s \<noteq> LOCK_UNLOCKED)) \<and>
    (ranks_start w \<noteq> None \<longleftrightarrow> epoch_state w \<in> {EPOCH_START, EPOCH_PSCW}) \<and>
    (ranks_post w \<noteq> None \<longleftrightarrow> epoch_state w \<in> {EPOCH_POST, EPOCH_PSCW})"
proof -
  have "0 < locked_count ls \<longleftrightarrow> (\<exists>s\<in>set ls. s \<noteq> LOCK_UNLOCKED)" for ls
    by (simp add: locked_count_def filter_empty_conv)
  with reach_inv [OF assms] show ?thesis by (simp add: epoch_inv_def)
qed

theorem epoch_bookkeeping_witness:
  "\<exists>w. win_reach three_env w \<and> epoch_state w = EPOCH_LOCK \<and> epoch_lock_count w = 1 \<and>
    (\<exists>s\<in>set (remote_lock_state w). s \<noteq> LOCK_UNLOCKED)"
proof -
  let ?w0 = "MPID_Win_create 0 3"
  obtain w where w: "MPID_Win_lock three_env MPI_LOCK_SHARED 1 ?w0 = Some (w, Inr ())"
    "origin w = (EPOCH_LOCK, epoch_lock_count ?w0 + 1, (remote_lock_state ?w0)[nat 1 := LOCK_LOCKED],
      ranks_start ?w0, ranks_post ?w0, local_size ?w0, win_rank ?w0)"
    using lock_succeeds [of three_env MPI_LOCK_SHARED 1 ?w0] by (auto simp: MPID_Win_create_def)
  have "win_reach three_env w"
    using reach_call [OF reach_create, of three_env "Lock MPI_LOCK_SHARED 1" 0 3 w] w(1) by simp
  with epoch_bookkeeping [OF this] w(2) show ?thesis by (auto simp: origin_def MPID_Win_create_def)
qed

text \<open>C17: a call that the open epoch does not permit is refused with \<open>MPI_ERR_RMA_SYNC\<close> and leaves
  the window as it was.\<close>

theorem call_out_of_epoch:
  assumes "\<not> permits c (epoch_state w)" and "call_in_range c w"
  shows "win_exec env c w = Some (w, Inl MPI_ERR_RMA_SYNC)"
  using assms by (rule exec_refused)

theorem call_out_of_epoch_witness:
  "win_exec three_env (Unlock 1) (MPID_Win_create 0 3) = Some (MPID_Win_create 0 3, Inl MPI_ERR_RMA_SYNC) \<and>
   win_exec three_env Complete (MPID_Win_create 0 3) = Some (MPID_Win_create 0 3, Inl MPI_ERR_RMA_SYNC)"
  using call_out_of_epoch [of "Unlock 1" "MPID_Win_create 0 3" three_env]
    call_out_of_epoch [of Complete "MPID_Win_create 0 3" three_env] by (simp add: MPID_Win_create_def)

text \<open>C16: locking all ranks of an idle window and unlocking them succeeds and gives back an idle
  window with no rank locked.\<close>

theorem lock_all_roundtrip:
  assumes "env_frame env" and "env_progress env" and "epoch_inv w" and "epoch_state w = EPOCH_NONE" and "0 < local_size w"
    and "length (rma_puts_accs w) = nat (local_size w)"
  shows "\<exists>v w'. MPID_Win_lock_all env w = Some (v, Inr ()) \<and> epoch_state v = EPOCH_LOCK \<and>
    set (remote_lock_state v) = {LOCK_LOCKED_ALL} \<and>
    MPID_Win_unlock_all env v = Some (w', Inr ()) \<and> epoch_state w' = EPOCH_NONE \<and> set (remote_lock_state w') = {LOCK_UNLOCKED}"
proof -
  have ll: "length (remote_lock_state w) = nat (local_size w)" "locked_count (remote_lock_state w) = 0"
    using assms(3,4) locked_count_nonneg [of "remote_lock_state w"] by (auto simp: epoch_inv_def)
  then have un: "\<forall>i. 0 \<le> i \<and> i < local_size w \<longrightarrow> remote_lock_state w ! nat i = LOCK_UNLOCKED"
    by (auto simp: locked_count_def filter_empty_conv)
  obtain v where v: "MPID_Win_lock_all env w = Some (v, Inr ())" "epoch_state v = EPOCH_LOCK" "local_size v = local_size w"
    "length (remote_lock_state v) = nat (local_size w)"
    "\<forall>i. 0 \<le> i \<and> i < local_size w \<longrightarrow> remote_lock_state v ! nat i = LOCK_LOCKED_ALL"
    using lock_all_prefix [OF assms(1), of 0 "local_size w" w] assms(4,5) ll un by (auto simp: MPID_Win_lock_all_def)
  have inv: "epoch_inv v" using lock_all_inv [OF assms(1)] v(1) assms(3) unfolding MPID_Win_lock_all_def by blast
  have pl: "length (rma_puts_accs v) = nat (local_size w)"
    using lock_all_counters [OF assms(2)] v(1) assms(6) unfolding MPID_Win_lock_all_def by fastforce
  obtain w' where w': "MPID_Win_unlock_all env v = Some (w', Inr ())" "epoch_inv w'" "local_size w' = local_size v"
    "epoch_state w' = EPOCH_NONE" "\<forall>s\<in>set (remote_lock_state w'). s = LOCK_UNLOCKED"
    using unlock_all_from [OF assms(2,1), of 0 v] inv assms(5) pl v by (auto simp: MPID_Win_unlock_all_def)
  have "set (remote_lock_state v) = {LOCK_LOCKED_ALL}"
    using all_entries [OF v(5,4)] v(4) assms(5) by (cases "remote_lock_state v") auto
  moreover have "remote_lock_state w' \<noteq> []" using w'(2,3) v(3) assms(5) by (auto simp: epoch_inv_def)
  ultimately show ?thesis using v w' by (cases "remote_lock_state w'") auto
qed

theorem lock_all_roundtrip_witness:
  "\<exists>v w'. MPID_Win_lock_all three_env (MPID_Win_create 1 3) = Some (v, Inr ()) \<and>
    MPID_Win_unlock_all three_env v = Some (w', Inr ()) \<and> epoch_state w' = EPOCH_NONE"
proof -
  have "epoch_state (MPID_Win_create 1 3) = EPOCH_NONE" "0 < local_size (MPID_Win_create 1 3)"
    "length (rma_puts_accs (MPID_Win_create 1 3)) = nat (local_size (MPID_Win_create 1 3))"
    by (simp_all add: MPID_Win_create_def)
  from lock_all_roundtrip [OF three_env_frame three_env_progress win_create_inv this] show ?thesis by blast
qed

text \<open>locking all ranks stops with an error at the first rank that is already locked and leaves the
  ranks before it locked.\<close>

theorem lock_all_leaves_locks:
  assumes "env_frame env" and "epoch_inv w" and "epoch_state w \<in> {EPOCH_NONE, EPOCH_FENCE_ISSUED, EPOCH_LOCK}"
    and "0 \<le> j" and "j < local_size w" and "remote_lock_state w ! nat j \<noteq> LOCK_UNLOCKED"
    and "\<forall>i. 0 \<le> i \<and> i < j \<longrightarrow> remote_lock_state w ! nat i = LOCK_UNLOCKED"
  shows "\<exists>w'. MPID_Win_lock_all env w = Some (w', Inl MPI_ERR_RMA_SYNC) \<and>
    epoch_lock_count w' = epoch_lock_count w + j \<and>
    (\<forall>i. 0 \<le> i \<and> i < j \<longrightarrow> remote_lock_state w' ! nat i = LOCK_LOCKED_ALL)"
proof -
  have ll: "length (remote_lock_state w) = nat (local_size w)" using assms(2) by (simp add: epoch_inv_def)
  obtain v where v: "lock_all_loop env [0..j - 1] w = Some (v, Inr ())" "epoch_lock_count v = epoch_lock_count w + j"
    "length (remote_lock_state v) = length (remote_lock_state w)"
    "\<forall>i. 0 \<le> i \<and> i < local_size w \<longrightarrow> remote_lock_state v ! nat i =
      (if 0 \<le> i \<and> i < j then LOCK_LOCKED_ALL else remote_lock_state w ! nat i)"
    using lock_all_prefix [OF assms(1), of 0 j w] assms(3,4,5,7) ll by (simp del: split_paired_All) blast
  have "[0..local_size w - 1] = [0..j - 1] @ j # [j + 1..local_size w - 1]"
    using upto_split3 [of 0 j "local_size w - 1"] assms(4,5) by simp
  then have "MPID_Win_lock_all env w = lock_all_loop env (j # [j + 1..local_size w - 1]) v"
    by (simp add: MPID_Win_lock_all_def lock_all_append v(1))
  also have "\<dots> = Some (v, Inl MPI_ERR_RMA_SYNC)"
    using v(3,4) assms(4-6) ll by (simp add: aget_def)
  finally show ?thesis using v(2,4) assms(5) by auto
qed

theorem lock_all_leaves_locks_witness:
  "\<exists>v w'. MPID_Win_lock three_env MPI_LOCK_EXCLUSIVE 2 (MPID_Win_create 0 3) = Some (v, Inr ()) \<and>
    MPID_Win_lock_all three_env v = Some (w', Inl MPI_ERR_RMA_SYNC) \<and> epoch_lock_count w' = 3 \<and>
    remote_lock_state w' ! 1 = LOCK_LOCKED_ALL"
proof -
  let ?w0 = "MPID_Win_create 0 3"
  obtain v where v: "MPID_Win_lock three_env MPI_LOCK_EXCLUSIVE 2 ?w0 = Some (v, Inr ())"
    "origin v = (EPOCH_LOCK, epoch_lock_count ?w0 + 1, (remote_lock_state ?w0)[nat 2 := LOCK_LOCKED],
      ranks_start ?w0, ranks_post ?w0, local_size ?w0, win_rank ?w0)"
    using lock_succeeds [of three_env MPI_LOCK_EXCLUSIVE 2 ?w0] by (auto simp: MPID_Win_create_def)
  have ls: "remote_lock_state v = [LOCK_UNLOCKED, LOCK_UNLOCKED, LOCK_LOCKED]" "local_size v = 3"
    "epoch_state v = EPOCH_LOCK" "epoch_lock_count v = 1"
    using v(2) by (simp_all add: origin_def MPID_Win_create_def numeral_3_eq_3)
  have "\<forall>i. 0 \<le> i \<and> i < (2::int) \<longrightarrow> remote_lock_state v ! nat i = LOCK_UNLOCKED"
    by (auto simp: ls nth_Cons')
  then have "\<exists>w'. MPID_Win_lock_all three_env v = Some (w', Inl MPI_ERR_RMA_SYNC) \<and>
    epoch_lock_count w' = epoch_lock_count v + 2 \<and> (\<forall>i. 0 \<le> i \<and> i < 2 \<longrightarrow> remote_lock_state w' ! nat i = LOCK_LOCKED_ALL)"
    using lock_inv_kept [OF three_env_frame v(1) win_create_inv]
    by (intro lock_all_leaves_locks) (simp_all add: ls)
  then obtain w' where "MPID_Win_lock_all three_env v = Some (w', Inl MPI_ERR_RMA_SYNC)" "epoch_lock_count w' = 3"
    and l: "\<forall>i. 0 \<le> i \<and> i < (2::int) \<longrightarrow> remote_lock_state w' ! nat i = LOCK_LOCKED_ALL" by (auto simp: ls)
  moreover have "remote_lock_state w' ! 1 = LOCK_LOCKED_ALL" using l [rule_format, of 1] by simp
  ultimately show ?thesis using v(1) by blast
qed

text \<open>C18: \<open>MPID_Win_post\<close> sends one post message to each member of the group, in group order, to the
  rank that this process has in the window's communicator, and remembers those ranks.\<close>

theorem post_reaches_group:
  assumes "group_wf g" and "group_wf cg" and "comm_group env = Inr cg" and "members cg \<noteq> []"
    and "-1 \<notin> set (members g)" and "set (members g) \<subseteq> set (members cg)" and "g_size cg = local_size w"
    and "permits (Post g) (epoch_state w)"
  shows "\<exists>w' ranks. MPID_Win_post env g w = Some (w', Inr ()) \<and> ranks_post w' = Some ranks \<and>
    outbox w' = outbox w @ map post_msg ranks \<and> map (\<lambda>r. members cg ! nat r) ranks = members g"
proof -
  let ?rs = "map (translated g cg) [0..g_size g - 1]"
  have gr: "get_group_ranks env g = Some ?rs" using group_ranks_translated [OF assms(1-5)] .
  have tr: "0 \<le> translated g cg r \<and> translated g cg r < local_size w \<and> members cg ! nat (translated g cg r) = members g ! nat r"
    if "0 \<le> r" "r < g_size g" for r
    using translated_member [OF assms(1,6) that] group_wfD(2) [OF assms(2)] assms(7) by simp
  let ?w = "w\<lparr>epoch_state := (if epoch_state w = EPOCH_START then EPOCH_PSCW else EPOCH_POST)\<rparr>"
  have "ofold (send_to CTRL_TAG_WIN_POST MSGTYPE_RMA_POST) ?rs ?w = Some (?w\<lparr>outbox := outbox ?w @ map post_msg ?rs\<rparr>)"
    using tr by (intro send_posts) auto
  then have "MPID_Win_post env g w = Some (?w\<lparr>outbox := outbox w @ map post_msg ?rs, ranks_post := Some ?rs\<rparr>, Inr ())"
    using assms(8) gr by (auto simp: MPID_Win_post_def Let_def)
  moreover have "map (\<lambda>r. members cg ! nat r) ?rs = members g"
    using tr group_wfD(2) [OF assms(1)] by (intro nth_equalityI) (auto simp: nth_upto)
  ultimately show ?thesis by auto
qed

theorem post_reaches_group_witness:
  "\<exists>w' ranks. MPID_Win_post three_env (group_of [30, 10] 1) (MPID_Win_create 0 3) = Some (w', Inr ()) \<and>
    outbox w' = map post_msg ranks \<and> map (\<lambda>r. [10, 20, 30 :: 64 word] ! nat r) ranks = [30, 10]"
proof -
  have "\<exists>w' ranks. MPID_Win_post three_env (group_of [30, 10] 1) (MPID_Win_create 0 3) = Some (w', Inr ()) \<and>
    ranks_post w' = Some ranks \<and> outbox w' = outbox (MPID_Win_create 0 3) @ map post_msg ranks \<and>
    map (\<lambda>r. members (group_of [10, 20, 30] 0) ! nat r) ranks = members (group_of [30, 10] 1)"
    by (rule post_reaches_group) (simp_all add: examples three_env_def MPID_Win_create_def)
  moreover have "outbox (MPID_Win_create 0 3) = []" by (simp add: MPID_Win_create_def)
  ultimately show ?thesis unfolding group_of_members append_Nil by (metis append_Nil)
qed

end
