(* ===== verification/Context_Id.thy ===== *)
theory Context_Id
  imports Psmpi_Prelude
begin

text \<open>
  Context identifiers: the bit fields of \<open>include/mpir_contextid.h\<close> and the bit vector of free
  identifiers of \<open>mpi/comm/contextid.c\<close>.

  The configuration is the default one: \<open>MPIR_Context_id_t\<close> is \<open>uint16_t\<close>, hence
  \<open>MPIR_MAX_CONTEXT_MASK\<close> is 64, and \<open>MPID_NEEDS_ICOMM_WORLD\<close> is an argument of the
  initialisation.  A failed \<open>MPIR_Assert\<close> and \<open>MPID_Abort\<close> have no result (\<open>None\<close>).
\<close>

unbundle bit_operations_syntax

type_synonym MPIR_Context_id_t = "16 word"
type_synonym context_mask = "32 word list"

section \<open>The fields of a context identifier\<close>

datatype context_field = SUFFIX | SUBCOMM | IS_LOCALCOMM | PREFIX | DYNAMIC_PROC

definition MPIR_CONTEXT_ID_BITS :: nat where "MPIR_CONTEXT_ID_BITS = 16"
definition MPIR_INVALID_CONTEXT_ID :: MPIR_Context_id_t where "MPIR_INVALID_CONTEXT_ID = 0xffff"

primrec context_shift :: "context_field \<Rightarrow> nat" where
  "context_shift SUFFIX = 0"
| "context_shift SUBCOMM = 1 + 0"
| "context_shift IS_LOCALCOMM = (1 + 0) + 2"
| "context_shift PREFIX = ((1 + 0) + 2) + 1"
| "context_shift DYNAMIC_PROC = MPIR_CONTEXT_ID_BITS - 1"

primrec context_width :: "context_field \<Rightarrow> nat" where
  "context_width SUFFIX = 1"
| "context_width SUBCOMM = 2"
| "context_width IS_LOCALCOMM = 1"
| "context_width PREFIX = MPIR_CONTEXT_ID_BITS - (context_shift PREFIX + 1)"
| "context_width DYNAMIC_PROC = 1"

definition context_field_mask :: "context_field \<Rightarrow> MPIR_Context_id_t" where
  "context_field_mask f = push_bit (context_shift f) (push_bit (context_width f) 1 - 1)"

definition MPIR_CONTEXT_READ_FIELD :: "context_field \<Rightarrow> MPIR_Context_id_t \<Rightarrow> MPIR_Context_id_t" where
  "MPIR_CONTEXT_READ_FIELD f cid = drop_bit (context_shift f) (cid AND context_field_mask f)"

definition MPIR_CONTEXT_SET_FIELD ::
  "context_field \<Rightarrow> MPIR_Context_id_t \<Rightarrow> MPIR_Context_id_t \<Rightarrow> MPIR_Context_id_t" where
  "MPIR_CONTEXT_SET_FIELD f old v =
     (old AND NOT (context_field_mask f)) OR push_bit (context_shift f) v"

definition MPIR_CONTEXT_INT_BITS :: nat where "MPIR_CONTEXT_INT_BITS = 32"

definition MPIR_MAX_CONTEXT_MASK :: nat where
  "MPIR_MAX_CONTEXT_MASK =
     2 ^ (MPIR_CONTEXT_ID_BITS - (context_shift PREFIX + context_width DYNAMIC_PROC)) div MPIR_CONTEXT_INT_BITS"

definition ALL_OWN_MASK_FLAG :: nat where "ALL_OWN_MASK_FLAG = MPIR_MAX_CONTEXT_MASK"

lemmas context_consts = MPIR_CONTEXT_ID_BITS_def MPIR_CONTEXT_INT_BITS_def

lemma max_context_mask [simp]: "MPIR_MAX_CONTEXT_MASK = 64"
  by (simp add: MPIR_MAX_CONTEXT_MASK_def context_consts)

lemma all_own_mask_flag [simp]: "ALL_OWN_MASK_FLAG = 64"
  by (simp add: ALL_OWN_MASK_FLAG_def)

lemma context_layout [simp]:
  "context_shift PREFIX = 4" "context_width PREFIX = 11" "context_shift DYNAMIC_PROC = 15"
  by (simp_all add: context_consts)

lemma field_mask_eq: "context_field_mask f = push_bit (context_shift f) (mask (context_width f))"
  by (simp add: context_field_mask_def mask_eq_exp_minus_1 push_bit_of_1)

lemma read_field_bit:
  "bit (MPIR_CONTEXT_READ_FIELD f cid) n \<longleftrightarrow> n < context_width f \<and> bit cid (context_shift f + n)"
  by (auto simp: MPIR_CONTEXT_READ_FIELD_def field_mask_eq bit_drop_bit_eq bit_and_iff bit_push_bit_iff
      bit_mask_iff add.commute intro: bit_imp_le_length dest: bit_imp_le_length)

lemma read_field_eq:
  "MPIR_CONTEXT_READ_FIELD f cid = take_bit (context_width f) (drop_bit (context_shift f) cid)"
  by (rule bit_eqI) (auto simp: read_field_bit bit_take_bit_iff bit_drop_bit_eq)

lemma field_in_word: "context_shift f + context_width f \<le> 16"
  by (cases f) (simp_all add: context_consts)

lemma read_field_nat:
  "unat (MPIR_CONTEXT_READ_FIELD f cid) = unat cid div 2 ^ context_shift f mod 2 ^ context_width f"
proof -
  have "unat (MPIR_CONTEXT_READ_FIELD f cid) = take_bit (context_width f) (drop_bit (context_shift f) (unat cid))"
    using field_in_word [of f] by (simp only: read_field_eq unsigned_take_bit_eq unat_drop_bit_eq)
  then show ?thesis by (simp add: take_bit_eq_mod drop_bit_eq_div)
qed

lemma read_prefix_nat: "unat (MPIR_CONTEXT_READ_FIELD PREFIX cid) = unat cid div 16 mod 2048"
  by (simp add: read_field_nat context_consts)

lemma read_prefix_less: "unat (MPIR_CONTEXT_READ_FIELD PREFIX cid) < 2048"
  by (simp add: read_prefix_nat)

lemma fields_disjoint:
  assumes "f \<noteq> g" "n < context_width f" "m < context_width g"
  shows "context_shift f + n \<noteq> context_shift g + m"
  using assms by (cases f; cases g) (simp_all add: context_consts)

lemma set_field_bit:
  assumes "unat v < 2 ^ context_width f"
  shows "bit (MPIR_CONTEXT_SET_FIELD f old v) n \<longleftrightarrow>
    n < 16 \<and> (if context_shift f \<le> n \<and> n < context_shift f + context_width f
      then bit v (n - context_shift f) else bit old n)"
proof -
  have hi: "\<not> bit v k" if "context_width f \<le> k" for k
  proof -
    have "take_bit (context_width f) (unat v) = unat v"
      using assms by (simp add: take_bit_nat_eq_self_iff)
    then have "take_bit (context_width f) v = v"
      by (simp add: unsigned_take_bit_eq word_unat_eq_iff)
    then show ?thesis using that by (metis bit_take_bit_iff not_less)
  qed
  show ?thesis
    using field_in_word [of f] hi [of "n - context_shift f"] bit_imp_le_length [of old n]
      le_diff_conv2 [of "context_shift f" n "context_width f"]
    by (auto simp: MPIR_CONTEXT_SET_FIELD_def field_mask_eq bit_or_iff bit_and_iff bit_not_iff
        bit_push_bit_iff bit_mask_iff)
qed

section \<open>The mask of free identifiers\<close>

definition context_mask_stats :: "context_mask \<Rightarrow> int \<times> int" where
  "context_mask_stats m =
     (sum_list (map (\<lambda>i. sum_list (map (\<lambda>j. uint (drop_bit j (m ! i AND push_bit j 1))) [0..<4 * 8]))
        [0..<MPIR_MAX_CONTEXT_MASK]),
      int (MPIR_MAX_CONTEXT_MASK * 4 * 8))"

definition check_context_ids_on_finalize :: "context_mask \<Rightarrow> (nat \<times> 32 word) list" where
  "check_context_ids_on_finalize m =
     map (\<lambda>i. (i, m ! i)) (filter (\<lambda>i. NOT (m ! i) \<noteq> 0) [0..<MPIR_MAX_CONTEXT_MASK])"

definition MPIR_context_id_init :: "bool \<Rightarrow> context_mask" where
  "MPIR_context_id_init needs_icomm_world =
     (if needs_icomm_world then 0xFFFFFFF0 else 0xFFFFFFF4)
       # replicate (MPIR_MAX_CONTEXT_MASK - 1) 0xFFFFFFFF"

definition bit_step :: "32 word \<Rightarrow> nat \<Rightarrow> 32 word \<times> nat \<Rightarrow> 32 word \<times> nat" where
  "bit_step msk k = (\<lambda>(v, j). let nval = v AND msk in if nval \<noteq> 0 then (nval, j + k) else (v, j))"

definition highest_bit :: "32 word \<Rightarrow> nat" where
  "highest_bit w =
     (let s = bit_step 0xFFFF0000 16 (w, 0); s = bit_step 0xFF00FF00 8 s;
          s = bit_step 0xF0F0F0F0 4 s; s = bit_step 0xCCCCCCCC 2 s;
          (v, j) = s
      in if v AND 0xAAAAAAAA \<noteq> 0 then j + 1 else j)"

function locate_loop :: "nat \<Rightarrow> context_mask \<Rightarrow> int" where
  "locate_loop i m =
     (if i < MPIR_MAX_CONTEXT_MASK
      then if m ! i \<noteq> 0
           then push_bit (context_shift PREFIX) (int (MPIR_CONTEXT_INT_BITS * i + highest_bit (m ! i)))
           else locate_loop (i + 1) m
      else 0)"
  by auto
termination by (relation "measure (\<lambda>(i, m). MPIR_MAX_CONTEXT_MASK - i)") auto

declare locate_loop.simps [simp del]

definition locate_context_bit :: "context_mask \<Rightarrow> int" where
  "locate_context_bit local_mask = locate_loop 0 local_mask"

definition prefix_position :: "MPIR_Context_id_t \<Rightarrow> nat \<times> nat" where
  "prefix_position cid =
     (let raw = unat (MPIR_CONTEXT_READ_FIELD PREFIX cid)
      in (raw div MPIR_CONTEXT_INT_BITS, raw mod MPIR_CONTEXT_INT_BITS))"

definition allocate_context_bit ::
  "context_mask \<Rightarrow> MPIR_Context_id_t \<Rightarrow> (context_mask \<times> MPIR_Context_id_t) option" where
  "allocate_context_bit m cid =
     (case prefix_position cid of (idx, bitpos) \<Rightarrow>
        do {
          w \<leftarrow> aget m (int idx);
          if w AND push_bit bitpos 1 = 0 then None
          else do {
            m' \<leftarrow> aset m (int idx) (w AND NOT (push_bit bitpos 1));
            Some (m', cid)
          }
        })"

definition find_and_allocate_context_id ::
  "context_mask \<Rightarrow> context_mask \<Rightarrow> (context_mask \<times> MPIR_Context_id_t) option" where
  "find_and_allocate_context_id cm local_mask =
     (let cid = word_of_int (locate_context_bit local_mask)
      in if cid \<noteq> 0 then allocate_context_bit cm cid else Some (cm, cid))"

definition MPIR_Free_contextid :: "context_mask \<Rightarrow> MPIR_Context_id_t \<Rightarrow> context_mask option" where
  "MPIR_Free_contextid m cid =
     (case prefix_position cid of (idx, bitpos) \<Rightarrow>
        if MPIR_MAX_CONTEXT_MASK \<le> idx then None
        else if MPIR_CONTEXT_READ_FIELD DYNAMIC_PROC cid \<noteq> 0 then Some m
        else if MPIR_CONTEXT_READ_FIELD IS_LOCALCOMM cid \<noteq> 0 then Some m
        else if MPIR_CONTEXT_READ_FIELD SUBCOMM cid \<noteq> 0 then Some m
        else do {
          w \<leftarrow> aget m (int idx);
          if w AND push_bit bitpos 1 \<noteq> 0 then None
          else aset m (int idx) (w OR push_bit bitpos 1)
        })"

section \<open>The highest set bit\<close>

text \<open>The four masks select the upper half of every aligned block of 32, 16, 8 and 4 bits.\<close>

definition top_bit :: "32 word \<Rightarrow> nat \<Rightarrow> bool" where
  "top_bit w h \<longleftrightarrow> bit w h \<and> (\<forall>b. bit w b \<longrightarrow> b \<le> h)"

definition in_window :: "32 word \<Rightarrow> nat \<Rightarrow> nat \<Rightarrow> bool" where
  "in_window w j k \<longleftrightarrow> (\<forall>b. bit w b \<longrightarrow> j \<le> b \<and> b < j + k)"

lemma upper_half:
  assumes "0 < k" "2 * k dvd j" "(j :: nat) \<le> b" "b < j + 2 * k"
  shows "odd (b div k) \<longleftrightarrow> j + k \<le> b"
proof -
  obtain q where q: "j = 2 * k * q" using assms(2) by (auto elim: dvdE)
  define r where "r = b - j"
  have b: "b = r + k * (2 * q)" and r: "r < 2 * k" using assms q by (auto simp: r_def)
  have "b div k = r div k + 2 * q" using assms(1) b by simp
  then have "odd (b div k) \<longleftrightarrow> odd (r div k)" by simp
  also have "\<dots> \<longleftrightarrow> k \<le> r"
  proof (cases "k \<le> r")
    case True
    then have "r div k = 1" using r assms(1) by (simp add: div_nat_eqI)
    with True show ?thesis by simp
  qed simp
  finally show ?thesis using b q by auto
qed

lemma halve:
  assumes top: "top_bit w h" and win: "in_window w j (2 * k)" and k: "0 < k" "2 * k dvd j"
    and msk: "\<And>b. b < 32 \<Longrightarrow> bit msk b \<longleftrightarrow> odd (b div k)"
  shows "case bit_step msk k (w, j) of (w', j') \<Rightarrow> top_bit w' h \<and> in_window w' j' k \<and> k dvd j'"
proof -
  have sel: "bit (w AND msk) b \<longleftrightarrow> bit w b \<and> j + k \<le> b" for b
    using win msk [of b] upper_half [OF k, of b] bit_imp_le_length [of w b]
    by (auto simp: bit_and_iff in_window_def)
  have dvd: "k dvd j" using k(2) by (rule dvd_mult_right)
  show ?thesis
  proof (cases "w AND msk = 0")
    case True
    then have "\<not> (bit w b \<and> j + k \<le> b)" for b using sel [of b] by simp
    then show ?thesis using True top win dvd
      by (auto simp: bit_step_def in_window_def not_le)
  next
    case False
    then obtain b where "bit (w AND msk) b" by (metis bit_eqI bit_0_eq bot_apply bot_bool_def)
    then have "bit (w AND msk) h" using top sel by (auto simp: top_bit_def)
    then show ?thesis using False top win sel dvd
      by (auto simp: bit_step_def in_window_def top_bit_def)
  qed
qed

lemma half_masks:
  assumes "b < 32"
  shows "bit (0xFFFF0000 :: 32 word) b \<longleftrightarrow> odd (b div 16)"
    "bit (0xFF00FF00 :: 32 word) b \<longleftrightarrow> odd (b div 8)"
    "bit (0xF0F0F0F0 :: 32 word) b \<longleftrightarrow> odd (b div 4)"
    "bit (0xCCCCCCCC :: 32 word) b \<longleftrightarrow> odd (b div 2)"
    "bit (0xAAAAAAAA :: 32 word) b \<longleftrightarrow> odd (b div 1)"
proof -
  have b: "b \<in> set [0..<32]" using assms by simp
  have "\<forall>b\<in>set [0..<32]. bit (0xFFFF0000 :: 32 word) b \<longleftrightarrow> odd (b div 16)" by code_simp
  with b show "bit (0xFFFF0000 :: 32 word) b \<longleftrightarrow> odd (b div 16)" by blast
  have "\<forall>b\<in>set [0..<32]. bit (0xFF00FF00 :: 32 word) b \<longleftrightarrow> odd (b div 8)" by code_simp
  with b show "bit (0xFF00FF00 :: 32 word) b \<longleftrightarrow> odd (b div 8)" by blast
  have "\<forall>b\<in>set [0..<32]. bit (0xF0F0F0F0 :: 32 word) b \<longleftrightarrow> odd (b div 4)" by code_simp
  with b show "bit (0xF0F0F0F0 :: 32 word) b \<longleftrightarrow> odd (b div 4)" by blast
  have "\<forall>b\<in>set [0..<32]. bit (0xCCCCCCCC :: 32 word) b \<longleftrightarrow> odd (b div 2)" by code_simp
  with b show "bit (0xCCCCCCCC :: 32 word) b \<longleftrightarrow> odd (b div 2)" by blast
  have "\<forall>b\<in>set [0..<32]. bit (0xAAAAAAAA :: 32 word) b \<longleftrightarrow> odd (b div 1)" by code_simp
  with b show "bit (0xAAAAAAAA :: 32 word) b \<longleftrightarrow> odd (b div 1)" by blast
qed

lemma top_bit_exists:
  assumes "w \<noteq> 0"
  shows "\<exists>h. top_bit w h"
proof -
  have fin: "finite {b. bit w b}"
    by (rule finite_subset [of _ "{..<32}"]) (auto dest: bit_imp_le_length)
  obtain b where "bit w b" using assms by (metis bit_eqI bit_0_eq bot_apply bot_bool_def)
  then have "{b. bit w b} \<noteq> {}" by blast
  then show ?thesis using fin Max_in Max_ge unfolding top_bit_def by blast
qed

lemma last_bit_step:
  "(case s of (v, j) \<Rightarrow> if v AND msk \<noteq> 0 then j + k else j) = snd (bit_step msk k s)"
  by (cases s) (simp add: bit_step_def Let_def)

lemma highest_bit_top:
  assumes "w \<noteq> 0"
  shows "top_bit w (highest_bit w)"
proof -
  obtain h where h: "top_bit w h" using top_bit_exists [OF assms] by blast
  have start: "top_bit w h \<and> in_window w 0 32 \<and> 32 dvd (0 :: nat)"
    using h by (auto simp: in_window_def dest: bit_imp_le_length)
  obtain w1 j1 where s1: "bit_step 0xFFFF0000 16 (w, 0) = (w1, j1)" by fastforce
  then have i1: "top_bit w1 h" "in_window w1 j1 16" "16 dvd j1"
    using halve [of w h 0 16 "0xFFFF0000"] start half_masks(1) by simp_all
  obtain w2 j2 where s2: "bit_step 0xFF00FF00 8 (w1, j1) = (w2, j2)" by fastforce
  then have i2: "top_bit w2 h" "in_window w2 j2 8" "8 dvd j2"
    using halve [of w1 h j1 8 "0xFF00FF00"] i1 half_masks(2) by simp_all
  obtain w3 j3 where s3: "bit_step 0xF0F0F0F0 4 (w2, j2) = (w3, j3)" by fastforce
  then have i3: "top_bit w3 h" "in_window w3 j3 4" "4 dvd j3"
    using halve [of w2 h j2 4 "0xF0F0F0F0"] i2 half_masks(3) by simp_all
  obtain w4 j4 where s4: "bit_step 0xCCCCCCCC 2 (w3, j3) = (w4, j4)" by fastforce
  then have i4: "top_bit w4 h" "in_window w4 j4 2" "2 dvd j4"
    using halve [of w3 h j3 2 "0xCCCCCCCC"] i3 half_masks(4) by simp_all
  obtain w5 j5 where s5: "bit_step 0xAAAAAAAA 1 (w4, j4) = (w5, j5)" by fastforce
  then have i5: "top_bit w5 h" "in_window w5 j5 1"
    using halve [of w4 h j4 1 "0xAAAAAAAA"] i4 half_masks(5) by simp_all
  then have "h = j5" by (auto simp: top_bit_def in_window_def)
  moreover have "highest_bit w = j5"
    by (simp only: highest_bit_def Let_def last_bit_step s1 s2 s3 s4 s5 snd_conv)
  ultimately show ?thesis using h by simp
qed

lemma highest_bit_less:
  assumes "w \<noteq> 0"
  shows "highest_bit w < 32"
proof -
  have "bit w (highest_bit w)" using highest_bit_top [OF assms] by (simp add: top_bit_def)
  then show ?thesis using bit_imp_le_length [of w "highest_bit w"] by simp
qed

section \<open>The mask as a set of free prefixes\<close>

definition mask_wf :: "context_mask \<Rightarrow> bool" where
  "mask_wf m \<longleftrightarrow> length m = MPIR_MAX_CONTEXT_MASK"

definition free_in :: "context_mask \<Rightarrow> nat \<Rightarrow> bool" where
  "free_in m p \<longleftrightarrow> p < 2048 \<and> bit (m ! (p div 32)) (p mod 32)"

definition prefix_of :: "MPIR_Context_id_t \<Rightarrow> nat" where
  "prefix_of cid = unat (MPIR_CONTEXT_READ_FIELD PREFIX cid)"

definition id_of_prefix :: "nat \<Rightarrow> MPIR_Context_id_t" where
  "id_of_prefix p = word_of_nat (16 * p)"

lemma prefix_of_less [simp]: "prefix_of cid < 2048"
  by (simp add: prefix_of_def read_prefix_less)

lemma unat_id_of_prefix: "p < 2048 \<Longrightarrow> unat (id_of_prefix p) = 16 * p"
  unfolding id_of_prefix_def by (subst unat_of_nat) simp

lemma prefix_of_id [simp]: "p < 2048 \<Longrightarrow> prefix_of (id_of_prefix p) = p"
  by (simp add: prefix_of_def read_prefix_nat unat_id_of_prefix)

lemma id_of_prefix_eq_0: "p < 2048 \<Longrightarrow> id_of_prefix p = 0 \<longleftrightarrow> p = 0"
  using unat_id_of_prefix [of p] by (auto simp: id_of_prefix_def)

lemma id_of_prefix_inj: "p < 2048 \<Longrightarrow> q < 2048 \<Longrightarrow> id_of_prefix p = id_of_prefix q \<longleftrightarrow> p = q"
  by (metis prefix_of_id)

lemma id_of_prefix_plain:
  assumes "p < 2048"
  shows "MPIR_CONTEXT_READ_FIELD DYNAMIC_PROC (id_of_prefix p) = 0"
    "MPIR_CONTEXT_READ_FIELD IS_LOCALCOMM (id_of_prefix p) = 0"
    "MPIR_CONTEXT_READ_FIELD SUBCOMM (id_of_prefix p) = 0"
    "MPIR_CONTEXT_READ_FIELD SUFFIX (id_of_prefix p) = 0"
proof -
  have small: "16 * p div 32768 = 0" using assms by simp
  have "16 * p div 8 = 2 * p" "16 * p div 2 = 4 * (2 * p)" by simp_all
  then have low: "16 * p div 8 mod 2 = 0" "16 * p div 2 mod 4 = 0" "16 * p mod 2 = 0"
    by (simp_all only: mod_mult_self1_is_0) simp
  have zero: "w = 0" if "unat w = 0" for w :: MPIR_Context_id_t
    using that by (simp add: unat_eq_0)
  show "MPIR_CONTEXT_READ_FIELD DYNAMIC_PROC (id_of_prefix p) = 0"
    by (rule zero) (simp only: read_field_nat unat_id_of_prefix [OF assms] context_layout, use small in simp)
  show "MPIR_CONTEXT_READ_FIELD IS_LOCALCOMM (id_of_prefix p) = 0"
    by (rule zero) (use low in \<open>simp add: read_field_nat unat_id_of_prefix [OF assms]\<close>)
  show "MPIR_CONTEXT_READ_FIELD SUBCOMM (id_of_prefix p) = 0"
    by (rule zero) (use low in \<open>simp add: read_field_nat unat_id_of_prefix [OF assms]\<close>)
  show "MPIR_CONTEXT_READ_FIELD SUFFIX (id_of_prefix p) = 0"
    by (rule zero) (use low in \<open>simp add: read_field_nat unat_id_of_prefix [OF assms]\<close>)
qed

lemma prefix_position_eq: "prefix_position cid = (prefix_of cid div 32, prefix_of cid mod 32)"
  by (simp add: prefix_position_def prefix_of_def context_consts Let_def)

lemma bit_shifted_one: "bit (2 ^ k :: 32 word) n \<longleftrightarrow> n = k \<and> k < 32"
  by (auto simp: bit_exp_iff)

lemma test_power_zero [simp]: "(w :: 32 word) AND 2 ^ b = 0 \<longleftrightarrow> \<not> bit w b"
proof -
  have "bit (w AND 2 ^ b) n \<longleftrightarrow> n = b \<and> bit w b" for n
    using bit_imp_le_length [of w b] by (auto simp: bit_and_iff bit_shifted_one)
  then show ?thesis by (metis bit_eqI bit_0_eq bot_apply bot_bool_def)
qed

lemma same_word: "q div 32 = p div 32 \<Longrightarrow> q mod 32 = p mod 32 \<Longrightarrow> q = (p :: nat)"
  by (metis div_mod_decomp)

lemma free_in_update:
  assumes "mask_wf m" "p < 2048"
    and v: "\<And>b. b < 32 \<Longrightarrow> bit v b \<longleftrightarrow> (if b = p mod 32 then x else bit (m ! (p div 32)) b)"
  shows "free_in (m[p div 32 := v]) q \<longleftrightarrow> (if q = p then x else free_in m q)"
proof -
  have idx: "p div 32 < length m" using assms by (simp add: mask_wf_def)
  show ?thesis
  proof (cases "q div 32 = p div 32")
    case True
    then have "free_in (m[p div 32 := v]) q \<longleftrightarrow> q < 2048 \<and> bit v (q mod 32)"
      using idx by (simp add: free_in_def)
    then show ?thesis using True v [of "q mod 32"] same_word [OF True] assms(2) by (auto simp: free_in_def)
  next
    case False
    then have "free_in (m[p div 32 := v]) q \<longleftrightarrow> free_in m q" by (simp add: free_in_def)
    then show ?thesis using False by auto
  qed
qed

lemma word_access:
  assumes "mask_wf m" "p < 2048"
  shows "aget m (int (p div 32)) = Some (m ! (p div 32))"
    "aset m (int (p div 32)) v = Some (m[p div 32 := v])"
  using assms by (simp_all add: aget_def aset_def mask_wf_def less_mult_imp_div_less)

lemma mask_wf_update [simp]: "mask_wf (m[i := v]) = mask_wf m"
  by (simp add: mask_wf_def)

lemma allocate_free:
  assumes "mask_wf m" "free_in m (prefix_of cid)"
  shows "\<exists>m'. allocate_context_bit m cid = Some (m', cid) \<and> mask_wf m'
    \<and> (\<forall>q. free_in m' q \<longleftrightarrow> free_in m q \<and> q \<noteq> prefix_of cid)"
proof -
  let ?p = "prefix_of cid"
  let ?v = "m ! (?p div 32) AND NOT (2 ^ (?p mod 32))"
  have "allocate_context_bit m cid = Some (m[?p div 32 := ?v], cid)"
    using assms(2) word_access [OF assms(1), of ?p]
    by (simp add: allocate_context_bit_def prefix_position_eq push_bit_of_1 free_in_def)
  moreover have "free_in (m[?p div 32 := ?v]) q \<longleftrightarrow> free_in m q \<and> q \<noteq> ?p" for q
    by (subst free_in_update [OF assms(1), where x = False])
       (auto simp: bit_and_iff bit_not_iff bit_shifted_one)
  ultimately show ?thesis using assms(1) by auto
qed

lemma allocate_taken:
  assumes "mask_wf m" "\<not> free_in m (prefix_of cid)"
  shows "allocate_context_bit m cid = None"
  using assms(2) word_access [OF assms(1), of "prefix_of cid"]
  by (simp add: allocate_context_bit_def prefix_position_eq push_bit_of_1 free_in_def)

definition owns_bit :: "MPIR_Context_id_t \<Rightarrow> bool" where
  "owns_bit cid \<longleftrightarrow> MPIR_CONTEXT_READ_FIELD DYNAMIC_PROC cid = 0
     \<and> MPIR_CONTEXT_READ_FIELD IS_LOCALCOMM cid = 0 \<and> MPIR_CONTEXT_READ_FIELD SUBCOMM cid = 0"

lemma prefix_word_less: "prefix_of cid div 32 < 64"
  using prefix_of_less [of cid] by (simp add: less_mult_imp_div_less)

lemma free_skipped: "\<not> owns_bit cid \<Longrightarrow> MPIR_Free_contextid m cid = Some m"
  using prefix_word_less [of cid]
  by (auto simp: MPIR_Free_contextid_def prefix_position_eq owns_bit_def)

lemma free_taken:
  assumes "mask_wf m" "owns_bit cid" "\<not> free_in m (prefix_of cid)"
  shows "\<exists>m'. MPIR_Free_contextid m cid = Some m' \<and> mask_wf m'
    \<and> (\<forall>q. free_in m' q \<longleftrightarrow> free_in m q \<or> q = prefix_of cid)"
proof -
  let ?p = "prefix_of cid"
  let ?v = "m ! (?p div 32) OR 2 ^ (?p mod 32)"
  have "MPIR_Free_contextid m cid = Some (m[?p div 32 := ?v])"
    using assms(2,3) word_access [OF assms(1), of ?p] prefix_word_less [of cid]
    by (simp add: MPIR_Free_contextid_def prefix_position_eq push_bit_of_1 free_in_def owns_bit_def)
  moreover have "free_in (m[?p div 32 := ?v]) q \<longleftrightarrow> free_in m q \<or> q = ?p" for q
    by (subst free_in_update [OF assms(1), where x = True])
       (auto simp: bit_or_iff bit_shifted_one)
  ultimately show ?thesis using assms(1) by auto
qed

lemma free_not_in_use:
  assumes "mask_wf m" "owns_bit cid" "free_in m (prefix_of cid)"
  shows "MPIR_Free_contextid m cid = None"
  using assms(2,3) word_access [OF assms(1), of "prefix_of cid"] prefix_word_less [of cid]
  by (simp add: MPIR_Free_contextid_def prefix_position_eq push_bit_of_1 free_in_def owns_bit_def)

lemma id_of_prefix_owns: "p < 2048 \<Longrightarrow> owns_bit (id_of_prefix p)"
  by (simp add: owns_bit_def id_of_prefix_plain)

section \<open>Searching the mask\<close>

text \<open>The abstract choice: the highest free prefix of the first word that has one.\<close>

definition chosen :: "context_mask \<Rightarrow> nat \<Rightarrow> bool" where
  "chosen m p \<longleftrightarrow> free_in m p \<and> (\<forall>q. free_in m q \<longrightarrow> p div 32 \<le> q div 32 \<and> (q div 32 = p div 32 \<longrightarrow> q \<le> p))"

lemma word_zero_iff:
  assumes "i < 64"
  shows "m ! i = 0 \<longleftrightarrow> (\<forall>q. q div 32 = i \<longrightarrow> \<not> free_in m q)"
proof
  assume "\<forall>q. q div 32 = i \<longrightarrow> \<not> free_in m q"
  then have "\<not> bit (m ! i) b" if "b < 32" for b
    using that assms by (auto simp: free_in_def dest: spec [of _ "32 * i + b"])
  then show "m ! i = 0" by (intro bit_eqI) (metis bit_0_eq bot_apply bot_bool_def bit_imp_le_length
        possible_bit_word len_num0 len_bit0 len_num1 mult_2 numeral_Bit0 one_add_one)
qed (auto simp: free_in_def)

lemma chosen_in_word:
  assumes "i < 64" "m ! i \<noteq> 0" and first: "\<forall>q. free_in m q \<longrightarrow> i \<le> q div 32"
  shows "chosen m (32 * i + highest_bit (m ! i))"
proof -
  let ?h = "highest_bit (m ! i)"
  have top: "bit (m ! i) ?h" "\<And>b. bit (m ! i) b \<Longrightarrow> b \<le> ?h" and lt: "?h < 32"
    using highest_bit_top [OF assms(2)] highest_bit_less [OF assms(2)] by (auto simp: top_bit_def)
  have dm: "(32 * i + ?h) div 32 = i" "(32 * i + ?h) mod 32 = ?h" using lt by simp_all
  have "q \<le> 32 * i + ?h" if "free_in m q" "q div 32 = i" for q
  proof -
    have "q mod 32 \<le> ?h" using that top(2) by (auto simp: free_in_def)
    then show ?thesis using that(2) by (metis add_le_cancel_left mult_div_mod_eq)
  qed
  then show ?thesis using first top(1) lt assms(1) dm by (auto simp: chosen_def free_in_def)
qed

lemma locate_loop_spec:
  assumes "\<forall>q. free_in m q \<longrightarrow> i \<le> q div 32"
  shows "(\<exists>p. chosen m p \<and> locate_loop i m = int (16 * p)) \<or> (\<forall>p. \<not> free_in m p) \<and> locate_loop i m = 0"
  using assms
proof (induction i m rule: locate_loop.induct)
  case (1 i m)
  show ?case
  proof (cases "i < 64")
    case False
    have "\<not> free_in m p" for p
      using False 1(2) by (fastforce simp: free_in_def)
    then show ?thesis using False by (simp add: locate_loop.simps [of i])
  next
    case inr: True
    show ?thesis
    proof (cases "m ! i = 0")
      case True
      then have "\<forall>q. free_in m q \<longrightarrow> i + 1 \<le> q div 32"
        using 1(2) word_zero_iff [OF inr, of m] by (metis Suc_eq_plus1 Suc_leI le_neq_implies_less)
      with 1(1) inr True show ?thesis by (simp add: locate_loop.simps [of i])
    next
      case False
      have "locate_loop i m = int (16 * (32 * i + highest_bit (m ! i)))"
        using False inr by (simp add: locate_loop.simps [of i] context_consts push_bit_eq_mult)
      then show ?thesis using chosen_in_word [OF inr False 1(2)] by blast
    qed
  qed
qed

lemma locate_cases:
  obtains (found) p where "chosen m p" "locate_context_bit m = int (16 * p)"
    | (none) "\<And>p. \<not> free_in m p" "locate_context_bit m = 0"
  using locate_loop_spec [of m 0] by (auto simp: locate_context_bit_def)

lemma chosen_unique: "chosen m p \<Longrightarrow> chosen m q \<Longrightarrow> p = q"
  by (meson chosen_def le_antisym)

lemma chosen_less: "chosen m p \<Longrightarrow> p < 2048"
  by (simp add: chosen_def free_in_def)

lemma locate_word: "locate_context_bit m = int (16 * p) \<Longrightarrow> word_of_int (locate_context_bit m) = id_of_prefix p"
  by (simp only: id_of_prefix_def of_int_of_nat_eq)

lemma find_and_allocate_cases:
  assumes wf: "mask_wf cm" and sub: "\<forall>q. free_in lm q \<longrightarrow> free_in cm q" and z: "\<not> free_in cm 0"
  obtains (found) p cm' where "chosen lm p" "p \<noteq> 0" "mask_wf cm'"
      "find_and_allocate_context_id cm lm = Some (cm', id_of_prefix p)" "id_of_prefix p \<noteq> 0"
      "\<And>q. free_in cm' q \<longleftrightarrow> free_in cm q \<and> q \<noteq> p"
    | (none) "\<And>q. \<not> free_in lm q" "find_and_allocate_context_id cm lm = Some (cm, 0)"
proof (cases rule: locate_cases [of lm])
  case (found p)
  have p: "free_in cm p" "p < 2048"
    using found(1) sub by (simp_all add: chosen_def chosen_less)
  then have p0: "p \<noteq> 0" using z by metis
  obtain cm' where cm': "allocate_context_bit cm (id_of_prefix p) = Some (cm', id_of_prefix p)"
      "mask_wf cm'" "\<forall>q. free_in cm' q \<longleftrightarrow> free_in cm q \<and> q \<noteq> p"
    using allocate_free [OF wf, of "id_of_prefix p"] p by auto
  have nz: "id_of_prefix p \<noteq> 0" using p p0 by (simp add: id_of_prefix_eq_0)
  have "find_and_allocate_context_id cm lm = Some (cm', id_of_prefix p)"
    using cm'(1) nz by (simp add: find_and_allocate_context_id_def Let_def locate_word [OF found(2)])
  then show ?thesis using that(1) found(1) p0 cm' nz by blast
next
  case none
  then show ?thesis using that(2) by (simp add: find_and_allocate_context_id_def)
qed

section \<open>Initialisation, counting and the leak check\<close>

lemma one_bit_count: "uint (drop_bit j ((w :: 32 word) AND push_bit j 1)) = (if bit w j then 1 else 0)"
proof (cases "bit w j")
  case True
  have "drop_bit j (w AND push_bit j 1) = 1"
    by (rule bit_eqI) (use True bit_imp_le_length [OF True] in
      \<open>auto simp: push_bit_of_1 bit_drop_bit_eq bit_and_iff bit_shifted_one bit_1_iff\<close>)
  with True show ?thesis by simp
next
  case False
  then have "w AND push_bit j 1 = 0" by (simp add: push_bit_of_1)
  then have "drop_bit j (w AND push_bit j 1) = 0" by (simp only: drop_bit_of_0)
  then show ?thesis using False by (simp only: unsigned_0 if_False)
qed

lemma stats_free: "fst (context_mask_stats m) = int (card {p. free_in m p})"
proof -
  let ?f = "\<lambda>p. if bit (m ! (p div 32)) (p mod 32) then 1 else (0 :: int)"
  have row: "(\<Sum>j<32. if bit (m ! i) j then 1 else (0 :: int)) = sum ?f {i * 32..<i * 32 + 32}" for i
  proof -
    have "sum ?f {i * 32..<i * 32 + 32} = (\<Sum>j = 0..<32. ?f (i * 32 + j))"
      by (simp add: sum.atLeastLessThan_shift_0 [of ?f "i * 32"])
    also have "\<dots> = (\<Sum>j = 0..<32. if bit (m ! i) j then 1 else 0)" by (rule sum.cong) auto
    finally show ?thesis by (simp add: atLeast0LessThan)
  qed
  have "fst (context_mask_stats m) = (\<Sum>i<64. \<Sum>j<32. if bit (m ! i) j then 1 else 0)"
    unfolding context_mask_stats_def one_bit_count
    by (simp add: interv_sum_list_conv_sum_set_nat atLeast0LessThan del: upt_rec_numeral)
  also have "\<dots> = (\<Sum>p<64 * 32. ?f p)" by (simp only: row sum.nat_group)
  also have "\<dots> = int (card {p. p < 64 * 32 \<and> bit (m ! (p div 32)) (p mod 32)})"
    by (simp add: sum.If_cases Int_def)
  finally show ?thesis by (simp add: free_in_def)
qed

lemma init_wf [simp]: "mask_wf (MPIR_context_id_init b)"
  by (simp add: mask_wf_def MPIR_context_id_init_def)

lemma init_free:
  "free_in (MPIR_context_id_init b) p \<longleftrightarrow> p < 2048 \<and> p \<notin> {0, 1, 3} \<and> (b \<longrightarrow> p \<noteq> 2)"
proof (cases "p div 32 = 0")
  case True
  have first: "\<forall>q\<in>set [0..<32]. (bit (0xFFFFFFF0 :: 32 word) q \<longleftrightarrow> q \<notin> {0, 1, 2, 3}) \<and>
      (bit (0xFFFFFFF4 :: 32 word) q \<longleftrightarrow> q \<notin> {0, 1, 3})" by code_simp
  have "p \<in> set [0..<32]" using True by auto
  with first show ?thesis using True by (auto simp: free_in_def MPIR_context_id_init_def)
next
  case False
  have ones: "\<forall>q\<in>set [0..<32]. bit (0xFFFFFFFF :: 32 word) q" by code_simp
  have "p mod 32 \<in> set [0..<32]" by simp
  with ones have "bit (0xFFFFFFFF :: 32 word) (p mod 32)" by blast
  moreover have "MPIR_context_id_init b ! (p div 32) = 0xFFFFFFFF" if "p < 2048"
    using that False by (simp add: MPIR_context_id_init_def nth_Cons' less_mult_imp_div_less)
  ultimately show ?thesis using False by (auto simp: free_in_def)
qed

lemma finalize_clean:
  "check_context_ids_on_finalize m = [] \<longleftrightarrow> (\<forall>p < 2048. free_in m p)"
proof -
  have "NOT w = 0 \<longleftrightarrow> (\<forall>b<32. bit w b)" for w :: "32 word"
    by (simp add: bit_eq_iff bit_not_iff)
  then have "check_context_ids_on_finalize m = [] \<longleftrightarrow> (\<forall>i<64. \<forall>b<32. bit (m ! i) b)"
    by (auto simp: check_context_ids_on_finalize_def filter_empty_conv)
  also have "\<dots> \<longleftrightarrow> (\<forall>p < 2048. bit (m ! (p div 32)) (p mod 32))"
  proof safe
    fix i b :: nat assume "\<forall>p<2048. bit (m ! (p div 32)) (p mod 32)" "i < 64" "b < 32"
    then show "bit (m ! i) b" by (auto dest: spec [of _ "32 * i + b"])
  qed (simp add: less_mult_imp_div_less)
  finally show ?thesis by (simp add: free_in_def)
qed

end
