(* ===== verification/Context_Alloc.thy ===== *)
theory Context_Alloc
  imports Context_Id
begin

text \<open>
  The collective allocation of context identifiers of \<open>mpi/comm/contextid.c\<close>, blocking and
  nonblocking.

  The global variables of the file are the record \<open>ctx_globals\<close>.  The linked list
  \<open>next_gcn\<close> is the list of its elements; an element keeps the address of its
  \<open>struct gcn_state\<close> and the two keys the list is ordered by.  One iteration of the blocking loop
  is cut at its critical sections: \<open>sparse_copy\<close> is the first one, \<open>sparse_allocate\<close> the second,
  \<open>sparse_fail\<close> the one of the error exit.  The reductions over the communicator, the
  point-to-point exchange of the leaders, the broadcast and the schedule of the nonblocking
  collectives are arguments.
\<close>

section \<open>The shared state\<close>

record gcn_link =
  gl_addr :: nat
  gl_comm :: MPIR_Context_id_t
  gl_tag :: "64 word"

record ctx_globals =
  context_mask :: context_mask
  eager_nelem :: int
  eager_in_use :: bool
  mask_in_use :: bool
  next_gcn :: "gcn_link list"

record gcn_state =
  gcn_self :: gcn_link
  ctx0 :: MPIR_Context_id_t
  ctx1 :: MPIR_Context_id_t
  own_mask :: bool
  own_eager_mask :: bool
  first_iter :: bool
  gcn_cid_kind :: MPIR_Comm_kind_t
  inter_rank :: int
  local_mask :: context_mask

definition context_globals_init :: "bool \<Rightarrow> ctx_globals" where
  "context_globals_init needs_icomm_world =
     \<lparr>context_mask = MPIR_context_id_init needs_icomm_world, eager_nelem = -1, eager_in_use = False,
      mask_in_use = False, next_gcn = []\<rparr>"

section \<open>The list of pending allocations\<close>

fun gcn_insert_after :: "gcn_link \<Rightarrow> gcn_link list \<Rightarrow> gcn_link list" where
  "gcn_insert_after new [] = [new]"
| "gcn_insert_after new (nxt # rest) =
     (if gl_comm nxt < gl_comm new \<or> gl_comm new = gl_comm nxt \<and> gl_tag nxt \<le> gl_tag new
      then nxt # gcn_insert_after new rest
      else new # nxt # rest)"

definition add_gcn_to_list :: "gcn_link \<Rightarrow> gcn_link list \<Rightarrow> gcn_link list" where
  "add_gcn_to_list new l =
     (case l of
        [] \<Rightarrow> [new]
      | head # rest \<Rightarrow>
          if gl_comm new < gl_comm head \<or> gl_comm head = gl_comm new \<and> gl_tag new < gl_tag head
          then new # l
          else head # gcn_insert_after new rest)"

text \<open>Unlinking dereferences the predecessor: it has no result when the element is not there.\<close>

fun gcn_unlink_after :: "nat \<Rightarrow> gcn_link list \<Rightarrow> gcn_link list option" where
  "gcn_unlink_after a [] = None"
| "gcn_unlink_after a (nxt # rest) =
     (if gl_addr nxt = a then Some rest else map_option ((#) nxt) (gcn_unlink_after a rest))"

definition gcn_unlink :: "nat \<Rightarrow> gcn_link list \<Rightarrow> gcn_link list option" where
  "gcn_unlink a l =
     (case l of
        [] \<Rightarrow> None
      | head # rest \<Rightarrow> if gl_addr head = a then Some rest else map_option ((#) head) (gcn_unlink_after a rest))"

definition remove_gcn :: "gcn_state \<Rightarrow> ctx_globals \<Rightarrow> ctx_globals option" where
  "remove_gcn st g =
     map_option (\<lambda>l. g\<lparr>next_gcn := l\<rparr>) (gcn_unlink (gl_addr (gcn_self st)) (next_gcn g))"

section \<open>Reserving a segment of the mask\<close>

definition eager_setup :: "int \<Rightarrow> ctx_globals \<Rightarrow> ctx_globals option" where
  "eager_setup eager_size g =
     (if eager_nelem g < 0
      then if 0 \<le> eager_size \<and> eager_size < int MPIR_MAX_CONTEXT_MASK - 1
           then Some (g\<lparr>eager_nelem := eager_size\<rparr>) else None
      else Some g)"

definition memset_mask :: "32 word \<Rightarrow> context_mask \<Rightarrow> context_mask" where
  "memset_mask w lm = replicate MPIR_MAX_CONTEXT_MASK w @ drop MPIR_MAX_CONTEXT_MASK lm"

definition copy_words :: "nat \<Rightarrow> nat \<Rightarrow> context_mask \<Rightarrow> context_mask \<Rightarrow> context_mask" where
  "copy_words lo hi src dst = take lo dst @ take (hi - lo) (drop lo src) @ drop hi dst"

definition reserve_eager :: "ctx_globals \<Rightarrow> gcn_state \<Rightarrow> ctx_globals \<times> gcn_state" where
  "reserve_eager g st =
     (let st = st\<lparr>local_mask := memset_mask 0 (local_mask st), own_eager_mask := False\<rparr>
      in if \<not> eager_in_use g \<and> eager_nelem g > 0
         then (g\<lparr>eager_in_use := True\<rparr>,
               st\<lparr>local_mask := copy_words 0 (nat (eager_nelem g)) (context_mask g) (local_mask st),
                  own_eager_mask := True\<rparr>)
         else (g, st))"

definition is_next_gcn :: "gcn_state \<Rightarrow> ctx_globals \<Rightarrow> bool" where
  "is_next_gcn st g =
     (case next_gcn g of [] \<Rightarrow> False | head # _ \<Rightarrow> gl_addr head = gl_addr (gcn_self st))"

definition reserve_base :: "ctx_globals \<Rightarrow> gcn_state \<Rightarrow> ctx_globals \<times> gcn_state" where
  "reserve_base g st =
     (if mask_in_use g \<or> \<not> is_next_gcn st g
      then (g, st\<lparr>local_mask := memset_mask 0 (local_mask st), own_mask := False\<rparr>)
      else (g\<lparr>mask_in_use := True\<rparr>,
            st\<lparr>local_mask :=
                 copy_words (nat (eager_nelem g)) MPIR_MAX_CONTEXT_MASK (context_mask g)
                   (copy_words 0 (nat (eager_nelem g)) (replicate (nat (eager_nelem g)) 0) (local_mask st)),
               own_mask := True\<rparr>))"

definition set_own_flag :: "bool \<Rightarrow> gcn_state \<Rightarrow> gcn_state" where
  "set_own_flag b st = st\<lparr>local_mask := (local_mask st)[ALL_OWN_MASK_FLAG := (if b then 1 else 0)]\<rparr>"

section \<open>The blocking allocation\<close>

definition sparse_copy ::
  "int \<Rightarrow> bool \<Rightarrow> ctx_globals \<Rightarrow> gcn_state \<Rightarrow> (ctx_globals \<times> gcn_state) option" where
  "sparse_copy eager_size ignore_id g st =
     do {
       g \<leftarrow> eager_setup eager_size g;
       (g, st) \<leftarrow>
         (if ignore_id
          then Some (g, st\<lparr>local_mask := memset_mask (-1) (local_mask st), own_mask := False\<rparr>)
          else if first_iter st then Some (reserve_eager g st)
          else if next_gcn g = [] then None
          else Some (reserve_base g st));
       Some (g, set_own_flag (own_mask st \<or> ignore_id) st)
     }"

definition sparse_allocate ::
  "bool \<Rightarrow> ctx_globals \<Rightarrow> gcn_state \<Rightarrow> (ctx_globals \<times> gcn_state \<times> MPIR_Context_id_t) option" where
  "sparse_allocate ignore_id g st =
     (if ignore_id then Some (g, st, word_of_int (locate_context_bit (local_mask st)))
      else if own_eager_mask st then do {
        (cm, cid) \<leftarrow> find_and_allocate_context_id (context_mask g) (local_mask st);
        Some (g\<lparr>context_mask := cm, eager_in_use := False\<rparr>, st\<lparr>own_eager_mask := False\<rparr>, cid)
      }
      else if own_mask st then do {
        (cm, cid) \<leftarrow> find_and_allocate_context_id (context_mask g) (local_mask st);
        let g = g\<lparr>context_mask := cm, mask_in_use := False\<rparr>;
        if 0 < cid then do { g \<leftarrow> remove_gcn st g; Some (g, st, cid) }
        else Some (g, st, cid)
      }
      else Some (g, st, 0))"

datatype ctx_error =
    Allreduce_failed mpi_error
  | Toomanycommfrag int int int
  | Toomanycomm int int int
  | Sched_failed mpi_error
  | Exchange_failed mpi_error

primrec error_class :: "ctx_error \<Rightarrow> mpi_error" where
  "error_class (Allreduce_failed e) = e"
| "error_class (Toomanycommfrag _ _ _) = MPI_ERR_OTHER"
| "error_class (Toomanycomm _ _ _) = MPI_ERR_OTHER"
| "error_class (Sched_failed e) = e"
| "error_class (Exchange_failed e) = e"

definition exhausted :: "gcn_state \<Rightarrow> MPIR_Context_id_t \<Rightarrow> bool" where
  "exhausted st cid \<longleftrightarrow> cid = 0 \<and> local_mask st ! ALL_OWN_MASK_FLAG = 1"

definition exhausted_release :: "ctx_globals \<Rightarrow> gcn_state \<Rightarrow> ctx_globals" where
  "exhausted_release g st = (if own_mask st then g\<lparr>mask_in_use := False\<rparr> else g)"

definition exhausted_error :: "(int \<Rightarrow> int) \<Rightarrow> bool \<Rightarrow> ctx_globals \<Rightarrow> ctx_error" where
  "exhausted_error reduce_min ignore_id g =
     (case context_mask_stats (context_mask g) of (nfree, ntotal) \<Rightarrow>
        let minfree = reduce_min (if ignore_id then INT_MAX else nfree)
        in if 0 < minfree then Toomanycommfrag nfree ntotal (of_bool ignore_id)
           else Toomanycomm nfree ntotal (of_bool ignore_id))"

definition end_first_iter ::
  "bool \<Rightarrow> MPIR_Context_id_t \<Rightarrow> ctx_globals \<Rightarrow> gcn_state \<Rightarrow> ctx_globals \<times> gcn_state" where
  "end_first_iter ignore_id cid g st =
     (if first_iter st
      then (if \<not> ignore_id \<and> cid = 0
            then (g\<lparr>next_gcn := add_gcn_to_list (gcn_self st) (next_gcn g)\<rparr>, st\<lparr>first_iter := False\<rparr>)
            else (g, st\<lparr>first_iter := False\<rparr>))
      else (g, st))"

type_synonym mask_reduction = "context_mask \<Rightarrow> context_mask mpi_result"

definition sparse_iteration ::
  "mask_reduction \<Rightarrow> (int \<Rightarrow> int) \<Rightarrow> int \<Rightarrow> bool \<Rightarrow> ctx_globals \<Rightarrow> gcn_state
    \<Rightarrow> (ctx_globals \<times> gcn_state \<times> (ctx_error + MPIR_Context_id_t)) option" where
  "sparse_iteration allreduce reduce_min eager_size ignore_id g st =
     do {
       (g, st) \<leftarrow> sparse_copy eager_size ignore_id g st;
       case allreduce (local_mask st) of
         Inl e \<Rightarrow> Some (g, st, Inl (Allreduce_failed e))
       | Inr lm \<Rightarrow> do {
           (g, st, cid) \<leftarrow> sparse_allocate ignore_id g (st\<lparr>local_mask := lm\<rparr>);
           if exhausted st cid
           then let g = exhausted_release g st
                in Some (g, st, Inl (exhausted_error reduce_min ignore_id g))
           else case end_first_iter ignore_id cid g st of (g, st) \<Rightarrow> Some (g, st, Inr cid)
         }
     }"

definition sparse_fail :: "bool \<Rightarrow> ctx_globals \<Rightarrow> gcn_state \<Rightarrow> ctx_globals option" where
  "sparse_fail ignore_id g st =
     (let g = (if own_mask st then g\<lparr>mask_in_use := False\<rparr> else g)
      in if \<not> first_iter st \<and> \<not> ignore_id then remove_gcn st g else Some g)"

partial_function (option) sparse_loop ::
  "(nat \<Rightarrow> mask_reduction) \<Rightarrow> (int \<Rightarrow> int) \<Rightarrow> int \<Rightarrow> bool \<Rightarrow> nat \<Rightarrow> ctx_globals \<Rightarrow> gcn_state
    \<Rightarrow> (ctx_globals \<times> (ctx_error + MPIR_Context_id_t)) option" where
  "sparse_loop allreduce reduce_min eager_size ignore_id k g st =
     do {
       (g, st, r) \<leftarrow> sparse_iteration (allreduce k) reduce_min eager_size ignore_id g st;
       case r of
         Inl e \<Rightarrow> do { g \<leftarrow> sparse_fail ignore_id g st; Some (g, Inl e) }
       | Inr cid \<Rightarrow>
           if cid = 0 then sparse_loop allreduce reduce_min eager_size ignore_id (k + 1) g st
           else Some (g, Inr cid)
     }"

definition sparse_start :: "nat \<Rightarrow> MPIR_Context_id_t \<Rightarrow> int \<Rightarrow> context_mask \<Rightarrow> gcn_state" where
  "sparse_start addr comm tag stack =
     \<lparr>gcn_self = \<lparr>gl_addr = addr, gl_comm = comm, gl_tag = word_of_int tag\<rparr>, ctx0 = 0, ctx1 = 0,
      own_mask = False, own_eager_mask = False, first_iter = True, gcn_cid_kind = INTRACOMM,
      inter_rank = 0, local_mask = stack\<rparr>"

definition MPIR_Get_contextid_sparse_group ::
  "(nat \<Rightarrow> mask_reduction) \<Rightarrow> (int \<Rightarrow> int) \<Rightarrow> int \<Rightarrow> nat \<Rightarrow> context_mask \<Rightarrow> MPIR_Context_id_t
    \<Rightarrow> MPIR_Comm_kind_t \<Rightarrow> bool \<Rightarrow> int \<Rightarrow> bool \<Rightarrow> ctx_globals
    \<Rightarrow> (ctx_globals \<times> (ctx_error + MPIR_Context_id_t)) option" where
  "MPIR_Get_contextid_sparse_group allreduce reduce_min eager_size addr stack comm kind has_group tag ignore_id g =
     (if has_group \<and> ignore_id \<or> kind \<noteq> INTRACOMM then None
      else do {
        (g, r) \<leftarrow> sparse_loop allreduce reduce_min eager_size ignore_id 0 g
                   (sparse_start addr comm tag stack);
        Some (g, map_sum id (\<lambda>cid. if ignore_id then MPIR_INVALID_CONTEXT_ID else cid) r)
      })"

definition MPIR_Get_contextid_sparse ::
  "(nat \<Rightarrow> mask_reduction) \<Rightarrow> (int \<Rightarrow> int) \<Rightarrow> int \<Rightarrow> nat \<Rightarrow> context_mask \<Rightarrow> int \<Rightarrow> MPIR_Context_id_t
    \<Rightarrow> MPIR_Comm_kind_t \<Rightarrow> bool \<Rightarrow> ctx_globals
    \<Rightarrow> (ctx_globals \<times> (ctx_error + MPIR_Context_id_t)) option" where
  "MPIR_Get_contextid_sparse allreduce reduce_min eager_size addr stack tag_ub comm kind ignore_id g =
     MPIR_Get_contextid_sparse_group allreduce reduce_min eager_size addr stack comm kind False tag_ub ignore_id g"

section \<open>Intercommunicators\<close>

record ctx_comm =
  cc_context_id :: MPIR_Context_id_t
  cc_rank :: int
  cc_local_comm :: "MPIR_Context_id_t option"

definition MPIR_Get_intercomm_contextid ::
  "(ctx_comm \<Rightarrow> ctx_comm mpi_result)
    \<Rightarrow> (MPIR_Context_id_t \<Rightarrow> ctx_globals \<Rightarrow> (ctx_globals \<times> (ctx_error + MPIR_Context_id_t)) option)
    \<Rightarrow> (MPIR_Context_id_t \<Rightarrow> MPIR_Context_id_t mpi_result)
    \<Rightarrow> (MPIR_Context_id_t \<Rightarrow> MPIR_Context_id_t mpi_result)
    \<Rightarrow> ctx_comm \<Rightarrow> ctx_globals
    \<Rightarrow> (ctx_globals \<times> ctx_comm \<times> (ctx_error + MPIR_Context_id_t \<times> MPIR_Context_id_t)) option" where
  "MPIR_Get_intercomm_contextid setup_localcomm get_sparse sendrecv bcast comm g =
     (case (if cc_local_comm comm = None then setup_localcomm comm else Inr comm) of
        Inl e \<Rightarrow> Some (g, comm, Inl (Exchange_failed e))
      | Inr comm \<Rightarrow> do {
          local \<leftarrow> cc_local_comm comm;
          (g, r) \<leftarrow> get_sparse local g;
          case r of
            Inl e \<Rightarrow> Some (g, comm, Inl e)
          | Inr mycontext_id \<Rightarrow>
              if mycontext_id = 0 then None
              else
                case (if cc_rank comm = 0 then sendrecv mycontext_id else Inr (-1)) of
                  Inl e \<Rightarrow> Some (g, comm, Inl (Exchange_failed e))
                | Inr remote \<Rightarrow>
                    (case bcast remote of
                       Inl e \<Rightarrow> Some (g, comm, Inl (Exchange_failed e))
                     | Inr remote_context_id \<Rightarrow> Some (g, comm, Inr (remote_context_id, mycontext_id)))
        })"

section \<open>The nonblocking allocation\<close>

text \<open>
  A callback of the schedule appends entries to it.  \<open>schedule\<close> appends until an insertion fails
  (\<open>MPIR_ERR_CHECK\<close>); which insertions fail is the argument \<open>sched\<close>.
\<close>

datatype sched_cb = Gcn_copy_mask | Gcn_allocate_cid | Gcn_bcast | Commit_comm | Free_buf

datatype sched_entry =
    Sched_cb sched_cb
  | Sched_barrier
  | Iallreduce_local_mask
  | Recv_ctx1
  | Send_ctx0
  | Ibcast_ctx1

type_synonym sched_insert = "sched_entry \<Rightarrow> mpi_error option"

fun schedule :: "sched_insert \<Rightarrow> sched_entry list \<Rightarrow> sched_entry list \<times> mpi_error option" where
  "schedule sched [] = ([], None)"
| "schedule sched (e # es) =
     (case sched e of
        Some err \<Rightarrow> ([], Some err)
      | None \<Rightarrow> (case schedule sched es of (added, r) \<Rightarrow> (e # added, r)))"

definition sched_cb_gcn_bcast ::
  "sched_insert \<Rightarrow> gcn_state \<Rightarrow> sched_entry list \<times> mpi_error option" where
  "sched_cb_gcn_bcast sched st =
     schedule sched
       ((if gcn_cid_kind st = INTERCOMM
         then (if inter_rank st = 0 then [Recv_ctx1, Send_ctx0, Sched_barrier] else [])
              @ [Ibcast_ctx1, Sched_barrier]
         else [])
        @ [Sched_cb Commit_comm, Sched_cb Free_buf])"

definition gcn_store_ids :: "MPIR_Context_id_t \<Rightarrow> gcn_state \<Rightarrow> gcn_state" where
  "gcn_store_ids cid st = st\<lparr>ctx0 := cid, ctx1 := cid\<rparr>"

definition gcn_try ::
  "ctx_globals \<Rightarrow> gcn_state \<Rightarrow> (ctx_globals \<times> gcn_state) option" where
  "gcn_try g st =
     (if own_eager_mask st then do {
        (cm, cid) \<leftarrow> find_and_allocate_context_id (context_mask g) (local_mask st);
        Some (g\<lparr>context_mask := cm, eager_in_use := False\<rparr>, (gcn_store_ids cid st)\<lparr>own_eager_mask := False\<rparr>)
      }
      else if own_mask st then do {
        (cm, cid) \<leftarrow> find_and_allocate_context_id (context_mask g) (local_mask st);
        let st = gcn_store_ids cid st;
        let g = g\<lparr>context_mask := cm, mask_in_use := False\<rparr>;
        if 0 < cid then do { g \<leftarrow> remove_gcn st g; Some (g, st) } else Some (g, st)
      }
      else Some (g, st))"

definition gcn_requeue :: "int \<Rightarrow> int \<Rightarrow> ctx_globals \<Rightarrow> gcn_state \<Rightarrow> ctx_globals \<times> gcn_state" where
  "gcn_requeue tag tag_ub g st =
     (if first_iter st
      then let self = (gcn_self st)\<lparr>gl_tag := word_of_int tag + word_of_int tag_ub\<rparr>
           in (g\<lparr>next_gcn := add_gcn_to_list self (next_gcn g)\<rparr>, st\<lparr>first_iter := False, gcn_self := self\<rparr>)
      else (g, st))"

definition gcn_error :: "ctx_globals \<Rightarrow> ctx_error" where
  "gcn_error g =
     (case context_mask_stats (context_mask g) of (nfree, ntotal) \<Rightarrow>
        let minfree = nfree
        in if 0 < minfree then Toomanycommfrag nfree ntotal minfree else Toomanycomm nfree ntotal minfree)"

text \<open>The result is the new state, the \<open>gcn_state\<close> unless the error exit freed it, the entries
  appended to the schedule and the error.\<close>

definition gcn_fail :: "ctx_globals \<Rightarrow> gcn_state \<Rightarrow> ctx_globals option" where
  "gcn_fail g st = (if first_iter st then Some g else remove_gcn st g)"

definition sched_cb_gcn_allocate_cid ::
  "sched_insert \<Rightarrow> int \<Rightarrow> int \<Rightarrow> ctx_globals \<Rightarrow> gcn_state
    \<Rightarrow> (ctx_globals \<times> gcn_state option \<times> sched_entry list \<times> ctx_error option) option" where
  "sched_cb_gcn_allocate_cid sched tag tag_ub g st =
     do {
       (g, st) \<leftarrow> gcn_try g st;
       if exhausted st (ctx0 st)
       then do { g' \<leftarrow> gcn_fail g st; Some (g', None, [], Some (gcn_error g)) }
       else
         let (g, st) = (if ctx0 st = 0 then gcn_requeue tag tag_ub g st else (g, st));
             next = (if ctx0 st = 0 then Gcn_copy_mask else Gcn_bcast)
         in case schedule sched [Sched_cb next, Sched_barrier] of
              (added, None) \<Rightarrow> Some (g, Some st, added, None)
            | (added, Some e) \<Rightarrow> do { g \<leftarrow> gcn_fail g st; Some (g, None, added, Some (Sched_failed e)) }
     }"

definition sched_cb_gcn_copy_mask ::
  "sched_insert \<Rightarrow> ctx_globals \<Rightarrow> gcn_state
    \<Rightarrow> ctx_globals \<times> gcn_state \<times> sched_entry list \<times> mpi_error option" where
  "sched_cb_gcn_copy_mask sched g st =
     (let (g, st) =
        (if first_iter st
         then reserve_eager g (set_own_flag False st)
         else case reserve_base g st of (g, st) \<Rightarrow> (g, set_own_flag (own_mask st) st))
      in case schedule sched [Iallreduce_local_mask, Sched_barrier, Sched_cb Gcn_allocate_cid, Sched_barrier] of
           (added, r) \<Rightarrow> (g, st, added, r))"

definition sched_get_cid_nonblock ::
  "sched_insert \<Rightarrow> int \<Rightarrow> nat \<Rightarrow> context_mask \<Rightarrow> ctx_comm \<Rightarrow> MPIR_Context_id_t \<Rightarrow> MPIR_Comm_kind_t \<Rightarrow> ctx_globals
    \<Rightarrow> (ctx_globals \<times> gcn_state option \<times> sched_entry list \<times> mpi_error option) option" where
  "sched_get_cid_nonblock sched eager_size addr heap comm old_ctx1 kind g =
     do {
       parent \<leftarrow> (if kind = INTRACOMM then Some (cc_context_id comm) else cc_local_comm comm);
       let st = \<lparr>gcn_self = \<lparr>gl_addr = addr, gl_comm = parent, gl_tag = 0\<rparr>, ctx0 = 0, ctx1 = old_ctx1,
                 own_mask = False, own_eager_mask = False, first_iter = True, gcn_cid_kind = kind,
                 inter_rank = cc_rank comm, local_mask = heap\<rparr>;
       g \<leftarrow> eager_setup eager_size g;
       case schedule sched [Sched_cb Gcn_copy_mask, Sched_barrier] of
         (added, None) \<Rightarrow> Some (g, Some st, added, None)
       | (added, Some e) \<Rightarrow> Some (g, None, added, Some e)
     }"

text \<open>The entry points create a schedule, fill it and start it; \<open>sched_env\<close> holds the calls into
  the schedule component.\<close>

record sched_env =
  se_next_tag :: "int mpi_result"
  se_create :: "mpi_error option"
  se_insert :: sched_insert
  se_start :: "sched_entry list \<Rightarrow> mpi_error option"

type_synonym nonblock_result = "(ctx_globals \<times> gcn_state option \<times> sched_entry list \<times> mpi_error option) option"

definition start_cid_schedule ::
  "sched_env \<Rightarrow> (ctx_globals \<Rightarrow> nonblock_result) \<Rightarrow> ctx_globals \<Rightarrow> nonblock_result" where
  "start_cid_schedule env fill g =
     (case se_next_tag env of
        Inl e \<Rightarrow> Some (g, None, [], Some e)
      | Inr _ \<Rightarrow>
          case se_create env of
            Some e \<Rightarrow> Some (g, None, [], Some e)
          | None \<Rightarrow> do {
              (g, st, added, r) \<leftarrow> fill g;
              case r of
                Some e \<Rightarrow> Some (g, st, added, Some e)
              | None \<Rightarrow> Some (g, st, added, se_start env added)
            })"

definition MPIR_Get_contextid_nonblock ::
  "sched_env \<Rightarrow> int \<Rightarrow> nat \<Rightarrow> context_mask \<Rightarrow> ctx_comm \<Rightarrow> MPIR_Context_id_t \<Rightarrow> ctx_globals \<Rightarrow> nonblock_result" where
  "MPIR_Get_contextid_nonblock env eager_size addr heap comm new_recvcontext_id g =
     start_cid_schedule env
       (sched_get_cid_nonblock (se_insert env) eager_size addr heap comm new_recvcontext_id INTRACOMM) g"

definition MPIR_Get_intercomm_contextid_nonblock ::
  "sched_env \<Rightarrow> (ctx_comm \<Rightarrow> ctx_comm mpi_result) \<Rightarrow> int \<Rightarrow> nat \<Rightarrow> context_mask \<Rightarrow> ctx_comm
    \<Rightarrow> MPIR_Context_id_t \<Rightarrow> ctx_globals \<Rightarrow> nonblock_result" where
  "MPIR_Get_intercomm_contextid_nonblock env setup_localcomm eager_size addr heap comm new_context_id g =
     (case (if cc_local_comm comm = None then setup_localcomm comm else Inr comm) of
        Inl e \<Rightarrow> Some (g, None, [], Some e)
      | Inr comm \<Rightarrow>
          start_cid_schedule env
            (sched_get_cid_nonblock (se_insert env) eager_size addr heap comm new_context_id INTERCOMM) g)"

end
