(* ===== verification/Context_Threads.thy ===== *)
theory Context_Threads
  imports Context_Alloc
begin

text \<open>
  The threads of one process that allocate context identifiers at the same time.  Each rule of
  \<open>ctx_step\<close> is one critical section of \<open>contextid.c\<close>, or the end of a reduction; the invariant
  says which segment of the mask a thread holds and what its local copy may contain.
\<close>

section \<open>Free prefixes of copied masks\<close>

definition local_wf :: "context_mask \<Rightarrow> bool" where
  "local_wf m \<longleftrightarrow> length m = MPIR_MAX_CONTEXT_MASK + 1"

lemma prefix_word: "p < 2048 \<Longrightarrow> p div 32 < (64 :: nat)"
  by (simp add: less_mult_imp_div_less)

lemma memset_wf [simp]: "local_wf m \<Longrightarrow> local_wf (memset_mask w m)"
  by (simp add: local_wf_def memset_mask_def)

lemma memset_nth: "i < 64 \<Longrightarrow> memset_mask w m ! i = w"
  by (simp add: memset_mask_def nth_append)

lemma free_memset_0 [simp]: "\<not> free_in (memset_mask 0 m) p"
  by (auto simp: free_in_def memset_nth prefix_word)

lemma free_memset_1 [simp]: "free_in (memset_mask (-1) m) p \<longleftrightarrow> p < 2048"
  by (auto simp: free_in_def memset_nth prefix_word)

lemma copy_words_length:
  "lo \<le> hi \<Longrightarrow> hi \<le> length src \<Longrightarrow> hi \<le> length dst \<Longrightarrow> length (copy_words lo hi src dst) = length dst"
  by (simp add: copy_words_def)

lemma copy_words_nth:
  assumes "lo \<le> hi" "hi \<le> length src" "hi \<le> length dst" "i < length dst"
  shows "copy_words lo hi src dst ! i = (if lo \<le> i \<and> i < hi then src ! i else dst ! i)"
proof -
  have len: "length (take (hi - lo) (drop lo src)) = hi - lo" "length (take lo dst) = lo" using assms by auto
  show ?thesis unfolding copy_words_def nth_append len using assms by auto
qed

lemma free_copy_words:
  assumes "lo \<le> hi" "hi \<le> length src" "hi \<le> length dst" "64 \<le> length dst"
  shows "free_in (copy_words lo hi src dst) p \<longleftrightarrow>
    (if lo \<le> p div 32 \<and> p div 32 < hi then free_in src p else free_in dst p)"
  using assms prefix_word [of p] by (auto simp: free_in_def copy_words_nth)

lemma free_flag [simp]: "local_wf m \<Longrightarrow> free_in (m[64 := w]) p = free_in m p"
  using prefix_word [of p] by (auto simp: free_in_def)

lemma flag_wf [simp]: "local_wf (m[i := w]) = local_wf m"
  by (simp add: local_wf_def)

definition band :: "context_mask \<Rightarrow> context_mask \<Rightarrow> context_mask" where
  "band a b = map2 (AND) a b"

lemma band_wf [simp]: "local_wf a \<Longrightarrow> local_wf b \<Longrightarrow> local_wf (band a b)"
  by (simp add: band_def local_wf_def)

lemma free_band [simp]: "local_wf a \<Longrightarrow> local_wf b \<Longrightarrow> free_in (band a b) p \<longleftrightarrow> free_in a p \<and> free_in b p"
  using prefix_word [of p] by (auto simp: free_in_def band_def local_wf_def bit_and_iff)

lemma band_flag:
  "local_wf a \<Longrightarrow> local_wf b \<Longrightarrow> band a b ! 64 = a ! 64 AND b ! 64"
  by (simp add: band_def local_wf_def)

section \<open>The list of pending allocations\<close>

definition gcn_le :: "gcn_link \<Rightarrow> gcn_link \<Rightarrow> bool" where
  "gcn_le a b \<longleftrightarrow> gl_comm a < gl_comm b \<or> gl_comm a = gl_comm b \<and> gl_tag a \<le> gl_tag b"

abbreviation gcn_sorted :: "gcn_link list \<Rightarrow> bool" where
  "gcn_sorted l \<equiv> sorted_wrt gcn_le l"

lemma gcn_le_trans: "gcn_le a b \<Longrightarrow> gcn_le b c \<Longrightarrow> gcn_le a c"
  by (auto simp: gcn_le_def)

lemma gcn_le_linear: "gcn_le a b \<or> gcn_le b a"
  by (auto simp: gcn_le_def)

lemma add_gcn_eq: "add_gcn_to_list new l = gcn_insert_after new l"
  by (cases l) (auto simp: add_gcn_to_list_def)

lemma insert_after_stable:
  "gcn_insert_after new l = takeWhile (\<lambda>x. gcn_le x new) l @ new # dropWhile (\<lambda>x. gcn_le x new) l"
  by (induction l) (auto simp: gcn_le_def)

lemma add_gcn_set: "set (add_gcn_to_list new l) = insert new (set l)"
  unfolding add_gcn_eq by (induction l) auto

lemma insert_after_Cons:
  "gcn_insert_after new (x # l) = (if gcn_le x new then x # gcn_insert_after new l else new # x # l)"
  by (auto simp: gcn_le_def)

lemma add_gcn_sorted:
  assumes "gcn_sorted l"
  shows "gcn_sorted (add_gcn_to_list new l)"
  using assms unfolding add_gcn_eq
proof (induction l)
  case (Cons x l)
  then show ?case
  proof (cases "gcn_le x new")
    case True
    then have "\<forall>y\<in>set (gcn_insert_after new l). gcn_le x y"
      using Cons.prems add_gcn_set [of new l] by (simp add: add_gcn_eq)
    then show ?thesis using Cons True by (simp add: insert_after_Cons del: gcn_insert_after.simps)
  next
    case False
    then have le: "gcn_le new x" using gcn_le_linear by blast
    then have "\<forall>y\<in>set l. gcn_le new y" using Cons.prems gcn_le_trans [OF le] by simp
    then show ?thesis using False le Cons.prems by (simp add: insert_after_Cons del: gcn_insert_after.simps)
  qed
qed simp

lemma add_gcn_addrs:
  "distinct (map gl_addr l) \<Longrightarrow> gl_addr new \<notin> gl_addr ` set l \<Longrightarrow> distinct (map gl_addr (add_gcn_to_list new l))"
proof (induction l)
  case (Cons x l)
  have "gl_addr x \<notin> gl_addr ` set (gcn_insert_after new l)"
    using Cons.prems add_gcn_set [of new l] by (auto simp: add_gcn_eq)
  then show ?case using Cons by (auto simp: add_gcn_eq)
qed (simp add: add_gcn_eq)

lemma unlink_eq: "gcn_unlink a l = gcn_unlink_after a l"
  by (cases l) (auto simp: gcn_unlink_def)

lemma unlink_filter:
  assumes "distinct (map gl_addr l)" "a \<in> gl_addr ` set l"
  shows "gcn_unlink a l = Some (filter (\<lambda>x. gl_addr x \<noteq> a) l)"
  using assms unfolding unlink_eq
proof (induction l)
  case (Cons x l)
  show ?case
  proof (cases "gl_addr x = a")
    case True
    then have "filter (\<lambda>x. gl_addr x \<noteq> a) l = l"
      using Cons.prems by (auto simp: filter_id_conv image_iff)
    with True show ?thesis by simp
  qed (use Cons in auto)
qed simp

lemma unlink_missing: "a \<notin> gl_addr ` set l \<Longrightarrow> gcn_unlink a l = None"
  unfolding unlink_eq by (induction l) auto

section \<open>Segments of the mask\<close>

datatype segment = Eager | Base

lemma all_segments: "(\<forall>k. P k) \<longleftrightarrow> P Eager \<and> P Base"
  by (metis segment.exhaust)

primrec seg_in_use :: "ctx_globals \<Rightarrow> segment \<Rightarrow> bool" where
  "seg_in_use g Eager = eager_in_use g"
| "seg_in_use g Base = mask_in_use g"

primrec in_segment :: "ctx_globals \<Rightarrow> segment \<Rightarrow> nat \<Rightarrow> bool" where
  "in_segment g Eager p \<longleftrightarrow> int (p div 32) < eager_nelem g"
| "in_segment g Base p \<longleftrightarrow> eager_nelem g \<le> int (p div 32)"

text \<open>The segment a thread holds between the two critical sections of an iteration.\<close>

definition holds :: "bool \<Rightarrow> gcn_state \<Rightarrow> segment option" where
  "holds ign st = (if ign then None else if own_eager_mask st then Some Eager
     else if own_mask st then Some Base else None)"

definition local_claim :: "ctx_globals \<Rightarrow> bool \<Rightarrow> gcn_state \<Rightarrow> bool" where
  "local_claim g ign st \<longleftrightarrow> ign \<or>
     (\<forall>p. free_in (local_mask st) p \<longrightarrow>
        (case holds ign st of None \<Rightarrow> False | Some k \<Rightarrow> in_segment g k p \<and> free_in (context_mask g) p))"

lemma local_claim_cases:
  assumes "local_claim g ign st" "\<not> ign" "free_in (local_mask st) p"
  obtains k where "holds ign st = Some k" "in_segment g k p" "free_in (context_mask g) p"
  using assms by (auto simp: local_claim_def split: option.splits)

definition globals_ok :: "ctx_globals \<Rightarrow> bool" where
  "globals_ok g \<longleftrightarrow> mask_wf (context_mask g) \<and> \<not> free_in (context_mask g) 0 \<and> eager_nelem g < 63"

definition state_ok :: "bool \<Rightarrow> gcn_state \<Rightarrow> bool" where
  "state_ok ign st \<longleftrightarrow> local_wf (local_mask st) \<and> (first_iter st \<longrightarrow> \<not> own_mask st)
     \<and> (\<not> first_iter st \<longrightarrow> \<not> own_eager_mask st) \<and> (ign \<longrightarrow> \<not> own_mask st \<and> \<not> own_eager_mask st)"

text \<open>Reserving gives either nothing, or a segment nobody held before with a copy of it.\<close>

definition reserved :: "ctx_globals \<Rightarrow> gcn_state \<Rightarrow> ctx_globals \<Rightarrow> gcn_state \<Rightarrow> bool" where
  "reserved g st g' st' \<longleftrightarrow> local_wf (local_mask st') \<and> gcn_self st' = gcn_self st \<and> first_iter st' = first_iter st
     \<and> ctx0 st' = ctx0 st \<and> context_mask g' = context_mask g \<and> eager_nelem g' = eager_nelem g \<and> next_gcn g' = next_gcn g
     \<and> (case holds False st' of
          None \<Rightarrow> g' = g \<and> (\<forall>p. \<not> free_in (local_mask st') p)
        | Some k \<Rightarrow> \<not> seg_in_use g k \<and> (\<forall>j. seg_in_use g' j \<longleftrightarrow> j = k \<or> seg_in_use g j)
            \<and> (\<forall>p. free_in (local_mask st') p \<longleftrightarrow> in_segment g k p \<and> free_in (context_mask g) p))"

lemma eager_copy_free:
  assumes "mask_wf cm" "local_wf m" "0 \<le> n" "n < 63"
  shows "free_in (copy_words 0 (nat n) cm (memset_mask 0 m)) p \<longleftrightarrow> int (p div 32) < n \<and> free_in cm p"
    "local_wf (copy_words 0 (nat n) cm (memset_mask 0 m))"
proof -
  have len: "nat n \<le> length cm" "nat n \<le> length (memset_mask 0 m)" "64 \<le> length (memset_mask 0 m)"
    using assms by (auto simp: mask_wf_def local_wf_def memset_mask_def)
  show "free_in (copy_words 0 (nat n) cm (memset_mask 0 m)) p \<longleftrightarrow> int (p div 32) < n \<and> free_in cm p"
    using len by (subst free_copy_words) auto
  show "local_wf (copy_words 0 (nat n) cm (memset_mask 0 m))"
    using len memset_wf [OF assms(2)] by (simp add: local_wf_def copy_words_length)
qed

lemma base_copy_free:
  assumes "mask_wf cm" "local_wf m" "0 \<le> n" "n < 63"
  shows "free_in (copy_words (nat n) 64 cm (copy_words 0 (nat n) (replicate (nat n) 0) m)) p
      \<longleftrightarrow> n \<le> int (p div 32) \<and> free_in cm p"
    "local_wf (copy_words (nat n) 64 cm (copy_words 0 (nat n) (replicate (nat n) 0) m))"
proof -
  let ?z = "copy_words 0 (nat n) (replicate (nat n) 0) m"
  have z: "length ?z = 65" using assms by (subst copy_words_length) (auto simp: local_wf_def)
  have "\<not> free_in ?z p" if "p div 32 < nat n"
    using that assms by (subst free_copy_words) (auto simp: local_wf_def free_in_def)
  moreover have "free_in (copy_words (nat n) 64 cm ?z) p \<longleftrightarrow>
      (if nat n \<le> p div 32 \<and> p div 32 < 64 then free_in cm p else free_in ?z p)"
    using assms z by (intro free_copy_words) (auto simp: mask_wf_def)
  ultimately show "free_in (copy_words (nat n) 64 cm ?z) p \<longleftrightarrow> n \<le> int (p div 32) \<and> free_in cm p"
    using prefix_word [of p] by (auto simp: free_in_def)
  show "local_wf (copy_words (nat n) 64 cm ?z)"
    using assms z by (simp add: local_wf_def mask_wf_def copy_words_length)
qed

lemma reserve_eager_ok:
  assumes "globals_ok g" "state_ok False st" "first_iter st" "0 \<le> eager_nelem g"
  shows "reserved g st (fst (reserve_eager g st)) (snd (reserve_eager g st))"
    "state_ok False (snd (reserve_eager g st))"
proof -
  have len: "mask_wf (context_mask g)" "local_wf (local_mask st)" "eager_nelem g < 63"
    using assms by (auto simp: globals_ok_def state_ok_def)
  note copy = eager_copy_free [OF len(1,2) assms(4) len(3)]
  have own: "\<not> own_mask st" using assms(2,3) by (simp add: state_ok_def)
  show "reserved g st (fst (reserve_eager g st)) (snd (reserve_eager g st))"
    using copy len own by (simp add: reserved_def reserve_eager_def Let_def holds_def all_segments)
  show "state_ok False (snd (reserve_eager g st))"
    using copy len own assms(3) by (simp add: state_ok_def reserve_eager_def Let_def)
qed

lemma reserve_base_ok:
  assumes "globals_ok g" "state_ok False st" "\<not> first_iter st" "0 \<le> eager_nelem g"
  shows "reserved g st (fst (reserve_base g st)) (snd (reserve_base g st))"
    "state_ok False (snd (reserve_base g st))"
proof -
  have len: "mask_wf (context_mask g)" "local_wf (local_mask st)" "eager_nelem g < 63"
    using assms by (auto simp: globals_ok_def state_ok_def)
  note copy = base_copy_free [OF len(1,2) assms(4) len(3)]
  have own: "\<not> own_eager_mask st" using assms(2,3) by (simp add: state_ok_def)
  show "reserved g st (fst (reserve_base g st)) (snd (reserve_base g st))"
    using copy len own by (simp add: reserved_def reserve_base_def holds_def all_segments)
  show "state_ok False (snd (reserve_base g st))"
    using copy len own assms(3) by (simp add: state_ok_def reserve_base_def)
qed

lemma in_segment_cong: "eager_nelem g' = eager_nelem g \<Longrightarrow> in_segment g' k p = in_segment g k p"
  by (cases k) simp_all

lemma reserved_claim:
  assumes "reserved g st g' st'"
  shows "local_claim g' False st'"
proof -
  have same: "context_mask g' = context_mask g" "eager_nelem g' = eager_nelem g"
    using assms by (simp_all add: reserved_def)
  show ?thesis
  proof (cases "holds False st'")
    case None
    then show ?thesis using assms by (simp add: reserved_def local_claim_def)
  next
    case (Some k)
    then have "free_in (local_mask st') p \<longleftrightarrow> in_segment g k p \<and> free_in (context_mask g) p" for p
      using assms by (simp add: reserved_def)
    then show ?thesis using Some same by (simp add: local_claim_def in_segment_cong [OF same(2)])
  qed
qed

lemma set_own_flag_simps [simp]:
  "gcn_self (set_own_flag b st) = gcn_self st" "first_iter (set_own_flag b st) = first_iter st"
  "own_mask (set_own_flag b st) = own_mask st" "own_eager_mask (set_own_flag b st) = own_eager_mask st"
  "ctx0 (set_own_flag b st) = ctx0 st" "holds i (set_own_flag b st) = holds i st"
  "local_wf (local_mask (set_own_flag b st)) = local_wf (local_mask st)"
  "state_ok i (set_own_flag b st) = state_ok i st"
  by (simp_all add: set_own_flag_def holds_def state_ok_def)

lemma set_own_flag_free [simp]:
  "local_wf (local_mask st) \<Longrightarrow> free_in (local_mask (set_own_flag b st)) p = free_in (local_mask st) p"
  by (simp add: set_own_flag_def)

lemma reserved_flag: "reserved g st g' st' \<Longrightarrow> reserved g st g' (set_own_flag b st')"
  by (auto simp: reserved_def split: option.splits)

text \<open>Both critical sections of an iteration, for a blocking and for a nonblocking allocation.\<close>

lemma eager_setup_cases:
  assumes "eager_setup n g = Some g'" "globals_ok g"
  shows "globals_ok g'" "0 \<le> eager_nelem g'" "0 \<le> eager_nelem g \<Longrightarrow> g' = g"
    "g' = g \<or> g' = g\<lparr>eager_nelem := n\<rparr>" "seg_in_use g' k = seg_in_use g k"
  using assms by (auto simp: eager_setup_def globals_ok_def split: if_splits; cases k; auto)+

lemma sparse_copy_reserved:
  assumes "sparse_copy n False g st = Some (g', st')" "globals_ok g" "state_ok False st"
  obtains g0 where "eager_setup n g = Some g0" "reserved g0 st g' st'" "state_ok False st'"
proof -
  obtain g0 where g0: "eager_setup n g = Some g0"
    using assms(1) by (auto simp: sparse_copy_def bind_eq_Some_conv)
  have ok: "globals_ok g0" "0 \<le> eager_nelem g0" using eager_setup_cases [OF g0 assms(2)] by auto
  show ?thesis
  proof (cases "first_iter st")
    case True
    then have "g' = fst (reserve_eager g0 st)" "\<exists>b. st' = set_own_flag b (snd (reserve_eager g0 st))"
      using assms(1) g0 by (auto simp: sparse_copy_def split: prod.splits)
    then show ?thesis using that [OF g0] reserve_eager_ok [OF ok(1) assms(3) True ok(2)] reserved_flag by auto
  next
    case False
    then have "g' = fst (reserve_base g0 st)" "\<exists>b. st' = set_own_flag b (snd (reserve_base g0 st))"
      using assms(1) g0 by (auto simp: sparse_copy_def split: prod.splits if_splits)
    then show ?thesis using that [OF g0] reserve_base_ok [OF ok(1) assms(3) False ok(2)] reserved_flag by auto
  qed
qed

definition gcn_remove :: "gcn_state \<Rightarrow> gcn_link list \<Rightarrow> gcn_link list" where
  "gcn_remove st l = filter (\<lambda>x. gl_addr x \<noteq> gl_addr (gcn_self st)) l"

definition listed :: "gcn_state \<Rightarrow> ctx_globals \<Rightarrow> bool" where
  "listed st g \<longleftrightarrow> distinct (map gl_addr (next_gcn g)) \<and> gl_addr (gcn_self st) \<in> gl_addr ` set (next_gcn g)"

lemma remove_listed: "listed st g \<Longrightarrow> remove_gcn st g = Some (g\<lparr>next_gcn := gcn_remove st (next_gcn g)\<rparr>)"
  by (simp add: remove_gcn_def listed_def unlink_filter gcn_remove_def)

lemma listed_mask [simp]:
  "listed st (g\<lparr>context_mask := cm\<rparr>) = listed st g" "listed st (g\<lparr>mask_in_use := b\<rparr>) = listed st g"
  by (simp_all add: listed_def)

definition released :: "segment \<Rightarrow> ctx_globals \<Rightarrow> ctx_globals \<Rightarrow> bool" where
  "released k g g' \<longleftrightarrow> eager_nelem g' = eager_nelem g \<and> (\<forall>j. seg_in_use g' j \<longleftrightarrow> j \<noteq> k \<and> seg_in_use g j)"

lemma allocate_cases:
  assumes g: "globals_ok g" and st: "state_ok False st" and claim: "local_claim g False st"
    and list: "own_mask st \<longrightarrow> listed st g"
  obtains (idle) "holds False st = None" "sparse_allocate False g st = Some (g, st, 0)"
    | (missed) k g' where "holds False st = Some k" "\<And>q. \<not> free_in (local_mask st) q"
        "sparse_allocate False g st = Some (g', st\<lparr>own_eager_mask := False\<rparr>, 0)"
        "released k g g'" "context_mask g' = context_mask g" "next_gcn g' = next_gcn g"
    | (took) k g' p where "holds False st = Some k" "chosen (local_mask st) p" "p \<noteq> 0"
        "sparse_allocate False g st = Some (g', st\<lparr>own_eager_mask := False\<rparr>, id_of_prefix p)"
        "id_of_prefix p \<noteq> 0" "released k g g'" "mask_wf (context_mask g')"
        "\<And>q. free_in (context_mask g') q \<longleftrightarrow> free_in (context_mask g) q \<and> q \<noteq> p"
        "next_gcn g' = (if k = Base then gcn_remove st (next_gcn g) else next_gcn g)"
proof (cases "holds False st")
  case None
  then have "sparse_allocate False g st = Some (g, st, 0)"
    by (auto simp: holds_def sparse_allocate_def split: if_splits)
  with None show ?thesis by (rule idle)
next
  case (Some k)
  have sub: "\<forall>q. free_in (local_mask st) q \<longrightarrow> free_in (context_mask g) q"
    using claim Some by (auto simp: local_claim_def)
  have wf: "mask_wf (context_mask g)" "\<not> free_in (context_mask g) 0" using g by (auto simp: globals_ok_def)
  show ?thesis
  proof (cases k)
    case Eager
    then have own: "own_eager_mask st" using Some by (auto simp: holds_def split: if_splits)
    show ?thesis
      using wf(1) sub wf(2)
    proof (cases rule: find_and_allocate_cases)
      case (found p cm')
      let ?g = "g\<lparr>context_mask := cm', eager_in_use := False\<rparr>"
      have "sparse_allocate False g st = Some (?g, st\<lparr>own_eager_mask := False\<rparr>, id_of_prefix p)"
        using found(4) own by (simp add: sparse_allocate_def)
      then show ?thesis using took [OF Some found(1,2) _ found(5), of ?g] found(3,6) Eager
        by (simp add: released_def all_segments)
    next
      case none
      let ?g = "g\<lparr>context_mask := context_mask g, eager_in_use := False\<rparr>"
      have "sparse_allocate False g st = Some (?g, st\<lparr>own_eager_mask := False\<rparr>, 0)"
        using none(2) own by (simp add: sparse_allocate_def)
      then show ?thesis using missed [OF Some none(1), of ?g] Eager by (simp add: released_def all_segments)
    qed
  next
    case Base
    then have own: "\<not> own_eager_mask st" "own_mask st" using Some by (auto simp: holds_def split: if_splits)
    have st_eq: "st\<lparr>own_eager_mask := False\<rparr> = st" using own(1) by simp
    show ?thesis
      using wf(1) sub wf(2)
    proof (cases rule: find_and_allocate_cases)
      case (found p cm')
      let ?g = "g\<lparr>context_mask := cm', mask_in_use := False, next_gcn := gcn_remove st (next_gcn g)\<rparr>"
      have pos: "0 < id_of_prefix p" using found(5) by (simp add: word_gt_0)
      have "sparse_allocate False g st = Some (?g, st\<lparr>own_eager_mask := False\<rparr>, id_of_prefix p)"
        unfolding st_eq using found(4) own pos list
        by (simp add: sparse_allocate_def Let_def remove_listed)
      then show ?thesis using took [OF Some found(1,2) _ found(5), of ?g] found(3,6) Base
        by (simp add: released_def all_segments)
    next
      case none
      let ?g = "g\<lparr>context_mask := context_mask g, mask_in_use := False\<rparr>"
      have "sparse_allocate False g st = Some (?g, st\<lparr>own_eager_mask := False\<rparr>, 0)"
        unfolding st_eq using none(2) own by (simp add: sparse_allocate_def Let_def)
      then show ?thesis using missed [OF Some none(1), of ?g] Base by (simp add: released_def all_segments)
    qed
  qed
qed

lemma gcn_try_eq:
  "gcn_try g st = map_option (\<lambda>(g', st', cid). (g', if holds False st = None then st' else gcn_store_ids cid st'))
     (sparse_allocate False g st)"
proof -
  have eager: "(gcn_store_ids c st)\<lparr>own_eager_mask := False\<rparr> = gcn_store_ids c (st\<lparr>own_eager_mask := False\<rparr>)" for c
    by (simp add: gcn_store_ids_def)
  have rem: "remove_gcn (gcn_store_ids c st) x = remove_gcn st x" for c x
    by (simp add: remove_gcn_def gcn_store_ids_def)
  show ?thesis
    by (auto simp: gcn_try_def sparse_allocate_def holds_def eager rem Let_def map_conv_bind_option
        split: prod.splits intro!: Option.bind_cong)
qed

end
