(* ===== verification/Context_System.thy ===== *)
theory Context_System
  imports Context_Threads
begin

text \<open>
  A process as a system of threads: \<open>ctx_step\<close> interleaves blocking and nonblocking allocations with all
  their exits and the release of identifiers.  The ghost component \<open>sys_live\<close> is the set of prefixes that
  have been handed out and not been freed.  A blocking thread that meets an exhausted mask has given
  the base segment back, but clears \<open>mask_in_use\<close> twice more on its way out, in critical sections of their
  own; the ghost component \<open>sys_stolen\<close> records that one of these writes has hit a segment another
  thread held.
\<close>

section \<open>The interleaving semantics\<close>

text \<open>Between its critical sections a thread is at the top of the loop, in the reduction, behind it, at
  the end of an iteration without an identifier, in the exhaustion branch before the critical section
  of \<open>mask_in_use\<close>, behind that section on the way to the error exit, or it is a nonblocking allocation
  whose schedule could not be extended.\<close>

datatype ctx_phase = Top | Reducing | Reduced | Tried | Exhausted | Failing | Lost

record ctx_thread =
  th_ignore :: bool
  th_nonblocking :: bool
  th_phase :: ctx_phase
  th_st :: gcn_state

record ctx_sys =
  sys_g :: ctx_globals
  sys_threads :: "nat \<Rightarrow> ctx_thread option"
  sys_live :: "nat set"
  sys_stolen :: bool

definition sys_start :: "bool \<Rightarrow> ctx_sys" where
  "sys_start needs_icomm_world =
     \<lparr>sys_g = context_globals_init needs_icomm_world, sys_threads = Map.empty,
      sys_live = {0, 1, 3} \<union> (if needs_icomm_world then {2} else {}), sys_stolen = False\<rparr>"

definition put :: "ctx_sys \<Rightarrow> ctx_globals \<Rightarrow> nat \<Rightarrow> ctx_thread option \<Rightarrow> ctx_sys" where
  "put s g a t = s\<lparr>sys_g := g, sys_threads := (sys_threads s)(a := t)\<rparr>"

definition now_live :: "bool \<Rightarrow> MPIR_Context_id_t \<Rightarrow> ctx_sys \<Rightarrow> ctx_sys" where
  "now_live ign cid s = (if ign \<or> cid = 0 then s else s\<lparr>sys_live := insert (prefix_of cid) (sys_live s)\<rparr>)"

text \<open>The segment a thread holds between the two critical sections of an iteration.\<close>

definition active :: "ctx_thread \<Rightarrow> bool" where
  "active t \<longleftrightarrow> th_phase t = Reducing \<or> th_phase t = Reduced \<or> th_phase t = Lost"

definition th_holds :: "ctx_thread \<Rightarrow> segment option" where
  "th_holds t = (if active t then holds (th_ignore t) (th_st t) else None)"

definition base_held :: "nat \<Rightarrow> (nat \<Rightarrow> ctx_thread option) \<Rightarrow> bool" where
  "base_held a T \<longleftrightarrow> (\<exists>b u. b \<noteq> a \<and> T b = Some u \<and> th_holds u = Some Base)"

text \<open>Thread \<open>a\<close>, in state \<open>t\<close>, clears \<open>mask_in_use\<close> if its \<open>own_mask\<close> is set.\<close>

definition clears_mask :: "nat \<Rightarrow> ctx_thread \<Rightarrow> ctx_sys \<Rightarrow> ctx_sys" where
  "clears_mask a t s = s\<lparr>sys_stolen := sys_stolen s \<or> own_mask (th_st t) \<and> base_held a (sys_threads s)\<rparr>"

abbreviation always :: sched_insert where
  "always \<equiv> (\<lambda>_. None)"

inductive ctx_step :: "int \<Rightarrow> ctx_sys \<Rightarrow> ctx_sys \<Rightarrow> bool" for eager_size where
  enter: "sys_threads s a = None \<Longrightarrow> local_wf stack \<Longrightarrow>
    ctx_step eager_size s
      (put s (sys_g s) a (Some \<lparr>th_ignore = ign, th_nonblocking = False, th_phase = Top,
         th_st = sparse_start a comm tag stack\<rparr>))"
| copy: "sys_threads s a = Some t \<Longrightarrow> \<not> th_nonblocking t \<Longrightarrow> th_phase t = Top \<Longrightarrow>
    sparse_copy eager_size (th_ignore t) (sys_g s) (th_st t) = Some (g, st) \<Longrightarrow>
    ctx_step eager_size s (put s g a (Some (t\<lparr>th_phase := Reducing, th_st := st\<rparr>)))"
| reduce: "sys_threads s a = Some t \<Longrightarrow> th_phase t = Reducing \<Longrightarrow> local_wf others \<Longrightarrow>
    ctx_step eager_size s (put s (sys_g s) a
      (Some (t\<lparr>th_phase := Reduced, th_st := (th_st t)\<lparr>local_mask := band (local_mask (th_st t)) others\<rparr>\<rparr>)))"
| reduce_fails: "sys_threads s a = Some t \<Longrightarrow> \<not> th_nonblocking t \<Longrightarrow> th_phase t = Reducing \<Longrightarrow>
    sparse_fail (th_ignore t) (sys_g s) (th_st t) = Some g \<Longrightarrow>
    ctx_step eager_size s (put s g a None)"
| allocate: "sys_threads s a = Some t \<Longrightarrow> \<not> th_nonblocking t \<Longrightarrow> th_phase t = Reduced \<Longrightarrow>
    sparse_allocate (th_ignore t) (sys_g s) (th_st t) = Some (g, st, cid) \<Longrightarrow>
    ctx_step eager_size s (now_live (th_ignore t) cid (put s g a
      (if cid = 0 then Some (t\<lparr>th_phase := (if exhausted st cid then Exhausted else Tried), th_st := st\<rparr>) else None)))"
| retry: "sys_threads s a = Some t \<Longrightarrow> \<not> th_nonblocking t \<Longrightarrow> th_phase t = Tried \<Longrightarrow>
    end_first_iter (th_ignore t) 0 (sys_g s) (th_st t) = (g, st) \<Longrightarrow>
    ctx_step eager_size s (put s g a (Some (t\<lparr>th_phase := Top, th_st := st\<rparr>)))"
| exhausted_clears: "sys_threads s a = Some t \<Longrightarrow> \<not> th_nonblocking t \<Longrightarrow> th_phase t = Exhausted \<Longrightarrow>
    ctx_step eager_size s (put (clears_mask a t s) (exhausted_release (sys_g s) (th_st t)) a (Some (t\<lparr>th_phase := Failing\<rparr>)))"
| exhausted_fails: "sys_threads s a = Some t \<Longrightarrow> \<not> th_nonblocking t \<Longrightarrow> th_phase t = Failing \<Longrightarrow>
    sparse_fail (th_ignore t) (sys_g s) (th_st t) = Some g \<Longrightarrow>
    ctx_step eager_size s (put (clears_mask a t s) g a None)"
| nb_enter: "sys_threads s a = None \<Longrightarrow> local_wf heap \<Longrightarrow>
    sched_get_cid_nonblock sched eager_size a heap comm old kind (sys_g s) = Some (g, x, es, r) \<Longrightarrow>
    ctx_step eager_size s (put s g a
      (map_option (\<lambda>st. \<lparr>th_ignore = False, th_nonblocking = True, th_phase = Top, th_st = st\<rparr>) x))"
| nb_copy: "sys_threads s a = Some t \<Longrightarrow> th_nonblocking t \<Longrightarrow> th_phase t = Top \<Longrightarrow>
    sched_cb_gcn_copy_mask sched (sys_g s) (th_st t) = (g, st, es, r) \<Longrightarrow>
    ctx_step eager_size s (put s g a (Some (t\<lparr>th_phase := (if r = None then Reducing else Lost), th_st := st\<rparr>)))"
| nb_allocate: "sys_threads s a = Some t \<Longrightarrow> th_nonblocking t \<Longrightarrow> th_phase t = Reduced \<Longrightarrow>
    gcn_try (sys_g s) (th_st t) = Some (g1, st1) \<Longrightarrow>
    sched_cb_gcn_allocate_cid sched tag tag_ub (sys_g s) (th_st t) = Some (g, x, es, r) \<Longrightarrow>
    ctx_step eager_size s (now_live False (ctx0 st1) (put s g a
      (case x of None \<Rightarrow> None | Some st \<Rightarrow> if ctx0 st = 0 then Some (t\<lparr>th_phase := Top, th_st := st\<rparr>) else None)))"
| free: "MPIR_Free_contextid (context_mask (sys_g s)) cid = Some cm \<Longrightarrow> owns_bit cid \<Longrightarrow>
    prefix_of cid \<in> sys_live s \<Longrightarrow> prefix_of cid \<noteq> 0 \<Longrightarrow>
    ctx_step eager_size s (s\<lparr>sys_g := (sys_g s)\<lparr>context_mask := cm\<rparr>, sys_live := sys_live s - {prefix_of cid}\<rparr>)"

inductive ctx_reach :: "int \<Rightarrow> bool \<Rightarrow> ctx_sys \<Rightarrow> bool" for eager_size icomm where
  start: "ctx_reach eager_size icomm (sys_start icomm)"
| more: "ctx_reach eager_size icomm s \<Longrightarrow> ctx_step eager_size s s' \<Longrightarrow> ctx_reach eager_size icomm s'"

section \<open>The invariant\<close>

definition thread_ok :: "ctx_globals \<Rightarrow> nat \<Rightarrow> ctx_thread \<Rightarrow> bool" where
  "thread_ok g a t \<longleftrightarrow> gl_addr (gcn_self (th_st t)) = a \<and> state_ok (th_ignore t) (th_st t)
     \<and> (active t \<longrightarrow> local_claim g (th_ignore t) (th_st t) \<and> 0 \<le> eager_nelem g)
     \<and> (\<forall>k. th_holds t = Some k \<longrightarrow> seg_in_use g k)
     \<and> (\<not> active t \<longrightarrow> \<not> own_eager_mask (th_st t))
     \<and> (th_nonblocking t \<longrightarrow> \<not> th_ignore t \<and> ctx0 (th_st t) = 0 \<and> 0 \<le> eager_nelem g)"

definition threads_ok :: "ctx_globals \<Rightarrow> (nat \<Rightarrow> ctx_thread option) \<Rightarrow> bool" where
  "threads_ok g T \<longleftrightarrow> (\<forall>a t. T a = Some t \<longrightarrow> thread_ok g a t)
     \<and> (\<forall>a b t u k. T a = Some t \<longrightarrow> T b = Some u \<longrightarrow> th_holds t = Some k \<longrightarrow> th_holds u = Some k \<longrightarrow> a = b)"

definition pending :: "ctx_thread \<Rightarrow> bool" where
  "pending t \<longleftrightarrow> \<not> th_ignore t \<and> \<not> first_iter (th_st t)"

definition enlisted :: "(nat \<Rightarrow> ctx_thread option) \<Rightarrow> nat set" where
  "enlisted T = {a. \<exists>t. T a = Some t \<and> pending t}"

definition list_ok :: "gcn_link list \<Rightarrow> (nat \<Rightarrow> ctx_thread option) \<Rightarrow> bool" where
  "list_ok l T \<longleftrightarrow> gcn_sorted l \<and> distinct (map gl_addr l) \<and> gl_addr ` set l = enlisted T"

definition mask_ok :: "ctx_globals \<Rightarrow> nat set \<Rightarrow> bool" where
  "mask_ok g live \<longleftrightarrow> globals_ok g \<and> live \<subseteq> {..<2048} \<and> (\<forall>p<2048. free_in (context_mask g) p \<longleftrightarrow> p \<notin> live)"

definition sys_inv :: "ctx_sys \<Rightarrow> bool" where
  "sys_inv s \<longleftrightarrow> mask_ok (sys_g s) (sys_live s) \<and> threads_ok (sys_g s) (sys_threads s)
     \<and> list_ok (next_gcn (sys_g s)) (sys_threads s)"

lemma put_simps [simp]:
  "sys_g (put s g a t) = g" "sys_threads (put s g a t) = (sys_threads s)(a := t)" "sys_live (put s g a t) = sys_live s"
  by (simp_all add: put_def)

lemma now_live_simps [simp]:
  "sys_g (now_live i c s) = sys_g s" "sys_threads (now_live i c s) = sys_threads s"
  "sys_live (now_live i c s) = (if i \<or> c = 0 then sys_live s else insert (prefix_of c) (sys_live s))"
  by (simp_all add: now_live_def)

lemma enlisted_upd:
  "enlisted (T(a := x)) = (if \<exists>t. x = Some t \<and> pending t then insert a (enlisted T) else enlisted T - {a})"
  by (auto simp: enlisted_def)

lemma thread_ok_frame:
  assumes ok: "thread_ok g b u" and n: "0 \<le> eager_nelem g \<Longrightarrow> eager_nelem g' = eager_nelem g"
    and use: "\<And>k. th_holds u = Some k \<Longrightarrow> seg_in_use g k \<Longrightarrow> seg_in_use g' k"
    and free: "\<And>k p. th_holds u = Some k \<Longrightarrow> in_segment g k p \<Longrightarrow> free_in (context_mask g) p \<Longrightarrow> free_in (context_mask g') p"
  shows "thread_ok g' b u"
proof -
  have "local_claim g' (th_ignore u) (th_st u)" if act: "active u"
  proof -
    have "local_claim g (th_ignore u) (th_st u)" "0 \<le> eager_nelem g" using ok act by (auto simp: thread_ok_def)
    then show ?thesis using free act n in_segment_cong [of g' g]
      by (auto simp: local_claim_def th_holds_def split: option.splits)
  qed
  then show ?thesis using ok n use by (auto simp: thread_ok_def)
qed

lemma threads_ok_put:
  assumes T: "threads_ok g T"
    and others: "\<And>b u. b \<noteq> a \<Longrightarrow> T b = Some u \<Longrightarrow> thread_ok g b u \<Longrightarrow> thread_ok g' b u"
    and new: "\<And>t. x = Some t \<Longrightarrow> thread_ok g' a t"
    and alone: "\<And>t k b u. x = Some t \<Longrightarrow> th_holds t = Some k \<Longrightarrow> b \<noteq> a \<Longrightarrow> T b = Some u \<Longrightarrow> th_holds u \<noteq> Some k"
  shows "threads_ok g' (T(a := x))"
proof -
  have "thread_ok g' b u" if "(T(a := x)) b = Some u" for b u
    using that others new T by (auto simp: threads_ok_def split: if_splits)
  moreover have "b = c" if "(T(a := x)) b = Some t" "(T(a := x)) c = Some u" "th_holds t = Some k" "th_holds u = Some k"
    for b c t u k
  proof (cases "b = a \<or> c = a")
    case True
    then show ?thesis using that alone [of _ k] by (auto split: if_splits)
  next
    case False
    then show ?thesis using that T by (auto simp: threads_ok_def)
  qed
  ultimately show ?thesis unfolding threads_ok_def by blast
qed

section \<open>Effect of a step on the threads\<close>

lemma threads_okD:
  assumes "threads_ok g T" "T a = Some t"
  shows "thread_ok g a t"
  using assms by (simp add: threads_ok_def)

lemma threads_ok_alone:
  assumes "threads_ok g T" "T a = Some t" "th_holds t = Some k" "b \<noteq> a" "T b = Some u"
  shows "th_holds u \<noteq> Some k"
  using assms by (auto simp: threads_ok_def)

definition extends :: "ctx_globals \<Rightarrow> ctx_globals \<Rightarrow> bool" where
  "extends g g' \<longleftrightarrow> (0 \<le> eager_nelem g \<longrightarrow> eager_nelem g' = eager_nelem g)
     \<and> (\<forall>k. seg_in_use g k \<longrightarrow> seg_in_use g' k) \<and> (\<forall>p. free_in (context_mask g) p \<longrightarrow> free_in (context_mask g') p)"

lemma thread_ok_extends: "thread_ok g b u \<Longrightarrow> extends g g' \<Longrightarrow> thread_ok g' b u"
  using thread_ok_frame [of g b u g'] unfolding extends_def by blast

lemma eager_setup_extends: "eager_setup n g = Some g' \<Longrightarrow> globals_ok g \<Longrightarrow> extends g g'"
  using eager_setup_cases(3,4,5) [of n g g'] by (auto simp: extends_def)

lemma reserved_extends: "reserved g st g' st' \<Longrightarrow> extends g g'"
  by (auto simp: reserved_def extends_def split: option.splits)

lemma extends_trans: "extends g g' \<Longrightarrow> extends g' g'' \<Longrightarrow> extends g g''"
  by (auto simp: extends_def)

lemma step_reserve:
  assumes T: "threads_ok g T" and t: "T a = Some t" "\<not> th_ignore t"
    and g0: "extends g g0" "\<forall>k. seg_in_use g0 k = seg_in_use g k" "0 \<le> eager_nelem g0"
    and res: "reserved g0 (th_st t) g' st'" "state_ok False st'"
    and ph: "ph = Reducing \<or> ph = Lost"
  shows "threads_ok g' (T(a := Some (t\<lparr>th_phase := ph, th_st := st'\<rparr>)))"
proof -
  have ext: "extends g g'" using g0(1) reserved_extends [OF res(1)] by (rule extends_trans)
  have keep: "gcn_self st' = gcn_self (th_st t)" "ctx0 st' = ctx0 (th_st t)" "eager_nelem g' = eager_nelem g0"
    using res(1) by (simp_all add: reserved_def)
  have held: "\<not> seg_in_use g0 k \<and> seg_in_use g' k" if "holds False st' = Some k" for k
    using res(1) that by (simp add: reserved_def)
  have ok: "thread_ok g a t" using T t(1) by (rule threads_okD)
  have "thread_ok g' a (t\<lparr>th_phase := ph, th_st := st'\<rparr>)"
    using ok res(2) reserved_claim [OF res(1)] keep held g0(3) t(2) ph
    by (elim disjE) (simp_all add: thread_ok_def active_def th_holds_def)
  note new = this
  show ?thesis
  proof (rule threads_ok_put [OF T])
    fix t' k b u assume h: "Some (t\<lparr>th_phase := ph, th_st := st'\<rparr>) = Some t'" "th_holds t' = Some k" "b \<noteq> a" "T b = Some u"
    then have "holds False st' = Some k" using t(2) ph by (auto simp: th_holds_def active_def)
    then have "\<not> seg_in_use g k" using held g0(2) by blast
    then show "th_holds u \<noteq> Some k" using threads_okD [OF T h(4)] by (auto simp: thread_ok_def)
  qed (use new thread_ok_extends [OF _ ext] in auto)
qed

lemma step_quiet:
  assumes T: "threads_ok g T" and ext: "extends g g'" and new: "thread_ok g' a t'"
    and holds: "th_holds t' = None \<or> (\<exists>t. T a = Some t \<and> th_holds t' = th_holds t)"
  shows "threads_ok g' (T(a := Some t'))"
proof (rule threads_ok_put [OF T])
  fix t k b u assume h: "Some t' = Some t" "th_holds t = Some k" "b \<noteq> a" "T b = Some u"
  with holds obtain t0 where "T a = Some t0" "th_holds t0 = Some k" by auto
  then show "th_holds u \<noteq> Some k" using threads_ok_alone [OF T _ _ h(3,4)] by blast
qed (use new thread_ok_extends [OF _ ext] in auto)

lemma step_leave:
  assumes T: "threads_ok g T" and ext: "extends g g'"
  shows "threads_ok g' (T(a := None))"
  using thread_ok_extends [OF _ ext] by (intro threads_ok_put [OF T]) auto

lemma step_release:
  assumes T: "threads_ok g T" and t: "T a = Some t" "th_holds t = Some k"
    and rel: "released k g g'"
    and free: "\<And>p. free_in (context_mask g) p \<Longrightarrow> \<not> in_segment g k p \<Longrightarrow> free_in (context_mask g') p"
    and x: "\<And>t'. x = Some t' \<Longrightarrow> thread_ok g' a t' \<and> th_holds t' = None"
  shows "threads_ok g' (T(a := x))"
proof (rule threads_ok_put [OF T])
  fix b u assume b: "b \<noteq> a" "T b = Some u" "thread_ok g b u"
  have no: "th_holds u \<noteq> Some k" using threads_ok_alone [OF T t b(1,2)] .
  have disj: "\<not> in_segment g k p" if "in_segment g j p" "j \<noteq> k" for j p
    using that by (cases j; cases k) auto
  show "thread_ok g' b u"
    using b(3) rel free disj no by (intro thread_ok_frame [OF b(3)]) (auto simp: released_def)
qed (use x in auto)

lemma th_upd [simp]:
  "active (t\<lparr>th_phase := Top, th_st := st\<rparr>) = False" "active (t\<lparr>th_phase := Tried, th_st := st\<rparr>) = False"
  "active (t\<lparr>th_phase := Reducing, th_st := st\<rparr>)" "active (t\<lparr>th_phase := Reduced, th_st := st\<rparr>)"
  "active (t\<lparr>th_phase := Tried\<rparr>) = False" "active (t\<lparr>th_phase := Top\<rparr>) = False"
  by (simp_all add: active_def)

lemma th_holds_idle [simp]: "\<not> active t \<Longrightarrow> th_holds t = None"
  by (simp add: th_holds_def)

section \<open>Every step keeps the invariant\<close>

lemma enlisted_same:
  assumes "T a = Some t" "pending t' = pending t"
  shows "enlisted (T(a := Some t')) = enlisted T"
  using assms by (auto simp: enlisted_def)

lemma pending_listed:
  assumes "sys_inv s" "sys_threads s a = Some t" "pending t"
  shows "listed (th_st t) (sys_g s)"
proof -
  have "gl_addr (gcn_self (th_st t)) = a"
    using assms by (simp add: sys_inv_def threads_ok_def thread_ok_def)
  moreover have "a \<in> enlisted (sys_threads s)" using assms by (auto simp: enlisted_def)
  ultimately show ?thesis using assms(1) by (simp add: sys_inv_def list_ok_def listed_def)
qed

lemma sys_invD:
  assumes "sys_inv s"
  shows "mask_ok (sys_g s) (sys_live s)" "threads_ok (sys_g s) (sys_threads s)"
    "list_ok (next_gcn (sys_g s)) (sys_threads s)" "globals_ok (sys_g s)"
  using assms by (simp_all add: sys_inv_def mask_ok_def)

lemma mask_ok_cong:
  assumes "mask_ok g live" "context_mask g' = context_mask g" "eager_nelem g' < 63"
  shows "mask_ok g' live"
  using assms by (simp add: mask_ok_def globals_ok_def)

lemma inv_enter:
  assumes inv: "sys_inv s" and a: "sys_threads s a = None" and x: "pending x = False"
    and g: "extends (sys_g s) g'" "context_mask g' = context_mask (sys_g s)" "eager_nelem g' < 63"
      "next_gcn g' = next_gcn (sys_g s)"
    and ok: "thread_ok g' a x" "th_holds x = None"
  shows "sys_inv (put s g' a (Some x))"
proof -
  have "enlisted ((sys_threads s)(a := Some x)) = enlisted (sys_threads s)"
    using a x by (auto simp: enlisted_def)
  then show ?thesis
    using sys_invD [OF inv] g ok step_quiet [OF sys_invD(2) [OF inv] g(1) ok(1)] mask_ok_cong
    by (simp add: sys_inv_def list_ok_def)
qed

lemma inv_keep:
  assumes inv: "sys_inv s" and t: "sys_threads s a = Some t" "pending t' = pending t"
    and g: "context_mask g' = context_mask (sys_g s)" "eager_nelem g' < 63" "next_gcn g' = next_gcn (sys_g s)"
    and T: "threads_ok g' ((sys_threads s)(a := Some t'))"
  shows "sys_inv (put s g' a (Some t'))"
  using sys_invD [OF inv] g T enlisted_same [of "sys_threads s" a t t', OF t] mask_ok_cong
  by (simp add: sys_inv_def list_ok_def)

lemma eager_setup_frame:
  "eager_setup n g = Some g' \<Longrightarrow> context_mask g' = context_mask g \<and> next_gcn g' = next_gcn g"
  by (auto simp: eager_setup_def split: if_splits)

lemma inv_copy:
  assumes inv: "sys_inv s" and t: "sys_threads s a = Some t" "\<not> active t"
    and c: "sparse_copy n (th_ignore t) (sys_g s) (th_st t) = Some (g, st)"
  shows "sys_inv (put s g a (Some (t\<lparr>th_phase := Reducing, th_st := st\<rparr>)))"
proof (cases "th_ignore t")
  case False
  have ok: "thread_ok (sys_g s) a t" using sys_invD(2) [OF inv] t(1) by (rule threads_okD)
  have so: "state_ok False (th_st t)" using ok False by (simp add: thread_ok_def)
  have c': "sparse_copy n False (sys_g s) (th_st t) = Some (g, st)" using c False by simp
  obtain g0 where g0: "eager_setup n (sys_g s) = Some g0" and res: "reserved g0 (th_st t) g st" "state_ok False st"
    using sparse_copy_reserved [OF c' sys_invD(4) [OF inv] so] .
  note e = eager_setup_cases [OF g0 sys_invD(4) [OF inv]] eager_setup_frame [OF g0]
    eager_setup_extends [OF g0 sys_invD(4) [OF inv]]
  have "threads_ok g ((sys_threads s)(a := Some (t\<lparr>th_phase := Reducing, th_st := st\<rparr>)))"
    using e by (intro step_reserve [OF sys_invD(2) [OF inv] t(1) False _ _ _ res]) auto
  moreover have "context_mask g = context_mask g0" "next_gcn g = next_gcn g0" "eager_nelem g = eager_nelem g0"
    "first_iter st = first_iter (th_st t)" using res(1) by (simp_all add: reserved_def)
  ultimately show ?thesis using e(1,6) False
    by (intro inv_keep [OF inv t(1)]) (auto simp: pending_def globals_ok_def)
next
  case True
  then obtain b where g0: "eager_setup n (sys_g s) = Some g" and
    st: "st = set_own_flag b ((th_st t)\<lparr>local_mask := memset_mask (-1) (local_mask (th_st t)), own_mask := False\<rparr>)"
    using c by (auto simp: sparse_copy_def bind_eq_Some_conv)
  let ?t = "t\<lparr>th_phase := Reducing, th_st := st\<rparr>"
  note e = eager_setup_cases [OF g0 sys_invD(4) [OF inv]] eager_setup_frame [OF g0]
    eager_setup_extends [OF g0 sys_invD(4) [OF inv]]
  have ok: "thread_ok (sys_g s) a t" using sys_invD(2) [OF inv] t(1) by (rule threads_okD)
  have none: "th_holds ?t = None" using True by (simp add: th_holds_def holds_def)
  have "thread_ok g a ?t" using ok True e(2) none unfolding st
    by (auto simp: thread_ok_def local_claim_def state_ok_def)
  then have "threads_ok g ((sys_threads s)(a := Some ?t))"
    using none step_quiet [OF sys_invD(2) [OF inv] e(7)] by blast
  then show ?thesis using e(1,6) True
    by (intro inv_keep [OF inv t(1)]) (auto simp: pending_def globals_ok_def)
qed

lemma inv_reduce:
  assumes inv: "sys_inv s" and t: "sys_threads s a = Some t" "active t" and w: "local_wf others"
  shows "sys_inv (put s (sys_g s) a
    (Some (t\<lparr>th_phase := Reduced, th_st := (th_st t)\<lparr>local_mask := band (local_mask (th_st t)) others\<rparr>\<rparr>)))"
    (is "sys_inv (put s _ a (Some ?t))")
proof -
  have ok: "thread_ok (sys_g s) a t" using sys_invD(2) [OF inv] t(1) by (rule threads_okD)
  have same: "th_holds ?t = th_holds t" using t(2) by (simp add: th_holds_def holds_def)
  have "local_wf (local_mask (th_st t))" using ok by (simp add: thread_ok_def state_ok_def)
  then have "thread_ok (sys_g s) a ?t"
    using ok t(2) w same by (auto simp: thread_ok_def local_claim_def state_ok_def holds_def)
  then have "threads_ok (sys_g s) ((sys_threads s)(a := Some ?t))"
    using step_quiet [OF sys_invD(2) [OF inv], of "sys_g s" a ?t] same t(1) by (simp add: extends_def)
  then show ?thesis using sys_invD(4) [OF inv]
    by (intro inv_keep [OF inv t(1)]) (auto simp: pending_def globals_ok_def)
qed

lemma list_ok_remove:
  assumes "list_ok l T" "gl_addr (gcn_self st) = a" "\<not> (\<exists>t. x = Some t \<and> pending t)"
  shows "list_ok (gcn_remove st l) (T(a := x))"
proof -
  have "gl_addr ` set (gcn_remove st l) = enlisted T - {a}"
    using assms by (auto simp: gcn_remove_def list_ok_def)
  moreover have "distinct (map gl_addr (gcn_remove st l))"
    using assms(1) by (simp add: list_ok_def gcn_remove_def distinct_map_filter)
  ultimately show ?thesis
    using assms(1,3) by (auto simp: list_ok_def gcn_remove_def sorted_wrt_filter enlisted_upd)
qed

lemma list_ok_same:
  assumes "list_ok l T" "T a = Some t" "\<not> pending t" "\<not> (\<exists>t. x = Some t \<and> pending t)"
  shows "list_ok l (T(a := x))"
proof -
  have "enlisted (T(a := x)) = enlisted T" using assms by (auto simp: enlisted_def)
  then show ?thesis using assms(1) by (simp add: list_ok_def)
qed

lemma inv_fail:
  assumes inv: "sys_inv s" and t: "sys_threads s a = Some t"
    and f: "sparse_fail (th_ignore t) (sys_g s) (th_st t) = Some g"
    and T: "threads_ok g ((sys_threads s)(a := None))"
  shows "sys_inv (put s g a None)"
proof -
  let ?g = "if own_mask (th_st t) then (sys_g s)\<lparr>mask_in_use := False\<rparr> else sys_g s"
  have ok: "thread_ok (sys_g s) a t" using sys_invD(2) [OF inv] t(1) by (rule threads_okD)
  have g: "g = (if pending t then ?g\<lparr>next_gcn := gcn_remove (th_st t) (next_gcn (sys_g s))\<rparr> else ?g)"
    using f pending_listed [OF inv t(1)] remove_listed [of "th_st t" ?g]
    by (auto simp: sparse_fail_def pending_def Let_def split: if_splits)
  have "list_ok (next_gcn g) ((sys_threads s)(a := None))"
  proof (cases "pending t")
    case True
    then show ?thesis using g ok list_ok_remove [OF sys_invD(3) [OF inv], of "th_st t" a None]
      by (simp add: thread_ok_def)
  next
    case False
    then show ?thesis using g t(1) list_ok_same [OF sys_invD(3) [OF inv], of a t None] by (simp split: if_splits)
  qed
  moreover have "mask_ok g (sys_live s)"
    using sys_invD(1) [OF inv] g by (simp add: mask_ok_def globals_ok_def)
  ultimately show ?thesis using T by (simp add: sys_inv_def)
qed

lemma sparse_fail_frame:
  assumes "sparse_fail ign g st = Some g'"
  shows "context_mask g' = context_mask g" "eager_nelem g' = eager_nelem g" "eager_in_use g' = eager_in_use g"
    "mask_in_use g' = (mask_in_use g \<and> \<not> own_mask st)"
  using assms by (auto simp: sparse_fail_def remove_gcn_def Let_def split: if_splits)

lemma inv_reduce_fails:
  assumes inv: "sys_inv s" and t: "sys_threads s a = Some t" "active t"
    and f: "sparse_fail (th_ignore t) (sys_g s) (th_st t) = Some g"
  shows "sys_inv (put s g a None)"
proof (rule inv_fail [OF inv t(1) f])
  have ok: "thread_ok (sys_g s) a t" using sys_invD(2) [OF inv] t(1) by (rule threads_okD)
  note frame = sparse_fail_frame [OF f]
  show "threads_ok g ((sys_threads s)(a := None))"
  proof (cases "own_mask (th_st t)")
    case True
    then have h: "th_holds t = Some Base" "released Base (sys_g s) g"
      using ok t(2) frame by (auto simp: thread_ok_def state_ok_def th_holds_def holds_def released_def all_segments)
    show ?thesis using frame(1) by (intro step_release [OF sys_invD(2) [OF inv] t(1) h]) simp_all
  next
    case False
    then have "extends (sys_g s) g" using frame by (simp add: extends_def all_segments)
    then show ?thesis by (rule step_leave [OF sys_invD(2) [OF inv]])
  qed
qed

text \<open>A thread that holds nothing clears \<open>mask_in_use\<close> while nobody else holds the base segment.\<close>

lemma cleared_threads:
  assumes T: "threads_ok g T" and free: "\<not> base_held a T"
    and g': "context_mask g' = context_mask g" "eager_nelem g' = eager_nelem g" "eager_in_use g' = eager_in_use g"
    and x: "\<And>t'. x = Some t' \<Longrightarrow> thread_ok g' a t' \<and> th_holds t' = None"
  shows "threads_ok g' (T(a := x))"
proof (rule threads_ok_put [OF T])
  fix b u assume b: "b \<noteq> a" "T b = Some u" "thread_ok g b u"
  have "k = Eager" if "th_holds u = Some k" for k using free b that by (cases k) (auto simp: base_held_def)
  then show "thread_ok g' b u" using g' by (intro thread_ok_frame [OF b(3)]) auto
qed (use x in auto)

lemma inv_exhausted_fails:
  assumes inv: "sys_inv s" and t: "sys_threads s a = Some t" "\<not> active t"
    and f: "sparse_fail (th_ignore t) (sys_g s) (th_st t) = Some g"
    and free: "\<not> (own_mask (th_st t) \<and> base_held a (sys_threads s))"
  shows "sys_inv (put s g a None)"
proof (rule inv_fail [OF inv t(1) f])
  note frame = sparse_fail_frame [OF f]
  show "threads_ok g ((sys_threads s)(a := None))"
  proof (cases "own_mask (th_st t)")
    case True
    then show ?thesis using free frame by (intro cleared_threads [OF sys_invD(2) [OF inv]]) auto
  next
    case False
    then have "extends (sys_g s) g" using frame by (simp add: extends_def all_segments)
    then show ?thesis by (rule step_leave [OF sys_invD(2) [OF inv]])
  qed
qed

lemma inv_exhausted_clears:
  assumes inv: "sys_inv s" and t: "sys_threads s a = Some t" "\<not> active t" "\<not> th_nonblocking t"
    and free: "\<not> (own_mask (th_st t) \<and> base_held a (sys_threads s))"
  shows "sys_inv (put s (exhausted_release (sys_g s) (th_st t)) a (Some (t\<lparr>th_phase := Failing\<rparr>)))"
proof -
  let ?g = "exhausted_release (sys_g s) (th_st t)" and ?t = "t\<lparr>th_phase := Failing\<rparr>"
  have ok: "thread_ok (sys_g s) a t" using sys_invD(2) [OF inv] t(1) by (rule threads_okD)
  have same: "context_mask ?g = context_mask (sys_g s)" "eager_nelem ?g = eager_nelem (sys_g s)"
    "eager_in_use ?g = eager_in_use (sys_g s)" "next_gcn ?g = next_gcn (sys_g s)" "\<not> own_mask (th_st t) \<Longrightarrow> ?g = sys_g s"
    by (simp_all add: exhausted_release_def)
  have new: "thread_ok ?g a ?t" "th_holds ?t = None" "pending ?t = pending t"
    using ok t(2,3) same(2) by (simp_all add: thread_ok_def active_def pending_def th_holds_def)
  have "threads_ok ?g ((sys_threads s)(a := Some ?t))"
  proof (cases "own_mask (th_st t)")
    case True
    then show ?thesis using free new same by (intro cleared_threads [OF sys_invD(2) [OF inv]]) auto
  next
    case False
    then show ?thesis using step_quiet [OF sys_invD(2) [OF inv] _ new(1)] new(2) same(5) by (simp add: extends_def)
  qed
  then show ?thesis using same new(3) sys_invD(4) [OF inv] by (intro inv_keep [OF inv t(1)]) (auto simp: globals_ok_def)
qed

text \<open>The second critical section, with the thread left behind as \<open>x\<close>.\<close>

lemma inv_allocate:
  assumes inv: "sys_inv s" and t: "sys_threads s a = Some t" "active t" "\<not> th_ignore t"
    and al: "sparse_allocate False (sys_g s) (th_st t) = Some (g, st, cid)"
    and fail: "cid = 0 \<Longrightarrow> \<exists>x'. x = Some x' \<and> pending x' = pending t \<and> \<not> active x' \<and>
      (\<forall>h. 0 \<le> eager_nelem h \<longrightarrow> state_ok False st \<longrightarrow> \<not> own_eager_mask st \<longrightarrow>
         gl_addr (gcn_self st) = a \<longrightarrow> thread_ok h a x')"
    and succ: "cid \<noteq> 0 \<Longrightarrow> x = None"
  shows "sys_inv (now_live False cid (put s g a x))"
proof -
  have ok: "thread_ok (sys_g s) a t" using sys_invD(2) [OF inv] t(1) by (rule threads_okD)
  have so: "state_ok False (th_st t)" "local_claim (sys_g s) False (th_st t)" "0 \<le> eager_nelem (sys_g s)"
    "gl_addr (gcn_self (th_st t)) = a"
    using ok t(2,3) by (auto simp: thread_ok_def)
  have li: "own_mask (th_st t) \<longrightarrow> listed (th_st t) (sys_g s)"
    using pending_listed [OF inv t(1)] so(1) t(3) by (auto simp: state_ok_def pending_def)
  have hold: "th_holds t = holds False (th_st t)" using t(2,3) by (simp add: th_holds_def)
  have so': "state_ok False ((th_st t)\<lparr>own_eager_mask := False\<rparr>)" using so(1) by (simp add: state_ok_def)
  note T = sys_invD(2) [OF inv] and M = sys_invD(1) [OF inv] and L = sys_invD(3) [OF inv]
  show ?thesis
    using sys_invD(4) [OF inv] so(1,2) li
  proof (cases rule: allocate_cases)
    case idle
    then have eq: "g = sys_g s" "st = th_st t" "cid = 0" using al by auto
    have ne: "\<not> own_eager_mask st" using idle(1) eq(2) by (auto simp: holds_def split: if_splits)
    obtain x' where x': "x = Some x'" "pending x' = pending t" "\<not> active x'" "thread_ok g a x'"
      using fail [OF eq(3)] so ne eq by auto
    have "threads_ok g ((sys_threads s)(a := Some x'))"
      using step_quiet [OF T, of g a x'] x' eq(1) by (simp add: extends_def)
    then show ?thesis using inv_keep [OF inv t(1) x'(2)] eq x'(1) sys_invD(4) [OF inv]
      by (simp add: now_live_def globals_ok_def)
  next
    case (missed k g')
    then have eq: "g = g'" "st = (th_st t)\<lparr>own_eager_mask := False\<rparr>" "cid = 0" using al by auto
    have n: "eager_nelem g = eager_nelem (sys_g s)" using missed(4) eq(1) by (simp add: released_def)
    obtain x' where x': "x = Some x'" "pending x' = pending t" "\<not> active x'" "thread_ok g a x'"
      using fail [OF eq(3)] so so' n eq by auto
    have "threads_ok g ((sys_threads s)(a := x))"
      using x' missed(1,4,5) eq(1) hold by (intro step_release [OF T t(1)]) auto
    then show ?thesis using inv_keep [OF inv t(1) x'(2)] missed(5,6) eq x'(1) n sys_invD(4) [OF inv]
      by (simp add: now_live_def globals_ok_def)
  next
    case (took k g' p)
    then have eq: "g = g'" "cid = id_of_prefix p" using al by auto
    have p: "p < 2048" "free_in (local_mask (th_st t)) p" using took(2) by (auto simp: chosen_def chosen_less)
    have seg: "in_segment (sys_g s) k p" using so(2) p(2) took(1) by (simp add: local_claim_def)
    have x: "x = None" using succ took(5) eq(2) by simp
    have "threads_ok g ((sys_threads s)(a := x))"
      using x took(1,6,8) eq(1) hold seg by (intro step_release [OF T t(1)]) auto
    moreover have "mask_ok g (insert p (sys_live s))"
      using M took(6,7,8) eq(1) p(1) by (auto simp: mask_ok_def globals_ok_def released_def)
    moreover have "list_ok (next_gcn g) ((sys_threads s)(a := x))"
    proof (cases k)
      case Base
      then show ?thesis using list_ok_remove [OF L so(4), of None] took(9) eq(1) x by simp
    next
      case Eager
      then have "first_iter (th_st t)" using took(1) so(1) by (auto simp: holds_def state_ok_def split: if_splits)
      then show ?thesis using list_ok_same [OF L t(1), of None] took(9) eq(1) x Eager by (simp add: pending_def)
    qed
    ultimately show ?thesis using eq(2) took(5) p(1) by (simp add: sys_inv_def)
  qed
qed

lemma inv_blocking_allocate:
  assumes inv: "sys_inv s" and t: "sys_threads s a = Some t" "\<not> th_nonblocking t" "th_phase t = Reduced"
    and al: "sparse_allocate (th_ignore t) (sys_g s) (th_st t) = Some (g, st, cid)"
    and ph: "ph = Tried \<or> ph = Exhausted"
  shows "sys_inv (now_live (th_ignore t) cid (put s g a
    (if cid = 0 then Some (t\<lparr>th_phase := ph, th_st := st\<rparr>) else None)))"
proof (cases "th_ignore t")
  case False
  have ok: "thread_ok (sys_g s) a t" using sys_invD(2) [OF inv] t(1) by (rule threads_okD)
  have al': "sparse_allocate False (sys_g s) (th_st t) = Some (g, st, cid)" using al False by simp
  have keep: "first_iter st = first_iter (th_st t)"
    using al' by (auto simp: sparse_allocate_def Let_def bind_eq_Some_conv split: if_splits)
  show ?thesis unfolding if_not_P [OF False]
    using inv_allocate [OF inv t(1) _ False al', where x = "if cid = 0 then Some (t\<lparr>th_phase := ph, th_st := st\<rparr>) else None"]
      t(2,3) False keep ph by (auto simp: active_def pending_def thread_ok_def)
next
  case True
  then have eq: "g = sys_g s" "st = th_st t" using al by (simp_all add: sparse_allocate_def)
  have ok: "thread_ok g a t" using threads_okD [OF sys_invD(2) [OF inv] t(1)] eq(1) by simp
  have np: "\<not> pending t" using True by (simp add: pending_def)
  have ok': "thread_ok g a (t\<lparr>th_phase := ph, th_st := st\<rparr>)"
    using ok True eq(2) ph by (auto simp: thread_ok_def state_ok_def active_def)
  have "threads_ok g ((sys_threads s)(a := Some (t\<lparr>th_phase := ph, th_st := st\<rparr>)))"
    using step_quiet [OF sys_invD(2) [OF inv] _ ok'] eq(1) ph by (auto simp: extends_def active_def)
  moreover have "threads_ok g ((sys_threads s)(a := None))"
    using step_leave [OF sys_invD(2) [OF inv]] eq(1) by (simp add: extends_def)
  moreover have "list_ok (next_gcn g) ((sys_threads s)(a := x))" if "\<not> (\<exists>t. x = Some t \<and> pending t)" for x
    using list_ok_same [OF sys_invD(3) [OF inv] t(1) np that] eq(1) by simp
  ultimately show ?thesis using True sys_invD(1) [OF inv] eq
    by (simp add: sys_inv_def pending_def)
qed

lemma inv_enlist:
  assumes inv: "sys_inv s" and t: "sys_threads s a = Some t" "\<not> active t" "\<not> th_ignore t" "first_iter (th_st t)"
    and self: "gl_addr self = a"
    and t': "pending t'" "\<not> active t'" "\<And>h. eager_nelem h = eager_nelem (sys_g s) \<Longrightarrow> thread_ok h a t'"
  shows "sys_inv (put s ((sys_g s)\<lparr>next_gcn := add_gcn_to_list self (next_gcn (sys_g s))\<rparr>) a (Some t'))"
proof -
  let ?g = "(sys_g s)\<lparr>next_gcn := add_gcn_to_list self (next_gcn (sys_g s))\<rparr>"
  have L: "list_ok (next_gcn (sys_g s)) (sys_threads s)" using sys_invD(3) [OF inv] .
  have new: "a \<notin> gl_addr ` set (next_gcn (sys_g s))"
    using L t(1,4) by (auto simp: list_ok_def enlisted_def pending_def)
  have "list_ok (next_gcn ?g) ((sys_threads s)(a := Some t'))"
    using L new self t'(1) add_gcn_sorted add_gcn_addrs [of "next_gcn (sys_g s)" self]
    by (simp add: list_ok_def add_gcn_set enlisted_upd)
  moreover have "threads_ok ?g ((sys_threads s)(a := Some t'))"
    using t'(2,3) by (intro step_quiet [OF sys_invD(2) [OF inv]]) (simp_all add: extends_def all_segments)
  moreover have "mask_ok ?g (sys_live s)" using sys_invD(1,4) [OF inv] by (simp add: mask_ok_def globals_ok_def)
  ultimately show ?thesis by (simp add: sys_inv_def)
qed

lemma inv_retry:
  assumes inv: "sys_inv s" and t: "sys_threads s a = Some t" "\<not> th_nonblocking t" "th_phase t = Tried"
    and e: "end_first_iter (th_ignore t) 0 (sys_g s) (th_st t) = (g, st)"
  shows "sys_inv (put s g a (Some (t\<lparr>th_phase := Top, th_st := st\<rparr>)))"
proof -
  have ok: "thread_ok (sys_g s) a t" using sys_invD(2) [OF inv] t(1) by (rule threads_okD)
  have na: "\<not> active t" using t(3) by (simp add: active_def)
  show ?thesis
  proof (cases "first_iter (th_st t) \<and> \<not> th_ignore t")
    case True
    then have eq: "g = (sys_g s)\<lparr>next_gcn := add_gcn_to_list (gcn_self (th_st t)) (next_gcn (sys_g s))\<rparr>"
      "st = (th_st t)\<lparr>first_iter := False\<rparr>" using e by (auto simp: end_first_iter_def)
    show ?thesis unfolding eq
      using True ok na t(2) by (intro inv_enlist [OF inv t(1) na]) (auto simp: thread_ok_def pending_def state_ok_def)
  next
    case False
    then have eq: "g = sys_g s" "st = (th_st t)\<lparr>first_iter := first_iter (th_st t) \<and> \<not> th_ignore t\<rparr>"
      using e by (auto simp: end_first_iter_def split: if_splits)
    have ok': "thread_ok g a (t\<lparr>th_phase := Top, th_st := st\<rparr>)"
      using ok na False t(2) by (auto simp: eq thread_ok_def state_ok_def)
    have "threads_ok g ((sys_threads s)(a := Some (t\<lparr>th_phase := Top, th_st := st\<rparr>)))"
      using step_quiet [OF sys_invD(2) [OF inv] _ ok'] eq(1) by (simp add: extends_def)
    then show ?thesis using sys_invD(4) [OF inv] False
      by (intro inv_keep [OF inv t(1)]) (auto simp: eq pending_def globals_ok_def)
  qed
qed

lemma inv_nb_enter:
  assumes inv: "sys_inv s" and a: "sys_threads s a = None" and w: "local_wf heap"
    and c: "sched_get_cid_nonblock sched n a heap comm old kind (sys_g s) = Some (g, x, es, r)"
  shows "sys_inv (put s g a (map_option (\<lambda>st. \<lparr>th_ignore = False, th_nonblocking = True, th_phase = Top, th_st = st\<rparr>) x))"
proof -
  have g0: "eager_setup n (sys_g s) = Some g" and st: "\<And>st. x = Some st \<Longrightarrow> gl_addr (gcn_self st) = a \<and> ctx0 st = 0 \<and> first_iter st
      \<and> \<not> own_mask st \<and> \<not> own_eager_mask st \<and> local_mask st = heap"
    using c by (auto simp: sched_get_cid_nonblock_def bind_eq_Some_conv Let_def split: if_splits option.splits prod.splits)
  note e = eager_setup_cases [OF g0 sys_invD(4) [OF inv]] eager_setup_frame [OF g0]
    eager_setup_extends [OF g0 sys_invD(4) [OF inv]]
  show ?thesis
  proof (cases x)
    case None
    have "(sys_threads s)(a := None) = sys_threads s" using a by (simp add: fun_upd_idem)
    then show ?thesis using None step_leave [OF sys_invD(2) [OF inv] e(7), of a] sys_invD(1,3) [OF inv] e(1,6)
      by (auto simp: sys_inv_def globals_ok_def intro: mask_ok_cong)
  next
    case (Some st')
    have "sys_inv (put s g a (Some \<lparr>th_ignore = False, th_nonblocking = True, th_phase = Top, th_st = st'\<rparr>))"
      using e(1,2,6) st [OF Some] w by (intro inv_enter [OF inv a _ e(7)])
        (auto simp: pending_def globals_ok_def thread_ok_def active_def state_ok_def th_holds_def)
    then show ?thesis using Some by simp
  qed
qed

lemma inv_blocking_enter:
  assumes inv: "sys_inv s" and a: "sys_threads s a = None" and w: "local_wf stack"
  shows "sys_inv (put s (sys_g s) a (Some \<lparr>th_ignore = ign, th_nonblocking = False, th_phase = Top,
    th_st = sparse_start a comm tag stack\<rparr>))"
  using w sys_invD(4) [OF inv]
  by (intro inv_enter [OF inv a]) (auto simp: pending_def sparse_start_def globals_ok_def thread_ok_def
      active_def state_ok_def th_holds_def extends_def)

lemma inv_nb_copy:
  assumes inv: "sys_inv s" and t: "sys_threads s a = Some t" "th_nonblocking t" "\<not> active t"
    and ph: "ph = Reducing \<or> ph = Lost"
    and c: "sched_cb_gcn_copy_mask sched (sys_g s) (th_st t) = (g, st, es, r)"
  shows "sys_inv (put s g a (Some (t\<lparr>th_phase := ph, th_st := st\<rparr>)))"
proof -
  have ok: "thread_ok (sys_g s) a t" using sys_invD(2) [OF inv] t(1) by (rule threads_okD)
  have so: "state_ok False (th_st t)" "\<not> th_ignore t" "0 \<le> eager_nelem (sys_g s)"
    using ok t(2) by (auto simp: thread_ok_def)
  have res: "reserved (sys_g s) (th_st t) g st \<and> state_ok False st"
  proof (cases "first_iter (th_st t)")
    case True
    let ?st = "set_own_flag False (th_st t)"
    have "g = fst (reserve_eager (sys_g s) ?st)" "st = snd (reserve_eager (sys_g s) ?st)"
      using c True by (auto simp: sched_cb_gcn_copy_mask_def Let_def split: prod.splits)
    then show ?thesis using reserve_eager_ok [OF sys_invD(4) [OF inv], of ?st] so True
      by (simp add: reserved_def)
  next
    case False
    then have "g = fst (reserve_base (sys_g s) (th_st t))" "\<exists>b. st = set_own_flag b (snd (reserve_base (sys_g s) (th_st t)))"
      using c by (auto simp: sched_cb_gcn_copy_mask_def Let_def split: prod.splits)
    then show ?thesis
      using reserve_base_ok [OF sys_invD(4) [OF inv] so(1) False so(3)] reserved_flag by auto
  qed
  then have keep: "context_mask g = context_mask (sys_g s)" "next_gcn g = next_gcn (sys_g s)"
    "eager_nelem g = eager_nelem (sys_g s)" "first_iter st = first_iter (th_st t)" by (simp_all add: reserved_def)
  have "threads_ok g ((sys_threads s)(a := Some (t\<lparr>th_phase := ph, th_st := st\<rparr>)))"
    using step_reserve [OF sys_invD(2) [OF inv] t(1) so(2) _ _ so(3) _ _ ph] res by (simp add: extends_def)
  then show ?thesis using keep sys_invD(4) [OF inv]
    by (intro inv_keep [OF inv t(1)]) (auto simp: pending_def globals_ok_def)
qed

lemma inv_free:
  assumes inv: "sys_inv s" and f: "MPIR_Free_contextid (context_mask (sys_g s)) cid = Some cm" "owns_bit cid"
    and p: "prefix_of cid \<in> sys_live s" "prefix_of cid \<noteq> 0"
  shows "sys_inv (s\<lparr>sys_g := (sys_g s)\<lparr>context_mask := cm\<rparr>, sys_live := sys_live s - {prefix_of cid}\<rparr>)"
proof -
  let ?g = "(sys_g s)\<lparr>context_mask := cm\<rparr>"
  have M: "mask_wf (context_mask (sys_g s))" "\<not> free_in (context_mask (sys_g s)) (prefix_of cid)"
    using sys_invD(1) [OF inv] p(1) by (auto simp: mask_ok_def globals_ok_def)
  have cm: "mask_wf cm" "\<And>q. free_in cm q \<longleftrightarrow> free_in (context_mask (sys_g s)) q \<or> q = prefix_of cid"
    using free_taken [OF M(1) f(2) M(2)] f(1) by auto
  have "extends (sys_g s) ?g" using cm(2) by (simp add: extends_def all_segments)
  then have "threads_ok ?g (sys_threads s)"
    using sys_invD(2) [OF inv] thread_ok_extends unfolding threads_ok_def by blast
  moreover have "mask_ok ?g (sys_live s - {prefix_of cid})"
    using sys_invD(1) [OF inv] cm p by (auto simp: mask_ok_def globals_ok_def)
  ultimately show ?thesis using sys_invD(3) [OF inv] by (simp add: sys_inv_def)
qed

lemma put_put: "put (put s g a x) g' a y = put s g' a y"
  by (simp add: put_def)

lemma gcn_try_frame:
  assumes "sparse_allocate False g st = Some (g', st', cid)"
  shows "st' = st \<or> st' = st\<lparr>own_eager_mask := False\<rparr>"
  using assms by (auto simp: sparse_allocate_def Let_def bind_eq_Some_conv split: if_splits)

lemma inv_gcn_try:
  assumes inv: "sys_inv s" and t: "sys_threads s a = Some t" "th_nonblocking t" "th_phase t = Reduced"
    and tr: "gcn_try (sys_g s) (th_st t) = Some (g1, st1)"
  shows "sys_inv (now_live False (ctx0 st1) (put s g1 a (if ctx0 st1 = 0 then Some (t\<lparr>th_phase := Top, th_st := st1\<rparr>) else None)))"
    "\<not> th_ignore t" "first_iter st1 = first_iter (th_st t)"
proof -
  have ok: "thread_ok (sys_g s) a t" using sys_invD(2) [OF inv] t(1) by (rule threads_okD)
  have so: "\<not> th_ignore t" "ctx0 (th_st t) = 0" and act: "active t"
    using ok t(2,3) by (auto simp: thread_ok_def active_def)
  obtain st0 cid where sa: "sparse_allocate False (sys_g s) (th_st t) = Some (g1, st0, cid)"
    and st1: "st1 = (if holds False (th_st t) = None then st0 else gcn_store_ids cid st0)"
    using tr by (auto simp: gcn_try_eq)
  have keep: "gcn_self st1 = gcn_self st0" "first_iter st1 = first_iter (th_st t)" "state_ok False st1 = state_ok False st0"
      "own_eager_mask st1 = own_eager_mask st0"
    using gcn_try_frame [OF sa] st1 by (auto simp: gcn_store_ids_def state_ok_def)
  have cid: "ctx0 st1 = cid"
  proof (cases "holds False (th_st t)")
    case None
    then have "cid = 0" "st0 = th_st t" using sa by (auto simp: holds_def sparse_allocate_def split: if_splits)
    with None show ?thesis using st1 so(2) by simp
  qed (simp add: st1 gcn_store_ids_def)
  show "sys_inv (now_live False (ctx0 st1) (put s g1 a (if ctx0 st1 = 0 then Some (t\<lparr>th_phase := Top, th_st := st1\<rparr>) else None)))"
    using so t(2) keep cid
    by (intro inv_allocate [OF inv t(1) act so(1)]) (auto simp: pending_def thread_ok_def sa)
  show "\<not> th_ignore t" "first_iter st1 = first_iter (th_st t)" using so(1) keep(2) .
qed

lemma inv_requeue:
  assumes inv: "sys_inv (put s g1 a (Some (t\<lparr>th_phase := Top, th_st := st1\<rparr>)))" and t: "\<not> th_ignore t" "th_nonblocking t"
    and q: "gcn_requeue tag tag_ub g1 st1 = (g, st)"
  shows "sys_inv (put s g a (Some (t\<lparr>th_phase := Top, th_st := st\<rparr>)))"
proof (cases "first_iter st1")
  case True
  let ?t1 = "t\<lparr>th_phase := Top, th_st := st1\<rparr>" let ?s1 = "put s g1 a (Some ?t1)"
  let ?self = "(gcn_self st1)\<lparr>gl_tag := word_of_int tag + word_of_int tag_ub\<rparr>"
  have eq: "g = g1\<lparr>next_gcn := add_gcn_to_list ?self (next_gcn g1)\<rparr>" "st = st1\<lparr>first_iter := False, gcn_self := ?self\<rparr>"
    using q True by (auto simp: gcn_requeue_def Let_def)
  have ok1: "thread_ok g1 a ?t1" using threads_okD [OF sys_invD(2) [OF inv]] by simp
  have "sys_inv (put ?s1 ((sys_g ?s1)\<lparr>next_gcn := add_gcn_to_list ?self (next_gcn (sys_g ?s1))\<rparr>) a
      (Some (t\<lparr>th_phase := Top, th_st := st\<rparr>)))"
    using True ok1 t eq(2)
    by (intro inv_enlist [OF inv, where t = ?t1]) (auto simp: thread_ok_def pending_def state_ok_def)
  then show ?thesis using eq(1) by (simp add: put_put)
next
  case False
  then show ?thesis using q inv by (simp add: gcn_requeue_def)
qed

lemma inv_gcn_fail:
  assumes inv: "sys_inv (put s g1 a (Some t))" and t: "\<not> active t" "\<not> th_ignore t" and f: "gcn_fail g1 (th_st t) = Some g"
  shows "sys_inv (put s g a None)"
proof -
  let ?s = "put s g1 a (Some t)"
  have ok: "thread_ok g1 a t" using threads_okD [OF sys_invD(2) [OF inv]] by simp
  have g: "g = (if pending t then g1\<lparr>next_gcn := gcn_remove (th_st t) (next_gcn g1)\<rparr> else g1)"
    using f t(2) pending_listed [OF inv, of a t] remove_listed [of "th_st t" g1] by (auto simp: gcn_fail_def pending_def)
  have "list_ok (next_gcn g) ((sys_threads ?s)(a := None))"
    using g ok list_ok_remove [OF sys_invD(3) [OF inv], of "th_st t" a None] list_ok_same [OF sys_invD(3) [OF inv], of a t None]
    by (auto simp: thread_ok_def)
  moreover have "threads_ok g ((sys_threads ?s)(a := None))"
    using g by (intro step_leave [OF sys_invD(2) [OF inv]]) (simp add: extends_def all_segments)
  moreover have "mask_ok g (sys_live ?s)" using sys_invD(1) [OF inv] g by (simp add: mask_ok_def globals_ok_def)
  ultimately show ?thesis by (simp add: sys_inv_def)
qed

lemma gcn_fail_unlinked:
  assumes "gcn_try g st = Some (g1, st1)" "ctx0 st1 \<noteq> 0" "ctx0 st = 0" "gcn_fail g1 st1 = Some g2"
    "distinct (map gl_addr (next_gcn g))" "\<not> first_iter st \<Longrightarrow> \<not> own_eager_mask st"
  shows "g2 = g1"
proof (cases "first_iter st1")
  case False
  have self: "gcn_self st1 = gcn_self st" "first_iter st1 = first_iter st"
    using assms(1) by (auto simp: gcn_try_def bind_eq_Some_conv gcn_store_ids_def Let_def split: if_splits)
  obtain g0 where rm: "remove_gcn st g0 = Some g1" "next_gcn g0 = next_gcn g"
    using assms(1,2,3,6) False self(2) by (auto simp: gcn_try_def bind_eq_Some_conv Let_def gcn_store_ids_def remove_gcn_def word_gt_0 split: if_splits)
  have in_list: "gl_addr (gcn_self st) \<in> gl_addr ` set (next_gcn g)"
  proof (rule ccontr)
    assume "\<not> ?thesis"
    then have "gcn_unlink (gl_addr (gcn_self st)) (next_gcn g) = None" by (rule unlink_missing)
    with rm show False by (simp add: remove_gcn_def)
  qed
  have "next_gcn g1 = filter (\<lambda>x. gl_addr x \<noteq> gl_addr (gcn_self st)) (next_gcn g)"
    using rm unlink_filter [OF assms(5) in_list] by (auto simp: remove_gcn_def)
  then have "gcn_unlink (gl_addr (gcn_self st1)) (next_gcn g1) = None" using self(1) by (intro unlink_missing) auto
  then show ?thesis using assms(4) False by (simp add: gcn_fail_def remove_gcn_def)
qed (use assms(4) in \<open>simp add: gcn_fail_def\<close>)

text \<open>The last callback of an iteration with every outcome: another iteration, an identifier, the
  exhaustion error, or an insertion into the schedule that fails.\<close>

lemma inv_nb_allocate:
  assumes inv: "sys_inv s" and t: "sys_threads s a = Some t" "th_nonblocking t" "th_phase t = Reduced"
    and tr: "gcn_try (sys_g s) (th_st t) = Some (g1, st1)"
    and al: "sched_cb_gcn_allocate_cid sched tag tag_ub (sys_g s) (th_st t) = Some (g, x, es, r)"
  shows "sys_inv (now_live False (ctx0 st1) (put s g a
    (case x of None \<Rightarrow> None | Some st \<Rightarrow> if ctx0 st = 0 then Some (t\<lparr>th_phase := Top, th_st := st\<rparr>) else None)))"
proof (cases "ctx0 st1 = 0")
  case True
  note I = inv_gcn_try [OF inv t tr]
  have inv1: "sys_inv (put s g1 a (Some (t\<lparr>th_phase := Top, th_st := st1\<rparr>)))" using I(1) True by (simp add: now_live_def)
  obtain g2 st2 where q: "gcn_requeue tag tag_ub g1 st1 = (g2, st2)" by fastforce
  have c2: "ctx0 st2 = 0" using q True by (auto simp: gcn_requeue_def Let_def split: if_splits)
  note inv2 = inv_requeue [OF inv1 I(2) t(2) q]
  consider "gcn_fail g1 st1 = Some g" "x = None" | "g = g2" "x = Some st2" | "gcn_fail g2 st2 = Some g" "x = None"
    using al True c2
    by (auto simp: sched_cb_gcn_allocate_cid_def tr q Let_def bind_eq_Some_conv split: if_splits prod.splits option.splits)
  then have "sys_inv (put s g a (case x of None \<Rightarrow> None | Some st \<Rightarrow> if ctx0 st = 0 then Some (t\<lparr>th_phase := Top, th_st := st\<rparr>) else None))"
  proof cases
    case 1
    then show ?thesis using inv_gcn_fail [OF inv1] I(2) by simp
  next
    case 2
    then show ?thesis using inv2 c2 by simp
  next
    case 3
    then show ?thesis using inv_gcn_fail [OF inv2] I(2) by simp
  qed
  then show ?thesis using True by (simp add: now_live_def)
next
  case False
  note I = inv_gcn_try [OF inv t tr]
  have ok: "thread_ok (sys_g s) a t" using sys_invD(2) [OF inv] t(1) by (rule threads_okD)
  have "g = g1 \<and> (x = None \<or> x = Some st1) \<or> gcn_fail g1 st1 = Some g \<and> x = None"
    using al False
    by (auto simp: sched_cb_gcn_allocate_cid_def tr exhausted_def Let_def bind_eq_Some_conv split: if_splits prod.splits option.splits)
  moreover have "g = g1" if "gcn_fail g1 st1 = Some g"
    using gcn_fail_unlinked [OF tr False _ that] ok t(2) sys_invD(3) [OF inv] by (auto simp: thread_ok_def state_ok_def list_ok_def)
  ultimately show ?thesis using I(1) False by auto
qed

lemma clears_mask_simps [simp]:
  "sys_g (clears_mask a t s) = sys_g s" "sys_threads (clears_mask a t s) = sys_threads s" "sys_live (clears_mask a t s) = sys_live s"
  "sys_stolen (clears_mask a t s) = (sys_stolen s \<or> own_mask (th_st t) \<and> base_held a (sys_threads s))"
  by (simp_all add: clears_mask_def)

lemma stolen_simps [simp]:
  "sys_stolen (put s g a x) = sys_stolen s" "sys_stolen (now_live i c s) = sys_stolen s"
  by (simp_all add: put_def now_live_def)

lemma sys_inv_put_clears: "sys_inv (put (clears_mask a t s) g b x) = sys_inv (put s g b x)"
  by (simp add: sys_inv_def)

lemma stolen_stays: "ctx_step n s s' \<Longrightarrow> sys_stolen s \<Longrightarrow> sys_stolen s'"
  by (induction rule: ctx_step.induct) simp_all

lemma ctx_step_inv:
  assumes "ctx_step n s s'" "sys_inv s" "\<not> sys_stolen s'"
  shows "sys_inv s'"
  using assms(1)
proof cases
  case (enter a stack ign comm tag)
  then show ?thesis using inv_blocking_enter [OF assms(2)] by simp
next
  case (copy a t g st)
  then show ?thesis using inv_copy [OF assms(2)] by (simp add: active_def)
next
  case (reduce a t others)
  then show ?thesis using inv_reduce [OF assms(2)] by (simp add: active_def)
next
  case (reduce_fails a t g)
  then show ?thesis using inv_reduce_fails [OF assms(2)] by (simp add: active_def)
next
  case (allocate a t g st cid)
  then show ?thesis using inv_blocking_allocate [OF assms(2) allocate(2-5)] by simp
next
  case (retry a t g st)
  then show ?thesis using inv_retry [OF assms(2)] by simp
next
  case (exhausted_clears a t)
  then show ?thesis using assms(3) inv_exhausted_clears [OF assms(2)] by (simp add: sys_inv_put_clears active_def)
next
  case (exhausted_fails a t g)
  then show ?thesis using assms(3) inv_exhausted_fails [OF assms(2)] by (simp add: sys_inv_put_clears active_def)
next
  case (nb_enter a heap sched comm old kind g x es r)
  then show ?thesis using inv_nb_enter [OF assms(2) nb_enter(2-4)] by (simp only:)
next
  case (nb_copy a t sched g st es r)
  then show ?thesis using inv_nb_copy [OF assms(2) nb_copy(2,3) _ _ nb_copy(5)] by (simp add: active_def)
next
  case (nb_allocate a t g1 st1 sched tag tag_ub g x es r)
  then show ?thesis using inv_nb_allocate [OF assms(2) nb_allocate(2-6)] by (simp only:)
next
  case (free cid cm)
  then show ?thesis using inv_free [OF assms(2)] by simp
qed

lemma sys_start_inv: "sys_inv (sys_start b)"
proof -
  have "globals_ok (context_globals_init b)"
    by (simp add: globals_ok_def context_globals_init_def init_free)
  then show ?thesis
    by (auto simp: sys_inv_def mask_ok_def sys_start_def init_free threads_ok_def list_ok_def enlisted_def
        context_globals_init_def)
qed

lemma ctx_reach_inv: "ctx_reach n b s \<Longrightarrow> \<not> sys_stolen s \<Longrightarrow> sys_inv s"
  by (induction rule: ctx_reach.induct) (auto simp: sys_start_inv dest: ctx_step_inv stolen_stays)

end
