(* ===== verification/Context_Theorems.thy ===== *)
theory Context_Theorems
  imports Context_System
begin

text \<open>
  The properties of the context identifiers: what the search returns, that a live identifier is
  never handed out again, that the participants of a collective allocation agree, that the
  allocation returns, and what its error exits leave behind.
\<close>

section \<open>Masks determined by their free prefixes\<close>

lemma mask_eqI:
  assumes wf: "mask_wf m" "mask_wf m'" and eq: "\<And>p. free_in m p = free_in m' p"
  shows "m = m'"
proof (rule nth_equalityI)
  fix i assume "i < length m"
  then have i: "i < 64" using wf(1) by (simp add: mask_wf_def)
  have "bit (m ! i) b = bit (m' ! i) b" if "b < 32" for b
    using eq [of "32 * i + b"] that i by (simp add: free_in_def)
  then show "m ! i = m' ! i" by (intro bit_word_eqI) simp
qed (use wf in \<open>simp add: mask_wf_def\<close>)

lemma free_allocated:
  assumes "mask_wf m" "free_in m (prefix_of cid)" "owns_bit cid" "allocate_context_bit m cid = Some (m', c)"
  shows "MPIR_Free_contextid m' cid = Some m"
proof -
  have m': "mask_wf m'" "\<And>q. free_in m' q \<longleftrightarrow> free_in m q \<and> q \<noteq> prefix_of cid"
    using allocate_free [OF assms(1,2)] assms(4) by auto
  then obtain m'' where m'': "MPIR_Free_contextid m' cid = Some m''" "mask_wf m''"
      "\<And>q. free_in m'' q \<longleftrightarrow> free_in m' q \<or> q = prefix_of cid"
    using free_taken [of m' cid] assms(3) by auto
  have "m'' = m" using m' m'' assms(1,2) by (intro mask_eqI) auto
  with m''(1) show ?thesis by simp
qed

section \<open>The collective round\<close>

definition all_ones :: context_mask where
  "all_ones = replicate 65 (-1)"

lemma all_ones_wf [simp]: "local_wf all_ones"
  by (simp add: local_wf_def all_ones_def)

definition band_all :: "context_mask list \<Rightarrow> context_mask" where
  "band_all ms = foldr band ms all_ones"

lemma band_all_wf: "\<forall>m\<in>set ms. local_wf m \<Longrightarrow> local_wf (band_all ms)"
  by (induction ms) (auto simp: band_all_def)

lemma free_all_ones: "free_in all_ones p \<longleftrightarrow> p < 2048"
  using prefix_word [of p] by (auto simp: free_in_def all_ones_def)

lemma free_band_all:
  "\<forall>m\<in>set ms. local_wf m \<Longrightarrow> free_in (band_all ms) p \<longleftrightarrow> p < 2048 \<and> (\<forall>m\<in>set ms. free_in m p)"
proof (induction ms)
  case (Cons m ms)
  then have "free_in (band_all (m # ms)) p \<longleftrightarrow> free_in m p \<and> free_in (band_all ms) p"
    using band_all_wf [of ms] by (simp add: band_all_def)
  with Cons show ?case by auto
qed (simp add: band_all_def free_all_ones)

lemma locate_chosen:
  assumes "chosen m p"
  shows "word_of_int (locate_context_bit m) = id_of_prefix p"
proof (cases rule: locate_cases [of m])
  case (found q)
  then show ?thesis using chosen_unique [OF assms] locate_word by blast
next
  case none
  then show ?thesis using assms by (simp add: chosen_def)
qed

lemma locate_none: "\<forall>p. \<not> free_in m p \<Longrightarrow> locate_context_bit m = 0"
  by (cases rule: locate_cases [of m]) (auto simp: chosen_def)

text \<open>What a reduced mask gives to one participant.\<close>

abbreviation located :: "context_mask \<Rightarrow> MPIR_Context_id_t" where
  "located m \<equiv> word_of_int (locate_context_bit m)"

lemma allocate_reduced:
  assumes g: "globals_ok g" and st: "state_ok False st" and claim: "local_claim g False st"
    and list: "own_mask st \<longrightarrow> listed st g"
    and m: "local_wf m" "\<And>p. free_in m p \<Longrightarrow> free_in (local_mask st) p"
  shows "\<exists>g' st'. sparse_allocate False g (st\<lparr>local_mask := m\<rparr>) = Some (g', st', located m)
    \<and> (located m \<noteq> 0 \<longleftrightarrow> (\<exists>p. free_in m p))
    \<and> (located m \<noteq> 0 \<longrightarrow>
         free_in (context_mask g) (prefix_of (located m)) \<and> \<not> free_in (context_mask g') (prefix_of (located m)))"
proof -
  let ?st = "st\<lparr>local_mask := m\<rparr>"
  have hold: "holds False ?st = holds False st" by (simp add: holds_def)
  have "state_ok False ?st" "local_claim g False ?st" "own_mask ?st \<longrightarrow> listed ?st g"
    using st claim list m by (auto simp: state_ok_def local_claim_def hold listed_def)
  from g this show ?thesis
  proof (cases rule: allocate_cases)
    case idle
    then have no: "\<not> free_in m p" for p using m(2) claim hold by (auto simp: local_claim_def)
    then show ?thesis using idle locate_none [of m] by simp
  next
    case (missed k g')
    then show ?thesis using locate_none [of m] by simp
  next
    case (took k g' p)
    have ch: "chosen m p" using took(2) by simp
    have p: "p < 2048" "free_in m p" using ch by (auto simp: chosen_def chosen_less)
    then have f: "free_in (context_mask g) p" using m(2) claim took(1) hold by (auto simp: local_claim_def)
    show ?thesis unfolding locate_chosen [OF ch]
      using took(4,5,8) p f by auto
  qed
qed

text \<open>A participant: the system of its process and the address of the allocating thread.\<close>

definition participant :: "int \<Rightarrow> bool \<Rightarrow> ctx_sys \<times> nat \<Rightarrow> bool" where
  "participant n icomm = (\<lambda>(s, a). ctx_reach n icomm s \<and> \<not> sys_stolen s \<and>
     (\<exists>t. sys_threads s a = Some t \<and> th_phase t = Reducing \<and> \<not> th_nonblocking t))"

definition thread_of :: "ctx_sys \<times> nat \<Rightarrow> ctx_thread" where
  "thread_of = (\<lambda>(s, a). the (sys_threads s a))"

definition mask_of :: "ctx_sys \<times> nat \<Rightarrow> context_mask" where
  "mask_of pr = local_mask (th_st (thread_of pr))"

lemma participantD:
  assumes "participant n icomm pr"
  shows "globals_ok (sys_g (fst pr))" "state_ok (th_ignore (thread_of pr)) (th_st (thread_of pr))"
    "local_claim (sys_g (fst pr)) (th_ignore (thread_of pr)) (th_st (thread_of pr))"
    "own_mask (th_st (thread_of pr)) \<longrightarrow> listed (th_st (thread_of pr)) (sys_g (fst pr))"
proof -
  obtain s a t where pr: "pr = (s, a)" "ctx_reach n icomm s" "sys_threads s a = Some t" "th_phase t = Reducing" "\<not> sys_stolen s"
    using assms by (cases pr) (auto simp: participant_def)
  have inv: "sys_inv s" using pr(2,5) by (rule ctx_reach_inv)
  have t: "thread_of pr = t" using pr by (simp add: thread_of_def)
  have ok: "thread_ok (sys_g s) a t" using sys_invD(2) [OF inv] pr(3) by (rule threads_okD)
  show "globals_ok (sys_g (fst pr))" using sys_invD(4) [OF inv] pr(1) by simp
  show "state_ok (th_ignore (thread_of pr)) (th_st (thread_of pr))"
    "local_claim (sys_g (fst pr)) (th_ignore (thread_of pr)) (th_st (thread_of pr))"
    using ok pr(1,4) t by (auto simp: thread_ok_def active_def)
  show "own_mask (th_st (thread_of pr)) \<longrightarrow> listed (th_st (thread_of pr)) (sys_g (fst pr))"
    using ok pending_listed [OF inv pr(3)] pr(1) t by (auto simp: thread_ok_def state_ok_def pending_def)
qed

lemma participant_mask: "participant n icomm pr \<Longrightarrow> local_wf (mask_of pr)"
  using participantD(2) by (simp add: state_ok_def mask_of_def)

section \<open>Properties\<close>



lemma derived_not_owner:
  assumes "f = IS_LOCALCOMM \<or> f = DYNAMIC_PROC \<or> f = SUBCOMM" "v \<noteq> 0" "unat v < 2 ^ context_width f"
  shows "\<not> owns_bit (MPIR_CONTEXT_SET_FIELD f cid v)"
proof -
  have "MPIR_CONTEXT_READ_FIELD f (MPIR_CONTEXT_SET_FIELD f cid v) = v"
  proof (rule bit_eqI)
    fix n
    have "n < context_width f" if "bit v n"
    proof -
      have "take_bit (context_width f) (unat v) = unat v" using assms(3) by (simp add: take_bit_nat_eq_self)
      moreover have "bit (unat v) n" using that by (simp add: bit_unsigned_iff)
      ultimately show ?thesis using bit_take_bit_iff [of "context_width f" "unat v" n] by simp
    qed
    then show "bit (MPIR_CONTEXT_READ_FIELD f (MPIR_CONTEXT_SET_FIELD f cid v)) n = bit v n"
      using field_in_word [of f] by (auto simp: read_field_bit set_field_bit [OF assms(3)])
  qed
  then show ?thesis using assms(1,2) by (auto simp: owns_bit_def)
qed

text \<open>C25: Freeing an identifier right after it was allocated restores the mask bit for bit, and
  freeing it once more aborts; freeing an identifier derived from it, with a non-zero value in the
  field of local communicators, of dynamic processes or of subcommunicators, never touches the mask.\<close>

theorem allocate_free_roundtrip:
  assumes "mask_wf m" "\<not> free_in m 0" "find_and_allocate_context_id m m = Some (m', cid)" "cid \<noteq> 0"
  shows "MPIR_Free_contextid m' cid = Some m \<and> MPIR_Free_contextid m cid = None
    \<and> (\<forall>f v. (f = IS_LOCALCOMM \<or> f = DYNAMIC_PROC \<or> f = SUBCOMM) \<longrightarrow> v \<noteq> 0 \<longrightarrow> unat v < 2 ^ context_width f \<longrightarrow>
         MPIR_Free_contextid m' (MPIR_CONTEXT_SET_FIELD f cid v) = Some m')"
proof -
  obtain p where p: "free_in m p" "p < 2048" "cid = id_of_prefix p" "allocate_context_bit m cid = Some (m', cid)"
  proof (cases rule: locate_cases [of m])
    case (found p)
    have "word_of_int (locate_context_bit m) = id_of_prefix p" using found(2) by (rule locate_word)
    then have "allocate_context_bit m (id_of_prefix p) = Some (m', cid)"
      using assms(3,4) by (auto simp: find_and_allocate_context_id_def Let_def split: if_splits)
    moreover from this have "cid = id_of_prefix p"
      by (auto simp: allocate_context_bit_def bind_eq_Some_conv split: prod.splits if_splits)
    ultimately show ?thesis using that found(1) chosen_less [OF found(1)] by (auto simp: chosen_def)
  next
    case none
    then show ?thesis using assms(3,4) by (simp add: find_and_allocate_context_id_def)
  qed
  have own: "owns_bit cid" using p id_of_prefix_owns by simp
  have "MPIR_Free_contextid m' cid = Some m"
    using free_allocated [OF assms(1) _ own p(4)] p by simp
  moreover have "MPIR_Free_contextid m cid = None"
    using free_not_in_use [OF assms(1) own] p by simp
  ultimately show ?thesis using free_skipped derived_not_owner by blast
qed

theorem allocate_free_roundtrip_witness:
  "\<exists>m' cid. find_and_allocate_context_id (MPIR_context_id_init True) (MPIR_context_id_init True) = Some (m', cid)
     \<and> cid \<noteq> 0 \<and> MPIR_Free_contextid m' cid = Some (MPIR_context_id_init True)
     \<and> MPIR_Free_contextid m' (MPIR_CONTEXT_SET_FIELD SUBCOMM cid 2) = Some m'"
proof -
  let ?m = "MPIR_context_id_init True"
  have z: "\<not> free_in ?m 0" and f: "free_in ?m 5" by (simp_all add: init_free)
  have sub: "\<forall>q. free_in ?m q \<longrightarrow> free_in ?m q" by simp
  obtain m' cid where "find_and_allocate_context_id ?m ?m = Some (m', cid)" "cid \<noteq> 0"
    using init_wf [of True] sub z
  proof (cases rule: find_and_allocate_cases)
    case (found p cm')
    then show ?thesis using that by blast
  next
    case none
    then show ?thesis using f by blast
  qed
  moreover have "(2 :: MPIR_Context_id_t) \<noteq> 0" "unat (2 :: MPIR_Context_id_t) < 2 ^ context_width SUBCOMM" by simp_all
  ultimately show ?thesis using allocate_free_roundtrip [OF init_wf z] by blast
qed

text \<open>C22: Whatever the interleaving of blocking and nonblocking allocations with all their exits (failed
  reductions, exhausted masks, failed insertions into a schedule) and of releases: as long as no thread
  in the exhaustion exit has cleared \<open>mask_in_use\<close> while another thread held the base segment, the free
  prefixes are exactly those not handed out, at most one thread holds the eager segment and at most
  one the base segment of the mask, and the list of pending allocations holds each waiting thread
  once, ordered by parent context and tag.\<close>

theorem context_system_invariant:
  assumes "ctx_reach n icomm s" "\<not> sys_stolen s"
  shows "(\<forall>p<2048. free_in (context_mask (sys_g s)) p \<longleftrightarrow> p \<notin> sys_live s)
    \<and> (\<forall>a b t u k. sys_threads s a = Some t \<longrightarrow> sys_threads s b = Some u \<longrightarrow>
         th_holds t = Some k \<longrightarrow> th_holds u = Some k \<longrightarrow> a = b)
    \<and> gcn_sorted (next_gcn (sys_g s)) \<and> distinct (map gl_addr (next_gcn (sys_g s)))
    \<and> gl_addr ` set (next_gcn (sys_g s)) = enlisted (sys_threads s)"
proof -
  have inv: "sys_inv s" using assms by (rule ctx_reach_inv)
  show ?thesis using sys_invD(1,2,3) [OF inv] by (auto simp: mask_ok_def threads_ok_def list_ok_def)
qed

text \<open>C20: In every interleaving with all exits of the allocations, as long as no thread in the exhaustion
  exit has cleared \<open>mask_in_use\<close> while another thread held the base segment: a thread whose reduction has
  come back never trips the assertion of \<open>allocate_context_bit\<close> and never loses its list element, its
  second critical section returns, and an identifier it returns owns a prefix that has not been handed
  out before or has been freed since.\<close>

theorem allocated_id_is_fresh:
  assumes "ctx_reach n icomm s" "sys_threads s a = Some t" "th_phase t = Reduced" "\<not> th_ignore t" "\<not> sys_stolen s"
  shows "\<exists>g st cid. sparse_allocate False (sys_g s) (th_st t) = Some (g, st, cid)
    \<and> gcn_try (sys_g s) (th_st t) \<noteq> None
    \<and> (cid \<noteq> 0 \<longrightarrow> prefix_of cid \<notin> sys_live s \<and> prefix_of cid \<noteq> 0 \<and> owns_bit cid)"
proof -
  have inv: "sys_inv s" using assms(1,5) by (rule ctx_reach_inv)
  have ok: "thread_ok (sys_g s) a t" using sys_invD(2) [OF inv] assms(2) by (rule threads_okD)
  have so: "state_ok False (th_st t)" "local_claim (sys_g s) False (th_st t)"
    using ok assms(3,4) by (auto simp: thread_ok_def active_def)
  have li: "own_mask (th_st t) \<longrightarrow> listed (th_st t) (sys_g s)"
    using pending_listed [OF inv assms(2)] so(1) assms(4) by (auto simp: state_ok_def pending_def)
  from sys_invD(4) [OF inv] so li show ?thesis
  proof (cases rule: allocate_cases)
    case (took k g' p)
    have p: "p < 2048" using took(2) by (rule chosen_less)
    have "free_in (context_mask (sys_g s)) p"
      using so(2) took(1,2) by (auto simp: local_claim_def chosen_def)
    then have "p \<notin> sys_live s" using sys_invD(1) [OF inv] p by (auto simp: mask_ok_def)
    then show ?thesis using took(3,4) p id_of_prefix_owns by (simp add: gcn_try_eq)
  qed (simp_all add: gcn_try_eq)
qed

lemma one_thread_reducing:
  obtains s t where "ctx_reach 2 True s" "sys_threads s 7 = Some t" "th_phase t = Reducing" "\<not> th_ignore t"
    "\<not> th_nonblocking t" "\<not> sys_stolen s"
proof -
  let ?st = "sparse_start 7 0 5 all_ones"
  let ?t = "\<lparr>th_ignore = False, th_nonblocking = False, th_phase = Top, th_st = ?st\<rparr>"
  let ?s1 = "put (sys_start True) (sys_g (sys_start True)) 7 (Some ?t)"
  have r1: "ctx_reach 2 True ?s1"
    by (rule ctx_reach.more [OF ctx_reach.start ctx_step.enter]) (simp_all add: sys_start_def)
  obtain g st where c: "sparse_copy 2 False (sys_g ?s1) ?st = Some (g, st)"
    by (cases "sparse_copy 2 False (sys_g ?s1) ?st")
       (auto simp: sparse_copy_def sys_start_def context_globals_init_def eager_setup_def sparse_start_def split: prod.splits)
  have "ctx_reach 2 True (put ?s1 g 7 (Some (?t\<lparr>th_phase := Reducing, th_st := st\<rparr>)))"
    using c by (intro ctx_reach.more [OF r1 ctx_step.copy]) simp_all
  then show thesis by (rule that [where t = "?t\<lparr>th_phase := Reducing, th_st := st\<rparr>"]) (simp_all add: sys_start_def)
qed

theorem context_system_invariant_witness:
  "\<exists>s t. ctx_reach 2 True s \<and> sys_threads s 7 = Some t \<and> th_phase t = Reducing
     \<and> free_in (context_mask (sys_g s)) 5 = (5 \<in> - sys_live s) \<and> gcn_sorted (next_gcn (sys_g s))
     \<and> gl_addr ` set (next_gcn (sys_g s)) = enlisted (sys_threads s)"
proof -
  obtain s t where s: "ctx_reach 2 True s" "sys_threads s 7 = Some t" "th_phase t = Reducing" "\<not> sys_stolen s"
    by (rule one_thread_reducing)
  note inv = context_system_invariant [OF s(1,4)]
  have "free_in (context_mask (sys_g s)) 5 = (5 \<in> - sys_live s)" using inv [THEN conjunct1] by simp
  moreover have "gcn_sorted (next_gcn (sys_g s))" "gl_addr ` set (next_gcn (sys_g s)) = enlisted (sys_threads s)"
    using inv by (simp_all only: simp_thms)
  ultimately show ?thesis using s(1,2,3) by (intro exI [of _ s] exI [of _ t]) simp
qed

lemma one_thread_reduced:
  obtains s t where "ctx_reach 2 True s" "sys_threads s 7 = Some t" "th_phase t = Reduced" "\<not> th_ignore t" "\<not> sys_stolen s"
proof -
  obtain s t where s: "ctx_reach 2 True s" "sys_threads s 7 = Some t" "th_phase t = Reducing" "\<not> th_ignore t" "\<not> sys_stolen s"
    by (rule one_thread_reducing)
  let ?t = "t\<lparr>th_phase := Reduced, th_st := (th_st t)\<lparr>local_mask := band (local_mask (th_st t)) all_ones\<rparr>\<rparr>"
  have r: "ctx_reach 2 True (put s (sys_g s) 7 (Some ?t))"
    using ctx_step.reduce [OF s(2,3) all_ones_wf] by (rule ctx_reach.more [OF s(1)])
  have t: "sys_threads (put s (sys_g s) 7 (Some ?t)) 7 = Some ?t" by simp
  show thesis by (rule that [OF r t]) (simp_all add: s(4,5))
qed

theorem allocated_id_is_fresh_witness:
  "\<exists>s t g st cid. ctx_reach 2 True s \<and> sys_threads s 7 = Some t \<and> th_phase t = Reduced \<and>
     sparse_allocate False (sys_g s) (th_st t) = Some (g, st, cid) \<and> (cid = 0 \<or> prefix_of cid \<in> - sys_live s)"
proof -
  obtain s t where s: "ctx_reach 2 True s" "sys_threads s 7 = Some t" "th_phase t = Reduced" "\<not> th_ignore t" "\<not> sys_stolen s"
    by (rule one_thread_reduced)
  then show ?thesis using allocated_id_is_fresh [OF s] by blast
qed

text \<open>C21: The participants of one collective allocation, each in any reachable state of its own
  process where \<open>mask_in_use\<close> has not been cleared under a holder, agree: with the bitwise AND of their masks they all find the same identifier, or all
  find none.  They find one exactly when a prefix is free in every mask, and the identifier was
  free and is then taken in the mask of every participant that uses it.\<close>

theorem participants_agree:
  assumes parts: "\<forall>pr\<in>set prs. participant n icomm pr" and some: "\<exists>pr\<in>set prs. \<not> th_ignore (thread_of pr)"
  shows "\<exists>cid. (cid \<noteq> 0 \<longleftrightarrow> (\<exists>p<2048. \<forall>pr\<in>set prs. free_in (mask_of pr) p))
    \<and> (\<forall>pr\<in>set prs. \<exists>g st.
         sparse_allocate (th_ignore (thread_of pr)) (sys_g (fst pr))
           ((th_st (thread_of pr))\<lparr>local_mask := band_all (map mask_of prs)\<rparr>) = Some (g, st, cid)
         \<and> (\<not> th_ignore (thread_of pr) \<longrightarrow> cid \<noteq> 0 \<longrightarrow>
              free_in (context_mask (sys_g (fst pr))) (prefix_of cid) \<and> \<not> free_in (context_mask g) (prefix_of cid)))"
proof -
  let ?m = "band_all (map mask_of prs)" and ?cid = "located (band_all (map mask_of prs))"
  have wf: "\<forall>m\<in>set (map mask_of prs). local_wf m" using parts participant_mask by auto
  have free: "free_in ?m p \<longleftrightarrow> p < 2048 \<and> (\<forall>pr\<in>set prs. free_in (mask_of pr) p)" for p
    using free_band_all [OF wf] by simp
  have one: "\<exists>g st. sparse_allocate False (sys_g (fst pr)) ((th_st (thread_of pr))\<lparr>local_mask := ?m\<rparr>) = Some (g, st, ?cid)
      \<and> (?cid \<noteq> 0 \<longleftrightarrow> (\<exists>p. free_in ?m p))
      \<and> (?cid \<noteq> 0 \<longrightarrow> free_in (context_mask (sys_g (fst pr))) (prefix_of ?cid) \<and> \<not> free_in (context_mask g) (prefix_of ?cid))"
    if pr: "pr \<in> set prs" "\<not> th_ignore (thread_of pr)" for pr
  proof -
    have P: "participant n icomm pr" using parts pr(1) by blast
    have "free_in ?m p \<Longrightarrow> free_in (local_mask (th_st (thread_of pr))) p" for p
      using free pr(1) by (auto simp: mask_of_def)
    then show ?thesis
      using participantD(2,3) [OF P] pr(2)
      by (intro allocate_reduced [OF participantD(1) [OF P] _ _ participantD(4) [OF P] band_all_wf [OF wf]]) auto
  qed
  obtain pr0 where "pr0 \<in> set prs" "\<not> th_ignore (thread_of pr0)" using some by blast
  then have "?cid \<noteq> 0 \<longleftrightarrow> (\<exists>p<2048. \<forall>pr\<in>set prs. free_in (mask_of pr) p)" using one [of pr0] free by auto
  moreover have "\<exists>g st. sparse_allocate (th_ignore (thread_of pr)) (sys_g (fst pr))
      ((th_st (thread_of pr))\<lparr>local_mask := ?m\<rparr>) = Some (g, st, ?cid) \<and> (\<not> th_ignore (thread_of pr) \<longrightarrow> ?cid \<noteq> 0 \<longrightarrow>
      free_in (context_mask (sys_g (fst pr))) (prefix_of ?cid) \<and> \<not> free_in (context_mask g) (prefix_of ?cid))"
    if "pr \<in> set prs" for pr
  proof (cases "th_ignore (thread_of pr)")
    case True
    then show ?thesis by (simp add: sparse_allocate_def)
  next
    case False
    then show ?thesis using one [OF that False] by auto
  qed
  ultimately show ?thesis by blast
qed

theorem participants_agree_witness:
  "\<exists>pr. participant 2 True pr \<and> \<not> th_ignore (thread_of pr) \<and> (\<exists>cid g st. sparse_allocate False (sys_g (fst pr))
     ((th_st (thread_of pr))\<lparr>local_mask := band_all [mask_of pr]\<rparr>) = Some (g, st, cid))"
proof -
  obtain s t where s: "ctx_reach 2 True s" "sys_threads s 7 = Some t" "th_phase t = Reducing" "\<not> th_ignore t"
      "\<not> th_nonblocking t" "\<not> sys_stolen s"
    by (rule one_thread_reducing)
  then have p: "participant 2 True (s, 7)" "\<not> th_ignore (thread_of (s, 7))"
    by (auto simp: participant_def thread_of_def)
  then obtain cid g st where "sparse_allocate (th_ignore (thread_of (s, 7))) (sys_g (fst (s, 7 :: nat)))
      ((th_st (thread_of (s, 7)))\<lparr>local_mask := band_all (map mask_of [(s, 7)])\<rparr>) = Some (g, st, cid)"
    using participants_agree [of "[(s, 7)]" 2 True] by (metis list.set_intros(1) empty_iff list.set(1) set_ConsD)
  then have "sparse_allocate False (sys_g (fst (s, 7 :: nat)))
      ((th_st (thread_of (s, 7)))\<lparr>local_mask := band_all [mask_of (s, 7)]\<rparr>) = Some (g, st, cid)"
    using p(2) by simp
  with p show ?thesis by blast
qed

section \<open>The blocking allocation returns\<close>









lemma first_copy:
  assumes g: "globals_ok g" "0 \<le> n" "n < 63" and w: "local_wf stack"
  obtains g0 g1 st1 where "eager_setup n g = Some g0"
    "sparse_copy n False g (sparse_start a comm tag stack) = Some (g1, st1)"
    "reserved g0 (sparse_start a comm tag stack) g1 st1" "state_ok False st1" "local_mask st1 ! 64 = 0"
    "globals_ok g0" "0 \<le> eager_nelem g0" "own_eager_mask st1 = (\<not> eager_in_use g \<and> 0 < eager_nelem g0)"
    "g1 = (if own_eager_mask st1 then g0\<lparr>eager_in_use := True\<rparr> else g0)"
proof -
  let ?st = "sparse_start a comm tag stack"
  obtain g0 where g0: "eager_setup n g = Some g0" using g(2,3)
    by (cases "eager_setup n g") (auto simp: eager_setup_def split: if_splits)
  have ok: "globals_ok g0" "0 \<le> eager_nelem g0" "eager_in_use g0 = eager_in_use g"
    using eager_setup_cases [OF g0 g(1)] seg_in_use.simps by metis+
  have so: "state_ok False ?st" "first_iter ?st" "\<not> own_mask ?st" using w by (simp_all add: sparse_start_def state_ok_def)
  obtain g1 r where r: "reserve_eager g0 ?st = (g1, r)" by fastforce
  have res: "reserved g0 ?st g1 r" "state_ok False r" using reserve_eager_ok [OF ok(1) so(1,2) ok(2)] r by simp_all
  have own: "\<not> own_mask r" using res so(2) by (simp add: state_ok_def reserved_def)
  have copy: "sparse_copy n False g ?st = Some (g1, set_own_flag False r)"
    using so(2) own by (simp add: sparse_copy_def g0 r)
  have "local_mask (set_own_flag False r) ! 64 = 0" using res(2) by (simp add: set_own_flag_def state_ok_def local_wf_def)
  moreover have "own_eager_mask r = (\<not> eager_in_use g \<and> 0 < eager_nelem g0)"
    "g1 = (if own_eager_mask r then g0\<lparr>eager_in_use := True\<rparr> else g0)"
    using r ok(3) by (auto simp: reserve_eager_def Let_def split: if_splits)
  ultimately show thesis using that [OF g0 copy] reserved_flag [OF res(1)] res(2) ok by simp
qed





text \<open>When the reduction of the first iteration fails while the thread holds the eager segment,
  the error exit gives back the base mask but not the eager one: \<open>eager_in_use\<close> stays set although
  no thread holds the segment, and no later allocation of the process can use it.\<close>

theorem failed_reduction_leaks_eager:
  assumes g: "globals_ok g" "\<not> eager_in_use g" and n: "0 < n" "n < 63" "eager_nelem g < 0" and w: "local_wf stack"
  shows "MPIR_Get_contextid_sparse_group (\<lambda>_ _. Inl e) rmin n a stack comm INTRACOMM grp tag False g
      = Some (g\<lparr>eager_nelem := n, eager_in_use := True\<rparr>, Inl (Allreduce_failed e))
    \<and> (\<forall>st. \<not> own_eager_mask (snd (reserve_eager (g\<lparr>eager_nelem := n, eager_in_use := True\<rparr>) st)))"
proof -
  let ?s = "sparse_start a comm tag stack"
  obtain g0 g1 st1 where c: "eager_setup n g = Some g0" "sparse_copy n False g ?s = Some (g1, st1)"
    "reserved g0 ?s g1 st1" "state_ok False st1" "local_mask st1 ! 64 = 0" "globals_ok g0" "0 \<le> eager_nelem g0"
    "own_eager_mask st1 = (\<not> eager_in_use g \<and> 0 < eager_nelem g0)"
    "g1 = (if own_eager_mask st1 then g0\<lparr>eager_in_use := True\<rparr> else g0)"
    by (rule first_copy [OF g(1) less_imp_le [OF n(1)] n(2) w])
  have g0: "g0 = g\<lparr>eager_nelem := n\<rparr>" using c(1) n by (auto simp: eager_setup_def split: if_splits)
  then have g1: "g1 = g\<lparr>eager_nelem := n, eager_in_use := True\<rparr>" using c(8,9) g(2) n(1) by simp
  have first: "first_iter st1" "\<not> own_mask st1"
    using c(3,4) by (auto simp: reserved_def sparse_start_def state_ok_def)
  then have "sparse_loop (\<lambda>_ _. Inl e) rmin n False 0 g ?s = Some (g1, Inl (Allreduce_failed e))"
    by (simp add: sparse_loop.simps [of _ _ _ _ 0] sparse_iteration_def c(2) sparse_fail_def)
  then show ?thesis using g1 by (simp add: MPIR_Get_contextid_sparse_group_def reserve_eager_def Let_def)
qed

theorem failed_reduction_leaks_eager_witness:
  "MPIR_Get_contextid_sparse_group (\<lambda>_ _. Inl MPI_ERR_OTHER) id 2 7 all_ones 0 INTRACOMM False 5 False
     (context_globals_init True)
   = Some ((context_globals_init True)\<lparr>eager_nelem := 2, eager_in_use := True\<rparr>, Inl (Allreduce_failed MPI_ERR_OTHER))"
  using failed_reduction_leaks_eager [of "context_globals_init True" 2 all_ones MPI_ERR_OTHER id 7 0 False 5]
  by (simp add: context_globals_init_def globals_ok_def init_free)

text \<open>The nonblocking allocation unlinks its list element when it succeeds; when the insertion of the
  broadcast then fails, its error exit unlinks it again and runs off the end of the list.\<close>

lemma failed_schedule_unlinks_twice:
  assumes g: "globals_ok g" and st: "state_ok False st" "own_mask st" "local_claim g False st" "listed st g"
    and free: "free_in (local_mask st) q" and fail: "sched (Sched_cb Gcn_bcast) = Some e"
  shows "sched_cb_gcn_allocate_cid sched tag tag_ub g st = None"
proof -
  have own: "\<not> own_eager_mask st" "\<not> first_iter st" using st(1,2) by (auto simp: state_ok_def)
  have li: "own_mask st \<longrightarrow> listed st g" using st(4) by simp
  from g st(1,3) li show ?thesis
  proof (cases rule: allocate_cases)
    case (took k g' p)
    have k: "k = Base" using took(1) own st(2) by (simp add: holds_def)
    let ?st = "gcn_store_ids (id_of_prefix p) (st\<lparr>own_eager_mask := False\<rparr>)"
    have try': "gcn_try g st = Some (g', ?st)" using took(1,4) by (simp add: gcn_try_eq)
    have self: "gcn_self ?st = gcn_self st" "ctx0 ?st = id_of_prefix p" "first_iter ?st = first_iter st"
      by (simp_all add: gcn_store_ids_def)
    have "gcn_unlink (gl_addr (gcn_self st)) (next_gcn g') = None"
      using took(9) k by (intro unlink_missing) (auto simp: gcn_remove_def)
    then have "gcn_fail g' ?st = None" using own(2) self by (simp add: gcn_fail_def remove_gcn_def)
    then show ?thesis using try' took(5) self fail
      by (simp add: sched_cb_gcn_allocate_cid_def exhausted_def Let_def)
  qed (use free own st(2) in \<open>auto simp: holds_def\<close>)
qed

end
