(* ===== verification/Context_Exhaustion.thy ===== *)
theory Context_Exhaustion
  imports Context_Theorems
begin

text \<open>
  What the exhaustion exit of the blocking allocation does to the other threads.  A thread that meets
  an exhausted mask has already given the base segment back; on its way out it clears \<open>mask_in_use\<close>
  twice more.  The run below interleaves three threads of one process: while the first is on its way
  out, the second, of a lower context id, takes the segment, the first clears the flag, and the third,
  of a still lower context id, takes the segment too.
\<close>

section \<open>Runs of one thread\<close>

text \<open>A blocking thread that waits in the list for its next iteration.\<close>

definition waiting :: "nat \<Rightarrow> MPIR_Context_id_t \<Rightarrow> ctx_thread \<Rightarrow> bool" where
  "waiting a comm t \<longleftrightarrow> \<not> th_ignore t \<and> \<not> th_nonblocking t \<and> th_phase t = Top \<and> \<not> first_iter (th_st t)
     \<and> \<not> own_eager_mask (th_st t) \<and> local_wf (local_mask (th_st t))
     \<and> gcn_self (th_st t) = \<lparr>gl_addr = a, gl_comm = comm, gl_tag = 0\<rparr>"

text \<open>Without eager identifiers the first iteration only enters the list.\<close>

lemma enlist_run:
  assumes s: "ctx_reach 0 True s" "sys_threads s a = None" "eager_nelem (sys_g s) \<le> 0"
  obtains t where "waiting a comm t"
    "ctx_reach 0 True (put s ((sys_g s)\<lparr>eager_nelem := 0,
       next_gcn := add_gcn_to_list \<lparr>gl_addr = a, gl_comm = comm, gl_tag = 0\<rparr> (next_gcn (sys_g s))\<rparr>) a (Some t))"
proof -
  let ?st0 = "sparse_start a comm 0 all_ones" let ?g = "(sys_g s)\<lparr>eager_nelem := 0\<rparr>"
  let ?t = "\<lambda>ph st. \<lparr>th_ignore = False, th_nonblocking = False, th_phase = ph, th_st = st\<rparr>"
  let ?m = "memset_mask 0 all_ones" let ?st1 = "?st0\<lparr>local_mask := ?m[64 := 0]\<rparr>"
  let ?st2 = "?st1\<lparr>local_mask := band (local_mask ?st1) all_ones\<rparr>" let ?st3 = "?st2\<lparr>first_iter := False\<rparr>"
  have su: "eager_setup 0 (sys_g s) = Some ?g" using s(3) by (auto simp: eager_setup_def)
  have r1: "ctx_reach 0 True (put s (sys_g s) a (Some (?t Top ?st0)))"
    by (rule ctx_reach.more [OF s(1) ctx_step.enter]) (simp_all add: s(2))
  have "sparse_copy 0 False (sys_g s) ?st0 = Some (?g, ?st1)"
    by (simp add: sparse_copy_def su sparse_start_def reserve_eager_def Let_def set_own_flag_def)
  then have r2: "ctx_reach 0 True (put s ?g a (Some (?t Reducing ?st1)))"
    using ctx_reach.more [OF r1 ctx_step.copy, of a "?t Top ?st0" ?g ?st1] by (simp add: put_put)
  have r3: "ctx_reach 0 True (put s ?g a (Some (?t Reduced ?st2)))"
    using ctx_reach.more [OF r2 ctx_step.reduce, of a "?t Reducing ?st1" all_ones] by (simp add: put_put)
  have wf: "local_wf ?m" by simp
  have flag: "band (?m[64 := 0]) all_ones ! 64 = 0"
    using band_flag [of "?m[64 := 0]" all_ones] wf by (simp add: local_wf_def all_ones_def)
  have "sparse_allocate False ?g ?st2 = Some (?g, ?st2, 0)" by (simp add: sparse_allocate_def sparse_start_def)
  then have r4: "ctx_reach 0 True (put s ?g a (Some (?t Tried ?st2)))"
    using ctx_reach.more [OF r3 ctx_step.allocate, of a "?t Reduced ?st2" ?g ?st2 0] flag
    by (simp add: put_put now_live_def exhausted_def)
  let ?g' = "?g\<lparr>next_gcn := add_gcn_to_list \<lparr>gl_addr = a, gl_comm = comm, gl_tag = 0\<rparr> (next_gcn (sys_g s))\<rparr>"
  have "end_first_iter False 0 ?g ?st2 = (?g', ?st3)" by (simp add: end_first_iter_def sparse_start_def)
  then have "ctx_reach 0 True (put s ?g' a (Some (?t Top ?st3)))"
    using ctx_reach.more [OF r4 ctx_step.retry, of a "?t Tried ?st2" ?g' ?st3] by (simp add: put_put)
  moreover have "waiting a comm (?t Top ?st3)" using wf by (simp add: waiting_def sparse_start_def)
  ultimately show thesis by (rule that [rotated])
qed

text \<open>The head of the list takes the base segment.\<close>

lemma take_run:
  assumes s: "ctx_reach 0 True s" "sys_threads s a = Some t" "waiting a comm t" "eager_nelem (sys_g s) = 0"
    and head: "next_gcn (sys_g s) = \<lparr>gl_addr = a, gl_comm = comm, gl_tag = 0\<rparr> # l" "\<not> mask_in_use (sys_g s)"
    and m: "mask_wf (context_mask (sys_g s))"
  obtains t' where "th_phase t' = Reducing" "\<not> th_ignore t'" "\<not> th_nonblocking t'" "th_holds t' = Some Base" "own_mask (th_st t')"
    "\<not> own_eager_mask (th_st t')" "\<not> first_iter (th_st t')" "local_wf (local_mask (th_st t'))" "local_mask (th_st t') ! 64 = 1"
    "ctx_reach 0 True (put s ((sys_g s)\<lparr>mask_in_use := True\<rparr>) a (Some t'))"
proof -
  let ?g = "(sys_g s)\<lparr>mask_in_use := True\<rparr>"
  have t: "\<not> th_ignore t" "\<not> th_nonblocking t" "th_phase t = Top" "\<not> first_iter (th_st t)" "\<not> own_eager_mask (th_st t)"
    "local_wf (local_mask (th_st t))" "gcn_self (th_st t) = \<lparr>gl_addr = a, gl_comm = comm, gl_tag = 0\<rparr>"
    using s(3) by (simp_all add: waiting_def)
  obtain st where rb: "reserve_base (sys_g s) (th_st t) = (?g, st)" "own_mask st" "own_eager_mask st = own_eager_mask (th_st t)"
      "first_iter st = first_iter (th_st t)"
      "local_mask st = copy_words 0 64 (context_mask (sys_g s)) (copy_words 0 0 [] (local_mask (th_st t)))"
    using head t(7) s(4) by (simp add: reserve_base_def is_next_gcn_def)
  have wf: "local_wf (local_mask st)" using t(6) m unfolding rb(5) by (auto simp: local_wf_def mask_wf_def copy_words_def)
  let ?t = "t\<lparr>th_phase := Reducing, th_st := set_own_flag True st\<rparr>"
  have "sparse_copy 0 False (sys_g s) (th_st t) = Some (?g, set_own_flag True st)"
    using head(1) t(4) s(4) rb(1,2) by (simp add: sparse_copy_def eager_setup_def)
  then have r: "ctx_reach 0 True (put s ?g a (Some ?t))" using s t by (intro ctx_reach.more [OF s(1) ctx_step.copy]) simp_all
  show thesis
    by (rule that [OF _ _ _ _ _ _ _ _ _ r])
       (use t rb wf in \<open>simp_all add: th_holds_def active_def holds_def set_own_flag_def local_wf_def\<close>)
qed

text \<open>All participants own their mask and have no identifier in common: the thread gives the segment
  back and enters the exhaustion exit.\<close>

lemma exhaust_run:
  assumes s: "ctx_reach 0 True s" "sys_threads s a = Some t" "th_phase t = Reducing" "\<not> th_ignore t" "\<not> th_nonblocking t"
    and st: "own_mask (th_st t)" "\<not> own_eager_mask (th_st t)" "local_wf (local_mask (th_st t))" "local_mask (th_st t) ! 64 = 1"
  obtains t' where "th_phase t' = Exhausted" "\<not> th_nonblocking t'" "own_mask (th_st t')"
    "ctx_reach 0 True (put s ((sys_g s)\<lparr>mask_in_use := False\<rparr>) a (Some t'))"
proof -
  let ?o = "(memset_mask 0 all_ones)[64 := 1]" let ?m = "band (local_mask (th_st t)) ?o"
  let ?st = "(th_st t)\<lparr>local_mask := ?m\<rparr>" let ?g = "(sys_g s)\<lparr>mask_in_use := False\<rparr>"
  have oo: "local_wf ?o" "?o ! 64 = 1" by (simp_all add: local_wf_def memset_mask_def all_ones_def)
  have none: "\<forall>p. \<not> free_in ?m p" using st(3) oo(1) by (simp add: free_flag)
  have flag: "?m ! 64 = 1" using band_flag [OF st(3) oo(1)] st(4) oo(2) by simp
  have r1: "ctx_reach 0 True (put s (sys_g s) a (Some (t\<lparr>th_phase := Reduced, th_st := ?st\<rparr>)))"
    by (rule ctx_reach.more [OF s(1) ctx_step.reduce [OF s(2,3) oo(1)]])
  have "sparse_allocate False (sys_g s) ?st = Some (?g, ?st, 0)"
    using st(1,2) locate_none [OF none] by (simp add: sparse_allocate_def find_and_allocate_context_id_def Let_def)
  then have "ctx_reach 0 True (put s ?g a (Some (t\<lparr>th_phase := Exhausted, th_st := ?st\<rparr>)))"
    using ctx_reach.more [OF r1 ctx_step.allocate, of a "t\<lparr>th_phase := Reduced, th_st := ?st\<rparr>" ?g ?st 0] s(4,5) flag
    by (simp add: put_put now_live_def exhausted_def)
  then show thesis using s(5) st(1) by (intro that [of "t\<lparr>th_phase := Exhausted, th_st := ?st\<rparr>"]) simp_all
qed

section \<open>Two holders\<close>

text \<open>Three threads of one process reach a state in which two of them hold the base segment.\<close>

theorem exhaustion_exit_breaks_exclusion:
  "\<exists>s t u. ctx_reach 0 True s \<and> sys_stolen s \<and> sys_threads s 2 = Some t \<and> sys_threads s 3 = Some u
     \<and> th_holds t = Some Base \<and> th_holds u = Some Base"
proof -
  let ?l = "\<lambda>a comm. \<lparr>gl_addr = a, gl_comm = comm, gl_tag = 0\<rparr>"
  let ?s0 = "sys_start True" let ?m = "MPIR_context_id_init True"
  let ?G = "\<lambda>b l. \<lparr>context_mask = ?m, eager_nelem = 0, eager_in_use = False, mask_in_use = b, next_gcn = l\<rparr>"
  have g0: "sys_g ?s0 = (?G False [])\<lparr>eager_nelem := - 1\<rparr>" "sys_threads ?s0 = Map.empty" "mask_wf ?m"
    by (simp_all add: sys_start_def context_globals_init_def)
  obtain t1 where A1: "waiting 1 30 t1" "ctx_reach 0 True (put ?s0 (?G False [?l 1 30]) 1 (Some t1))"
    by (rule enlist_run [OF ctx_reach.start, where a = 1 and comm = 30]) (simp_all add: g0 add_gcn_to_list_def)
  obtain t2 where A2: "th_phase t2 = Reducing" "\<not> th_ignore t2" "\<not> th_nonblocking t2" "own_mask (th_st t2)" "\<not> own_eager_mask (th_st t2)"
      "local_wf (local_mask (th_st t2))" "local_mask (th_st t2) ! 64 = 1"
      "ctx_reach 0 True (put ?s0 (?G True [?l 1 30]) 1 (Some t2))"
    by (rule take_run [OF A1(2) _ A1(1), where l = "[]"]) (simp_all add: g0 put_put)
  obtain t3 where A3: "th_phase t3 = Exhausted" "\<not> th_nonblocking t3" "own_mask (th_st t3)"
      "ctx_reach 0 True (put ?s0 (?G False [?l 1 30]) 1 (Some t3))"
    by (rule exhaust_run [OF A2(8) _ A2(1-7), where a = 1]) (simp_all add: put_put)
  let ?s3 = "put ?s0 (?G False [?l 1 30]) 1 (Some t3)"
  obtain u1 where B1: "waiting 2 20 u1" "ctx_reach 0 True (put ?s3 (?G False [?l 2 20, ?l 1 30]) 2 (Some u1))"
    by (rule enlist_run [OF A3(4), where a = 2 and comm = 20]) (simp_all add: g0 add_gcn_to_list_def)
  obtain u2 where B2: "th_holds u2 = Some Base"
      "ctx_reach 0 True (put ?s3 (?G True [?l 2 20, ?l 1 30]) 2 (Some u2))"
    by (rule take_run [OF B1(2) _ B1(1), where l = "[?l 1 30]"]) (simp_all add: g0 put_put)
  let ?s5 = "put ?s3 (?G True [?l 2 20, ?l 1 30]) 2 (Some u2)"
  let ?s6 = "put (clears_mask 1 t3 ?s5) (?G False [?l 2 20, ?l 1 30]) 1 (Some (t3\<lparr>th_phase := Failing\<rparr>))"
  have r6: "ctx_reach 0 True ?s6"
    using ctx_reach.more [OF B2(2) ctx_step.exhausted_clears, of 1 t3] A3(1-3) by (simp add: exhausted_release_def)
  have stolen: "sys_stolen ?s6" using A3(3) B2(1) by (auto simp: base_held_def)
  obtain v1 where C1: "waiting 3 10 v1"
      "ctx_reach 0 True (put ?s6 (?G False [?l 3 10, ?l 2 20, ?l 1 30]) 3 (Some v1))"
    by (rule enlist_run [OF r6, where a = 3 and comm = 10]) (simp_all add: g0 add_gcn_to_list_def)
  obtain v2 where C2: "th_holds v2 = Some Base"
      "ctx_reach 0 True (put ?s6 (?G True [?l 3 10, ?l 2 20, ?l 1 30]) 3 (Some v2))"
    by (rule take_run [OF C1(2) _ C1(1), where l = "[?l 2 20, ?l 1 30]"]) (simp_all add: g0 put_put)
  show ?thesis
    by (rule exI [of _ "put ?s6 (?G True [?l 3 10, ?l 2 20, ?l 1 30]) 3 (Some v2)"])
       (use C2 B2(1) stolen in simp)
qed

end
