(* ===== verification/Part_Comm.thy ===== *)
theory Part_Comm
  imports Psmpi_Prelude
begin

text \<open>
  Partitioned communication of the PSP device, \<open>mpid/psp/src/mpid_part.c\<close>: how the partitions of a
  send or receive request are mapped to sub-requests, how the two sides shake hands, and when a
  sub-request is sent.

  A partitioned request is the record \<open>part_req\<close>, the part of \<open>MPIR_Request\<close> and of
  \<open>struct MPID_DEV_Request_partitioned\<close> the file uses.  Requests live at addresses; a process is
  its store of requests, its two matching lists and what it has handed to the layers below, in
  order.  Whether \<open>MPID_Isend\<close> and \<open>MPID_Irecv\<close> succeed, what a compressor returns and whether
  pscom has already started a posted receive are arguments.  \<open>MPI_Aint\<close> is a 64-bit integer:
  an overflow has no result.
\<close>

section \<open>Requests\<close>

datatype part_kind = PART_SEND | PART_RECV

record compr_part =
  compr_buffer :: int
  compr_part_size :: int
  compr_buf_free :: bool
  compr_inflates :: bool

record part_req =
  p_kind :: part_kind
  p_buf :: int
  p_partitions :: int
  p_count :: int
  p_dtype_size :: int
  p_rank :: int
  p_tag :: int
  p_context_id :: int
  p_context_offset :: int
  p_peer_request :: "nat option"
  p_sdata_size :: int
  p_part_per_req :: int
  p_requests :: int
  p_part_ready :: "bool list option"
  p_first_use :: bool
  p_send_ctr :: int
  p_compr_req :: "compr_part option"
  p_comm_rank :: int
  p_active :: bool
  p_cc :: int
  p_status_error :: "mpi_error option"
  p_status_count :: int
  p_ref_count :: int

record data_call =
  dc_buf :: int
  dc_count :: int
  dc_compressed :: bool
  dc_rank :: int
  dc_tag :: int
  dc_partition :: "(int \<times> int \<times> int) option"

datatype ctrl_type = PART_SEND_INIT | PART_CLEAR_TO_SEND

record part_header =
  ph_type :: ctrl_type
  ph_tag :: int
  ph_context_id :: int
  ph_src_rank :: int
  ph_sdata_size :: int
  ph_requests :: int
  ph_sreq :: "nat option"
  ph_rreq :: "nat option"

datatype part_out =
    Isend data_call
  | Irecv data_call
  | SendPartitionedCtrl int part_header
  | RecvPartitionedCtrl ctrl_type int int int

record part_env =
  pe_isend :: "data_call \<Rightarrow> mpi_error option"
  pe_irecv :: "data_call \<Rightarrow> mpi_error option"
  pe_deflate :: "int \<Rightarrow> int \<Rightarrow> int \<Rightarrow> int \<Rightarrow> int mpi_result"
  pe_not_started :: "data_call \<Rightarrow> bool"

definition MPIR_AINT_MAX :: int where "MPIR_AINT_MAX = 9223372036854775807"

definition caint :: "int \<Rightarrow> int option" where
  "caint x = (if - MPIR_AINT_MAX - 1 \<le> x \<and> x \<le> MPIR_AINT_MAX then Some x else None)"

text \<open>\<open>MPI_Aint\<close> to \<open>int\<close>: the assignment to \<open>msg_tag\<close> wraps.\<close>

definition int_of_aint :: "int \<Rightarrow> int" where
  "int_of_aint x = sint (word_of_int x :: 32 word)"

text \<open>\<open>MPIDI_PSP_PART_REQ_USES_COMPRESSOR\<close>: a compressor without \<open>inflate_fn\<close> is not used.\<close>

definition uses_compressor :: "part_req \<Rightarrow> compr_part option" where
  "uses_compressor preq =
     (case p_compr_req preq of None \<Rightarrow> None | Some c \<Rightarrow> if compr_inflates c then Some c else None)"

section \<open>Matching\<close>

definition partitioned_requests_do_match :: "int \<Rightarrow> int \<Rightarrow> int \<Rightarrow> part_req \<Rightarrow> bool" where
  "partitioned_requests_do_match rank tag context_id preq \<longleftrightarrow>
     p_rank preq = rank \<and> p_tag preq = tag \<and> p_context_id preq = context_id"

fun match_and_deq_request :: "('a \<Rightarrow> bool) \<Rightarrow> 'a list \<Rightarrow> ('a \<times> 'a list) option" where
  "match_and_deq_request do_match [] = None"
| "match_and_deq_request do_match (r # queue) =
     (if do_match r then Some (r, queue)
      else map_option (\<lambda>(x, rest). (x, r # rest)) (match_and_deq_request do_match queue))"

definition MPID_PSP_part_request_matched :: "part_req \<Rightarrow> part_req option" where
  "MPID_PSP_part_request_matched preq = do {
     elements \<leftarrow> caint (p_count preq * p_partitions preq);
     rdata_size \<leftarrow> caint (p_dtype_size preq * elements);
     Some (preq\<lparr>p_status_count := p_sdata_size preq,
                p_status_error := (if p_sdata_size preq \<noteq> rdata_size then Some MPI_ERR_OTHER else None)\<rparr>)
   }"

section \<open>Sub-requests\<close>

definition sub_elements :: "part_req \<Rightarrow> int option" where
  "sub_elements preq = do {
     elements \<leftarrow> caint (p_count preq * p_part_per_req preq);
     if elements < MPIR_AINT_MAX then Some elements else None
   }"

definition last_elements :: "part_req \<Rightarrow> int \<Rightarrow> int \<Rightarrow> int option" where
  "last_elements preq idx elements =
     (if idx = p_requests preq - 1
      then do {
        whole \<leftarrow> caint (p_count preq * p_partitions preq);
        front \<leftarrow> caint (idx * elements);
        caint (whole - front)
      }
      else Some elements)"

definition recv_call :: "part_req \<Rightarrow> int \<Rightarrow> int \<Rightarrow> data_call option" where
  "recv_call preq elements i = do {
     offset \<leftarrow> caint (i * elements);
     elements \<leftarrow> last_elements preq i elements;
     disp \<leftarrow> caint (p_dtype_size preq * offset);
     let part_buf = p_buf preq + disp;
     let msg_tag = int_of_aint (p_tag preq + i + 1);
     Some (case uses_compressor preq of
             None \<Rightarrow>
               \<lparr>dc_buf = part_buf, dc_count = elements, dc_compressed = False, dc_rank = p_rank preq,
                dc_tag = msg_tag, dc_partition = None\<rparr>
           | Some c \<Rightarrow>
               \<lparr>dc_buf = compr_buffer c + i * compr_part_size c, dc_count = compr_part_size c,
                dc_compressed = True, dc_rank = p_rank preq, dc_tag = msg_tag,
                dc_partition = Some (i, elements, part_buf)\<rparr>)
   }"

fun issue_recvs :: "part_env \<Rightarrow> part_req \<Rightarrow> int \<Rightarrow> int list \<Rightarrow> (part_out list \<times> mpi_error option) option" where
  "issue_recvs env preq elements [] = Some ([], None)"
| "issue_recvs env preq elements (i # is') = do {
     call \<leftarrow> recv_call preq elements i;
     case pe_irecv env call of
       Some e \<Rightarrow> Some ([], Some e)
     | None \<Rightarrow>
         if dc_compressed call \<and> \<not> pe_not_started env call then None
         else do {
           (outs, r) \<leftarrow> issue_recvs env preq elements is';
           Some (Irecv call # outs, r)
         }
   }"

definition MPID_part_issue_data_recv ::
  "part_env \<Rightarrow> part_req \<Rightarrow> (part_out list \<times> mpi_error option) option" where
  "MPID_part_issue_data_recv env preq =
     (if p_kind preq \<noteq> PART_RECV then Some ([], Some MPI_ERR_ARG)
      else do {
        elements \<leftarrow> sub_elements preq;
        issue_recvs env preq elements (map int [0..<nat (p_requests preq)])
      })"

definition send_call :: "part_env \<Rightarrow> part_req \<Rightarrow> int \<Rightarrow> (mpi_error + data_call) option" where
  "send_call env preq req_idx = do {
     elements \<leftarrow> sub_elements preq;
     elements \<leftarrow> last_elements preq req_idx elements;
     disp \<leftarrow> caint (req_idx * elements * p_dtype_size preq);
     let part_buf = p_buf preq + disp;
     msg_tag \<leftarrow> cint (p_tag preq + req_idx + 1);
     case uses_compressor preq of
       None \<Rightarrow>
         Some (Inr \<lparr>dc_buf = part_buf, dc_count = elements, dc_compressed = False, dc_rank = p_rank preq,
                    dc_tag = msg_tag, dc_partition = None\<rparr>)
     | Some c \<Rightarrow>
         (case pe_deflate env part_buf req_idx elements (p_dtype_size preq * elements) of
            Inl _ \<Rightarrow> Some (Inl MPI_ERR_OTHER)
          | Inr csize \<Rightarrow>
              if csize \<le> compr_part_size c
              then Some (Inr \<lparr>dc_buf = compr_buffer c + req_idx * compr_part_size c, dc_count = csize,
                              dc_compressed = True, dc_rank = p_rank preq, dc_tag = msg_tag,
                              dc_partition = None\<rparr>)
              else None)
   }"

definition sub_request_sent :: "part_req \<Rightarrow> part_req" where
  "sub_request_sent preq =
     (if p_send_ctr preq + 1 = p_requests preq
      then preq\<lparr>p_part_ready := None, p_peer_request := None, p_send_ctr := 0\<rparr>
      else preq\<lparr>p_send_ctr := p_send_ctr preq + 1\<rparr>)"

type_synonym send_result = "(part_req \<times> part_out list \<times> mpi_error option) option"

definition MPID_part_issue_data_send :: "part_env \<Rightarrow> int \<Rightarrow> part_req \<Rightarrow> send_result" where
  "MPID_part_issue_data_send env req_idx preq =
     (if p_kind preq \<noteq> PART_SEND then Some (preq, [], Some MPI_ERR_ARG)
      else do {
        r \<leftarrow> send_call env preq req_idx;
        case r of
          Inl e \<Rightarrow> Some (preq, [], Some e)
        | Inr call \<Rightarrow>
            (case pe_isend env call of
               Some e \<Rightarrow> Some (preq, [], Some e)
             | None \<Rightarrow> Some (sub_request_sent preq, [Isend call], None))
      })"

text \<open>\<open>part_ready\<close> is read at the existing partitions of the sub-request, up to the first that is
  not ready.\<close>

definition sub_partitions :: "part_req \<Rightarrow> int \<Rightarrow> int list" where
  "sub_partitions preq req_idx =
     filter (\<lambda>p. p < p_partitions preq)
       (map (\<lambda>i. req_idx * p_part_per_req preq + int i) [0..<nat (p_part_per_req preq)])"

fun all_ready :: "bool list option \<Rightarrow> int list \<Rightarrow> bool option" where
  "all_ready ready [] = Some True"
| "all_ready ready (p # ps) = do {
     flags \<leftarrow> ready;
     b \<leftarrow> aget flags p;
     if b then all_ready ready ps else Some False
   }"

definition MPID_part_send_if_ready :: "part_env \<Rightarrow> int \<Rightarrow> part_req \<Rightarrow> send_result" where
  "MPID_part_send_if_ready env req_idx preq =
     (if p_peer_request preq = None then Some (preq, [], None)
      else do {
        req_ready \<leftarrow> all_ready (p_part_ready preq) (sub_partitions preq req_idx);
        if req_ready then MPID_part_issue_data_send env req_idx preq else Some (preq, [], None)
      })"

fun send_each :: "('a \<Rightarrow> part_req \<Rightarrow> send_result) \<Rightarrow> 'a list \<Rightarrow> part_req \<Rightarrow> send_result" where
  "send_each f [] preq = Some (preq, [], None)"
| "send_each f (i # is') preq = do {
     (preq, outs, r) \<leftarrow> f i preq;
     case r of
       Some e \<Rightarrow> Some (preq, outs, Some e)
     | None \<Rightarrow> do {
         (preq, outs', r) \<leftarrow> send_each f is' preq;
         Some (preq, outs @ outs', r)
       }
   }"

definition MPID_part_check_data_transmission :: "part_env \<Rightarrow> int \<Rightarrow> part_req \<Rightarrow> send_result" where
  "MPID_part_check_data_transmission env part preq =
     (if 0 \<le> part
      then if p_part_per_req preq = 0 then None
           else MPID_part_send_if_ready env (cdiv part (p_part_per_req preq)) preq
      else send_each (MPID_part_send_if_ready env) (map int [0..<nat (p_requests preq)]) preq)"

definition MPID_part_check_num_requests :: "int \<Rightarrow> part_req \<Rightarrow> part_req option" where
  "MPID_part_check_num_requests num_peer_requests preq =
     (if p_requests preq \<noteq> num_peer_requests
      then let r = min (p_requests preq) num_peer_requests
           in if r = 0 then None
              else let ppr = cdiv (p_partitions preq) r;
                       rem = p_partitions preq - ppr * r
                   in Some (preq\<lparr>p_requests := r, p_part_per_req := (if 0 < rem then ppr + 1 else ppr)\<rparr>)
      else Some preq)"

definition MPID_part_set_ready :: "int \<Rightarrow> part_req \<Rightarrow> (part_req \<times> mpi_error option) option" where
  "MPID_part_set_ready part preq =
     (case p_part_ready preq of
        None \<Rightarrow> Some (preq, Some MPI_ERR_OTHER)
      | Some flags \<Rightarrow> do {
          b \<leftarrow> aget flags part;
          if b then Some (preq, Some MPI_ERR_OTHER)
          else do {
            flags \<leftarrow> aset flags part True;
            Some (preq\<lparr>p_part_ready := Some flags\<rparr>, None)
          }
        })"

definition MPID_part_distribute_partitions_to_requests :: "part_req \<Rightarrow> part_req option" where
  "MPID_part_distribute_partitions_to_requests preq =
     (let preq = preq\<lparr>p_requests := p_partitions preq\<rparr>
      in if p_requests preq = 0 then None
         else Some (preq\<lparr>p_part_per_req := cdiv (p_partitions preq) (p_requests preq)\<rparr>))"

section \<open>Compressors\<close>

text \<open>
  What \<open>MPIDI_PSP_part_check_info\<close> finds out on its way: whether an info object is given and names
  a compressor, the two lookups, and the steps of loading a plugin.  A compressor's
  \<open>req_init_fn\<close> gets the partitions, the count and the datatype of the request by reference: it
  returns an error code, their new values, a size and a buffer (\<open>None\<close> for \<open>NULL\<close> and
  \<open>MPI_BUFFER_AUTOMATIC\<close>).  \<open>malloc\<close> gives the address of the automatic buffer.
\<close>

record compressor =
  cp_inflates :: bool
  cp_req_init :: "(int \<times> int \<times> int \<Rightarrow> mpi_error option \<times> (int \<times> int \<times> int) \<times> int \<times> int option) option"

record info_env =
  ie_info :: bool
  ie_names_compressor :: bool
  ie_lookup :: "compressor option"
  ie_plugins_enabled :: bool
  ie_plugin_named :: bool
  ie_dlopen :: bool
  ie_dlsym :: bool
  ie_register :: "mpi_error option"
  ie_lookup_again :: "compressor option"
  ie_malloc :: int

definition find_compressor :: "info_env \<Rightarrow> (mpi_error option \<times> compressor option)" where
  "find_compressor ie =
     (case ie_lookup ie of
        Some c \<Rightarrow> (None, Some c)
      | None \<Rightarrow>
          if \<not> ie_plugins_enabled ie then (None, None)
          else if \<not> ie_plugin_named ie then (None, None)
          else if \<not> ie_dlopen ie then (None, None)
          else if \<not> ie_dlsym ie then (None, None)
          else case ie_register ie of
                 Some e \<Rightarrow> (Some e, None)
               | None \<Rightarrow> (None, ie_lookup_again ie))"

definition set_compressor :: "info_env \<Rightarrow> compressor \<Rightarrow> int \<Rightarrow> int option \<Rightarrow> part_req \<Rightarrow> part_req option" where
  "set_compressor ie c sz buffer preq = do {
     sz \<leftarrow> (if sz = 0 then caint (p_dtype_size preq * p_count preq * p_partitions preq) else Some sz);
     let (buffer, buf_free) = (case buffer of None \<Rightarrow> (ie_malloc ie, True) | Some b \<Rightarrow> (b, False));
     if p_partitions preq = 0 then None
     else Some (preq\<lparr>p_compr_req := Some \<lparr>compr_buffer = buffer,
                  compr_part_size = cdiv sz (p_partitions preq), compr_buf_free = buf_free,
                  compr_inflates = cp_inflates c\<rparr>\<rparr>)
   }"

definition MPIDI_PSP_part_check_info ::
  "info_env \<Rightarrow> part_req \<Rightarrow> (part_req \<times> mpi_error option) option" where
  "MPIDI_PSP_part_check_info ie preq =
     (if \<not> ie_info ie then Some (preq, None)
      else if \<not> ie_names_compressor ie then Some (preq, None)
      else if p_part_per_req preq \<noteq> 1 then Some (preq, None)
      else
        case find_compressor ie of
          (r, None) \<Rightarrow> Some (preq, r)
        | (r, Some c) \<Rightarrow>
            (case cp_req_init c of
               None \<Rightarrow> map_option (\<lambda>q. (q, None)) (set_compressor ie c 0 None preq)
             | Some req_init_fn \<Rightarrow>
                 (case req_init_fn (p_partitions preq, p_count preq, p_dtype_size preq) of
                    (r, (partitions, cnt, dtype_size), sz, buffer) \<Rightarrow>
                      let preq = preq\<lparr>p_partitions := partitions, p_count := cnt, p_dtype_size := dtype_size\<rparr>
                      in case r of
                           Some e \<Rightarrow> Some (preq, Some e)
                         | None \<Rightarrow> map_option (\<lambda>q. (q, None)) (set_compressor ie c sz buffer preq))))"

section \<open>Processes\<close>

record part_unexp =
  u_rank :: int
  u_tag :: int
  u_context_id :: int
  u_sdata_size :: int
  u_peer_request :: "nat option"
  u_requests :: int

record part_proc =
  pp_reqs :: "nat \<Rightarrow> part_req option"
  part_posted_list :: "nat list"
  part_unexp_list :: "part_unexp list"
  pp_out :: "part_out list"

definition emit :: "part_out list \<Rightarrow> part_proc \<Rightarrow> part_proc" where
  "emit outs pp = pp\<lparr>pp_out := pp_out pp @ outs\<rparr>"

definition store :: "nat \<Rightarrow> part_req \<Rightarrow> part_proc \<Rightarrow> part_proc" where
  "store a preq pp = pp\<lparr>pp_reqs := (pp_reqs pp)(a := Some preq)\<rparr>"

definition ctrl_msg_of :: "ctrl_type \<Rightarrow> nat option \<Rightarrow> nat option \<Rightarrow> part_req \<Rightarrow> part_out" where
  "ctrl_msg_of t sreq rreq preq =
     SendPartitionedCtrl (p_rank preq)
       \<lparr>ph_type = t, ph_tag = p_tag preq, ph_context_id = p_context_id preq, ph_src_rank = p_comm_rank preq,
        ph_sdata_size = p_sdata_size preq, ph_requests = p_requests preq, ph_sreq = sreq, ph_rreq = rreq\<rparr>"

definition ctrl_recv_of :: "ctrl_type \<Rightarrow> part_req \<Rightarrow> part_out" where
  "ctrl_recv_of t preq = RecvPartitionedCtrl t (p_tag preq) (p_context_id preq) (p_rank preq)"

definition MPID_PSP_part_init_common ::
  "info_env \<Rightarrow> part_kind \<Rightarrow> int \<Rightarrow> int \<Rightarrow> int \<Rightarrow> int \<Rightarrow> int \<Rightarrow> int \<Rightarrow> int \<Rightarrow> int
    \<Rightarrow> (part_req \<times> mpi_error option) option" where
  "MPID_PSP_part_init_common ie kind buf partitions cnt dtype_size rank tag context_id comm_rank =
     (let preq = \<lparr>p_kind = kind, p_buf = buf, p_partitions = partitions, p_count = cnt,
        p_dtype_size = dtype_size, p_rank = rank, p_tag = tag, p_context_id = context_id,
        p_context_offset = 0, p_peer_request = None, p_sdata_size = 0, p_part_per_req = 0,
        p_requests = 0, p_part_ready = None, p_first_use = True, p_send_ctr = 0, p_compr_req = None,
        p_comm_rank = comm_rank, p_active = False, p_cc = 0, p_status_error = None, p_status_count = 0,
        p_ref_count = 1\<rparr>
      in do {
        preq \<leftarrow> MPID_part_distribute_partitions_to_requests preq;
        MPIDI_PSP_part_check_info ie preq
      })"

definition MPID_PSP_psend_start :: "part_env \<Rightarrow> part_req \<Rightarrow> send_result" where
  "MPID_PSP_psend_start env preq =
     (if p_kind preq \<noteq> PART_SEND then Some (preq, [], Some MPI_ERR_ARG)
      else
        let preq = preq\<lparr>p_part_ready := Some (replicate (nat (p_partitions preq)) False), p_send_ctr := 0\<rparr>;
            outs = (if p_first_use preq then [] else [ctrl_recv_of PART_CLEAR_TO_SEND preq]);
            preq = preq\<lparr>p_first_use := False, p_active := True, p_cc := p_requests preq\<rparr>
        in if p_peer_request preq = None then Some (preq, outs, None)
           else do {
             (preq, outs', r) \<leftarrow> MPID_part_check_data_transmission env (-1) preq;
             Some (preq, outs @ outs', r)
           })"

definition clear_to_send ::
  "part_env \<Rightarrow> nat \<Rightarrow> part_req \<Rightarrow> (part_out list \<times> mpi_error option) option" where
  "clear_to_send env a preq = do {
     (outs, r) \<leftarrow> MPID_part_issue_data_recv env preq;
     Some (ctrl_msg_of PART_CLEAR_TO_SEND (p_peer_request preq) (Some a) preq # outs, r)
   }"

definition MPID_PSP_precv_start :: "part_env \<Rightarrow> nat \<Rightarrow> part_req \<Rightarrow> send_result" where
  "MPID_PSP_precv_start env a preq =
     (if p_kind preq \<noteq> PART_RECV then Some (preq, [], Some MPI_ERR_ARG)
      else
        let preq = preq\<lparr>p_active := True, p_cc := p_requests preq\<rparr>
        in if p_peer_request preq = None then Some (preq, [], None)
           else do {
             (outs, r) \<leftarrow> clear_to_send env a preq;
             Some (preq, outs, r)
           })"

definition MPID_Psend_init ::
  "info_env \<Rightarrow> nat \<Rightarrow> int \<Rightarrow> int \<Rightarrow> int \<Rightarrow> int \<Rightarrow> int \<Rightarrow> int \<Rightarrow> int \<Rightarrow> int \<Rightarrow> part_proc
    \<Rightarrow> (part_proc \<times> mpi_error option) option" where
  "MPID_Psend_init ie a buf partitions cnt dtype_size dest tag context_id comm_rank pp = do {
     (preq, r) \<leftarrow> MPID_PSP_part_init_common ie PART_SEND buf partitions cnt dtype_size dest tag context_id comm_rank;
     case r of
       Some e \<Rightarrow> Some (pp, Some e)
     | None \<Rightarrow> do {
         sdata \<leftarrow> caint (dtype_size * cnt * partitions);
         let preq = preq\<lparr>p_sdata_size := sdata\<rparr>;
         Some (emit [ctrl_recv_of PART_CLEAR_TO_SEND preq, ctrl_msg_of PART_SEND_INIT (Some a) None preq]
                 (store a preq pp), None)
       }
   }"

definition adopt_peer :: "int \<Rightarrow> nat option \<Rightarrow> int \<Rightarrow> part_req \<Rightarrow> part_req option" where
  "adopt_peer sdata_size peer requests preq = do {
     preq \<leftarrow> MPID_part_check_num_requests requests (preq\<lparr>p_sdata_size := sdata_size, p_peer_request := peer\<rparr>);
     MPID_PSP_part_request_matched preq
   }"

definition unexp_matches :: "int \<Rightarrow> int \<Rightarrow> int \<Rightarrow> part_unexp \<Rightarrow> bool" where
  "unexp_matches rank tag context_id u \<longleftrightarrow> u_rank u = rank \<and> u_tag u = tag \<and> u_context_id u = context_id"

definition posted_matches :: "int \<Rightarrow> int \<Rightarrow> int \<Rightarrow> part_proc \<Rightarrow> nat \<Rightarrow> bool" where
  "posted_matches rank tag context_id pp a =
     (case pp_reqs pp a of None \<Rightarrow> False | Some preq \<Rightarrow> partitioned_requests_do_match rank tag context_id preq)"

definition MPID_Precv_init ::
  "info_env \<Rightarrow> nat \<Rightarrow> int \<Rightarrow> int \<Rightarrow> int \<Rightarrow> int \<Rightarrow> int \<Rightarrow> int \<Rightarrow> int \<Rightarrow> int \<Rightarrow> part_proc
    \<Rightarrow> (part_proc \<times> mpi_error option) option" where
  "MPID_Precv_init ie a buf partitions cnt dtype_size source tag context_id comm_rank pp = do {
     (preq, r) \<leftarrow> MPID_PSP_part_init_common ie PART_RECV buf partitions cnt dtype_size source tag context_id comm_rank;
     case r of
       Some e \<Rightarrow> Some (pp, Some e)
     | None \<Rightarrow>
         let pp = emit [ctrl_recv_of PART_SEND_INIT preq] pp
         in case match_and_deq_request (unexp_matches (p_rank preq) (p_tag preq) (p_context_id preq)) (part_unexp_list pp) of
              Some (u, rest) \<Rightarrow> do {
                preq \<leftarrow> adopt_peer (u_sdata_size u) (u_peer_request u) (u_requests u) preq;
                Some (store a preq (pp\<lparr>part_unexp_list := rest\<rparr>), None)
              }
            | None \<Rightarrow>
                Some (store a (preq\<lparr>p_ref_count := p_ref_count preq + 1\<rparr>)
                        (pp\<lparr>part_posted_list := part_posted_list pp @ [a]\<rparr>), None)
   }"

definition MPID_do_recv_part_send_init :: "part_env \<Rightarrow> part_header \<Rightarrow> part_proc \<Rightarrow> part_proc option" where
  "MPID_do_recv_part_send_init env h pp =
     (case match_and_deq_request (posted_matches (ph_src_rank h) (ph_tag h) (ph_context_id h) pp) (part_posted_list pp) of
        Some (a, rest) \<Rightarrow> do {
          preq \<leftarrow> pp_reqs pp a;
          preq \<leftarrow> adopt_peer (ph_sdata_size h) (ph_sreq h) (ph_requests h) preq;
          let pp = pp\<lparr>part_posted_list := rest\<rparr>;
          if p_active preq then do {
            let preq = preq\<lparr>p_cc := p_requests preq\<rparr>;
            (outs, r) \<leftarrow> clear_to_send env a preq;
            let preq = (if r = None then preq\<lparr>p_ref_count := p_ref_count preq - 1\<rparr> else preq);
            Some (emit outs (store a preq pp))
          }
          else Some (store a (preq\<lparr>p_ref_count := p_ref_count preq - 1\<rparr>) pp)
        }
      | None \<Rightarrow>
          Some (pp\<lparr>part_unexp_list := part_unexp_list pp @
                  [\<lparr>u_rank = ph_src_rank h, u_tag = ph_tag h, u_context_id = ph_context_id h,
                    u_sdata_size = ph_sdata_size h, u_peer_request = ph_sreq h, u_requests = ph_requests h\<rparr>]\<rparr>))"

definition MPID_do_recv_part_cts :: "part_env \<Rightarrow> part_header \<Rightarrow> part_req \<Rightarrow> send_result" where
  "MPID_do_recv_part_cts env h preq = do {
     preq \<leftarrow> MPID_part_check_num_requests (ph_requests h) (preq\<lparr>p_peer_request := ph_rreq h\<rparr>);
     if p_active preq then do {
       (preq, outs, r) \<leftarrow> MPID_part_check_data_transmission env (-1) (preq\<lparr>p_cc := p_requests preq\<rparr>);
       Some (if r = None then preq else preq\<lparr>p_status_error := Some MPI_ERR_OTHER\<rparr>, outs, r)
     }
     else Some (preq, [], None)
   }"

definition pready :: "part_env \<Rightarrow> int \<Rightarrow> part_req \<Rightarrow> send_result" where
  "pready env part preq = do {
     (preq, r) \<leftarrow> MPID_part_set_ready part preq;
     case r of
       Some e \<Rightarrow> Some (preq, [], Some e)
     | None \<Rightarrow> MPID_part_check_data_transmission env part preq
   }"

definition MPID_Pready_range :: "part_env \<Rightarrow> int \<Rightarrow> int \<Rightarrow> part_req \<Rightarrow> send_result" where
  "MPID_Pready_range env partition_low partition_high preq =
     send_each (pready env) [partition_low..partition_high] preq"

definition MPID_Pready_list :: "part_env \<Rightarrow> int list \<Rightarrow> part_req \<Rightarrow> send_result" where
  "MPID_Pready_list env array_of_partitions preq = send_each (pready env) array_of_partitions preq"

definition MPID_Parrived :: "(part_proc \<Rightarrow> part_proc \<times> mpi_error option) \<Rightarrow> nat \<Rightarrow> part_proc
    \<Rightarrow> (part_proc \<times> bool \<times> mpi_error option) option" where
  "MPID_Parrived progress_test a pp = do {
     preq \<leftarrow> pp_reqs pp a;
     Some (if p_cc preq = 0 then (pp, True, None)
           else case progress_test pp of (pp, r) \<Rightarrow> (pp, False, r))
   }"

end
