(* ===== verification/Part_Theorems.thy ===== *)
theory Part_Theorems
  imports Part_Comm
begin

text \<open>
  Partitioned communication: the buffers of the sub-requests on both sides, the exactly-once
  transmission of a started send request, the matching lists, the negotiation of the number of
  sub-requests, and the cases in which the code goes wrong.
\<close>

section \<open>Layout of the sub-requests\<close>

text \<open>A request whose partitions fill its sub-requests evenly, and that stays inside its integers.\<close>

definition sizes_ok :: "part_req \<Rightarrow> bool" where
  "sizes_ok q \<longleftrightarrow> 0 < p_partitions q \<and> 0 \<le> p_count q \<and> 0 \<le> p_dtype_size q \<and> 0 < p_requests q \<and> 0 < p_part_per_req q
     \<and> p_count q * p_partitions q < MPIR_AINT_MAX \<and> p_dtype_size q * (p_count q * p_partitions q) < MPIR_AINT_MAX
     \<and> 0 \<le> p_tag q \<and> p_tag q + p_requests q \<le> INT_MAX"

definition even_layout :: "part_req \<Rightarrow> bool" where
  "even_layout q \<longleftrightarrow> sizes_ok q \<and> p_requests q * p_part_per_req q = p_partitions q"

definition sub_call :: "part_req \<Rightarrow> int \<Rightarrow> data_call" where
  "sub_call q i =
     \<lparr>dc_buf = p_buf q + i * (p_count q * p_part_per_req q) * p_dtype_size q, dc_count = p_count q * p_part_per_req q,
      dc_compressed = False, dc_rank = p_rank q, dc_tag = p_tag q + i + 1, dc_partition = None\<rparr>"

lemma caint_in: "0 \<le> x \<Longrightarrow> x \<le> MPIR_AINT_MAX \<Longrightarrow> caint x = Some x"
  by (simp add: caint_def MPIR_AINT_MAX_def)

lemma mult_mono_int: "0 \<le> (a :: int) \<Longrightarrow> a \<le> b \<Longrightarrow> 0 \<le> c \<Longrightarrow> a * c \<le> b * c"
  by (simp add: mult_right_mono)

lemma even_sizes:
  assumes e: "even_layout q" and i: "0 \<le> i" "i < p_requests q"
  defines "n \<equiv> p_count q * p_part_per_req q"
  shows "0 \<le> n" "n < MPIR_AINT_MAX" "0 \<le> i * n" "i * n \<le> p_count q * p_partitions q" "p_requests q * n = p_count q * p_partitions q"
    "0 \<le> i * n * p_dtype_size q" "i * n * p_dtype_size q \<le> MPIR_AINT_MAX"
proof -
  have s: "0 < p_partitions q" "0 \<le> p_count q" "0 \<le> p_dtype_size q" "0 < p_requests q" "0 < p_part_per_req q"
    "p_count q * p_partitions q < MPIR_AINT_MAX" "p_dtype_size q * (p_count q * p_partitions q) < MPIR_AINT_MAX"
    "p_partitions q = p_requests q * p_part_per_req q" using e by (auto simp: even_layout_def sizes_ok_def)
  show n0: "0 \<le> n" using s by (simp add: n_def)
  show tot: "p_requests q * n = p_count q * p_partitions q" by (simp add: n_def s(8))
  show in0: "0 \<le> i * n" using i n0 by simp
  have le: "i * n \<le> p_requests q * n" using i n0 by (intro mult_mono_int) auto
  then show "i * n \<le> p_count q * p_partitions q" using tot by simp
  have "1 * n \<le> p_requests q * n" using s(4) n0 by (intro mult_mono_int) auto
  then show "n < MPIR_AINT_MAX" using tot s(6) by simp
  show "0 \<le> i * n * p_dtype_size q" using in0 s(3) by simp
  have "i * n * p_dtype_size q \<le> p_requests q * n * p_dtype_size q" using mult_right_mono [OF le s(3)] .
  then show "i * n * p_dtype_size q \<le> MPIR_AINT_MAX" using tot s(7) by (simp add: mult.commute)
qed

lemma even_elements:
  assumes "even_layout q" "0 \<le> i" "i < p_requests q"
  shows "sub_elements q = Some (p_count q * p_part_per_req q)"
    "last_elements q i (p_count q * p_part_per_req q) = Some (p_count q * p_part_per_req q)"
proof -
  let ?n = "p_count q * p_part_per_req q"
  note s = even_sizes [OF assms]
  show "sub_elements q = Some ?n" using s(1,2) by (simp add: sub_elements_def caint_in)
  have whole: "p_count q * p_partitions q < MPIR_AINT_MAX" using assms(1) by (simp add: even_layout_def sizes_ok_def)
  show "last_elements q i ?n = Some ?n"
  proof (cases "i = p_requests q - 1")
    case True
    then have rest: "p_count q * p_partitions q - i * ?n = ?n" using s(5) by (simp only: left_diff_distrib)
    have "caint (p_count q * p_partitions q) = Some (p_count q * p_partitions q)" "caint (i * ?n) = Some (i * ?n)"
      using s(3,4) whole by (simp_all add: caint_in)
    then have "last_elements q i ?n = caint (p_count q * p_partitions q - i * ?n)"
      unfolding last_elements_def by (simp only: True if_P refl) simp
    then show ?thesis using s(1,2) unfolding rest by (simp add: caint_in)
  qed (simp add: last_elements_def)
qed

lemma even_send_call:
  assumes "even_layout q" "0 \<le> i" "i < p_requests q" "uses_compressor q = None"
  shows "send_call env q i = Some (Inr (sub_call q i))"
proof -
  note s = even_sizes [OF assms(1-3)] and e = even_elements [OF assms(1-3)]
  have "cint (p_tag q + i + 1) = Some (p_tag q + i + 1)"
    using assms by (simp add: cint_def even_layout_def sizes_ok_def)
  then show ?thesis using s(6,7) e assms(4) by (simp add: send_call_def sub_call_def caint_in)
qed

lemma int_of_aint_in: "0 \<le> x \<Longrightarrow> x \<le> INT_MAX \<Longrightarrow> int_of_aint x = x"
  unfolding int_of_aint_def INT_MAX_def by (subst sint_sbintrunc') (simp add: signed_take_bit_int_eq_self)

lemma even_recv_call:
  assumes "even_layout q" "0 \<le> i" "i < p_requests q" "uses_compressor q = None"
  shows "recv_call q (p_count q * p_part_per_req q) i = Some (sub_call q i)"
proof -
  note s = even_sizes [OF assms(1-3)] and e = even_elements [OF assms(1-3)]
  have whole: "p_count q * p_partitions q < MPIR_AINT_MAX" using assms(1) by (simp add: even_layout_def sizes_ok_def)
  have "int_of_aint (p_tag q + i + 1) = p_tag q + i + 1"
    using assms by (intro int_of_aint_in) (auto simp: even_layout_def sizes_ok_def)
  then show ?thesis using s e(2) assms(4) whole
    by (simp add: recv_call_def sub_call_def caint_in mult.commute [of "p_dtype_size q"])
qed

section \<open>Sending every sub-request once\<close>

text \<open>
  The life of a started send request: the clear-to-send message arrives once, each partition is
  marked ready once, in any order.  \<open>due\<close> is the abstract specification: the sub-requests that
  must have been sent when the partitions \<open>S\<close> are ready.
\<close>

datatype part_event = Cts part_header | Pready int

primrec part_event_step :: "part_env \<Rightarrow> part_event \<Rightarrow> part_req \<Rightarrow> send_result" where
  "part_event_step env (Cts h) q = MPID_do_recv_part_cts env h q"
| "part_event_step env (Pready p) q = pready env p q"

definition block :: "part_req \<Rightarrow> int \<Rightarrow> int set" where
  "block q i = {i * p_part_per_req q..<(i + 1) * p_part_per_req q}"

definition due :: "part_req \<Rightarrow> int set \<Rightarrow> bool \<Rightarrow> int set" where
  "due q S cts = (if cts then {i. 0 \<le> i \<and> i < p_requests q \<and> block q i \<subseteq> S} else {})"

definition flags_of :: "part_req \<Rightarrow> int set \<Rightarrow> bool list" where
  "flags_of q S = map (\<lambda>p. int p \<in> S) [0..<nat (p_partitions q)]"

definition tracks :: "part_req \<Rightarrow> nat \<Rightarrow> int set \<Rightarrow> bool \<Rightarrow> int set \<Rightarrow> part_req" where
  "tracks q peer S cts sent =
     (if int (card sent) = p_requests q
      then q\<lparr>p_part_ready := None, p_peer_request := None, p_send_ctr := 0\<rparr>
      else q\<lparr>p_part_ready := Some (flags_of q S), p_peer_request := (if cts then Some peer else None),
              p_send_ctr := int (card sent)\<rparr>)"

definition started :: "part_env \<Rightarrow> part_req \<Rightarrow> bool" where
  "started env q \<longleftrightarrow> p_kind q = PART_SEND \<and> even_layout q \<and> uses_compressor q = None \<and> p_active q
     \<and> p_cc q = p_requests q \<and> (\<forall>c. pe_isend env c = None)"

lemma flags_length [simp]: "length (flags_of q S) = nat (p_partitions q)"
  by (simp add: flags_of_def)

lemma flags_get: "0 \<le> p \<Longrightarrow> p < p_partitions q \<Longrightarrow> aget (flags_of q S) p = Some (p \<in> S)"
  by (simp add: aget_def flags_of_def)

lemma flags_set:
  assumes "0 \<le> p" "p < p_partitions q"
  shows "aset (flags_of q S) p True = Some (flags_of q (insert p S))"
proof -
  have "(flags_of q S)[nat p := True] = flags_of q (insert p S)"
    using assms by (intro nth_equalityI) (auto simp: flags_of_def nth_list_update)
  then show ?thesis using assms by (simp add: aset_def)
qed

lemma all_ready_flags:
  assumes "\<forall>p\<in>set ps. 0 \<le> p \<and> p < p_partitions q"
  shows "all_ready (Some (flags_of q S)) ps = Some (set ps \<subseteq> S)"
  using assms by (induction ps) (simp_all add: flags_get)

lemma sub_partitions_block:
  assumes "even_layout q" "0 \<le> i" "i < p_requests q"
  shows "set (sub_partitions q i) = block q i" "\<forall>p\<in>block q i. 0 \<le> p \<and> p < p_partitions q"
proof -
  have ppr: "0 < p_part_per_req q" "p_partitions q = p_requests q * p_part_per_req q"
    using assms(1) by (auto simp: even_layout_def sizes_ok_def)
  have hi: "(i + 1) * p_part_per_req q \<le> p_partitions q"
    unfolding ppr(2) using assms(3) ppr(1) by (intro mult_right_mono) auto
  have lo: "0 \<le> i * p_part_per_req q" using assms(2) ppr(1) by simp
  show "\<forall>p\<in>block q i. 0 \<le> p \<and> p < p_partitions q" using hi lo by (auto simp: block_def)
  have "set (map (\<lambda>k. i * p_part_per_req q + int k) [0..<nat (p_part_per_req q)]) = block q i"
  proof (intro equalityI subsetI)
    fix p assume "p \<in> block q i"
    then have "p = i * p_part_per_req q + int (nat (p - i * p_part_per_req q))"
      "nat (p - i * p_part_per_req q) \<in> set [0..<nat (p_part_per_req q)]" by (auto simp: block_def distrib_right)
    then show "p \<in> set (map (\<lambda>k. i * p_part_per_req q + int k) [0..<nat (p_part_per_req q)])"
      unfolding set_map by (rule image_eqI)
  qed (auto simp: block_def distrib_right)
  then show "set (sub_partitions q i) = block q i" using hi by (auto simp: sub_partitions_def block_def)
qed

lemma block_of_partition:
  assumes "even_layout q" "0 \<le> p" "p < p_partitions q"
  defines "i \<equiv> p div p_part_per_req q"
  shows "0 \<le> i" "i < p_requests q" "p \<in> block q i" "\<And>j. p \<in> block q j \<Longrightarrow> j = i"
proof -
  have ppr: "0 < p_part_per_req q" "p_partitions q = p_requests q * p_part_per_req q"
    using assms(1) by (auto simp: even_layout_def sizes_ok_def)
  show "0 \<le> i" using assms(2) ppr(1) by (simp add: i_def pos_imp_zdiv_nonneg_iff)
  show "i < p_requests q"
  proof (rule ccontr)
    assume "\<not> i < p_requests q"
    then have "p_requests q * p_part_per_req q \<le> i * p_part_per_req q" using ppr(1) by (intro mult_right_mono) auto
    also have "\<dots> \<le> p" using pos_mod_sign [OF ppr(1), of p] by (simp add: i_def flip: minus_mod_eq_div_mult)
    finally show False using assms(3) ppr(2) by simp
  qed
  have "p = i * p_part_per_req q + p mod p_part_per_req q" by (simp add: i_def)
  moreover have "0 \<le> p mod p_part_per_req q" "p mod p_part_per_req q < p_part_per_req q" using ppr(1) by simp_all
  ultimately show "p \<in> block q i" unfolding block_def atLeastLessThan_iff distrib_right mult_1 by linarith
  fix j assume "p \<in> block q j"
  then show "j = i" unfolding i_def block_def using ppr(1)
    by (intro int_div_pos_eq [symmetric, of _ _ _ "p - j * p_part_per_req q"]) (auto simp: algebra_simps)
qed

lemma tracks_same [simp]:
  "p_kind (tracks q e S c t) = p_kind q" "p_buf (tracks q e S c t) = p_buf q" "p_partitions (tracks q e S c t) = p_partitions q"
  "p_count (tracks q e S c t) = p_count q" "p_dtype_size (tracks q e S c t) = p_dtype_size q"
  "p_rank (tracks q e S c t) = p_rank q" "p_tag (tracks q e S c t) = p_tag q" "p_requests (tracks q e S c t) = p_requests q"
  "p_part_per_req (tracks q e S c t) = p_part_per_req q" "p_active (tracks q e S c t) = p_active q" "p_cc (tracks q e S c t) = p_cc q"
  "uses_compressor (tracks q e S c t) = uses_compressor q"
  by (simp_all add: tracks_def uses_compressor_def)

lemma tracks_layout [simp]:
  "even_layout (tracks q e S c t) = even_layout q" "sub_call (tracks q e S c t) = sub_call q"
  "sub_partitions (tracks q e S c t) = sub_partitions q"
  by (simp_all add: even_layout_def sizes_ok_def sub_call_def sub_partitions_def fun_eq_iff)

lemma card_less:
  assumes "sent \<subseteq> {0..<p_requests q}" "i \<notin> sent" "0 \<le> i" "i < p_requests q"
  shows "int (card sent) < p_requests q" "finite sent"
proof -
  show fin: "finite sent" using assms(1) finite_subset by blast
  have "card sent < card {0..<p_requests q}" using assms by (intro psubset_card_mono) auto
  then show "int (card sent) < p_requests q" by simp
qed

lemma send_if_ready_tracks:
  assumes st: "started env q" and sent: "sent \<subseteq> {0..<p_requests q}" "i \<notin> sent" "0 \<le> i" "i < p_requests q"
  shows "MPID_part_send_if_ready env i (tracks q peer S True sent) =
    Some (if block q i \<subseteq> S then (tracks q peer S True (insert i sent), [Isend (sub_call q i)], None)
          else (tracks q peer S True sent, [], None))"
proof -
  let ?q = "tracks q peer S True sent"
  have lay: "even_layout q" and q: "p_kind q = PART_SEND" "uses_compressor q = None" "pe_isend env c = None" for c
    using st by (auto simp: started_def)
  note less = card_less [OF sent]
  have flags: "p_part_ready ?q = Some (flags_of q S)" using less(1) by (simp add: tracks_def)
  have ready: "all_ready (p_part_ready ?q) (sub_partitions ?q i) = Some (block q i \<subseteq> S)"
    unfolding flags tracks_layout
    using sub_partitions_block [OF lay sent(3,4)] all_ready_flags [of "sub_partitions q i" q S] by simp
  have peer: "p_peer_request ?q = Some peer" using less(1) by (simp add: tracks_def)
  have "sub_request_sent ?q = tracks q peer S True (insert i sent)"
    using less sent(2) by (simp add: sub_request_sent_def tracks_def)
  then have "MPID_part_issue_data_send env i ?q = Some (tracks q peer S True (insert i sent), [Isend (sub_call q i)], None)"
    using even_send_call [of ?q i env] lay q sent(3,4) by (simp add: MPID_part_issue_data_send_def)
  then show ?thesis using ready peer by (simp add: MPID_part_send_if_ready_def)
qed

lemma send_each_tracks:
  assumes st: "started env q" and "sent \<subseteq> {0..<p_requests q}"
    and "distinct is'" "set is' \<inter> sent = {}" "set is' \<subseteq> {0..<p_requests q}"
  shows "send_each (MPID_part_send_if_ready env) is' (tracks q peer S True sent) =
    Some (tracks q peer S True (sent \<union> {i \<in> set is'. block q i \<subseteq> S}),
          map (Isend \<circ> sub_call q) (filter (\<lambda>i. block q i \<subseteq> S) is'), None)"
  using assms(2-)
proof (induction is' arbitrary: sent)
  case (Cons i is')
  have i: "i \<notin> sent" "0 \<le> i" "i < p_requests q" using Cons.prems by auto
  note one = send_if_ready_tracks [OF st Cons.prems(1) i, of peer S]
  show ?case
  proof (cases "block q i \<subseteq> S")
    case True
    have "insert i sent \<union> {j \<in> set is'. block q j \<subseteq> S} = sent \<union> {j \<in> set (i # is'). block q j \<subseteq> S}" using True by auto
    then show ?thesis using one True Cons.IH [of "insert i sent"] Cons.prems by auto
  next
    case False
    have "{j \<in> set (i # is'). block q j \<subseteq> S} = {j \<in> set is'. block q j \<subseteq> S}" using False by auto
    then show ?thesis using one False Cons.IH [of sent] Cons.prems by auto
  qed
qed simp

lemma due_bounds: "due q S c \<subseteq> {0..<p_requests q}"
  by (auto simp: due_def)

lemma cts_step:
  assumes st: "started env q" and h: "ph_rreq h = Some peer" "ph_requests h = p_requests q"
  shows "MPID_do_recv_part_cts env h (tracks q peer S False {}) =
    Some (tracks q peer S True (due q S True),
          map (Isend \<circ> sub_call q) (filter (\<lambda>i. block q i \<subseteq> S) (map int [0..<nat (p_requests q)])), None)"
proof -
  have R: "0 < p_requests q" and q: "p_active q" "p_cc q = p_requests q"
    using st by (auto simp: started_def even_layout_def sizes_ok_def)
  have eq: "(tracks q peer S False {})\<lparr>p_peer_request := Some peer\<rparr> = tracks q peer S True {}"
    using R by (simp add: tracks_def)
  have cc: "(tracks q peer S True {})\<lparr>p_cc := p_requests q\<rparr> = tracks q peer S True {}"
    using R q(2) by (simp add: tracks_def)
  have idx: "set (map int [0..<nat (p_requests q)]) = {0..<p_requests q}"
    using R by (simp add: image_int_atLeastLessThan)
  have "{i \<in> {0..<p_requests q}. block q i \<subseteq> S} = due q S True" by (auto simp: due_def)
  then show ?thesis
    using send_each_tracks [OF st, of "{}" "map int [0..<nat (p_requests q)]" peer S] h q(1) idx
    by (simp add: MPID_do_recv_part_cts_def MPID_part_check_num_requests_def eq cc MPID_part_check_data_transmission_def
        distinct_map)
qed

lemma due_all:
  assumes "even_layout q" "int (card (due q S c)) = p_requests q" "0 \<le> p" "p < p_partitions q"
  shows "p \<in> S"
proof -
  have R: "0 < p_requests q" using assms(1) by (simp add: even_layout_def sizes_ok_def)
  have "card (due q S c) = card {0..<p_requests q}" using assms(2) R by simp
  then have "due q S c = {0..<p_requests q}" by (intro card_subset_eq due_bounds) simp_all
  then have "p div p_part_per_req q \<in> due q S c" using block_of_partition(1,2) [OF assms(1,3,4)] by simp
  then have "block q (p div p_part_per_req q) \<subseteq> S" by (auto simp: due_def split: if_splits)
  then show ?thesis using block_of_partition(3) [OF assms(1,3,4)] by blast
qed

lemma due_insert:
  assumes "even_layout q" "0 \<le> p" "p < p_partitions q"
  shows "due q (insert p S) c = (if c \<and> block q (p div p_part_per_req q) \<subseteq> insert p S
    then insert (p div p_part_per_req q) (due q S c) else due q S c)"
proof -
  note b = block_of_partition [OF assms]
  have other: "block q i \<subseteq> insert p S \<longleftrightarrow> block q i \<subseteq> S" if "i \<noteq> p div p_part_per_req q" for i
    using b(4) [of i] that by blast
  show ?thesis
  proof (cases "c \<and> block q (p div p_part_per_req q) \<subseteq> insert p S")
    case True
    then show ?thesis using b(1,2) other by (auto simp: due_def)
  next
    case False
    then have "block q (p div p_part_per_req q) \<subseteq> S \<longleftrightarrow> c \<and> block q (p div p_part_per_req q) \<subseteq> insert p S" if c
      using that by blast
    then have "block q i \<subseteq> insert p S \<longleftrightarrow> block q i \<subseteq> S" if c for i
      using that other [of i] by (cases "i = p div p_part_per_req q") simp_all
    then show ?thesis unfolding if_not_P [OF False] by (simp add: due_def)
  qed
qed

lemma pready_step:
  assumes st: "started env q" and p: "0 \<le> p" "p < p_partitions q" "p \<notin> S"
  shows "\<exists>idxs. pready env p (tracks q peer S c (due q S c)) =
      Some (tracks q peer (insert p S) c (due q (insert p S) c), map (Isend \<circ> sub_call q) idxs, None)
    \<and> distinct idxs \<and> set idxs = due q (insert p S) c - due q S c"
proof -
  let ?d = "due q S c" and ?i = "p div p_part_per_req q"
  have lay: "even_layout q" using st by (simp add: started_def)
  have ppr: "0 < p_part_per_req q" using lay by (simp add: even_layout_def sizes_ok_def)
  note b = block_of_partition [OF lay p(1,2)] and ins = due_insert [OF lay p(1,2), of S c]
  have new: "?i \<notin> ?d" using b(3) p(3) by (auto simp: due_def split: if_splits)
  have card: "int (card ?d) \<noteq> p_requests q" using due_all [OF lay _ p(1,2)] p(3) by blast
  have set: "MPID_part_set_ready p (tracks q peer S c ?d) = Some (tracks q peer (insert p S) c ?d, None)"
    using card p by (simp add: MPID_part_set_ready_def tracks_def flags_get flags_set)
  have div: "cdiv p (p_part_per_req q) = ?i" using p(1) ppr by (simp add: cdiv_def sgn_if)
  have check: "pready env p (tracks q peer S c ?d) = MPID_part_send_if_ready env ?i (tracks q peer (insert p S) c ?d)"
    using set p(1) ppr div by (simp add: pready_def MPID_part_check_data_transmission_def)
  show ?thesis
  proof (cases c)
    case True
    then have one: "MPID_part_send_if_ready env ?i (tracks q peer (insert p S) c ?d) =
      Some (if block q ?i \<subseteq> insert p S then (tracks q peer (insert p S) c (insert ?i ?d), [Isend (sub_call q ?i)], None)
            else (tracks q peer (insert p S) c ?d, [], None))"
      using send_if_ready_tracks [OF st due_bounds new b(1,2)] by simp
    show ?thesis
    proof (cases "block q ?i \<subseteq> insert p S")
      case sub: True
      then show ?thesis using True check one ins new by (intro exI [of _ "[?i]"]) auto
    next
      case False
      then show ?thesis using True check one ins by (intro exI [of _ "[]"]) auto
    qed
  next
    case False
    then have "p_peer_request (tracks q peer (insert p S) c ?d) = None" by (simp add: tracks_def)
    then show ?thesis using check ins False by (intro exI [of _ "[]"]) (simp add: MPID_part_send_if_ready_def)
  qed
qed

text \<open>Any sequence of events that does not repeat one sends exactly what has become due.\<close>

definition fresh_events :: "part_req \<Rightarrow> part_header \<Rightarrow> int set \<Rightarrow> bool \<Rightarrow> part_event list \<Rightarrow> bool" where
  "fresh_events q h S c evs \<longleftrightarrow> distinct evs \<and>
     (\<forall>ev\<in>set evs. case ev of Cts h' \<Rightarrow> h' = h \<and> \<not> c | Pready p \<Rightarrow> 0 \<le> p \<and> p < p_partitions q \<and> p \<notin> S)"

definition ready_after :: "int set \<Rightarrow> part_event list \<Rightarrow> int set" where
  "ready_after S evs = S \<union> {p. Pready p \<in> set evs}"

definition cts_after :: "part_header \<Rightarrow> bool \<Rightarrow> part_event list \<Rightarrow> bool" where
  "cts_after h c evs \<longleftrightarrow> c \<or> Cts h \<in> set evs"

lemma due_mono: "S \<subseteq> S' \<Longrightarrow> (c \<longrightarrow> c') \<Longrightarrow> due q S c \<subseteq> due q S' c'"
  by (auto simp: due_def)

lemma events_track:
  assumes st: "started env q" and h: "ph_rreq h = Some peer" "ph_requests h = p_requests q"
    and "fresh_events q h S c evs"
  shows "\<exists>idxs. send_each (part_event_step env) evs (tracks q peer S c (due q S c)) =
      Some (tracks q peer (ready_after S evs) (cts_after h c evs) (due q (ready_after S evs) (cts_after h c evs)),
            map (Isend \<circ> sub_call q) idxs, None)
    \<and> distinct idxs \<and> set idxs = due q (ready_after S evs) (cts_after h c evs) - due q S c"
  using assms(4)
proof (induction evs arbitrary: S c)
  case Nil
  then show ?case by (simp add: ready_after_def cts_after_def)
next
  case (Cons ev evs)
  obtain S1 c1 idx1 where one: "part_event_step env ev (tracks q peer S c (due q S c)) =
        Some (tracks q peer S1 c1 (due q S1 c1), map (Isend \<circ> sub_call q) idx1, None)"
      "distinct idx1" "set idx1 = due q S1 c1 - due q S c" "S \<subseteq> S1" "c \<longrightarrow> c1"
      "ready_after S (ev # evs) = ready_after S1 evs" "cts_after h c (ev # evs) = cts_after h c1 evs"
      "fresh_events q h S1 c1 evs"
  proof (cases ev)
    case (Pready p)
    then have p: "0 \<le> p" "p < p_partitions q" "p \<notin> S" using Cons.prems by (auto simp: fresh_events_def)
    show ?thesis using pready_step [OF st p, of peer c] Cons.prems Pready
      by (auto intro!: that [of "insert p S" c] simp: ready_after_def cts_after_def fresh_events_def split: part_event.splits)
  next
    case (Cts h')
    then have c: "h' = h" "\<not> c" using Cons.prems by (auto simp: fresh_events_def)
    let ?is = "filter (\<lambda>i. block q i \<subseteq> S) (map int [0..<nat (p_requests q)])"
    have "due q S c = {}" "distinct ?is" using c(2) by (auto simp: due_def distinct_map)
    moreover have "set ?is = due q S True"
      using st by (auto simp: due_def image_int_atLeastLessThan started_def even_layout_def sizes_ok_def)
    ultimately show ?thesis using cts_step [OF st h, of S] Cons.prems Cts c
      by (auto intro!: that [of S True ?is] simp: ready_after_def cts_after_def fresh_events_def split: part_event.splits)
  qed
  obtain idx2 where two: "send_each (part_event_step env) evs (tracks q peer S1 c1 (due q S1 c1)) =
      Some (tracks q peer (ready_after S1 evs) (cts_after h c1 evs) (due q (ready_after S1 evs) (cts_after h c1 evs)),
            map (Isend \<circ> sub_call q) idx2, None)"
    "distinct idx2" "set idx2 = due q (ready_after S1 evs) (cts_after h c1 evs) - due q S1 c1"
    using Cons.IH [OF one(8)] by blast
  have mono: "due q S c \<subseteq> due q S1 c1" using one(4,5) by (rule due_mono)
  have mono2: "due q S1 c1 \<subseteq> due q (ready_after S1 evs) (cts_after h c1 evs)"
    by (rule due_mono) (auto simp: ready_after_def cts_after_def)
  show ?case
    using one two mono mono2 by (intro exI [of _ "idx1 @ idx2"]) auto
qed

section \<open>Properties\<close>

text \<open>C27: When the partitions of a send and of a receive request fill the agreed number of
  sub-requests evenly, the sub-requests of both sides carry the same tags and the same pieces of the
  buffer, and the pieces tile it.\<close>

theorem part_layouts_agree:
  assumes s: "even_layout s" "uses_compressor s = None" and r: "even_layout r" "uses_compressor r = None"
    and eq: "p_requests s = p_requests r" "p_tag s = p_tag r" "p_dtype_size s = p_dtype_size r"
      "p_count s * p_partitions s = p_count r * p_partitions r"
    and i: "0 \<le> i" "i < p_requests s"
  shows "\<exists>n elements cs cr. sub_elements r = Some elements \<and> send_call env s i = Some (Inr cs) \<and> recv_call r elements i = Some cr
    \<and> dc_tag cs = dc_tag cr \<and> dc_count cs = n \<and> dc_count cr = n
    \<and> dc_buf cs = p_buf s + i * n * p_dtype_size s \<and> dc_buf cr = p_buf r + i * n * p_dtype_size s
    \<and> p_requests s * n = p_count s * p_partitions s"
proof -
  have ir: "i < p_requests r" using i(2) eq(1) by simp
  have tot: "p_requests s * (p_count s * p_part_per_req s) = p_requests s * (p_count r * p_part_per_req r)"
    using even_sizes(5) [OF s(1) i] even_sizes(5) [OF r(1) i(1) ir] eq(1,4) by metis
  then have n: "p_count s * p_part_per_req s = p_count r * p_part_per_req r" using i by simp
  show ?thesis
    using even_send_call [OF s(1) i s(2), of env] even_recv_call [OF r(1) i(1) ir r(2)] even_elements(1) [OF r(1) i(1) ir]
      even_sizes(5) [OF s(1) i] eq n
    by (intro exI [of _ "p_count s * p_part_per_req s"] exI [of _ "p_count r * p_part_per_req r"]
        exI [of _ "sub_call s i"] exI [of _ "sub_call r i"]) (simp add: sub_call_def)
qed

definition example_send :: "int \<Rightarrow> int \<Rightarrow> int \<Rightarrow> int \<Rightarrow> part_req" where
  "example_send parts cnt reqs ppr =
     \<lparr>p_kind = PART_SEND, p_buf = 1000, p_partitions = parts, p_count = cnt, p_dtype_size = 4, p_rank = 1,
      p_tag = 5, p_context_id = 0, p_context_offset = 0, p_peer_request = None, p_sdata_size = 4 * parts * cnt,
      p_part_per_req = ppr, p_requests = reqs, p_part_ready = None, p_first_use = True, p_send_ctr = 0,
      p_compr_req = None, p_comm_rank = 0, p_active = False, p_cc = 0, p_status_error = None,
      p_status_count = 0, p_ref_count = 1\<rparr>"

definition plain_env :: part_env where
  "plain_env = \<lparr>pe_isend = \<lambda>_. None, pe_irecv = \<lambda>_. None, pe_deflate = \<lambda>_ _ _ sz. Inr sz, pe_not_started = \<lambda>_. True\<rparr>"

lemma example_even:
  "even_layout (example_send 4 3 2 2)" "uses_compressor (example_send p c r n) = None"
  by (simp_all add: even_layout_def sizes_ok_def example_send_def MPIR_AINT_MAX_def INT_MAX_def uses_compressor_def)

theorem part_layouts_agree_witness:
  "\<exists>n cs cr. send_call plain_env (example_send 4 3 2 2) 1 = Some (Inr cs) \<and>
     recv_call ((example_send 4 3 2 2)\<lparr>p_kind := PART_RECV\<rparr>) 6 1 = Some cr \<and> dc_count cs = n \<and> dc_count cr = n \<and> 2 * n = 12"
proof -
  let ?r = "(example_send 4 3 2 2)\<lparr>p_kind := PART_RECV\<rparr>"
  have r: "even_layout ?r" "uses_compressor ?r = None" "sub_elements ?r = Some 6"
    by (simp_all add: even_layout_def sizes_ok_def example_send_def MPIR_AINT_MAX_def INT_MAX_def uses_compressor_def
        sub_elements_def caint_def)
  show ?thesis using part_layouts_agree [OF example_even(1,2) r(1,2), of 1 plain_env] r(3)
    by (auto simp: example_send_def)
qed

text \<open>C26: From \<open>MPI_Start\<close> on, in whatever order the clear-to-send message and the marks of the
  partitions arrive, no sub-request is sent twice, a partial sequence of events has sent exactly the
  sub-requests all of whose partitions are ready, and the complete one has sent every sub-request
  once and leaves the request ready for the next \<open>MPI_Start\<close>.\<close>

theorem part_sent_exactly_once:
  assumes q: "p_kind q = PART_SEND" "even_layout q" "uses_compressor q = None" "p_peer_request q = None"
    and env: "\<And>c. pe_isend env c = None" and h: "ph_rreq h = Some peer" "ph_requests h = p_requests q"
    and evs: "distinct evs" "set evs = insert (Cts h) (Pready ` {0..<p_partitions q})" and split: "evs = pre @ post"
  shows "\<exists>q0 outs0 q1 q2 idx1 idx2. MPID_PSP_psend_start env q = Some (q0, outs0, None)
    \<and> send_each (part_event_step env) pre q0 = Some (q1, map (Isend \<circ> sub_call q) idx1, None)
    \<and> send_each (part_event_step env) post q1 = Some (q2, map (Isend \<circ> sub_call q) idx2, None)
    \<and> set idx1 = (if Cts h \<in> set pre then {i. 0 \<le> i \<and> i < p_requests q \<and> (\<forall>p\<in>block q i. Pready p \<in> set pre)} else {})
    \<and> distinct (idx1 @ idx2) \<and> set (idx1 @ idx2) = {0..<p_requests q}
    \<and> p_part_ready q2 = None \<and> p_peer_request q2 = None \<and> p_send_ctr q2 = 0"
proof -
  let ?q = "q\<lparr>p_part_ready := Some (flags_of q {}), p_send_ctr := 0, p_first_use := False, p_active := True, p_cc := p_requests q\<rparr>"
  let ?outs = "if p_first_use q then [] else [ctrl_recv_of PART_CLEAR_TO_SEND (q\<lparr>p_part_ready := Some (flags_of q {}), p_send_ctr := 0\<rparr>)]"
  have R: "0 < p_requests q" using q(2) by (simp add: even_layout_def sizes_ok_def)
  have fl: "replicate (nat (p_partitions q)) False = flags_of q {}" by (simp add: flags_of_def map_replicate_const)
  have start: "MPID_PSP_psend_start env q = Some (?q, ?outs, None)"
    using q(1,4) by (simp add: MPID_PSP_psend_start_def fl Let_def)
  have st: "started env ?q" using q env by (simp add: started_def even_layout_def sizes_ok_def uses_compressor_def)
  have q0: "tracks ?q peer {} False (due ?q {} False) = ?q" using R q(4) by (simp add: tracks_def due_def flags_of_def)
  have same: "sub_call ?q = sub_call q" "block ?q = block q" by (simp_all add: sub_call_def block_def fun_eq_iff)
  have h': "ph_requests h = p_requests ?q" using h(2) by simp
  have mem: "\<forall>ev\<in>set pre \<union> set post. case ev of Cts h' \<Rightarrow> h' = h | Pready p \<Rightarrow> 0 \<le> p \<and> p < p_partitions q"
    using evs(2) split by (auto split: part_event.splits)
  have dis: "distinct pre" "distinct post" "set pre \<inter> set post = {}" using evs(1) split by auto
  have fresh: "fresh_events ?q h {} False pre" "fresh_events ?q h (ready_after {} pre) (cts_after h False pre) post"
    using mem dis by (auto simp: fresh_events_def ready_after_def cts_after_def split: part_event.splits)
      (metis Un_iff disjoint_iff)
  obtain idx1 where one: "send_each (part_event_step env) pre ?q = Some (tracks ?q peer (ready_after {} pre) (cts_after h False pre)
      (due ?q (ready_after {} pre) (cts_after h False pre)), map (Isend \<circ> sub_call q) idx1, None)" "distinct idx1"
      "set idx1 = due ?q (ready_after {} pre) (cts_after h False pre)"
    using events_track [OF st h(1) h' fresh(1)] unfolding q0 same(1) by (auto simp: due_def)
  let ?S = "ready_after (ready_after {} pre) post" and ?c = "cts_after h (cts_after h False pre) post"
  obtain idx2 where two: "send_each (part_event_step env) post (tracks ?q peer (ready_after {} pre) (cts_after h False pre)
        (due ?q (ready_after {} pre) (cts_after h False pre))) = Some (tracks ?q peer ?S ?c (due ?q ?S ?c), map (Isend \<circ> sub_call q) idx2, None)"
      "distinct idx2" "set idx2 = due ?q ?S ?c - due ?q (ready_after {} pre) (cts_after h False pre)"
    using events_track [OF st h(1) h' fresh(2)] unfolding same(1) by blast
  have "{p. Pready p \<in> set evs} = {0..<p_partitions q}" "Cts h \<in> set evs" using evs(2) by auto
  then have full: "?S = {0..<p_partitions q}" "?c" using split by (auto simp: ready_after_def cts_after_def)
  have all: "due ?q ?S ?c = {0..<p_requests q}"
    using full sub_partitions_block(2) [OF q(2)] by (auto simp: due_def same(2))
  then have fin: "tracks ?q peer ?S ?c (due ?q ?S ?c) = ?q\<lparr>p_part_ready := None, p_peer_request := None, p_send_ctr := 0\<rparr>"
    using R by (simp add: tracks_def)
  have first: "due ?q (ready_after {} pre) (cts_after h False pre) =
      (if Cts h \<in> set pre then {i. 0 \<le> i \<and> i < p_requests q \<and> (\<forall>p\<in>block q i. Pready p \<in> set pre)} else {})"
    by (auto simp: due_def ready_after_def cts_after_def same(2))
  have sub: "due ?q (ready_after {} pre) (cts_after h False pre) \<subseteq> due ?q ?S ?c"
    by (rule due_mono) (auto simp: ready_after_def cts_after_def)
  show ?thesis
  proof (intro exI conjI)
    show "MPID_PSP_psend_start env q = Some (?q, ?outs, None)" by (rule start)
    show "distinct (idx1 @ idx2)" "set (idx1 @ idx2) = {0..<p_requests q}" using one(2,3) two(2,3) all sub by auto
    show "set idx1 = (if Cts h \<in> set pre then {i. 0 \<le> i \<and> i < p_requests q \<and> (\<forall>p\<in>block q i. Pready p \<in> set pre)} else {})"
      using one(3) first by simp
  qed (use one(1) two(1) fin in auto)
qed

definition example_cts :: part_header where
  "example_cts = \<lparr>ph_type = PART_CLEAR_TO_SEND, ph_tag = 5, ph_context_id = 0, ph_src_rank = 1, ph_sdata_size = 24,
     ph_requests = 2, ph_sreq = Some 3, ph_rreq = Some 9\<rparr>"

theorem part_sent_exactly_once_witness:
  "\<exists>q0 q1 q2 idx1 idx2. MPID_PSP_psend_start plain_env (example_send 2 3 2 1) = Some (q0, [], None)
     \<and> send_each (part_event_step plain_env) [Pready 1, Cts example_cts] q0 = Some (q1, map (Isend \<circ> sub_call (example_send 2 3 2 1)) idx1, None)
     \<and> send_each (part_event_step plain_env) [Pready 0] q1 = Some (q2, map (Isend \<circ> sub_call (example_send 2 3 2 1)) idx2, None)
     \<and> distinct (idx1 @ idx2) \<and> set (idx1 @ idx2) = {0..<2}"
proof -
  let ?q = "example_send 2 3 2 1"
  have q: "p_kind ?q = PART_SEND" "even_layout ?q" "p_peer_request ?q = None" "p_requests ?q = 2" "p_partitions ?q = 2"
    by (simp_all add: even_layout_def sizes_ok_def example_send_def MPIR_AINT_MAX_def INT_MAX_def)
  have env: "pe_isend plain_env c = None" for c by (simp add: plain_env_def)
  have h: "ph_rreq example_cts = Some 9" "ph_requests example_cts = p_requests ?q" using q by (simp_all add: example_cts_def)
  have two: "{0..<p_partitions ?q} = {0, 1}" using q(5) by auto
  have ev: "distinct [Pready 1, Cts example_cts, Pready 0]"
    "set [Pready 1, Cts example_cts, Pready 0] = insert (Cts example_cts) (Pready ` {0..<p_partitions ?q})"
    "[Pready 1, Cts example_cts, Pready 0] = [Pready 1, Cts example_cts] @ [Pready 0]"
    unfolding two by auto
  have "MPID_PSP_psend_start plain_env ?q = Some (q0, outs, None) \<Longrightarrow> outs = []" for q0 outs
    by (auto simp: MPID_PSP_psend_start_def example_send_def)
  then show ?thesis
    using part_sent_exactly_once [OF q(1,2) example_even(2) q(3) env h ev] unfolding q(4) by blast
qed

lemma caint_abs: "\<bar>x\<bar> \<le> MPIR_AINT_MAX \<Longrightarrow> caint x = Some x"
  unfolding caint_def by (auto simp: abs_le_iff)

lemma uneven_sizes:
  assumes q: "sizes_ok q" "0 < p_count q" "0 < p_dtype_size q"
    and small: "2 \<le> p_requests q" "p_requests q * p_part_per_req q \<le> 2 * p_partitions q"
      "8 * (p_dtype_size q * p_requests q * (p_count q * p_partitions q)) < MPIR_AINT_MAX"
  defines "n \<equiv> p_count q * p_part_per_req q" and "t \<equiv> p_count q * p_partitions q"
  shows "0 \<le> n" "n \<le> t" "0 < t" "0 \<le> (p_requests q - 1) * n" "(p_requests q - 1) * n \<le> 2 * t"
    "\<bar>(p_requests q - 1) * (t - (p_requests q - 1) * n) * p_dtype_size q\<bar> \<le> MPIR_AINT_MAX"
    "\<bar>(p_requests q - 1) * n * p_dtype_size q\<bar> \<le> MPIR_AINT_MAX" "2 * t \<le> MPIR_AINT_MAX"
proof -
  let ?R = "p_requests q" and ?d = "p_dtype_size q"
  have pos: "0 < p_partitions q" "0 < p_part_per_req q" using q(1) by (auto simp: sizes_ok_def)
  show n0: "0 \<le> n" "0 < t" using pos q(2) by (simp_all add: n_def t_def)
  have "2 * p_part_per_req q \<le> ?R * p_part_per_req q" using small(1) pos(2) by (intro mult_right_mono) auto
  then have "p_part_per_req q \<le> p_partitions q" using small(2) by simp
  then show "n \<le> t" using q(2) by (simp add: n_def t_def)
  have "p_count q * (?R * p_part_per_req q) \<le> p_count q * (2 * p_partitions q)" using small(2) q(2) by (intro mult_left_mono) auto
  then have Rn: "?R * n \<le> 2 * t" by (simp add: n_def t_def algebra_simps)
  show front: "0 \<le> (?R - 1) * n" using small(1) n0 by simp
  have "(?R - 1) * n \<le> ?R * n" using n0(1) by (intro mult_right_mono) auto
  then show le: "(?R - 1) * n \<le> 2 * t" using Rn by simp
  have dR: "1 * 1 \<le> ?d * ?R" using q(3) small(1) by (intro mult_mono) auto
  have big: "8 * (?d * ?R * t) < MPIR_AINT_MAX" using small(3) by (simp add: t_def)
  have tle: "t \<le> ?d * ?R * t" using mult_right_mono [OF dR, of t] n0(2) by simp
  then show "2 * t \<le> MPIR_AINT_MAX" using big n0(2) by linarith
  have "\<bar>t - (?R - 1) * n\<bar> \<le> t" using front le by linarith
  then have "\<bar>(?R - 1) * (t - (?R - 1) * n)\<bar> \<le> ?R * t"
    unfolding abs_mult using small(1) by (intro mult_mono) auto
  then have "\<bar>(?R - 1) * (t - (?R - 1) * n)\<bar> * ?d \<le> ?R * t * ?d" using q(3) by (intro mult_right_mono) auto
  moreover have "\<bar>(?R - 1) * (t - (?R - 1) * n) * ?d\<bar> = \<bar>(?R - 1) * (t - (?R - 1) * n)\<bar> * ?d"
    using q(3) by (subst abs_mult) simp
  moreover have "?R * t * ?d = ?d * ?R * t" by (simp only: ac_simps)
  ultimately show "\<bar>(?R - 1) * (t - (?R - 1) * n) * ?d\<bar> \<le> MPIR_AINT_MAX"
    using big tle n0(2) by linarith
  have "(?R - 1) * n * ?d \<le> 2 * t * ?d" using le q(3) by (intro mult_right_mono) auto
  also have "\<dots> \<le> 2 * (?d * ?R * t)"
    using mult_right_mono [of 1 ?R "2 * t * ?d"] small(1) n0(2) q(3) by (simp add: algebra_simps)
  finally have "(?R - 1) * n * ?d \<le> 2 * (?d * ?R * t)" .
  moreover have "0 \<le> (?R - 1) * n * ?d" using front q(3) by simp
  ultimately show "\<bar>(?R - 1) * n * ?d\<bar> \<le> MPIR_AINT_MAX" using big tle n0(2) by linarith
qed

text \<open>When the partitions do not fill the sub-requests evenly, the last sub-request of the sender
  reads its data from another place of the buffer than the one the same layout gives on the receive
  side, because the offset is computed from the remaining instead of the regular number of
  elements; with too many sub-requests its element count is negative.\<close>

theorem last_send_reads_wrong_data:
  assumes q: "sizes_ok q" "uses_compressor q = None" "0 < p_count q" "0 < p_dtype_size q"
    and uneven: "p_requests q * p_part_per_req q \<noteq> p_partitions q"
    and small: "2 \<le> p_requests q" "p_requests q * p_part_per_req q \<le> 2 * p_partitions q"
      "8 * (p_dtype_size q * p_requests q * (p_count q * p_partitions q)) < MPIR_AINT_MAX"
  shows "\<exists>elements cs cr. sub_elements q = Some elements \<and> send_call env q (p_requests q - 1) = Some (Inr cs)
    \<and> recv_call q elements (p_requests q - 1) = Some cr \<and> dc_buf cs \<noteq> dc_buf cr \<and> dc_count cs = dc_count cr
    \<and> dc_count cs = p_count q * (p_partitions q - (p_requests q - 1) * p_part_per_req q)"
proof -
  let ?R = "p_requests q" and ?d = "p_dtype_size q" and ?n = "p_count q * p_part_per_req q" and ?t = "p_count q * p_partitions q"
  let ?i = "p_requests q - 1"
  note b = uneven_sizes [OF q(1,3,4) small]
  have t: "?t < MPIR_AINT_MAX" and tag: "0 \<le> p_tag q" "p_tag q + ?R \<le> INT_MAX" using q(1) by (auto simp: sizes_ok_def)
  have el: "sub_elements q = Some ?n" using b(1,2) t by (simp add: sub_elements_def caint_in)
  have rest: "last_elements q ?i ?n = Some (?t - ?i * ?n)"
    using b t by (simp add: last_elements_def caint_abs)
  have tg: "cint (p_tag q + ?i + 1) = Some (p_tag q + ?R)" "int_of_aint (p_tag q + ?i + 1) = p_tag q + ?R"
    using tag small(1) int_of_aint_in [of "p_tag q + ?R"] by (simp_all add: cint_def)
  let ?cs = "\<lparr>dc_buf = p_buf q + ?i * (?t - ?i * ?n) * ?d, dc_count = ?t - ?i * ?n, dc_compressed = False,
      dc_rank = p_rank q, dc_tag = p_tag q + ?R, dc_partition = None\<rparr>"
  have cs: "send_call env q ?i = Some (Inr ?cs)"
    using el rest tg(1) b(6) q(2) by (simp add: send_call_def caint_abs)
  have cr: "recv_call q ?n ?i = Some (?cs\<lparr>dc_buf := p_buf q + ?d * (?i * ?n)\<rparr>)"
    using rest tg(2) b(4,5,7,8) q(2) by (simp add: recv_call_def caint_abs mult.commute [of ?d])
  have "?t - ?i * ?n \<noteq> ?n"
  proof
    assume "?t - ?i * ?n = ?n"
    then have "p_count q * p_partitions q = p_count q * (?R * p_part_per_req q)" by (simp add: algebra_simps)
    then show False using uneven q(3) by simp
  qed
  then have "?i * (?t - ?i * ?n) * ?d \<noteq> ?d * (?i * ?n)" using small(1) q(4) by (simp add: mult.commute [of ?d])
  then show ?thesis using el cs cr by (simp add: algebra_simps)
qed

theorem last_send_reads_wrong_data_witness:
  "(\<exists>cs cr. send_call plain_env (example_send 3 2 2 2) 1 = Some (Inr cs) \<and> recv_call (example_send 3 2 2 2) 4 1 = Some cr
      \<and> dc_buf cs \<noteq> dc_buf cr \<and> dc_count cs = 2)
   \<and> (\<exists>cs. send_call plain_env (example_send 5 2 4 2) 3 = Some (Inr cs) \<and> dc_count cs = - 2)"
proof -
  let ?q = "example_send 3 2 2 2" and ?p = "example_send 5 2 4 2"
  have a: "sizes_ok ?q" "0 < p_count ?q" "0 < p_dtype_size ?q" "p_requests ?q * p_part_per_req ?q \<noteq> p_partitions ?q"
      "2 \<le> p_requests ?q" "p_requests ?q * p_part_per_req ?q \<le> 2 * p_partitions ?q"
      "8 * (p_dtype_size ?q * p_requests ?q * (p_count ?q * p_partitions ?q)) < MPIR_AINT_MAX" "sub_elements ?q = Some 4"
    by (simp_all add: sizes_ok_def example_send_def MPIR_AINT_MAX_def INT_MAX_def sub_elements_def caint_def)
  have b: "sizes_ok ?p" "0 < p_count ?p" "0 < p_dtype_size ?p" "p_requests ?p * p_part_per_req ?p \<noteq> p_partitions ?p"
      "2 \<le> p_requests ?p" "p_requests ?p * p_part_per_req ?p \<le> 2 * p_partitions ?p"
      "8 * (p_dtype_size ?p * p_requests ?p * (p_count ?p * p_partitions ?p)) < MPIR_AINT_MAX"
    by (simp_all add: sizes_ok_def example_send_def MPIR_AINT_MAX_def INT_MAX_def)
  have i: "p_requests ?q - 1 = 1" "p_requests ?p - 1 = 3" by (simp_all add: example_send_def)
  have n: "p_count ?q * (p_partitions ?q - 1 * p_part_per_req ?q) = 2" "p_count ?p * (p_partitions ?p - 3 * p_part_per_req ?p) = - 2"
    by (simp_all add: example_send_def)
  show ?thesis
    using last_send_reads_wrong_data [OF a(1) example_even(2) a(2-7), of plain_env] a(8)
      last_send_reads_wrong_data [OF b(1) example_even(2) b(2-7), of plain_env]
    unfolding i n by force
qed

end
