(* ===== verification/Part_Queues.thy ===== *)
theory Part_Queues
  imports Part_Theorems
begin

text \<open>
  The matching of send and receive requests: the negotiation of the number of sub-requests, the two
  matching lists of a process under every sequence of calls and messages, and failing compressors.
\<close>

section \<open>Negotiating the number of sub-requests\<close>

definition undivided :: "part_req \<Rightarrow> bool" where
  "undivided q \<longleftrightarrow> 0 < p_partitions q \<and> p_requests q = p_partitions q \<and> p_part_per_req q = 1"

definition data_fits :: "part_req \<Rightarrow> bool" where
  "data_fits q \<longleftrightarrow> 0 \<le> p_count q * p_partitions q \<and> p_count q * p_partitions q \<le> MPIR_AINT_MAX
     \<and> 0 \<le> p_dtype_size q * (p_count q * p_partitions q) \<and> p_dtype_size q * (p_count q * p_partitions q) \<le> MPIR_AINT_MAX"

lemma ceil_div:
  assumes "0 < (r :: int)" "0 < p"
  defines "k \<equiv> if 0 < p - p div r * r then p div r + 1 else p div r"
  shows "p \<le> r * k" "r * (k - 1) < p" "r dvd p \<Longrightarrow> r * k = p"
proof -
  have p: "p = r * (p div r) + p mod r" by simp
  have m: "0 \<le> p mod r" "p mod r < r" using assms(1) by simp_all
  have rem: "p - p div r * r = p mod r" by (simp add: minus_div_mult_eq_mod)
  have k: "r * k = (if 0 < p mod r then r * (p div r) + r else r * (p div r))" by (simp add: k_def rem distrib_left)
  show "p \<le> r * k"
  proof (cases "0 < p mod r")
    case True
    then have "r * k = r * (p div r) + r" using k by (simp only: if_True)
    then show ?thesis using p m by linarith
  next
    case False
    then have "r * k = r * (p div r)" using k by (simp only: if_False)
    then show ?thesis using p m False by linarith
  qed
  show "r * (k - 1) < p"
  proof (cases "0 < p mod r")
    case True
    then have "k - 1 = p div r" by (simp add: k_def rem)
    then have "r * (k - 1) = r * (p div r)" by simp
    then show ?thesis using p True by linarith
  next
    case False
    then have "p = r * (p div r)" using p m by simp
    moreover have "k = p div r" using False by (simp add: k_def rem)
    ultimately show ?thesis using assms(1) by (simp add: right_diff_distrib)
  qed
  assume "r dvd p"
  then show "r * k = p" by (simp add: k_def rem)
qed

lemma check_num_requests:
  assumes q: "undivided q" and n: "0 < n"
  shows "\<exists>q'. MPID_part_check_num_requests n q = Some q' \<and> p_requests q' = min (p_partitions q) n
    \<and> p_partitions q \<le> p_requests q' * p_part_per_req q' \<and> p_requests q' * (p_part_per_req q' - 1) < p_partitions q
    \<and> (p_requests q' dvd p_partitions q \<longrightarrow> p_requests q' * p_part_per_req q' = p_partitions q)
    \<and> (\<exists>n k. q' = q\<lparr>p_requests := n, p_part_per_req := k\<rparr>)"
proof (cases "p_requests q = n")
  case True
  have "q = q\<lparr>p_requests := p_requests q, p_part_per_req := p_part_per_req q\<rparr>" by simp
  then have "\<exists>n k. q = q\<lparr>p_requests := n, p_part_per_req := k\<rparr>" by blast
  then show ?thesis using True q by (simp add: MPID_part_check_num_requests_def undivided_def)
next
  case False
  let ?p = "p_partitions q" let ?r = "min ?p n"
  have pos: "0 < ?r" "0 < ?p" "p_requests q = ?p" using q n by (auto simp: undivided_def)
  have cdiv: "cdiv ?p ?r = ?p div ?r" using pos by (simp add: cdiv_def)
  define k where "k = (if 0 < ?p - ?p div ?r * ?r then ?p div ?r + 1 else ?p div ?r)"
  let ?q = "q\<lparr>p_requests := ?r, p_part_per_req := k\<rparr>"
  have "MPID_part_check_num_requests n q = Some ?q"
    using False unfolding MPID_part_check_num_requests_def Let_def pos(3) using less_imp_neq [OF pos(1)] by (simp add: cdiv k_def)
  moreover have f: "p_requests ?q = ?r" "p_part_per_req ?q = k" by simp_all
  note ceil = ceil_div [OF pos(1,2), folded k_def]
  have "?p \<le> p_requests ?q * p_part_per_req ?q \<and> p_requests ?q * (p_part_per_req ?q - 1) < ?p
      \<and> (p_requests ?q dvd ?p \<longrightarrow> p_requests ?q * p_part_per_req ?q = ?p)"
    unfolding f using ceil by blast
  moreover have "\<exists>n k. ?q = q\<lparr>p_requests := n, p_part_per_req := k\<rparr>" by blast
  ultimately show ?thesis using f(1) by blast
qed

lemma request_matched:
  assumes "data_fits q"
  obtains q' where "MPID_PSP_part_request_matched q = Some q'" "p_requests q' = p_requests q"
    "p_part_per_req q' = p_part_per_req q"
proof -
  have n: "caint (p_count q * p_partitions q) = Some (p_count q * p_partitions q)"
    using assms by (auto simp: caint_def data_fits_def MPIR_AINT_MAX_def)
  have "caint (p_dtype_size q * (p_count q * p_partitions q)) = Some (p_dtype_size q * (p_count q * p_partitions q))"
    using assms by (auto simp: caint_def data_fits_def MPIR_AINT_MAX_def)
  with n that show ?thesis by (simp add: MPID_PSP_part_request_matched_def)
qed

text \<open>C28: The two sides of a handshake settle on the same number of sub-requests, the smaller of
  their partition counts.  On each side the sub-requests cover all partitions and one partition less
  per sub-request would not, and the layout is even when the number divides the partitions.\<close>

theorem part_handshake_agrees:
  assumes s: "undivided s" and r: "undivided r" and fits: "data_fits r"
  shows "\<exists>r' s'. adopt_peer sdata peer (p_requests s) r = Some r' \<and> MPID_part_check_num_requests (p_requests r') s = Some s'
    \<and> p_requests r' = p_requests s' \<and> p_requests s' = min (p_partitions s) (p_partitions r)
    \<and> p_partitions s \<le> p_requests s' * p_part_per_req s' \<and> p_requests s' * (p_part_per_req s' - 1) < p_partitions s
    \<and> p_partitions r \<le> p_requests r' * p_part_per_req r' \<and> p_requests r' * (p_part_per_req r' - 1) < p_partitions r
    \<and> (p_requests s' dvd p_partitions s \<longrightarrow> p_requests s' * p_part_per_req s' = p_partitions s)
    \<and> (p_requests r' dvd p_partitions r \<longrightarrow> p_requests r' * p_part_per_req r' = p_partitions r)"
proof -
  let ?r = "r\<lparr>p_sdata_size := sdata, p_peer_request := peer\<rparr>"
  have u: "undivided ?r" "0 < p_requests s" "p_requests s = p_partitions s" "0 < p_partitions r"
    using s r by (auto simp: undivided_def)
  obtain r1 where c: "MPID_part_check_num_requests (p_requests s) ?r = Some r1" "p_requests r1 = min (p_partitions ?r) (p_requests s)"
    "p_partitions ?r \<le> p_requests r1 * p_part_per_req r1" "p_requests r1 * (p_part_per_req r1 - 1) < p_partitions ?r"
    "p_requests r1 dvd p_partitions ?r \<longrightarrow> p_requests r1 * p_part_per_req r1 = p_partitions ?r"
    "\<exists>n k. r1 = ?r\<lparr>p_requests := n, p_part_per_req := k\<rparr>"
    using check_num_requests [OF u(1,2)] by blast
  have r1: "MPID_part_check_num_requests (p_requests s) ?r = Some r1" "p_requests r1 = min (p_partitions r) (p_partitions s)"
    "p_partitions r \<le> p_requests r1 * p_part_per_req r1" "p_requests r1 * (p_part_per_req r1 - 1) < p_partitions r"
    "p_requests r1 dvd p_partitions r \<longrightarrow> p_requests r1 * p_part_per_req r1 = p_partitions r"
    using c u(3) by auto
  have pos: "0 < p_requests r1" using r1(2) u by simp
  obtain s1 where s1: "MPID_part_check_num_requests (p_requests r1) s = Some s1" "p_requests s1 = min (p_partitions s) (p_requests r1)"
    "p_partitions s \<le> p_requests s1 * p_part_per_req s1" "p_requests s1 * (p_part_per_req s1 - 1) < p_partitions s"
    "p_requests s1 dvd p_partitions s \<longrightarrow> p_requests s1 * p_part_per_req s1 = p_partitions s"
    using check_num_requests [OF s pos] by blast
  have "data_fits r1" using c(6) fits by (auto simp: data_fits_def)
  then obtain r2 where r2: "MPID_PSP_part_request_matched r1 = Some r2" "p_requests r2 = p_requests r1"
    "p_part_per_req r2 = p_part_per_req r1" by (rule request_matched)
  have "adopt_peer sdata peer (p_requests s) r = Some r2" using r1(1) r2(1) by (simp add: adopt_peer_def)
  then show ?thesis using r1 s1 r2(2,3) by (intro exI [of _ r2] exI [of _ s1]) simp
qed

theorem part_handshake_agrees_witness:
  "\<exists>r' s'. adopt_peer 24 (Some 3) 3 ((example_send 2 3 2 1)\<lparr>p_kind := PART_RECV\<rparr>) = Some r'
     \<and> MPID_part_check_num_requests (p_requests r') (example_send 3 2 3 1) = Some s' \<and> p_requests r' = p_requests s' \<and> p_requests s' = 2"
proof -
  have u: "undivided (example_send 3 2 3 1)" "undivided ((example_send 2 3 2 1)\<lparr>p_kind := PART_RECV\<rparr>)"
    by (simp_all add: undivided_def example_send_def)
  have f: "data_fits ((example_send 2 3 2 1)\<lparr>p_kind := PART_RECV\<rparr>)"
    by (simp add: data_fits_def example_send_def MPIR_AINT_MAX_def)
  have e: "p_requests (example_send 3 2 3 1) = 3" "min (p_partitions (example_send 3 2 3 1))
      (p_partitions ((example_send 2 3 2 1)\<lparr>p_kind := PART_RECV\<rparr>)) = 2" by (simp_all add: example_send_def)
  show ?thesis using part_handshake_agrees [OF u f, of 24 "Some 3"] unfolding e by blast
qed

text \<open>A compressor whose registration or whose \<open>req_init_fn\<close> fails makes the initialisation of
  the partitioned request fail with its error code.\<close>

theorem failing_compressor_fails_init:
  assumes "ie_info ie" "ie_names_compressor ie" "0 < partitions"
    and "ie_lookup ie = None \<and> ie_plugins_enabled ie \<and> ie_plugin_named ie \<and> ie_dlopen ie \<and> ie_dlsym ie \<and> ie_register ie = Some e
      \<or> (\<exists>c req_init. ie_lookup ie = Some c \<and> cp_req_init c = Some req_init \<and> fst (req_init (partitions, cnt, dsize)) = Some e)"
  shows "MPID_Psend_init ie a buf partitions cnt dsize dest tag ctx rank pp = Some (pp, Some e)
    \<and> MPID_Precv_init ie a buf partitions cnt dsize dest tag ctx rank pp = Some (pp, Some e)"
proof -
  have one: "cdiv partitions partitions = 1" using assms(3) by (simp add: cdiv_def)
  have "\<exists>q'. MPIDI_PSP_part_check_info ie q = Some (q', Some e)"
    if "p_part_per_req q = 1" "p_partitions q = partitions" "p_count q = cnt" "p_dtype_size q = dsize" for q
    using assms(4)
  proof
    assume "ie_lookup ie = None \<and> ie_plugins_enabled ie \<and> ie_plugin_named ie \<and> ie_dlopen ie \<and> ie_dlsym ie \<and> ie_register ie = Some e"
    then show ?thesis using assms(1,2) that(1) by (simp add: MPIDI_PSP_part_check_info_def find_compressor_def)
  next
    assume "\<exists>c req_init. ie_lookup ie = Some c \<and> cp_req_init c = Some req_init \<and> fst (req_init (partitions, cnt, dsize)) = Some e"
    then obtain c req_init x where "ie_lookup ie = Some c" "cp_req_init c = Some req_init" "req_init (partitions, cnt, dsize) = (Some e, x)"
      by (metis prod.collapse)
    then show ?thesis using assms(1,2) that
      by (cases x) (auto simp: MPIDI_PSP_part_check_info_def find_compressor_def)
  qed
  then have "\<exists>q. MPID_PSP_part_init_common ie kind buf partitions cnt dsize dest tag ctx rank = Some (q, Some e)" for kind
    using assms(3) one by (simp add: MPID_PSP_part_init_common_def MPID_part_distribute_partitions_to_requests_def)
  then obtain q1 q2 where
    "MPID_PSP_part_init_common ie PART_SEND buf partitions cnt dsize dest tag ctx rank = Some (q1, Some e)"
    "MPID_PSP_part_init_common ie PART_RECV buf partitions cnt dsize dest tag ctx rank = Some (q2, Some e)" by meson
  then show ?thesis by (simp add: MPID_Psend_init_def MPID_Precv_init_def)
qed

definition broken_plugin :: info_env where
  "broken_plugin = \<lparr>ie_info = True, ie_names_compressor = True, ie_lookup = None, ie_plugins_enabled = True,
     ie_plugin_named = True, ie_dlopen = True, ie_dlsym = True, ie_register = Some MPI_ERR_INTERN, ie_lookup_again = None,
     ie_malloc = 0\<rparr>"

definition no_requests :: part_proc where
  "no_requests = \<lparr>pp_reqs = Map.empty, part_posted_list = [], part_unexp_list = [], pp_out = []\<rparr>"

theorem failing_compressor_fails_init_witness:
  "MPID_Psend_init broken_plugin 1 1000 4 3 4 1 5 0 0 no_requests = Some (no_requests, Some MPI_ERR_INTERN)"
  using failing_compressor_fails_init [of broken_plugin 4 MPI_ERR_INTERN] by (simp add: broken_plugin_def)

section \<open>The matching lists\<close>

lemma match_and_deq_Some:
  assumes "match_and_deq_request f l = Some (x, rest)"
  shows "\<exists>pre post. l = pre @ x # post \<and> rest = pre @ post \<and> f x \<and> (\<forall>y\<in>set pre. \<not> f y)"
  using assms
proof (induction l arbitrary: rest)
  case (Cons r l)
  show ?case
  proof (cases "f r")
    case True
    then have "r # l = [] @ x # l \<and> rest = [] @ l \<and> f x \<and> (\<forall>y\<in>set []. \<not> f y)" using Cons.prems by simp
    then show ?thesis by blast
  next
    case False
    then obtain rest' where m: "match_and_deq_request f l = Some (x, rest')" "rest = r # rest'"
      using Cons.prems by auto
    then obtain pre post where "l = pre @ x # post" "rest' = pre @ post" "f x" "\<forall>y\<in>set pre. \<not> f y"
      using Cons.IH by blast
    then have "r # l = (r # pre) @ x # post \<and> rest = (r # pre) @ post \<and> f x \<and> (\<forall>y\<in>set (r # pre). \<not> f y)"
      using m(2) False by simp
    then show ?thesis by blast
  qed
qed simp

lemma match_and_deq_None: "match_and_deq_request f l = None \<longleftrightarrow> (\<forall>x\<in>set l. \<not> f x)"
  by (induction l) auto

inductive part_reach :: "part_proc \<Rightarrow> bool" where
  start: "part_reach no_requests"
| psend_init: "part_reach pp \<Longrightarrow> pp_reqs pp a = None \<Longrightarrow>
    MPID_Psend_init ie a buf partitions cnt dsize dest tag ctx rank pp = Some (pp', r) \<Longrightarrow> part_reach pp'"
| precv_init: "part_reach pp \<Longrightarrow> pp_reqs pp a = None \<Longrightarrow>
    MPID_Precv_init ie a buf partitions cnt dsize source tag ctx rank pp = Some (pp', r) \<Longrightarrow> part_reach pp'"
| recv_send_init: "part_reach pp \<Longrightarrow> MPID_do_recv_part_send_init env h pp = Some pp' \<Longrightarrow> part_reach pp'"
| psend_start: "part_reach pp \<Longrightarrow> pp_reqs pp a = Some q \<Longrightarrow> p_kind q = PART_SEND \<Longrightarrow>
    MPID_PSP_psend_start env q = Some (q', outs, r) \<Longrightarrow> part_reach (emit outs (store a q' pp))"
| precv_start: "part_reach pp \<Longrightarrow> pp_reqs pp a = Some q \<Longrightarrow> p_kind q = PART_RECV \<Longrightarrow>
    MPID_PSP_precv_start env a q = Some (q', outs, r) \<Longrightarrow> part_reach (emit outs (store a q' pp))"
| recv_cts: "part_reach pp \<Longrightarrow> pp_reqs pp a = Some q \<Longrightarrow> p_kind q = PART_SEND \<Longrightarrow>
    MPID_do_recv_part_cts env h q = Some (q', outs, r) \<Longrightarrow> part_reach (emit outs (store a q' pp))"
| pready_list: "part_reach pp \<Longrightarrow> pp_reqs pp a = Some q \<Longrightarrow> p_kind q = PART_SEND \<Longrightarrow>
    MPID_Pready_list env parts q = Some (q', outs, r) \<Longrightarrow> part_reach (emit outs (store a q' pp))"
| pready_range: "part_reach pp \<Longrightarrow> pp_reqs pp a = Some q \<Longrightarrow> p_kind q = PART_SEND \<Longrightarrow>
    MPID_Pready_range env low high q = Some (q', outs, r) \<Longrightarrow> part_reach (emit outs (store a q' pp))"

definition waits :: "part_proc \<Rightarrow> nat \<Rightarrow> bool" where
  "waits pp a = (case pp_reqs pp a of None \<Rightarrow> False | Some q \<Rightarrow> p_kind q = PART_RECV \<and> p_peer_request q = None)"

definition clash :: "part_proc \<Rightarrow> nat \<Rightarrow> part_unexp \<Rightarrow> bool" where
  "clash pp a u = posted_matches (u_rank u) (u_tag u) (u_context_id u) pp a"

definition queue_inv :: "part_proc \<Rightarrow> bool" where
  "queue_inv pp \<longleftrightarrow> distinct (part_posted_list pp) \<and> (\<forall>a\<in>set (part_posted_list pp). waits pp a)
     \<and> (\<forall>a\<in>set (part_posted_list pp). \<forall>u\<in>set (part_unexp_list pp). \<not> clash pp a u)"

lemma emit_simps [simp]:
  "pp_reqs (emit o' pp) = pp_reqs pp" "part_posted_list (emit o' pp) = part_posted_list pp"
  "part_unexp_list (emit o' pp) = part_unexp_list pp"
  by (simp_all add: emit_def)

lemma store_simps [simp]:
  "pp_reqs (store a q pp) = (pp_reqs pp)(a := Some q)" "part_posted_list (store a q pp) = part_posted_list pp"
  "part_unexp_list (store a q pp) = part_unexp_list pp"
  by (simp_all add: store_def)

lemma queue_inv_store_other:
  assumes "queue_inv pp" "a \<notin> set (part_posted_list pp)"
    "pp_reqs pp' = (pp_reqs pp)(a := Some q)" "part_posted_list pp' = part_posted_list pp" "part_unexp_list pp' = part_unexp_list pp"
  shows "queue_inv pp'"
  using assms by (auto simp: queue_inv_def waits_def clash_def posted_matches_def)

lemma waits_send: "queue_inv pp \<Longrightarrow> pp_reqs pp a = Some q \<Longrightarrow> p_kind q = PART_SEND \<Longrightarrow> a \<notin> set (part_posted_list pp)"
  by (auto simp: queue_inv_def waits_def)

lemma waits_fresh: "queue_inv pp \<Longrightarrow> pp_reqs pp a = None \<Longrightarrow> a \<notin> set (part_posted_list pp)"
  by (auto simp: queue_inv_def waits_def)

lemma queue_psend_init:
  assumes "queue_inv pp" "pp_reqs pp a = None"
    "MPID_Psend_init ie a buf partitions cnt dsize dest tag ctx rank pp = Some (pp', r)"
  shows "queue_inv pp'"
proof -
  have "pp' = pp \<or> (\<exists>q outs. pp' = emit outs (store a q pp))"
    using assms(3) by (auto simp: MPID_Psend_init_def Let_def bind_eq_Some_conv split: option.splits)
  then show ?thesis using assms(1) waits_fresh [OF assms(1,2)] by (auto intro: queue_inv_store_other)
qed

definition same_match :: "part_req \<Rightarrow> part_req \<Rightarrow> bool" where
  "same_match q q' \<longleftrightarrow> p_kind q' = p_kind q \<and> p_rank q' = p_rank q \<and> p_tag q' = p_tag q
     \<and> p_context_id q' = p_context_id q \<and> p_peer_request q' = p_peer_request q"

lemma set_compressor_fields: "set_compressor ie c sz b q = Some q' \<Longrightarrow> same_match q q'"
  by (auto simp: set_compressor_def bind_eq_Some_conv Let_def same_match_def split: option.splits if_splits)

lemma check_info_fields: "MPIDI_PSP_part_check_info ie q = Some (q', r) \<Longrightarrow> same_match q q'"
  by (auto simp: MPIDI_PSP_part_check_info_def Let_def split: if_splits prod.splits option.splits
      dest!: set_compressor_fields) (auto simp: same_match_def)

lemma init_common_fields:
  assumes "MPID_PSP_part_init_common ie kind buf partitions cnt dsize rank tag ctx comm_rank = Some (q, r)"
  shows "p_kind q = kind" "p_rank q = rank" "p_tag q = tag" "p_context_id q = ctx" "p_peer_request q = None"
proof -
  have "\<exists>q0. p_kind q0 = kind \<and> p_rank q0 = rank \<and> p_tag q0 = tag \<and> p_context_id q0 = ctx \<and> p_peer_request q0 = None
      \<and> MPIDI_PSP_part_check_info ie q0 = Some (q, r)"
    using assms unfolding MPID_PSP_part_init_common_def MPID_part_distribute_partitions_to_requests_def Let_def
    by (intro exI conjI) (auto simp: bind_eq_Some_conv split: if_splits)
  then obtain q0 where q0: "p_kind q0 = kind" "p_rank q0 = rank" "p_tag q0 = tag" "p_context_id q0 = ctx" "p_peer_request q0 = None"
    "MPIDI_PSP_part_check_info ie q0 = Some (q, r)" by blast
  show "p_kind q = kind" "p_rank q = rank" "p_tag q = tag" "p_context_id q = ctx" "p_peer_request q = None"
    using q0 check_info_fields [OF q0(6)] by (simp_all add: same_match_def)
qed

lemma queue_precv_init:
  assumes inv: "queue_inv pp" and a: "pp_reqs pp a = None"
    and c: "MPID_Precv_init ie a buf partitions cnt dsize source tag ctx rank pp = Some (pp', r)"
  shows "queue_inv pp'"
proof -
  have new: "a \<notin> set (part_posted_list pp)" using waits_fresh [OF inv a] .
  obtain q r0 where q: "MPID_PSP_part_init_common ie PART_RECV buf partitions cnt dsize source tag ctx rank = Some (q, r0)"
    using c by (auto simp: MPID_Precv_init_def bind_eq_Some_conv)
  note f = init_common_fields [OF q]
  show ?thesis
  proof (cases r0)
    case (Some e)
    then show ?thesis using c q inv by (simp add: MPID_Precv_init_def)
  next
    case None
    let ?m = "match_and_deq_request (unexp_matches (p_rank q) (p_tag q) (p_context_id q)) (part_unexp_list pp)"
    show ?thesis
    proof (cases ?m)
      case (Some ur)
      obtain u rest where ur: "ur = (u, rest)" by fastforce
      then obtain q' where pp': "pp' = store a q' ((emit [ctrl_recv_of PART_SEND_INIT q] pp)\<lparr>part_unexp_list := rest\<rparr>)"
        using c q None Some by (auto simp: MPID_Precv_init_def Let_def bind_eq_Some_conv)
      have "set rest \<subseteq> set (part_unexp_list pp)" using match_and_deq_Some [OF Some [unfolded ur]] by auto
      then show ?thesis using inv new pp' by (auto simp: queue_inv_def waits_def clash_def posted_matches_def)
    next
      case none: None
      then have pp': "pp' = store a (q\<lparr>p_ref_count := p_ref_count q + 1\<rparr>)
          ((emit [ctrl_recv_of PART_SEND_INIT q] pp)\<lparr>part_posted_list := part_posted_list pp @ [a]\<rparr>)"
        using c q None by (auto simp: MPID_Precv_init_def Let_def)
      have "\<forall>u\<in>set (part_unexp_list pp). \<not> unexp_matches (p_rank q) (p_tag q) (p_context_id q) u"
        using none by (simp add: match_and_deq_None)
      then show ?thesis using inv new f(1,5) unfolding pp'
        by (auto simp: queue_inv_def waits_def clash_def posted_matches_def partitioned_requests_do_match_def unexp_matches_def)
    qed
  qed
qed

lemma recv_send_init_result:
  assumes c: "MPID_do_recv_part_send_init env h pp = Some pp'"
    and m: "match_and_deq_request (posted_matches (ph_src_rank h) (ph_tag h) (ph_context_id h) pp) (part_posted_list pp)
      = Some (a, rest)"
  shows "\<exists>q outs. pp' = emit outs (store a q (pp\<lparr>part_posted_list := rest\<rparr>))"
proof -
  obtain q0 q1 where q: "pp_reqs pp a = Some q0" "adopt_peer (ph_sdata_size h) (ph_sreq h) (ph_requests h) q0 = Some q1"
    using c m unfolding MPID_do_recv_part_send_init_def by (auto simp: bind_eq_Some_conv)
  show ?thesis
  proof (cases "p_active q1")
    case True
    then show ?thesis using c m q unfolding MPID_do_recv_part_send_init_def
      by (auto simp: bind_eq_Some_conv Let_def)
  next
    case False
    have "emit [] x = x" for x by (simp add: emit_def)
    then show ?thesis using c m q False unfolding MPID_do_recv_part_send_init_def
      by (intro exI [of _ "q1\<lparr>p_ref_count := p_ref_count q1 - 1\<rparr>"] exI [of _ "[]"]) (simp add: Let_def)
  qed
qed

lemma queue_recv_send_init:
  assumes inv: "queue_inv pp" and c: "MPID_do_recv_part_send_init env h pp = Some pp'"
  shows "queue_inv pp'"
proof -
  let ?f = "posted_matches (ph_src_rank h) (ph_tag h) (ph_context_id h) pp"
  show ?thesis
  proof (cases "match_and_deq_request ?f (part_posted_list pp)")
    case None
    define u where "u = \<lparr>u_rank = ph_src_rank h, u_tag = ph_tag h, u_context_id = ph_context_id h,
      u_sdata_size = ph_sdata_size h, u_peer_request = ph_sreq h, u_requests = ph_requests h\<rparr>"
    have pp': "pp' = pp\<lparr>part_unexp_list := part_unexp_list pp @ [u]\<rparr>"
      using c None by (simp add: MPID_do_recv_part_send_init_def u_def)
    have "\<forall>a\<in>set (part_posted_list pp). \<not> clash pp a u"
      using None by (simp add: match_and_deq_None clash_def u_def)
    then show ?thesis using inv by (auto simp: pp' queue_inv_def waits_def clash_def posted_matches_def)
  next
    case (Some ar)
    obtain a rest where ar: "ar = (a, rest)" by fastforce
    obtain pre post where l: "part_posted_list pp = pre @ a # post" "rest = pre @ post"
      using match_and_deq_Some [OF Some [unfolded ar]] by blast
    obtain q outs where pp': "pp' = emit outs (store a q (pp\<lparr>part_posted_list := rest\<rparr>))"
      using recv_send_init_result c Some ar by blast
    have "distinct (pre @ a # post)" using inv l(1) by (simp add: queue_inv_def)
    then have "a \<notin> set rest" "distinct rest" "set rest \<subseteq> set (part_posted_list pp)" using l by auto
    then show ?thesis using inv pp' by (auto simp: queue_inv_def waits_def clash_def posted_matches_def)
  qed
qed

lemma queue_precv_start:
  assumes inv: "queue_inv pp" and q: "pp_reqs pp a = Some q" "p_kind q = PART_RECV"
    and c: "MPID_PSP_precv_start env a q = Some (q', outs, r)"
  shows "queue_inv (emit outs (store a q' pp))"
proof -
  have "q' = q\<lparr>p_active := True, p_cc := p_requests q\<rparr>"
    using c q(2) by (auto simp: MPID_PSP_precv_start_def Let_def bind_eq_Some_conv split: if_splits)
  then have "waits (emit outs (store a q' pp)) x = waits pp x" "clash (emit outs (store a q' pp)) x u = clash pp x u" for x u
    using q by (auto simp: waits_def clash_def posted_matches_def partitioned_requests_do_match_def)
  then show ?thesis using inv by (simp add: queue_inv_def)
qed

lemma queue_send_request:
  assumes "queue_inv pp" "pp_reqs pp a = Some q" "p_kind q = PART_SEND"
  shows "queue_inv (emit outs (store a q' pp))"
  using assms(1) waits_send [OF assms] by (rule queue_inv_store_other) simp_all

lemma part_reach_queue_inv: "part_reach pp \<Longrightarrow> queue_inv pp"
proof (induction rule: part_reach.induct)
  case start
  show ?case by (simp add: queue_inv_def no_requests_def)
next
  case psend_init
  then show ?case by (blast intro: queue_psend_init)
next
  case precv_init
  then show ?case by (blast intro: queue_precv_init)
next
  case recv_send_init
  then show ?case by (blast intro: queue_recv_send_init)
next
  case precv_start
  then show ?case by (blast intro: queue_precv_start)
qed (simp_all add: queue_send_request)

lemma queue_inv_unfolded:
  assumes "queue_inv pp"
  shows "distinct (part_posted_list pp)
    \<and> (\<forall>a\<in>set (part_posted_list pp). \<exists>q. pp_reqs pp a = Some q \<and> p_kind q = PART_RECV \<and> p_peer_request q = None
        \<and> (\<forall>u\<in>set (part_unexp_list pp). \<not> partitioned_requests_do_match (u_rank u) (u_tag u) (u_context_id u) q))"
proof (intro conjI ballI)
  show "distinct (part_posted_list pp)" using assms by (simp add: queue_inv_def)
  fix a assume a: "a \<in> set (part_posted_list pp)"
  then have w: "waits pp a" and c: "\<forall>u\<in>set (part_unexp_list pp). \<not> clash pp a u"
    using assms unfolding queue_inv_def by blast+
  obtain q where "pp_reqs pp a = Some q" "p_kind q = PART_RECV" "p_peer_request q = None"
    using w unfolding waits_def by (cases "pp_reqs pp a") simp_all
  moreover from this(1) c
  have "\<forall>u\<in>set (part_unexp_list pp). \<not> partitioned_requests_do_match (u_rank u) (u_tag u) (u_context_id u) q"
    by (simp add: clash_def posted_matches_def)
  ultimately show "\<exists>q. pp_reqs pp a = Some q \<and> p_kind q = PART_RECV \<and> p_peer_request q = None
      \<and> (\<forall>u\<in>set (part_unexp_list pp). \<not> partitioned_requests_do_match (u_rank u) (u_tag u) (u_context_id u) q)"
    by blast
qed

text \<open>C29: Whatever calls a process makes and whatever messages arrive, a posted receive never waits
  for a \<open>SEND_INIT\<close> message that already waits in the list of unexpected ones: no entry of the two
  matching lists fits the other list.  Every listed receive is listed once and has no peer yet.\<close>

theorem matching_lists_disjoint:
  assumes "part_reach pp"
  shows "distinct (part_posted_list pp)
    \<and> (\<forall>a\<in>set (part_posted_list pp). \<exists>q. pp_reqs pp a = Some q \<and> p_kind q = PART_RECV \<and> p_peer_request q = None
        \<and> (\<forall>u\<in>set (part_unexp_list pp). \<not> partitioned_requests_do_match (u_rank u) (u_tag u) (u_context_id u) q))"
  using part_reach_queue_inv [OF assms] by (rule queue_inv_unfolded)

definition no_info :: info_env where
  "no_info = broken_plugin\<lparr>ie_info := False\<rparr>"

definition posted_receive :: part_proc where
  "posted_receive = (case MPID_Precv_init no_info 1 1000 4 3 4 1 5 0 0 no_requests of
     Some (pp, _) \<Rightarrow> pp | None \<Rightarrow> no_requests)"

definition other_init :: part_header where
  "other_init = \<lparr>ph_type = PART_SEND_INIT, ph_tag = 6, ph_context_id = 0, ph_src_rank = 1, ph_sdata_size = 48,
     ph_requests = 4, ph_sreq = Some 7, ph_rreq = None\<rparr>"

definition both_lists :: part_proc where
  "both_lists = (case MPID_do_recv_part_send_init plain_env other_init posted_receive of
     Some pp \<Rightarrow> pp | None \<Rightarrow> no_requests)"

lemmas example_receive_defs = MPID_Precv_init_def MPID_PSP_part_init_common_def Let_def
  MPID_part_distribute_partitions_to_requests_def MPIDI_PSP_part_check_info_def no_info_def broken_plugin_def
  no_requests_def emit_def store_def cdiv_def

lemma posted_receive_reached:
  "\<exists>r. MPID_Precv_init no_info 1 1000 4 3 4 1 5 0 0 no_requests = Some (posted_receive, r)"
  by (simp add: posted_receive_def example_receive_defs)

lemma posted_receive_lists: "part_posted_list posted_receive = [1]" "part_unexp_list posted_receive = []"
    "map_option p_tag (pp_reqs posted_receive 1) = Some 5"
  by (simp_all add: posted_receive_def example_receive_defs)

lemma both_lists_reached: "MPID_do_recv_part_send_init plain_env other_init posted_receive = Some both_lists"
    "part_posted_list both_lists = [1]" "length (part_unexp_list both_lists) = 1"
proof -
  have "\<not> posted_matches 1 6 0 posted_receive 1"
    using posted_receive_lists(3) by (auto simp: posted_matches_def partitioned_requests_do_match_def)
  then show "MPID_do_recv_part_send_init plain_env other_init posted_receive = Some both_lists"
    "part_posted_list both_lists = [1]" "length (part_unexp_list both_lists) = 1"
    by (simp_all add: both_lists_def MPID_do_recv_part_send_init_def other_init_def posted_receive_lists)
qed

theorem matching_lists_disjoint_witness:
  "part_reach both_lists \<and> part_posted_list both_lists = [1]
    \<and> (\<exists>q u. pp_reqs both_lists 1 = Some q \<and> p_peer_request q = None \<and> part_unexp_list both_lists = [u]
        \<and> \<not> partitioned_requests_do_match (u_rank u) (u_tag u) (u_context_id u) q)"
proof -
  have "pp_reqs no_requests 1 = None" by (simp add: no_requests_def)
  then have "part_reach posted_receive" using part_reach.precv_init part_reach.start posted_receive_reached by blast
  then have r: "part_reach both_lists" using part_reach.recv_send_init both_lists_reached(1) by blast
  obtain u where "part_unexp_list both_lists = [u]" using both_lists_reached(3) by (auto simp: length_Suc_conv)
  then show ?thesis using matching_lists_disjoint [OF r] r both_lists_reached(2) by auto
qed

end
