(* ===== verification/Info_Objects.thy ===== *)
theory Info_Objects
  imports Psmpi_Prelude
begin

text \<open>
  Info objects, \<open>mpi/info/infoutil.c\<close> and \<open>mpi/info/info_impl.c\<close>: the dynamic array of key/value
  pairs, the array-type entries that hold one value per merged object, merging and splitting, and
  the copies into buffers of the caller.

  An info object is the record \<open>mpir_info\<close>; the slots in use are lists, the number of allocated
  slots is kept beside them, and a store outside the allocated slots has no result.  Strings are C
  strings without their terminator.  Allocations succeed; the release of an object
  (\<open>MPIR_Info_free_impl\<close>) is the end of its value.
\<close>

section \<open>Strings\<close>

definition MPI_MAX_INFO_KEY :: nat where "MPI_MAX_INFO_KEY = 255"

definition strncmp_eq :: "nat \<Rightarrow> string \<Rightarrow> string \<Rightarrow> bool" where
  "strncmp_eq n a b \<longleftrightarrow> take n a = take n b"

text \<open>\<open>MPL_strncpy\<close>: the string left in the destination, \<open>None\<close> when nothing is written, and the
  return code.\<close>

fun strncpy_loop :: "string \<Rightarrow> int \<Rightarrow> string \<Rightarrow> string \<times> int" where
  "strncpy_loop [] i d = (d, i)"
| "strncpy_loop (c # src) i d = (if i > 0 then strncpy_loop src (i - 1) (d @ [c]) else (d, i - 1))"

definition MPL_strncpy :: "string \<Rightarrow> nat \<Rightarrow> string option \<times> int" where
  "MPL_strncpy src n =
     (if n = 0 then (None, 0)
      else let (d, i) = strncpy_loop src (int n) []
           in if i > 0 then (Some d, 0) else (Some (take (n - 1) d), 1))"

section \<open>Objects\<close>

record info_entry =
  ie_key :: string
  ie_value :: string

record info_array_entry =
  ia_key :: string
  ia_values :: "string list"
  ia_num_values :: int

record mpir_info =
  entries :: "info_entry list"
  capacity :: int
  array_entries :: "info_array_entry list"
  array_capacity :: int

definition MPIR_INFO_INFOKEY_ARRAY_TYPE :: string where
  "MPIR_INFO_INFOKEY_ARRAY_TYPE = ''mpix_info_array_type''"

definition INFO_INITIAL_SIZE :: int where "INFO_INITIAL_SIZE = 10"

definition MPIR_Info_alloc :: mpir_info where
  "MPIR_Info_alloc = \<lparr>entries = [], capacity = 0, array_entries = [], array_capacity = 0\<rparr>"

text \<open>The capacity after making room for one more slot.\<close>

definition grow :: "'a list \<Rightarrow> int \<Rightarrow> int option" where
  "grow xs cap =
     (if cap = 0 then Some INFO_INITIAL_SIZE
      else if int (length xs) = cap then do { n \<leftarrow> cint (cap * 5); Some (cdiv n 3) }
      else Some cap)"

definition MPIR_Info_push :: "mpir_info \<Rightarrow> string \<Rightarrow> string \<Rightarrow> mpir_info option" where
  "MPIR_Info_push info key val = do {
     cap \<leftarrow> grow (entries info) (capacity info);
     if int (length (entries info)) < cap
     then Some (info\<lparr>capacity := cap, entries := entries info @ [\<lparr>ie_key = key, ie_value = val\<rparr>]\<rparr>)
     else None
   }"

definition MPIR_Info_push_array :: "mpir_info \<Rightarrow> int \<Rightarrow> int \<Rightarrow> string \<Rightarrow> string \<Rightarrow> mpir_info option" where
  "MPIR_Info_push_array info index cnt key val = do {
     cap \<leftarrow> grow (array_entries info) (array_capacity info);
     if int (length (array_entries info)) < cap
     then do {
       values \<leftarrow> aset (replicate (nat cnt) ''none'') index val;
       Some (info\<lparr>array_capacity := cap, array_entries := array_entries info @
               [\<lparr>ia_key = key, ia_values = values, ia_num_values = cnt\<rparr>]\<rparr>)
     }
     else None
   }"

text \<open>\<open>MPIR_Info_set_array\<close> looks for the key in all entries and keeps the last one it finds.\<close>

fun find_all :: "info_array_entry list \<Rightarrow> string \<Rightarrow> int \<Rightarrow> int \<Rightarrow> int \<Rightarrow> int \<times> int" where
  "find_all [] key i found j = (found, j)"
| "find_all (e # es) key i found j =
     (if strncmp_eq MPI_MAX_INFO_KEY (ia_key e) key then find_all es key (i + 1) (found + 1) i
      else find_all es key (i + 1) found j)"

definition MPIR_Info_set_array :: "mpir_info \<Rightarrow> int \<Rightarrow> string \<Rightarrow> string \<Rightarrow> mpir_info option" where
  "MPIR_Info_set_array info index key val =
     (let (found, j) = find_all (array_entries info) key 0 0 (-1)
      in if found = 1 \<and> 0 \<le> j
         then do {
           e \<leftarrow> aget (array_entries info) j;
           if index < ia_num_values e
           then do {
             values \<leftarrow> aset (ia_values e) index val;
             es \<leftarrow> aset (array_entries info) j (e\<lparr>ia_values := values\<rparr>);
             Some (info\<lparr>array_entries := es\<rparr>)
           }
           else None
         }
         else None)"

fun find_key :: "('a \<Rightarrow> string) \<Rightarrow> 'a list \<Rightarrow> string \<Rightarrow> int \<Rightarrow> int" where
  "find_key key_of [] key i = -1"
| "find_key key_of (e # es) key i =
     (if strncmp_eq MPI_MAX_INFO_KEY (key_of e) key then i else find_key key_of es key (i + 1))"

definition info_find_key :: "mpir_info \<Rightarrow> string \<Rightarrow> int" where
  "info_find_key info key = find_key ie_key (entries info) key 0"

definition info_find_key_array :: "mpir_info \<Rightarrow> string \<Rightarrow> int" where
  "info_find_key_array info key = find_key ia_key (array_entries info) key 0"

text \<open>The later entries move up, then the size is decremented.\<close>

definition move_up :: "'a list \<Rightarrow> int \<Rightarrow> 'a list option" where
  "move_up xs found_index = do {
     ys \<leftarrow> ofold (\<lambda>i ys. do { y \<leftarrow> aget ys i; aset ys (i - 1) y }) [found_index + 1..int (length xs) - 1] xs;
     Some (take (length xs - 1) ys)
   }"

definition info_delete_array :: "mpir_info \<Rightarrow> string \<Rightarrow> (mpir_info \<times> int) option" where
  "info_delete_array info key =
     (let found_index = info_find_key_array info key
      in if 0 \<le> found_index
         then do {
           es \<leftarrow> move_up (array_entries info) found_index;
           Some (info\<lparr>array_entries := es\<rparr>, found_index)
         }
         else Some (info, found_index))"

fun lookup_entries :: "info_entry list \<Rightarrow> string \<Rightarrow> string option" where
  "lookup_entries [] key = None"
| "lookup_entries (e # es) key =
     (if strncmp_eq MPI_MAX_INFO_KEY (ie_key e) key then Some (ie_value e) else lookup_entries es key)"

definition MPIR_Info_lookup :: "mpir_info option \<Rightarrow> string \<Rightarrow> string option" where
  "MPIR_Info_lookup info_ptr key = (case info_ptr of None \<Rightarrow> None | Some info \<Rightarrow> lookup_entries (entries info) key)"

text \<open>The outer option is the assertion, the inner one the \<open>NULL\<close> of a missing key.\<close>

fun lookup_arrays :: "info_array_entry list \<Rightarrow> string \<Rightarrow> int \<Rightarrow> (string \<times> int) option option" where
  "lookup_arrays [] key index = Some None"
| "lookup_arrays (e # es) key index =
     (if strncmp_eq MPI_MAX_INFO_KEY (ia_key e) key
      then if index < ia_num_values e
           then do { v \<leftarrow> aget (ia_values e) index; Some (Some (v, ia_num_values e)) }
           else None
      else lookup_arrays es key index)"

definition MPIR_Info_lookup_array :: "mpir_info option \<Rightarrow> string \<Rightarrow> int \<Rightarrow> (string \<times> int) option option" where
  "MPIR_Info_lookup_array info_ptr key index =
     (case info_ptr of None \<Rightarrow> Some None | Some info \<Rightarrow> lookup_arrays (array_entries info) key index)"

definition MPIR_Info_delete_impl :: "mpir_info \<Rightarrow> string \<Rightarrow> (mpir_info \<times> mpi_error option) option" where
  "MPIR_Info_delete_impl info key =
     (let found_index = info_find_key info key
      in if found_index < 0 then Some (info, Some MPI_ERR_INFO_NOKEY)
         else do {
           es \<leftarrow> move_up (entries info) found_index;
           (info, _) \<leftarrow> info_delete_array (info\<lparr>entries := es\<rparr>) key;
           Some (info, None)
         })"

definition MPIR_Info_set_impl :: "mpir_info \<Rightarrow> string \<Rightarrow> string \<Rightarrow> mpir_info option" where
  "MPIR_Info_set_impl info key value =
     (let found_index = info_find_key info key
      in if found_index < 0 then MPIR_Info_push info key value
         else do {
           e \<leftarrow> aget (entries info) found_index;
           es \<leftarrow> aset (entries info) found_index (e\<lparr>ie_value := value\<rparr>);
           (info, _) \<leftarrow> info_delete_array (info\<lparr>entries := es\<rparr>) key;
           Some info
         })"

section \<open>Reading\<close>

definition MPIR_Info_get_impl :: "mpir_info \<Rightarrow> string \<Rightarrow> nat \<Rightarrow> (string option \<times> bool \<times> mpi_error option)" where
  "MPIR_Info_get_impl info key valuelen =
     (case MPIR_Info_lookup (Some info) key of
        None \<Rightarrow> (None, False, None)
      | Some v \<Rightarrow>
          let (value, err) = MPL_strncpy v (valuelen + 1)
          in (value, True, if err \<noteq> 0 then Some MPI_ERR_INFO_VALUE else None))"

definition MPIR_Info_get_nkeys_impl :: "mpir_info \<Rightarrow> int" where
  "MPIR_Info_get_nkeys_impl info = int (length (entries info))"

definition MPIR_Info_get_nthkey_impl :: "mpir_info \<Rightarrow> int \<Rightarrow> (mpi_error + string option) option" where
  "MPIR_Info_get_nthkey_impl info n =
     (if int (length (entries info)) \<le> n then Some (Inl MPI_ERR_ARG)
      else do {
        e \<leftarrow> aget (entries info) n;
        Some (Inr (fst (MPL_strncpy (ie_key e) MPI_MAX_INFO_KEY)))
      })"

definition MPIR_Info_get_valuelen_impl :: "mpir_info \<Rightarrow> string \<Rightarrow> int option" where
  "MPIR_Info_get_valuelen_impl info key = map_option (\<lambda>v. int (length v)) (MPIR_Info_lookup (Some info) key)"

text \<open>The value written, the new \<open>buflen\<close> and the flag.\<close>

definition MPIR_Info_get_string_impl :: "mpir_info \<Rightarrow> string \<Rightarrow> int \<Rightarrow> (string option \<times> int \<times> bool)" where
  "MPIR_Info_get_string_impl info key buflen =
     (case MPIR_Info_lookup (Some info) key of
        None \<Rightarrow> (None, buflen, False)
      | Some v \<Rightarrow>
          (if buflen > 0 then fst (MPL_strncpy v (nat buflen)) else None, int (length v) + 1, True))"

section \<open>Copying, merging and splitting\<close>

definition dup_array :: "info_array_entry \<Rightarrow> mpir_info \<Rightarrow> mpir_info option" where
  "dup_array e info_new = do {
     v0 \<leftarrow> aget (ia_values e) 0;
     info_new \<leftarrow> MPIR_Info_push_array info_new 0 (ia_num_values e) (ia_key e) v0;
     ofold (\<lambda>j info_new. do { v \<leftarrow> aget (ia_values e) j; MPIR_Info_set_array info_new j (ia_key e) v })
       [1..ia_num_values e - 1] info_new
   }"

definition MPIR_Info_dup_impl :: "mpir_info option \<Rightarrow> mpir_info option option" where
  "MPIR_Info_dup_impl info_ptr =
     (case info_ptr of
        None \<Rightarrow> Some None
      | Some info \<Rightarrow> do {
          info_new \<leftarrow> ofold (\<lambda>e info_new. MPIR_Info_push info_new (ie_key e) (ie_value e)) (entries info) MPIR_Info_alloc;
          info_new \<leftarrow> ofold dup_array (array_entries info) info_new;
          Some (Some info_new)
        })"

definition MPIR_Info_dup_key_impl :: "mpir_info \<Rightarrow> string \<Rightarrow> mpir_info \<Rightarrow> (mpir_info \<times> mpi_error option) option" where
  "MPIR_Info_dup_key_impl src_info key dest_info =
     (case MPIR_Info_lookup (Some src_info) key of
        None \<Rightarrow> Some (dest_info, Some MPI_ERR_INFO_NOKEY)
      | Some value \<Rightarrow> do {
          dest_info \<leftarrow> MPIR_Info_set_impl dest_info key value;
          a \<leftarrow> MPIR_Info_lookup_array (Some src_info) key 0;
          case a of
            None \<Rightarrow> Some (dest_info, None)
          | Some (value, num_values) \<Rightarrow> do {
              (dest_info, _) \<leftarrow> info_delete_array dest_info key;
              dest_info \<leftarrow> MPIR_Info_push_array dest_info 0 num_values key value;
              dest_info \<leftarrow> ofold (\<lambda>i dest_info. do {
                  a \<leftarrow> MPIR_Info_lookup_array (Some src_info) key i;
                  (value, _) \<leftarrow> a;
                  MPIR_Info_set_array dest_info i key value
                }) [1..num_values - 1] dest_info;
              Some (dest_info, None)
            }
        })"

definition merge_other :: "mpir_info option list \<Rightarrow> string \<Rightarrow> int \<Rightarrow> bool \<times> mpir_info \<Rightarrow> (bool \<times> mpir_info) option" where
  "merge_other infos key k = (\<lambda>(found, info_new). do {
     info \<leftarrow> aget infos k;
     case MPIR_Info_lookup info key of
       None \<Rightarrow> Some (found, info_new)
     | Some value \<Rightarrow>
         if value = MPIR_INFO_INFOKEY_ARRAY_TYPE then Some (found, info_new)
         else if \<not> found then do {
           info_new \<leftarrow> MPIR_Info_push_array info_new k (int (length infos)) key value;
           Some (True, info_new)
         }
         else do {
           info_new \<leftarrow> MPIR_Info_set_array info_new k key value;
           Some (True, info_new)
         }
   })"

definition merge_key :: "mpir_info option list \<Rightarrow> int \<Rightarrow> info_entry \<Rightarrow> mpir_info \<Rightarrow> mpir_info option" where
  "merge_key infos i e info_new =
     (if ie_value e = MPIR_INFO_INFOKEY_ARRAY_TYPE then Some info_new
      else do {
        a \<leftarrow> MPIR_Info_lookup_array (Some info_new) (ie_key e) 0;
        if a \<noteq> None then Some info_new
        else do {
          (found, info_new) \<leftarrow> ofold (merge_other infos (ie_key e)) [i + 1..int (length infos) - 1] (False, info_new);
          if found then MPIR_Info_set_array info_new i (ie_key e) (ie_value e) else Some info_new
        }
      })"

definition merge_info :: "mpir_info option list \<Rightarrow> int \<Rightarrow> mpir_info \<Rightarrow> mpir_info option" where
  "merge_info infos i info_new = do {
     info_ptr \<leftarrow> aget infos i;
     case info_ptr of
       None \<Rightarrow> Some info_new
     | Some info \<Rightarrow> ofold (merge_key infos i) (entries info) info_new
   }"

definition copy_key :: "info_entry \<Rightarrow> mpir_info \<Rightarrow> mpir_info option" where
  "copy_key e info_new =
     (if ie_value e = MPIR_INFO_INFOKEY_ARRAY_TYPE then Some info_new
      else do {
        a \<leftarrow> MPIR_Info_lookup_array (Some info_new) (ie_key e) 0;
        if a = None then MPIR_Info_push info_new (ie_key e) (ie_value e)
        else if MPIR_Info_lookup (Some info_new) (ie_key e) = None
        then MPIR_Info_push info_new (ie_key e) MPIR_INFO_INFOKEY_ARRAY_TYPE
        else Some info_new
      })"

definition copy_info :: "mpir_info option list \<Rightarrow> int \<Rightarrow> mpir_info \<Rightarrow> mpir_info option" where
  "copy_info infos i info_new = do {
     info_ptr \<leftarrow> aget infos i;
     case info_ptr of
       None \<Rightarrow> Some info_new
     | Some info \<Rightarrow> ofold copy_key (entries info) info_new
   }"

definition MPIR_Info_merge_from_array_impl :: "mpir_info option list \<Rightarrow> mpir_info option" where
  "MPIR_Info_merge_from_array_impl infos = do {
     info_new \<leftarrow> ofold (merge_info infos) [0..int (length infos) - 1] MPIR_Info_alloc;
     ofold (copy_info infos) [0..int (length infos) - 1] info_new
   }"

definition set_nth :: "string \<Rightarrow> string \<Rightarrow> int \<Rightarrow> mpir_info list \<Rightarrow> mpir_info list option" where
  "set_nth key value j infos = do {
     info \<leftarrow> aget infos j;
     info \<leftarrow> MPIR_Info_set_impl info key value;
     aset infos j info
   }"

definition split_entry ::
  "mpir_info \<Rightarrow> int \<Rightarrow> info_entry \<Rightarrow> int \<times> mpir_info list \<Rightarrow> (int \<times> mpir_info list) option" where
  "split_entry info cnt e = (\<lambda>(new_count, infos).
     if ie_value e = MPIR_INFO_INFOKEY_ARRAY_TYPE
     then do {
       a \<leftarrow> MPIR_Info_lookup_array (Some info) (ie_key e) 0;
       (value, num_values) \<leftarrow> a;
       if num_values = 0 then None
       else do {
         infos \<leftarrow> ofold (\<lambda>j infos. do {
             a \<leftarrow> MPIR_Info_lookup_array (Some info) (ie_key e) j;
             (value, _) \<leftarrow> a;
             set_nth (ie_key e) value j infos
           }) [0..min num_values cnt - 1] infos;
         Some (max new_count num_values, infos)
       }
     }
     else do {
       infos \<leftarrow> ofold (set_nth (ie_key e) (ie_value e)) [0..cnt - 1] infos;
       Some (new_count, infos)
     })"

definition MPIR_Info_split_into_array_impl ::
  "int \<Rightarrow> mpir_info list \<Rightarrow> mpir_info \<Rightarrow> (int \<times> mpir_info list) option" where
  "MPIR_Info_split_into_array_impl cnt infos info = ofold (split_entry info cnt) (entries info) (0, infos)"

end
