(* ===== verification/Hex_Code.thy ===== *)
theory Hex_Code
  imports Info_Objects
begin

text \<open>
  The text form of binary info values, \<open>mpl/src/misc/mpl_misc.c\<close>: two hex digits for a byte and
  \<open>[n]\<close> for a run of \<open>n\<close> zero bytes, and the calls that store and fetch such values.

  The encoder keeps the room left in its buffer as the code does: the text of a run is printed with
  \<open>snprintf\<close>, whose truncation it does not notice, so the room can become zero or negative; writing the
  terminator then has no result.  The decoder writes into the buffer of the caller; a store outside
  it has no result.
\<close>

unbundle bit_operations_syntax

section \<open>Digits\<close>

definition chr :: "nat \<Rightarrow> char" where "chr n = char_of n"

definition isdigit :: "char \<Rightarrow> bool" where
  "isdigit c \<longleftrightarrow> 48 \<le> (of_char c :: nat) \<and> (of_char c :: nat) \<le> 57"

definition isxdigit :: "char \<Rightarrow> bool" where
  "isxdigit c \<longleftrightarrow> isdigit c \<or> 97 \<le> (of_char c :: nat) \<and> (of_char c :: nat) \<le> 102
     \<or> 65 \<le> (of_char c :: nat) \<and> (of_char c :: nat) \<le> 70"

definition isspace :: "char \<Rightarrow> bool" where
  "isspace c \<longleftrightarrow> of_char c = (32 :: nat) \<or> 9 \<le> (of_char c :: nat) \<and> (of_char c :: nat) \<le> 13"

definition hex :: "char \<Rightarrow> nat option" where
  "hex c = (if isdigit c then Some (of_char c - 48)
     else if 97 \<le> (of_char c :: nat) \<and> (of_char c :: nat) \<le> 102 then Some (10 + of_char c - 97)
     else if 65 \<le> (of_char c :: nat) \<and> (of_char c :: nat) \<le> 70 then Some (10 + of_char c - 65)
     else None)"

definition to_hex :: "8 word \<Rightarrow> char" where
  "to_hex num = (if num < 10 then chr (48 + unat num) else chr (65 + unat num - 10))"

text \<open>The output of \<open>%d\<close> for a non-negative number, and \<open>atoi\<close>.\<close>

fun decimal :: "nat \<Rightarrow> string" where
  "decimal n = (if n < 10 then [chr (48 + n)] else decimal (n div 10) @ [chr (48 + n mod 10)])"

declare decimal.simps [simp del]

fun digits :: "string \<Rightarrow> int \<Rightarrow> int" where
  "digits [] acc = acc"
| "digits (c # cs) acc = (if isdigit c then digits cs (acc * 10 + int (of_char c - 48)) else acc)"

definition atoi :: "string \<Rightarrow> int option" where
  "atoi s =
     (case dropWhile isspace s of
        [] \<Rightarrow> Some 0
      | c # cs \<Rightarrow> cint (if c = CHR ''-'' then - digits cs 0 else if c = CHR ''+'' then digits cs 0 else digits (c # cs) 0))"

section \<open>Encoding\<close>

lemma dropWhile_less: "length (dropWhile p xs) < Suc (length xs)"
  by (simp add: le_imp_less_Suc length_dropWhile_le)

function hex_encode_loop :: "8 word list \<Rightarrow> string \<Rightarrow> int \<Rightarrow> (string + unit) option" where
  "hex_encode_loop [] text room = (if 0 < room then Some (Inl text) else None)"
| "hex_encode_loop (b # src) text room =
     (if b = 0 \<and> src \<noteq> [] \<and> b = hd src
      then let cnt = length (takeWhile (\<lambda>x. x = 0) (b # src)); t = ''['' @ decimal cnt @ '']''
           in if room < 0 then None
              else hex_encode_loop (dropWhile (\<lambda>x. x = 0) src) (text @ t) (room - int (length t))
      else if room < 3 then Some (Inr ())
      else hex_encode_loop src (text @ [to_hex (drop_bit 4 b), to_hex (b AND 0xF)]) (room - 2))"
  by pat_completeness auto
termination
  by (relation "measure (\<lambda>(src, _, _). length src)") (auto simp: dropWhile_less)

text \<open>\<open>Inl\<close> is the text in the buffer, \<open>Inr\<close> the return code \<open>MPL_ERR_FAIL\<close>.\<close>

definition MPL_hex_encode :: "8 word list \<Rightarrow> int \<Rightarrow> (string + unit) option" where
  "MPL_hex_encode src dest_size = hex_encode_loop src [] dest_size"

section \<open>Decoding\<close>

datatype hex_result = Hex_fail | Hex_size int | Hex_no_size

definition fill_zeros :: "int \<Rightarrow> int \<Rightarrow> 8 word list \<Rightarrow> 8 word list option" where
  "fill_zeros n cnt dest = ofold (\<lambda>i dest. aset dest (n + i) 0) [0..cnt - 1] dest"

text \<open>The result \<open>Hex_no_size\<close> is the return of 0 that leaves \<open>decoded_size\<close> unset.\<close>

function hex_decode_loop :: "string \<Rightarrow> int \<Rightarrow> 8 word list \<Rightarrow> (8 word list \<times> hex_result) option" where
  "hex_decode_loop src n dest =
     (case src of
        [] \<Rightarrow> Some (dest, Hex_size n)
      | c # src' \<Rightarrow>
          if c = CHR ''[''
          then do {
            cnt \<leftarrow> atoi src';
            n \<leftarrow> cint (n + cnt);
            if int (length dest) < n then Some (dest, Hex_fail)
            else do {
              dest \<leftarrow> (if cnt \<le> int (length dest) then fill_zeros (n - cnt) cnt dest else Some dest);
              case dropWhile isdigit src' of
                [] \<Rightarrow> Some (dest, Hex_no_size)
              | d # rest \<Rightarrow> if d = CHR '']'' then hex_decode_loop rest n dest else Some (dest, Hex_no_size)
            }
          }
          else case src' of
                 [] \<Rightarrow> Some (dest, Hex_size n)
               | d # rest \<Rightarrow>
                   if isxdigit c \<and> isxdigit d
                   then do {
                     hi \<leftarrow> hex c;
                     lo \<leftarrow> hex d;
                     dest \<leftarrow> aset dest n (word_of_nat (16 * hi + lo));
                     if int (length dest) < n + 1 then Some (dest, Hex_fail)
                     else hex_decode_loop rest (n + 1) dest
                   }
                   else Some (dest, Hex_size n))"
  by pat_completeness auto
termination
proof (relation "measure (\<lambda>(src, _, _). length src)", goal_cases)
  case 1
  show ?case by simp
next
  case (2 src n dest c src' x xa d rest)
  then show ?case using dropWhile_less [of isdigit src'] by (auto split: if_splits)
qed auto

declare hex_decode_loop.simps [simp del]

definition MPL_hex_decode :: "string \<Rightarrow> 8 word list \<Rightarrow> (8 word list \<times> hex_result) option" where
  "MPL_hex_decode src dest = hex_decode_loop src 0 dest"

text \<open>The size of the value a text stands for.\<close>

function hex_len_loop :: "string \<Rightarrow> int \<Rightarrow> int option" where
  "hex_len_loop src n =
     (case src of
        [] \<Rightarrow> Some n
      | c # src' \<Rightarrow>
          if c = CHR ''[''
          then do {
            cnt \<leftarrow> atoi src';
            n \<leftarrow> cint (n + cnt);
            case dropWhile isdigit src' of
              [] \<Rightarrow> Some 0
            | d # rest \<Rightarrow> if d = CHR '']'' then hex_len_loop rest n else Some 0
          }
          else case src' of
                 [] \<Rightarrow> Some n
               | d # rest \<Rightarrow> if isxdigit c \<and> isxdigit d then do { n \<leftarrow> cint (n + 1); hex_len_loop rest n } else Some n)"
  by pat_completeness auto
termination
proof (relation "measure (\<lambda>(src, _). length src)", goal_cases)
  case 1
  show ?case by simp
next
  case (2 src n c src' x xa d rest)
  then show ?case using dropWhile_less [of isdigit src'] by (auto split: if_splits)
qed auto

declare hex_len_loop.simps [simp del]

definition MPL_hex_decode_len :: "string \<Rightarrow> int option" where
  "MPL_hex_decode_len src = hex_len_loop src 0"

section \<open>Binary values of info objects\<close>

definition MPIR_Info_set_hex_impl :: "mpir_info \<Rightarrow> string \<Rightarrow> 8 word list \<Rightarrow> mpir_info option" where
  "MPIR_Info_set_hex_impl info key value = do {
     r \<leftarrow> MPL_hex_encode value 1024;
     case r of
       Inl value_buf \<Rightarrow> MPIR_Info_set_impl info key value_buf
     | Inr _ \<Rightarrow> None
   }"

text \<open>An unset \<open>len_out\<close> is read, so the comparison has no result.\<close>

definition MPIR_Info_decode_hex :: "string \<Rightarrow> 8 word list \<Rightarrow> (8 word list \<times> mpi_error option) option" where
  "MPIR_Info_decode_hex str buf = do {
     (buf', r) \<leftarrow> MPL_hex_decode str buf;
     case r of
       Hex_fail \<Rightarrow> Some (buf', Some MPI_ERR_OTHER)
     | Hex_no_size \<Rightarrow> None
     | Hex_size len_out \<Rightarrow> Some (buf', if len_out \<noteq> int (length buf) then Some MPI_ERR_OTHER else None)
   }"

definition MPIR_Info_get_hex_impl ::
  "mpir_info \<Rightarrow> string \<Rightarrow> 8 word list \<Rightarrow> (8 word list \<times> bool \<times> mpi_error option) option" where
  "MPIR_Info_get_hex_impl info key value_buf =
     (case MPIR_Info_lookup (Some info) key of
        None \<Rightarrow> Some (value_buf, False, None)
      | Some v \<Rightarrow> do {
          (buf, r) \<leftarrow> MPIR_Info_decode_hex v value_buf;
          Some (buf, True, r)
        })"

end
