(* ===== verification/Hex_Roundtrip.thy ===== *)
theory Hex_Roundtrip
  imports Hex_Code
begin

text \<open>
  The text of a binary value without a buffer, its length, and the proof that the decoder reads back
  what the encoder writes.
\<close>

section \<open>Digits\<close>

lemma of_chr: "n < 256 \<Longrightarrow> of_char (chr n) = n"
  by (simp add: chr_def)

lemma to_hex_digit:
  assumes "unat d < 16"
  shows "isxdigit (to_hex d)" "hex (to_hex d) = Some (unat d)" "to_hex d \<noteq> CHR ''[''"
proof -
  let ?n = "unat d"
  have lt: "d < 10 \<longleftrightarrow> ?n < 10" by (simp add: word_less_nat_alt)
  have code: "of_char (to_hex d) = (if ?n < 10 then 48 + ?n else 55 + ?n)"
    using assms by (simp add: to_hex_def lt of_chr)
  show "isxdigit (to_hex d)" using assms by (auto simp: isxdigit_def isdigit_def code)
  show "hex (to_hex d) = Some ?n" using assms by (auto simp: hex_def isdigit_def code)
  have "of_char (to_hex d) \<noteq> (91 :: nat)" using assms by (simp add: code)
  then show "to_hex d \<noteq> CHR ''[''" by (auto dest: arg_cong [where f = of_char])
qed

lemma nibbles:
  fixes b :: "8 word"
  shows "unat (drop_bit 4 b) < 16" "unat (b AND 0xF) < 16" "16 * unat (drop_bit 4 b) + unat (b AND 0xF) = unat b"
proof -
  have "unat b < 256" using unsigned_less [of b] by simp
  moreover have hi: "unat (drop_bit 4 b) = unat b div 16" unfolding unat_drop_bit_eq by (simp add: drop_bit_eq_div)
  ultimately show "unat (drop_bit 4 b) < 16" by simp
  have "b AND 0xF = take_bit 4 b" by (simp add: take_bit_eq_mask mask_eq_exp_minus_1)
  then have lo: "unat (b AND 0xF) = unat b mod 16" unfolding \<open>b AND 0xF = take_bit 4 b\<close> unsigned_take_bit_eq by (simp add: take_bit_eq_mod)
  then show "unat (b AND 0xF) < 16" by simp
  show "16 * unat (drop_bit 4 b) + unat (b AND 0xF) = unat b" unfolding hi lo by simp
qed

lemma digit_chr: "d < 10 \<Longrightarrow> isdigit (chr (48 + d))" "d < 10 \<Longrightarrow> of_char (chr (48 + d)) = 48 + d"
  by (simp_all add: isdigit_def of_chr)

lemma decimal_digits: "\<forall>c\<in>set (decimal n). isdigit c"
proof (induction n rule: decimal.induct)
  case (1 n)
  then show ?case by (subst decimal.simps) (auto intro: digit_chr)
qed

lemma decimal_nonempty: "decimal n \<noteq> []"
  by (subst decimal.simps) simp

lemma digits_append: "\<forall>c\<in>set xs. isdigit c \<Longrightarrow> digits (xs @ ys) acc = digits ys (digits xs acc)"
  by (induction xs arbitrary: acc) simp_all

lemma digits_decimal: "digits (decimal n) 0 = int n"
proof (induction n rule: decimal.induct)
  case (1 n)
  show ?case
  proof (cases "n < 10")
    case True
    then show ?thesis by (subst decimal.simps) (simp add: digit_chr)
  next
    case False
    have "digits (decimal n) 0 = digits [chr (48 + n mod 10)] (int (n div 10))"
      using False 1 by (subst decimal.simps) (simp add: digits_append decimal_digits)
    also have "\<dots> = int (n div 10) * 10 + int (n mod 10)" by (simp add: digit_chr)
    also have "\<dots> = int n" by (metis div_mult_mod_eq of_nat_add of_nat_mult of_nat_numeral)
    finally show ?thesis .
  qed
qed

lemma not_digit: "\<not> isdigit (CHR '']'')" by (simp add: isdigit_def)

lemma atoi_decimal: "int n \<le> INT_MAX \<Longrightarrow> atoi (decimal n @ CHR '']'' # rest) = Some (int n)"
proof -
  assume n: "int n \<le> INT_MAX"
  obtain c cs where d: "decimal n = c # cs" using decimal_nonempty by (cases "decimal n") auto
  have "isdigit c" using decimal_digits [of n] by (simp add: d)
  then have "\<not> isspace c" "c \<noteq> CHR ''-''" "c \<noteq> CHR ''+''" by (auto simp: isdigit_def isspace_def)
  moreover have "digits (decimal n @ CHR '']'' # rest) 0 = int n"
    using decimal_digits [of n] by (simp add: digits_append digits_decimal not_digit)
  ultimately show ?thesis using n by (simp add: atoi_def d cint_def)
qed

lemma dropWhile_decimal: "dropWhile isdigit (decimal n @ CHR '']'' # rest) = CHR '']'' # rest"
  using decimal_digits [of n] by (simp add: dropWhile_append2 not_digit)

lemma decimal_length: "length (decimal n) \<le> Suc (n div 10)"
proof (induction n rule: decimal.induct)
  case (1 n)
  show ?case
  proof (cases "n < 10")
    case True
    then show ?thesis by (subst decimal.simps) simp
  next
    case False
    then have "length (decimal n) = Suc (length (decimal (n div 10)))" by (subst decimal.simps) simp
    also have "\<dots> \<le> Suc (Suc (n div 10 div 10))" using 1 False by simp
    also have "\<dots> \<le> Suc (n div 10)" using False by simp
    finally show ?thesis .
  qed
qed

section \<open>The text of a value\<close>

function hex_text :: "8 word list \<Rightarrow> string" where
  "hex_text [] = []"
| "hex_text (b # src) =
     (if b = 0 \<and> src \<noteq> [] \<and> b = hd src
      then ''['' @ decimal (length (takeWhile (\<lambda>x. x = 0) (b # src))) @ '']'' @ hex_text (dropWhile (\<lambda>x. x = 0) src)
      else to_hex (drop_bit 4 b) # to_hex (b AND 0xF) # hex_text src)"
  by pat_completeness auto
termination
  by (relation "measure length") (auto simp: dropWhile_less)

lemma zero_run:
  assumes "b = 0" "src \<noteq> []" "b = hd src"
  defines "cnt \<equiv> length (takeWhile (\<lambda>x. x = 0) (b # src))"
  shows "2 \<le> cnt" "b # src = replicate cnt 0 @ dropWhile (\<lambda>x. x = 0) src"
proof -
  show "2 \<le> cnt" using assms by (cases src) auto
  have "takeWhile (\<lambda>x. x = 0) (b # src) = replicate cnt 0"
    unfolding cnt_def by (rule replicate_eqI [symmetric, THEN sym]) (auto dest: set_takeWhileD)
  moreover have "dropWhile (\<lambda>x. x = 0) (b # src) = dropWhile (\<lambda>x. x = 0) src" using assms(1) by simp
  ultimately show "b # src = replicate cnt 0 @ dropWhile (\<lambda>x. x = 0) src"
    using takeWhile_dropWhile_id [of "\<lambda>x. x = 0" "b # src"] by simp
qed

lemma hex_text_run:
  assumes "b = 0 \<and> src \<noteq> [] \<and> b = hd src"
  shows "hex_text (b # src) =
    ''['' @ decimal (length (takeWhile (\<lambda>x. x = 0) (b # src))) @ '']'' @ hex_text (dropWhile (\<lambda>x. x = 0) src)"
  by (simp only: hex_text.simps if_P [OF assms])

lemma hex_text_length: "length (hex_text src) \<le> 2 * length src"
proof (induction src rule: hex_text.induct)
  case (2 b src)
  show ?case
  proof (cases "b = 0 \<and> src \<noteq> [] \<and> b = hd src")
    case True
    define cnt where "cnt = length (takeWhile (\<lambda>x. x = 0) (b # src))"
    have run: "2 \<le> cnt" "b # src = replicate cnt 0 @ dropWhile (\<lambda>x. x = 0) src"
      using zero_run [of b src] True by (auto simp: cnt_def)
    have "length (decimal cnt) + 2 \<le> 2 * cnt" using decimal_length [of cnt] run(1) by linarith
    moreover have "length (b # src) = cnt + length (dropWhile (\<lambda>x. x = 0) src)" by (subst run(2)) simp
    moreover have "hex_text (b # src) = ''['' @ decimal cnt @ '']'' @ hex_text (dropWhile (\<lambda>x. x = 0) src)"
      unfolding cnt_def by (rule hex_text_run [OF True])
    ultimately show ?thesis using 2(1) [OF True] by simp
  next
    case False
    then show ?thesis using 2(2) by auto
  qed
qed simp

lemma hex_encode_text:
  "int (length (hex_text src)) < room \<Longrightarrow> hex_encode_loop src acc room = Some (Inl (acc @ hex_text src))"
proof (induction src acc room rule: hex_encode_loop.induct)
  case (2 b src acc room)
  show ?case
  proof (cases "b = 0 \<and> src \<noteq> [] \<and> b = hd src")
    case True
    let ?cnt = "length (takeWhile (\<lambda>x. x = 0) (b # src))" and ?rest = "dropWhile (\<lambda>x. x = 0) src"
    let ?t = "''['' @ decimal ?cnt @ '']''"
    have room: "int (length (hex_text ?rest)) < room - int (length ?t)" using 2(3) unfolding hex_text_run [OF True] by simp
    have pos: "\<not> room < 0" using 2(3) by linarith
    have "hex_encode_loop (b # src) acc room = hex_encode_loop ?rest (acc @ ?t) (room - int (length ?t))"
      by (simp only: hex_encode_loop.simps if_P [OF True] Let_def if_not_P [OF pos])
    also have "\<dots> = Some (Inl ((acc @ ?t) @ hex_text ?rest))" using 2(1) [OF True refl refl pos room] .
    finally show ?thesis unfolding hex_text_run [OF True] by simp
  next
    case False
    then show ?thesis using 2(2) [OF False] 2(3) by (auto split: if_splits)
  qed
qed simp

section \<open>Decoding the text\<close>

lemma fill_zeros_ok:
  assumes "n + cnt \<le> length dest"
  shows "fill_zeros (int n) (int cnt) dest = Some (take n dest @ replicate cnt 0 @ drop (n + cnt) dest)"
proof -
  let ?P = "\<lambda>i d. d = take n dest @ replicate (nat i) 0 @ drop (n + nat i) dest"
  have "\<exists>d. ofold (\<lambda>i dest. aset dest (int n + i) 0) [0..int cnt - 1] dest = Some d \<and> ?P (int cnt) d"
  proof (rule ofold_upto)
    fix i d assume i: "0 \<le> i" "i < int cnt" "?P i d"
    let ?i = "nat i"
    have "?i < cnt" using i(1,2) by simp
    then have "n + ?i < length dest" using assms by simp
    then have "drop (n + ?i) dest = dest ! (n + ?i) # drop (Suc (n + ?i)) dest" by (simp add: Cons_nth_drop_Suc)
    then have "aset d (int n + i) 0 = Some (take n dest @ replicate ?i 0 @ 0 # drop (Suc (n + ?i)) dest)"
      using i assms by (simp add: aset_def nat_add_distrib list_update_append)
    moreover have "nat (i + 1) = Suc ?i" using i(1) by simp
    ultimately show "\<exists>d'. aset d (int n + i) 0 = Some d' \<and> ?P (i + 1) d'" by (simp add: replicate_append_same)
  qed simp_all
  then show ?thesis by (simp add: fill_zeros_def)
qed

lemma hex_decode_text:
  assumes "n + length src \<le> length dest" "int (length dest) \<le> INT_MAX"
  shows "hex_decode_loop (hex_text src) (int n) dest =
    Some (take n dest @ src @ drop (n + length src) dest, Hex_size (int (n + length src)))"
  using assms
proof (induction src arbitrary: n dest rule: hex_text.induct)
  case 1
  then show ?case by (subst hex_decode_loop.simps) simp
next
  case (2 b src)
  show ?case
  proof (cases "b = 0 \<and> src \<noteq> [] \<and> b = hd src")
    case True
    define cnt where "cnt = length (takeWhile (\<lambda>x. x = 0) (b # src))"
    define rest where "rest = dropWhile (\<lambda>x. x = 0) src"
    have run: "b # src = replicate cnt 0 @ rest" using zero_run [of b src] True by (auto simp: cnt_def rest_def)
    have len: "n + cnt + length rest \<le> length dest" "int (n + cnt) \<le> INT_MAX" "int cnt \<le> INT_MAX"
      using 2(3,4) unfolding run by auto
    let ?d = "take n dest @ replicate cnt 0 @ drop (n + cnt) dest"
    have text_eq: "hex_text (b # src) = CHR ''['' # decimal cnt @ CHR '']'' # hex_text rest"
      using hex_text_run [OF True] by (simp add: cnt_def rest_def)
    have add: "cint (int n + int cnt) = Some (int (n + cnt))" using len(2) by (simp add: cint_def)
    have fill: "fill_zeros (int n) (int cnt) dest = Some ?d" using fill_zeros_ok [of n cnt dest] len(1) by simp
    have "hex_decode_loop (hex_text (b # src)) (int n) dest = hex_decode_loop (hex_text rest) (int (n + cnt)) ?d"
      unfolding text_eq using len(1)
      by (subst hex_decode_loop.simps) (simp add: atoi_decimal [OF len(3)] add [unfolded of_nat_add] fill dropWhile_decimal)
    also have "\<dots> = Some (take (n + cnt) ?d @ rest @ drop (n + cnt + length rest) ?d, Hex_size (int (n + cnt + length rest)))"
      using 2(1) [OF True, folded rest_def, of "n + cnt" ?d] len(1) 2(4) by simp
    also have "take (n + cnt) ?d = take n dest @ replicate cnt 0" using len(1) by simp
    also have "drop (n + cnt + length rest) ?d = drop (n + cnt + length rest) dest" using len(1) by (simp add: add.commute)
    finally show ?thesis unfolding run by (simp add: add.assoc)
  next
    case False
    let ?d = "take n dest @ b # drop (Suc n) dest"
    have n: "n < length dest" using 2(3) by simp
    have text_eq: "hex_text (b # src) = to_hex (drop_bit 4 b) # to_hex (b AND 0xF) # hex_text src"
      using False by (subst hex_text.simps) (simp only: if_False)
    note d = to_hex_digit [OF nibbles(1) [of b]] to_hex_digit [OF nibbles(2) [of b]]
    have "aset dest (int n) (word_of_nat (16 * unat (drop_bit 4 b) + unat (b AND 0xF))) = Some ?d"
      using n unfolding nibbles(3) by (simp add: aset_def upd_conv_take_nth_drop)
    then have "hex_decode_loop (hex_text (b # src)) (int n) dest = hex_decode_loop (hex_text src) (int (Suc n)) ?d"
      unfolding text_eq using n d by (subst hex_decode_loop.simps) (simp add: add.commute)
    also have "\<dots> = Some (take (Suc n) ?d @ src @ drop (Suc n + length src) ?d, Hex_size (int (Suc n + length src)))"
      using 2(2) [OF False, of "Suc n" ?d] 2(3,4) by simp
    finally show ?thesis using n by (simp add: min_def add.commute)
  qed
qed

lemma hex_len_text:
  assumes "int (n + length src) \<le> INT_MAX"
  shows "hex_len_loop (hex_text src) (int n) = Some (int (n + length src))"
  using assms
proof (induction src arbitrary: n rule: hex_text.induct)
  case 1
  then show ?case by (subst hex_len_loop.simps) simp
next
  case (2 b src)
  show ?case
  proof (cases "b = 0 \<and> src \<noteq> [] \<and> b = hd src")
    case True
    define cnt where "cnt = length (takeWhile (\<lambda>x. x = 0) (b # src))"
    define rest where "rest = dropWhile (\<lambda>x. x = 0) src"
    have run: "b # src = replicate cnt 0 @ rest" using zero_run [of b src] True by (auto simp: cnt_def rest_def)
    have len: "int (n + cnt + length rest) \<le> INT_MAX" "int cnt \<le> INT_MAX" "int n + int cnt \<le> INT_MAX"
      using 2(3) unfolding run by auto
    have text_eq: "hex_text (b # src) = CHR ''['' # decimal cnt @ CHR '']'' # hex_text rest"
      using hex_text_run [OF True] by (simp add: cnt_def rest_def)
    have "hex_len_loop (hex_text (b # src)) (int n) = hex_len_loop (hex_text rest) (int (n + cnt))"
      unfolding text_eq using len(3) by (subst hex_len_loop.simps) (simp add: atoi_decimal [OF len(2)] cint_def dropWhile_decimal)
    then show ?thesis using 2(1) [OF True, folded rest_def, OF len(1)] unfolding run by (simp add: add.assoc)
  next
    case False
    have text_eq: "hex_text (b # src) = to_hex (drop_bit 4 b) # to_hex (b AND 0xF) # hex_text src"
      using False by (subst hex_text.simps) (simp only: if_False)
    note d = to_hex_digit [OF nibbles(1) [of b]] to_hex_digit [OF nibbles(2) [of b]]
    have "hex_len_loop (hex_text (b # src)) (int n) = hex_len_loop (hex_text src) (int (Suc n))"
      unfolding text_eq using d 2(3) by (subst hex_len_loop.simps) (simp add: cint_def add.commute)
    then show ?thesis using 2(2) [OF False, of "Suc n"] 2(3) by simp
  qed
qed

section \<open>Buffers that are too small\<close>

text \<open>The encoder does not notice a truncated run and stores the terminator behind its buffer; the
  decoder stores a byte before it compares the size; and a run without its bracket is reported as
  success with no size.\<close>

lemma hex_encode_overruns: "MPL_hex_encode [0, 0] 3 = None"
  by (simp add: MPL_hex_encode_def decimal.simps)

lemma hex_decode_overruns: "MPL_hex_decode ''0102'' [0] = None"
  by (simp add: MPL_hex_decode_def hex_decode_loop.simps isxdigit_def isdigit_def hex_def aset_def)

lemma hex_decode_no_size: "MPL_hex_decode ''[1'' [7] = Some ([0], Hex_no_size)"
  by (simp add: MPL_hex_decode_def hex_decode_loop.simps atoi_def isspace_def isdigit_def cint_def INT_MAX_def fill_zeros_def
      aset_def upto.simps)

end
