(* ===== verification/Info_Store.thy ===== *)
theory Info_Store
  imports Info_Objects
begin

text \<open>
  Info objects as finite maps: the laws of the lists of entries, an interface \<open>key_value_store\<close> for
  stores with a bounded number of entries, and its interpretation on the info objects.  Keys are
  compared up to \<open>MPI_MAX_INFO_KEY\<close> characters, so the abstract map is indexed by the key cut there.
\<close>

section \<open>Keys and lists of entries\<close>

definition trunc :: "string \<Rightarrow> string" where
  "trunc k = take MPI_MAX_INFO_KEY k"

lemma strncmp_trunc: "strncmp_eq MPI_MAX_INFO_KEY a b \<longleftrightarrow> trunc a = trunc b"
  by (simp add: strncmp_eq_def trunc_def)

lemma trunc_short: "length k \<le> MPI_MAX_INFO_KEY \<Longrightarrow> trunc k = k"
  by (simp add: trunc_def)

definition emap :: "info_entry list \<Rightarrow> string \<Rightarrow> string option" where
  "emap es = map_of (map (\<lambda>e. (trunc (ie_key e), ie_value e)) es)"

definition amap :: "info_array_entry list \<Rightarrow> string \<Rightarrow> string list option" where
  "amap es = map_of (map (\<lambda>e. (trunc (ia_key e), ia_values e)) es)"

lemma emap_simps [simp]:
  "emap [] = Map.empty"
  "emap (e # es) = (emap es)(trunc (ie_key e) \<mapsto> ie_value e)"
  "emap (es @ es') = emap es' ++ emap es"
  by (auto simp: emap_def)

lemma amap_simps [simp]:
  "amap [] = Map.empty"
  "amap (e # es) = (amap es)(trunc (ia_key e) \<mapsto> ia_values e)"
  "amap (es @ es') = amap es' ++ amap es"
  by (auto simp: amap_def)

lemma dom_emap: "dom (emap es) = (\<lambda>e. trunc (ie_key e)) ` set es"
  by (simp add: emap_def dom_map_of_conv_image_fst image_image)

lemma dom_amap: "dom (amap es) = (\<lambda>e. trunc (ia_key e)) ` set es"
  by (simp add: amap_def dom_map_of_conv_image_fst image_image)

lemma lookup_entries_emap: "lookup_entries es k = emap es (trunc k)"
  by (induction es) (auto simp: strncmp_trunc)

lemma lookup_emap [simp]: "MPIR_Info_lookup (Some info) k = emap (entries info) (trunc k)"
  by (simp add: MPIR_Info_lookup_def lookup_entries_emap)

definition arrays_ok :: "info_array_entry list \<Rightarrow> bool" where
  "arrays_ok es \<longleftrightarrow> (\<forall>e\<in>set es. 0 < ia_num_values e \<and> int (length (ia_values e)) = ia_num_values e)"

lemma lookup_arrays_amap:
  assumes "arrays_ok es"
  shows "lookup_arrays es k j = (case amap es (trunc k) of None \<Rightarrow> Some None
    | Some vs \<Rightarrow> map_option (\<lambda>v. Some (v, int (length vs))) (aget vs j))"
  using assms by (induction es) (auto simp: strncmp_trunc arrays_ok_def aget_def)

lemma find_key_cases:
  assumes "0 \<le> i"
  shows "find_key f es k i < 0 \<and> (\<forall>e\<in>set es. trunc (f e) \<noteq> trunc k)
    \<or> (\<exists>pre e post. es = pre @ e # post \<and> find_key f es k i = i + int (length pre) \<and> trunc (f e) = trunc k
        \<and> (\<forall>x\<in>set pre. trunc (f x) \<noteq> trunc k))"
  using assms
proof (induction es arbitrary: i)
  case (Cons e es)
  show ?case
  proof (cases "trunc (f e) = trunc k")
    case True
    then have "e # es = [] @ e # es \<and> find_key f (e # es) k i = i + int (length []) \<and> trunc (f e) = trunc k
        \<and> (\<forall>x\<in>set []. trunc (f x) \<noteq> trunc k)" by (simp add: strncmp_trunc)
    then show ?thesis by blast
  next
    case False
    then have eq: "find_key f (e # es) k i = find_key f es k (i + 1)" by (simp add: strncmp_trunc)
    from Cons.IH [of "i + 1"] Cons.prems consider "find_key f es k (i + 1) < 0" "\<forall>e\<in>set es. trunc (f e) \<noteq> trunc k"
      | pre x post where "es = pre @ x # post" "find_key f es k (i + 1) = i + 1 + int (length pre)" "trunc (f x) = trunc k"
        "\<forall>x\<in>set pre. trunc (f x) \<noteq> trunc k" by fastforce
    then show ?thesis
    proof cases
      case 1
      then show ?thesis using eq False by simp
    next
      case (2 pre x post)
      then have "e # es = (e # pre) @ x # post \<and> find_key f (e # es) k i = i + int (length (e # pre)) \<and> trunc (f x) = trunc k
          \<and> (\<forall>x\<in>set (e # pre). trunc (f x) \<noteq> trunc k)" using eq False by simp
      then show ?thesis by blast
    qed
  qed
qed simp

lemma move_up_loop:
  "ofold (\<lambda>i ys. do { y \<leftarrow> aget ys i; aset ys (i - 1) y })
     [int (length pre) + 1..int (length pre) + int (length post)] (pre @ e # post) = Some (pre @ post @ [last (e # post)])"
proof (induction post arbitrary: pre e)
  case (Cons y post)
  have "[int (length pre) + 1..int (length pre) + int (length (y # post))]
      = (int (length pre) + 1) # [int (length (pre @ [y])) + 1..int (length (pre @ [y])) + int (length post)]"
    by (subst upto_rec1) (simp_all add: algebra_simps)
  moreover have "aget (pre @ e # y # post) (int (length pre) + 1) = Some y"
    by (simp add: aget_def nat_add_distrib nth_append)
  moreover have "aset (pre @ e # y # post) (int (length pre)) y = Some ((pre @ [y]) @ y # post)"
    by (simp add: aset_def)
  ultimately show ?case using Cons.IH [of "pre @ [y]" y] by simp
qed simp

lemma move_up_ok: "move_up (pre @ e # post) (int (length pre)) = Some (pre @ post)"
proof -
  have "int (length (pre @ e # post)) - 1 = int (length pre) + int (length post)" by simp
  then show ?thesis using move_up_loop [of pre post e] unfolding move_up_def by simp
qed

section \<open>The invariant of an info object\<close>

definition slots_ok :: "'a list \<Rightarrow> int \<Rightarrow> bool" where
  "slots_ok xs cap \<longleftrightarrow> int (length xs) \<le> cap \<and> (cap = 0 \<or> INFO_INITIAL_SIZE \<le> cap)"

definition info_inv :: "mpir_info \<Rightarrow> bool" where
  "info_inv info \<longleftrightarrow> distinct (map (\<lambda>e. trunc (ie_key e)) (entries info))
     \<and> distinct (map (\<lambda>e. trunc (ia_key e)) (array_entries info)) \<and> arrays_ok (array_entries info)
     \<and> slots_ok (entries info) (capacity info) \<and> slots_ok (array_entries info) (array_capacity info)"

text \<open>An object that has never held more than \<open>n\<close> entries of either kind.\<close>

definition within :: "nat \<Rightarrow> mpir_info \<Rightarrow> bool" where
  "within n info \<longleftrightarrow> length (entries info) \<le> n \<and> length (array_entries info) \<le> n
     \<and> capacity info \<le> max 10 (2 * int n) \<and> array_capacity info \<le> max 10 (2 * int n)"

definition INFO_LIMIT :: nat where "INFO_LIMIT = 200000000"

lemma grow_room:
  assumes "slots_ok xs cap" "cap \<le> max 10 (2 * int n)" "length xs < n" "n \<le> INFO_LIMIT"
  shows "\<exists>cap'. grow xs cap = Some cap' \<and> int (length xs) < cap' \<and> slots_ok (xs @ [x]) cap' \<and> cap' \<le> max 10 (2 * int n)"
proof (cases "cap = 0")
  case True
  then show ?thesis using assms(1) by (simp add: grow_def INFO_INITIAL_SIZE_def slots_ok_def)
next
  case False
  have le: "int (length xs) \<le> cap" "10 \<le> cap" using False assms(1) by (auto simp: slots_ok_def INFO_INITIAL_SIZE_def)
  show ?thesis
  proof (cases "int (length xs) = cap")
    case True
    have c: "cap < int n" "cap * 5 \<le> INT_MAX"
      using True assms(3,4) by (auto simp: INFO_LIMIT_def INT_MAX_def)
    have d: "cdiv (cap * 5) 3 = cap * 5 div 3" using le(2) by (simp add: cdiv_def sgn_mult)
    have "cint (cap * 5) = Some (cap * 5)" using c(2) le(2) by (simp add: cint_def)
    then have "grow xs cap = Some (cap * 5 div 3)" using True False d by (simp add: grow_def)
    moreover have "cap < cap * 5 div 3" "cap * 5 div 3 \<le> 2 * cap" using le(2) by presburger+
    ultimately show ?thesis using True c(1) le(2) by (auto simp: slots_ok_def INFO_INITIAL_SIZE_def)
  next
    case no: False
    then show ?thesis using False assms le by (simp add: grow_def slots_ok_def INFO_INITIAL_SIZE_def)
  qed
qed

lemma push_ok:
  assumes "info_inv info" "within n info" "length (entries info) < n" "n \<le> INFO_LIMIT" "trunc k \<notin> dom (emap (entries info))"
  shows "\<exists>info'. MPIR_Info_push info k v = Some info' \<and> info_inv info' \<and> within n info'
    \<and> entries info' = entries info @ [\<lparr>ie_key = k, ie_value = v\<rparr>] \<and> array_entries info' = array_entries info"
proof -
  have "slots_ok (entries info) (capacity info)" "capacity info \<le> max 10 (2 * int n)"
    using assms(1,2) by (auto simp: info_inv_def within_def)
  from grow_room [OF this assms(3,4)] obtain cap where cap: "grow (entries info) (capacity info) = Some cap"
    "int (length (entries info)) < cap" "slots_ok (entries info @ [\<lparr>ie_key = k, ie_value = v\<rparr>]) cap" "cap \<le> max 10 (2 * int n)"
    by blast
  let ?i = "info\<lparr>capacity := cap, entries := entries info @ [\<lparr>ie_key = k, ie_value = v\<rparr>]\<rparr>"
  have "MPIR_Info_push info k v = Some ?i" using cap(1,2) by (simp add: MPIR_Info_push_def)
  moreover have "info_inv ?i" "within n ?i"
    using assms(1,2,3,5) cap(3,4) by (auto simp: info_inv_def within_def dom_emap)
  ultimately show ?thesis by (intro exI [of _ ?i]) simp
qed

lemma push_array_ok:
  assumes "info_inv info" "within n info" "length (array_entries info) < n" "n \<le> INFO_LIMIT"
    "trunc k \<notin> dom (amap (array_entries info))" "0 \<le> j" "j < c"
  shows "\<exists>info'. MPIR_Info_push_array info j c k v = Some info' \<and> info_inv info' \<and> within n info'
    \<and> array_entries info' = array_entries info @ [\<lparr>ia_key = k, ia_values = (replicate (nat c) ''none'')[nat j := v], ia_num_values = c\<rparr>]
    \<and> entries info' = entries info"
proof -
  let ?e = "\<lparr>ia_key = k, ia_values = (replicate (nat c) ''none'')[nat j := v], ia_num_values = c\<rparr>"
  have "slots_ok (array_entries info) (array_capacity info)" "array_capacity info \<le> max 10 (2 * int n)"
    using assms(1,2) by (auto simp: info_inv_def within_def)
  from grow_room [OF this assms(3,4)] obtain cap where cap: "grow (array_entries info) (array_capacity info) = Some cap"
    "int (length (array_entries info)) < cap" "slots_ok (array_entries info @ [?e]) cap" "cap \<le> max 10 (2 * int n)"
    by blast
  let ?i = "info\<lparr>array_capacity := cap, array_entries := array_entries info @ [?e]\<rparr>"
  have "MPIR_Info_push_array info j c k v = Some ?i"
    using cap(1,2) assms(6,7) by (simp add: MPIR_Info_push_array_def aset_def)
  moreover have "info_inv ?i" "within n ?i"
    using assms cap(3,4) by (auto simp: info_inv_def within_def dom_amap arrays_ok_def)
  ultimately show ?thesis by (intro exI [of _ ?i]) simp
qed

lemma slots_ok_less: "slots_ok xs cap \<Longrightarrow> length ys \<le> length xs \<Longrightarrow> slots_ok ys cap"
  by (auto simp: slots_ok_def)

lemma map_add_drop:
  assumes "distinct (map fst (pre @ (k, v) # post))"
  shows "map_of (pre @ post) = (map_of (pre @ (k, v) # post))(k := None)"
proof
  fix x
  show "map_of (pre @ post) x = ((map_of (pre @ (k, v) # post))(k := None)) x"
  proof (cases "x = k")
    case True
    then have "x \<notin> fst ` set (pre @ post)" using assms by auto
    then show ?thesis using True by (metis fun_upd_same map_of_eq_None_iff)
  next
    case False
    then show ?thesis by (simp add: map_add_def split: option.splits)
  qed
qed

lemma delete_array_ok:
  assumes "info_inv info" "within n info"
  shows "\<exists>info' r. info_delete_array info k = Some (info', r) \<and> info_inv info' \<and> within n info'
    \<and> amap (array_entries info') = (amap (array_entries info))(trunc k := None) \<and> entries info' = entries info
    \<and> length (array_entries info') \<le> length (array_entries info)"
proof -
  let ?es = "array_entries info"
  have d: "distinct (map (\<lambda>e. trunc (ia_key e)) ?es)" using assms(1) by (simp add: info_inv_def)
  consider "find_key ia_key ?es k 0 < 0" "\<forall>e\<in>set ?es. trunc (ia_key e) \<noteq> trunc k"
    | pre e post where "?es = pre @ e # post" "find_key ia_key ?es k 0 = int (length pre)" "trunc (ia_key e) = trunc k"
    using find_key_cases [of 0 ia_key ?es k] by auto
  then show ?thesis
  proof cases
    case 1
    then have "trunc k \<notin> dom (amap ?es)" by (auto simp: dom_amap)
    then have "amap ?es (trunc k) = None" by (simp add: domIff)
    then show ?thesis using 1 assms by (auto simp: info_delete_array_def info_find_key_array_def)
  next
    case (2 pre e post)
    let ?i = "info\<lparr>array_entries := pre @ post\<rparr>"
    have "info_delete_array info k = Some (?i, int (length pre))"
      using 2(2) move_up_ok [of pre e post] by (simp add: info_delete_array_def info_find_key_array_def 2(1))
    moreover have "amap (pre @ post) = (amap ?es)(trunc k := None)"
      using map_add_drop [of "map (\<lambda>e. (trunc (ia_key e), ia_values e)) pre" "trunc k" "ia_values e"
          "map (\<lambda>e. (trunc (ia_key e), ia_values e)) post"] d 2(1,3) by (simp add: amap_def o_def)
    moreover have "info_inv ?i" "within n ?i"
      using assms 2(1) by (auto simp: info_inv_def within_def arrays_ok_def elim: slots_ok_less)
    ultimately show ?thesis using 2(1) by simp
  qed
qed

lemma find_entry_cases:
  "find_key ie_key es k 0 < 0 \<and> trunc k \<notin> dom (emap es)
    \<or> (\<exists>pre e post. es = pre @ e # post \<and> find_key ie_key es k 0 = int (length pre) \<and> trunc (ie_key e) = trunc k)"
  using find_key_cases [of 0 ie_key es k] by (auto simp: dom_emap)

lemma set_ok:
  assumes inv: "info_inv info" "within n info"
    and room: "trunc k \<in> dom (emap (entries info)) \<or> length (entries info) < n" "n \<le> INFO_LIMIT"
  shows "\<exists>info'. MPIR_Info_set_impl info k v = Some info' \<and> info_inv info' \<and> within n info'
    \<and> emap (entries info') = (emap (entries info))(trunc k \<mapsto> v)
    \<and> amap (array_entries info') =
        (if trunc k \<in> dom (emap (entries info)) then (amap (array_entries info))(trunc k := None) else amap (array_entries info))
    \<and> length (entries info') \<le> Suc (length (entries info))"
proof -
  let ?es = "entries info"
  consider "find_key ie_key ?es k 0 < 0" "trunc k \<notin> dom (emap ?es)"
    | pre e post where "?es = pre @ e # post" "find_key ie_key ?es k 0 = int (length pre)" "trunc (ie_key e) = trunc k"
    using find_entry_cases [of ?es k] by blast
  then show ?thesis
  proof cases
    case 1
    then have "length (entries info) < n" using room(1) by blast
    from push_ok [OF inv this room(2) 1(2), of v] obtain info' where p: "MPIR_Info_push info k v = Some info'" "info_inv info'"
      "within n info'" "entries info' = ?es @ [\<lparr>ie_key = k, ie_value = v\<rparr>]" "array_entries info' = array_entries info" by blast
    have "emap (entries info') = (emap ?es)(trunc k \<mapsto> v)" using p(4) 1(2) by (auto simp: map_add_def split: option.splits)
    then show ?thesis using p 1 by (simp add: MPIR_Info_set_impl_def info_find_key_def)
  next
    case (2 pre e post)
    let ?i = "info\<lparr>entries := pre @ e\<lparr>ie_value := v\<rparr> # post\<rparr>"
    have inv': "info_inv ?i" "within n ?i" using inv 2(1) by (auto simp: info_inv_def within_def slots_ok_def)
    have d: "distinct (map (\<lambda>e. trunc (ie_key e)) (pre @ e # post))" using inv(1) 2(1) by (simp add: info_inv_def)
    then have np: "emap pre (trunc k) = None" using 2(3) by (auto simp: emap_def map_of_eq_None_iff)
    obtain info' r where del: "info_delete_array ?i k = Some (info', r)" "info_inv info'" "within n info'"
      "amap (array_entries info') = (amap (array_entries ?i))(trunc k := None)" "entries info' = entries ?i"
      using delete_array_ok [OF inv', of k] by blast
    have "MPIR_Info_set_impl info k v = Some info'"
      using 2(2) del(1) by (simp add: MPIR_Info_set_impl_def info_find_key_def 2(1) aget_def aset_def)
    moreover have "emap (entries info') = (emap ?es)(trunc k \<mapsto> v)"
      using np 2(1,3) by (auto simp: del(5) map_add_def split: option.splits)
    moreover have "trunc k \<in> dom (emap ?es)" using 2(1,3) by (auto simp: dom_emap)
    ultimately show ?thesis using del 2(1) by simp
  qed
qed

lemma delete_ok:
  assumes inv: "info_inv info" "within n info"
  shows "\<exists>info' r. MPIR_Info_delete_impl info k = Some (info', r) \<and> info_inv info' \<and> within n info'
    \<and> emap (entries info') = (emap (entries info))(trunc k := None)
    \<and> (r = None \<longleftrightarrow> trunc k \<in> dom (emap (entries info))) \<and> (r \<noteq> None \<longrightarrow> info' = info)
    \<and> length (entries info') \<le> length (entries info)"
proof -
  let ?es = "entries info"
  consider "find_key ie_key ?es k 0 < 0" "trunc k \<notin> dom (emap ?es)"
    | pre e post where "?es = pre @ e # post" "find_key ie_key ?es k 0 = int (length pre)" "trunc (ie_key e) = trunc k"
    using find_entry_cases [of ?es k] by blast
  then show ?thesis
  proof cases
    case 1
    then have "(emap ?es)(trunc k := None) = emap ?es" by (auto simp: domIff)
    then show ?thesis using 1 inv by (simp add: MPIR_Info_delete_impl_def info_find_key_def)
  next
    case (2 pre e post)
    let ?i = "info\<lparr>entries := pre @ post\<rparr>"
    have inv': "info_inv ?i" "within n ?i" using inv 2(1) by (auto simp: info_inv_def within_def slots_ok_def)
    obtain info' r where del: "info_delete_array ?i k = Some (info', r)" "info_inv info'" "within n info'" "entries info' = entries ?i"
      using delete_array_ok [OF inv', of k] by blast
    have "distinct (map (\<lambda>e. trunc (ie_key e)) (pre @ e # post))" using inv(1) 2(1) by (simp add: info_inv_def)
    then have "emap (pre @ post) = (emap ?es)(trunc k := None)"
      using map_add_drop [of "map (\<lambda>e. (trunc (ie_key e), ie_value e)) pre" "trunc k" "ie_value e"
          "map (\<lambda>e. (trunc (ie_key e), ie_value e)) post"] 2(1,3) by (simp add: emap_def o_def)
    moreover have "MPIR_Info_delete_impl info k = Some (info', None)"
      using 2(2) del(1) move_up_ok [of pre e post] by (simp add: MPIR_Info_delete_impl_def info_find_key_def 2(1))
    moreover have "trunc k \<in> dom (emap ?es)" using 2(1,3) by (auto simp: dom_emap)
    ultimately show ?thesis using del 2(1) by simp
  qed
qed

section \<open>Stores with a bounded number of entries\<close>

datatype ('k, 'v) store_op = Put 'k 'v | Remove 'k

fun store_spec :: "('k \<Rightarrow> 'k) \<Rightarrow> ('k, 'v) store_op list \<Rightarrow> ('k \<Rightarrow> 'v option) \<Rightarrow> 'k \<Rightarrow> 'v option" where
  "store_spec norm [] m = m"
| "store_spec norm (Put k v # ops) m = store_spec norm ops (m(norm k \<mapsto> v))"
| "store_spec norm (Remove k # ops) m = store_spec norm ops (m(norm k := None))"

fun run_store :: "('s \<Rightarrow> 'k \<Rightarrow> 'v \<Rightarrow> 's option) \<Rightarrow> ('s \<Rightarrow> 'k \<Rightarrow> ('s \<times> 'e option) option)
    \<Rightarrow> ('k, 'v) store_op list \<Rightarrow> 's \<Rightarrow> 's option" where
  "run_store put remove [] s = Some s"
| "run_store put remove (Put k v # ops) s = do { s' \<leftarrow> put s k v; run_store put remove ops s' }"
| "run_store put remove (Remove k # ops) s = do { (s', _) \<leftarrow> remove s k; run_store put remove ops s' }"

locale key_value_store =
  fixes inv :: "'s \<Rightarrow> bool" and used :: "'s \<Rightarrow> nat" and limit :: nat and norm :: "'k \<Rightarrow> 'k" and content :: "'s \<Rightarrow> 'k \<Rightarrow> 'v option"
    and put :: "'s \<Rightarrow> 'k \<Rightarrow> 'v \<Rightarrow> 's option" and remove :: "'s \<Rightarrow> 'k \<Rightarrow> ('s \<times> 'e option) option"
  assumes put_law: "inv s \<Longrightarrow> used s < limit \<Longrightarrow>
      \<exists>s'. put s k v = Some s' \<and> inv s' \<and> used s' \<le> Suc (used s) \<and> content s' = (content s)(norm k \<mapsto> v)"
    and remove_law: "inv s \<Longrightarrow>
      \<exists>s' r. remove s k = Some (s', r) \<and> inv s' \<and> used s' \<le> used s \<and> content s' = (content s)(norm k := None)
        \<and> (r = None \<longleftrightarrow> norm k \<in> dom (content s))"
begin

lemma run_refines:
  assumes "inv s" "used s + length ops \<le> limit"
  shows "\<exists>s'. run_store put remove ops s = Some s' \<and> inv s' \<and> content s' = store_spec norm ops (content s)"
  using assms
proof (induction ops arbitrary: s)
  case (Cons x ops)
  show ?case
  proof (cases x)
    case (Put k v)
    obtain s' where s': "put s k v = Some s'" "inv s'" "used s' \<le> Suc (used s)" "content s' = (content s)(norm k \<mapsto> v)"
      using put_law [of s k v] Cons.prems by auto
    have "run_store put remove (x # ops) s = run_store put remove ops s'" using Put s'(1) by simp
    moreover have "store_spec norm (x # ops) (content s) = store_spec norm ops (content s')" using Put s'(4) by simp
    moreover have "used s' + length ops \<le> limit" using s'(3) Cons.prems(2) by simp
    ultimately show ?thesis using Cons.IH [OF s'(2)] by simp
  next
    case (Remove k)
    obtain s' r where s': "remove s k = Some (s', r)" "inv s'" "used s' \<le> used s" "content s' = (content s)(norm k := None)"
      using remove_law [of s k] Cons.prems by auto
    have "run_store put remove (x # ops) s = run_store put remove ops s'" using Remove s'(1) by simp
    moreover have "store_spec norm (x # ops) (content s) = store_spec norm ops (content s')" using Remove s'(4) by simp
    moreover have "used s' + length ops \<le> limit" using s'(3) Cons.prems(2) by simp
    ultimately show ?thesis using Cons.IH [OF s'(2)] by simp
  qed
qed simp

end

interpretation info_store: key_value_store "\<lambda>info. info_inv info \<and> within INFO_LIMIT info" "\<lambda>info. length (entries info)"
  INFO_LIMIT trunc "\<lambda>info. emap (entries info)" MPIR_Info_set_impl MPIR_Info_delete_impl
proof (unfold_locales, goal_cases)
  case (1 s k v)
  then show ?case using set_ok [of s INFO_LIMIT k v] by auto
next
  case (2 s k)
  then show ?case using delete_ok [of s INFO_LIMIT k] by auto
qed

lemma alloc_inv: "info_inv MPIR_Info_alloc" "within n MPIR_Info_alloc"
  by (simp_all add: info_inv_def within_def MPIR_Info_alloc_def arrays_ok_def slots_ok_def)

end
