(* ===== verification/Info_Merge.thy ===== *)
theory Info_Merge
  imports Info_Store
begin

text \<open>
  Merging info objects into one with array-type entries and splitting it again: the loop invariants
  of \<open>MPIR_Info_merge_from_array_impl\<close> and of \<open>MPIR_Info_split_into_array_impl\<close>.
\<close>

section \<open>Array-type entries\<close>

lemma find_all_none: "\<forall>e\<in>set es. trunc (ia_key e) \<noteq> trunc k \<Longrightarrow> find_all es k i f j = (f, j)"
  by (induction es arbitrary: i) (auto simp: strncmp_trunc)

lemma find_all_one:
  assumes "\<forall>e\<in>set pre. trunc (ia_key e) \<noteq> trunc k" "trunc (ia_key e) = trunc k" "\<forall>e\<in>set post. trunc (ia_key e) \<noteq> trunc k"
  shows "find_all (pre @ e # post) k i f j = (f + 1, i + int (length pre))"
  using assms(1) by (induction pre arbitrary: i) (auto simp: strncmp_trunc assms(2) find_all_none [OF assms(3)])

lemma set_array_ok:
  assumes inv: "info_inv info" "within n info" and vs: "amap (array_entries info) (trunc k) = Some vs" and j: "0 \<le> j" "j < int (length vs)"
  shows "\<exists>info'. MPIR_Info_set_array info j k v = Some info' \<and> info_inv info' \<and> within n info'
    \<and> amap (array_entries info') = (amap (array_entries info))(trunc k \<mapsto> vs[nat j := v]) \<and> entries info' = entries info"
proof -
  have d: "distinct (map (\<lambda>e. trunc (ia_key e)) (array_entries info))" using inv(1) by (simp add: info_inv_def)
  obtain e where e: "e \<in> set (array_entries info)" "trunc (ia_key e) = trunc k" "ia_values e = vs"
    using map_of_SomeD [OF vs [unfolded amap_def]] by auto
  then obtain pre post where l: "array_entries info = pre @ e # post" by (meson split_list)
  have other: "\<forall>x\<in>set pre. trunc (ia_key x) \<noteq> trunc k" "\<forall>x\<in>set post. trunc (ia_key x) \<noteq> trunc k"
    using d e(2) unfolding l by (simp_all, metis imageI, metis imageI)
  have num: "ia_num_values e = int (length vs)" using inv(1) e(1,3) by (auto simp: info_inv_def arrays_ok_def)
  let ?i = "info\<lparr>array_entries := pre @ e\<lparr>ia_values := vs[nat j := v]\<rparr> # post\<rparr>"
  have "find_all (array_entries info) k 0 0 (-1) = (1, int (length pre))" using find_all_one [OF other(1) e(2) other(2), of 0 0] l by simp
  then have "MPIR_Info_set_array info j k v = Some ?i"
    using j num e(3) by (simp add: MPIR_Info_set_array_def l aget_def aset_def)
  moreover have "info_inv ?i" "within n ?i" using inv l e(3) by (auto simp: info_inv_def within_def arrays_ok_def slots_ok_def)
  moreover have "amap pre (trunc k) = None" using other(1) by (auto simp: amap_def map_of_eq_None_iff)
  then have "amap (array_entries ?i) = (amap (array_entries info))(trunc k \<mapsto> vs[nat j := v])"
    using e(2) by (auto simp: l map_add_def split: option.splits)
  ultimately show ?thesis by (intro exI [of _ ?i]) simp
qed

lemma lookup_array_amap:
  assumes "info_inv info"
  shows "MPIR_Info_lookup_array (Some info) k j = (case amap (array_entries info) (trunc k) of None \<Rightarrow> Some None
    | Some vs \<Rightarrow> map_option (\<lambda>v. Some (v, int (length vs))) (aget vs j))"
  using assms lookup_arrays_amap by (simp add: MPIR_Info_lookup_array_def info_inv_def)

lemma amap_nonempty: "info_inv info \<Longrightarrow> amap (array_entries info) k = Some vs \<Longrightarrow> vs \<noteq> []"
  by (fastforce simp: info_inv_def arrays_ok_def amap_def dest: map_of_SomeD)

lemma length_card_emap: "info_inv info \<Longrightarrow> length (entries info) = card (dom (emap (entries info)))"
  unfolding dom_emap info_inv_def by (metis (no_types, lifting) distinct_card length_map set_map)

lemma length_card_amap: "info_inv info \<Longrightarrow> length (array_entries info) = card (dom (amap (array_entries info)))"
  unfolding dom_amap info_inv_def by (metis (no_types, lifting) distinct_card length_map set_map)

section \<open>Objects to merge\<close>

definition vmap :: "mpir_info option list \<Rightarrow> nat \<Rightarrow> string \<Rightarrow> string option" where
  "vmap infos j = (case infos ! j of None \<Rightarrow> Map.empty | Some info \<Rightarrow> emap (entries info))"

definition holders :: "mpir_info option list \<Rightarrow> string \<Rightarrow> nat set" where
  "holders infos k = {j. j < length infos \<and> vmap infos j k \<noteq> None}"

definition all_keys :: "mpir_info option list \<Rightarrow> string set" where
  "all_keys infos = (\<Union>j<length infos. dom (vmap infos j))"

definition value_or_none :: "string option \<Rightarrow> string" where
  "value_or_none v = (case v of None \<Rightarrow> ''none'' | Some x \<Rightarrow> x)"

definition column :: "mpir_info option list \<Rightarrow> string \<Rightarrow> string list" where
  "column infos k = map (\<lambda>j. value_or_none (vmap infos j k)) [0..<length infos]"

definition mergeable :: "mpir_info option list \<Rightarrow> bool" where
  "mergeable infos \<longleftrightarrow> (\<forall>info. Some info \<in> set infos \<longrightarrow> info_inv info \<and> MPIR_INFO_INFOKEY_ARRAY_TYPE \<notin> ran (emap (entries info)))
     \<and> card (all_keys infos) \<le> INFO_LIMIT"

lemma finite_all_keys: "finite (all_keys infos)"
  by (auto simp: all_keys_def vmap_def dom_emap split: option.splits)

lemma lookup_vmap: "MPIR_Info_lookup (infos ! j) k = vmap infos j (trunc k)"
  by (auto simp: vmap_def MPIR_Info_lookup_def lookup_entries_emap split: option.splits)

lemma mergeable_plain:
  assumes "mergeable infos" "j < length infos" "vmap infos j k = Some v"
  shows "v \<noteq> MPIR_INFO_INFOKEY_ARRAY_TYPE"
proof -
  obtain info where info: "infos ! j = Some info" "emap (entries info) k = Some v"
    using assms(3) by (auto simp: vmap_def split: option.splits)
  then have "Some info \<in> set infos" using assms(2) by (metis nth_mem)
  then show ?thesis using assms(1) info(2) by (auto simp: mergeable_def ran_def)
qed

lemma holders_key: "j \<in> holders infos k \<Longrightarrow> k \<in> all_keys infos"
  by (auto simp: holders_def all_keys_def)

text \<open>The values of the objects in \<open>S\<close>; the other positions of the array still hold \<open>none\<close>.\<close>

definition pcol :: "mpir_info option list \<Rightarrow> string \<Rightarrow> nat set \<Rightarrow> string list" where
  "pcol infos k S = map (\<lambda>j. if j \<in> S then value_or_none (vmap infos j k) else ''none'') [0..<length infos]"

lemma length_pcol [simp]: "length (pcol infos k S) = length infos"
  by (simp add: pcol_def)

lemma pcol_insert: "j < length infos \<Longrightarrow> (pcol infos k S)[j := value_or_none (vmap infos j k)] = pcol infos k (insert j S)"
  by (rule nth_equalityI) (auto simp: pcol_def nth_list_update)

lemma pcol_single: "j < length infos \<Longrightarrow> (replicate (length infos) ''none'')[j := value_or_none (vmap infos j k)] = pcol infos k {j}"
  by (rule nth_equalityI) (auto simp: pcol_def nth_list_update)

lemma value_outside: "j < length infos \<Longrightarrow> j \<notin> holders infos k \<Longrightarrow> value_or_none (vmap infos j k) = ''none''"
  by (simp add: holders_def value_or_none_def)

lemma pcol_cong: "S \<inter> holders infos k = T \<inter> holders infos k \<Longrightarrow> pcol infos k S = pcol infos k T"
  unfolding pcol_def by (intro map_cong refl) (auto intro!: value_outside value_outside [symmetric])

lemma pcol_all: "holders infos k \<subseteq> S \<Longrightarrow> pcol infos k S = column infos k"
  unfolding pcol_def column_def by (intro map_cong refl) (auto intro!: value_outside value_outside [symmetric])

section \<open>The first pass of the merge\<close>

text \<open>The loop over the later objects, started at object \<open>i\<close> for a key that has no array entry yet.\<close>

definition others_inv :: "mpir_info option list \<Rightarrow> nat \<Rightarrow> string \<Rightarrow> mpir_info \<Rightarrow> nat \<Rightarrow> bool \<times> mpir_info \<Rightarrow> bool" where
  "others_inv infos i k new0 m = (\<lambda>(found, new).
     info_inv new \<and> within (card (all_keys infos)) new \<and> entries new = entries new0
     \<and> (found \<longleftrightarrow> (\<exists>j\<in>holders infos k. i < j \<and> j < m))
     \<and> amap (array_entries new) =
         (if found then (amap (array_entries new0))(k \<mapsto> pcol infos k {i<..<m}) else amap (array_entries new0)))"

lemma merge_other_step:
  assumes mg: "mergeable infos" and fresh: "trunc key \<notin> dom (amap (array_entries new0))" "dom (amap (array_entries new0)) \<subseteq> all_keys infos"
    and i: "i < m" "m < length infos" and s: "others_inv infos i (trunc key) new0 m (found, new)"
  shows "\<exists>s'. merge_other infos key (int m) (found, new) = Some s' \<and> others_inv infos i (trunc key) new0 (Suc m) s'"
proof -
  let ?k = "trunc key" and ?N = "card (all_keys infos)" and ?S = "{i<..<m}"
  have inv: "info_inv new" "within ?N new" "entries new = entries new0" "found \<longleftrightarrow> (\<exists>j\<in>holders infos ?k. i < j \<and> j < m)"
    "amap (array_entries new) = (if found then (amap (array_entries new0))(?k \<mapsto> pcol infos ?k ?S) else amap (array_entries new0))"
    using s by (auto simp: others_inv_def)
  have S: "{i<..<Suc m} = insert m ?S" using i(1) by auto
  have get: "aget infos (int m) = Some (infos ! m)" using i(2) by (simp add: aget_def)
  show ?thesis
  proof (cases "vmap infos m ?k")
    case None
    then have out: "m \<notin> holders infos ?k" by (simp add: holders_def)
    then have "pcol infos ?k (insert m ?S) = pcol infos ?k ?S" by (intro pcol_cong) auto
    moreover have "j < Suc m \<longleftrightarrow> j < m" if "j \<in> holders infos ?k" for j using that out by (cases "j = m") auto
    then have "(\<exists>j\<in>holders infos ?k. i < j \<and> j < Suc m) \<longleftrightarrow> found" unfolding inv(4) by blast
    ultimately have "others_inv infos i ?k new0 (Suc m) (found, new)"
      unfolding others_inv_def prod.case S using inv(1,2,3,5) by simp
    then show ?thesis using None get by (simp add: merge_other_def lookup_vmap)
  next
    case (Some v)
    then have hold: "m \<in> holders infos ?k" and val: "value_or_none (vmap infos m ?k) = v" using i(2) by (simp_all add: holders_def value_or_none_def)
    have plain: "v \<noteq> MPIR_INFO_INFOKEY_ARRAY_TYPE" using mergeable_plain [OF mg i(2) Some] .
    have found': "\<exists>j\<in>holders infos ?k. i < j \<and> j < Suc m" using hold i(1) by blast
    show ?thesis
    proof (cases found)
      case True
      then have vs: "amap (array_entries new) ?k = Some (pcol infos ?k ?S)" using inv(5) by simp
      obtain new' where n: "MPIR_Info_set_array new (int m) key v = Some new'" "info_inv new'" "within ?N new'" "entries new' = entries new"
        "amap (array_entries new') = (amap (array_entries new))(?k \<mapsto> (pcol infos ?k ?S)[nat (int m) := v])"
        using set_array_ok [OF inv(1,2) vs, of "int m" v] i(2) by auto
      have "(pcol infos ?k ?S)[m := v] = pcol infos ?k (insert m ?S)" using pcol_insert [OF i(2), of ?k ?S] val by simp
      then have "others_inv infos i ?k new0 (Suc m) (True, new')"
        using n inv(3,5) True found' by (simp add: others_inv_def S)
      then show ?thesis using Some get plain True n(1) by (simp add: merge_other_def lookup_vmap)
    next
      case False
      have "length (array_entries new) < ?N"
      proof -
        have "?k \<in> all_keys infos" using hold holders_key by blast
        then have "dom (amap (array_entries new0)) \<subset> all_keys infos" using fresh by blast
        then show ?thesis using length_card_amap [OF inv(1)] inv(5) False psubset_card_mono [OF finite_all_keys] by simp
      qed
      then obtain new' where n: "MPIR_Info_push_array new (int m) (int (length infos)) key v = Some new'" "info_inv new'" "within ?N new'"
        "entries new' = entries new" "array_entries new' = array_entries new @
          [\<lparr>ia_key = key, ia_values = (replicate (nat (int (length infos))) ''none'')[nat (int m) := v], ia_num_values = int (length infos)\<rparr>]"
        using push_array_ok [OF inv(1,2), of key "int m" "int (length infos)" v] fresh(1) inv(5) False i(2) mg
        by (auto simp: mergeable_def)
      have "?S \<inter> holders infos ?k = {}" using inv(4) False by auto
      then have "pcol infos ?k {m} = pcol infos ?k (insert m ?S)" by (intro pcol_cong) auto
      then have "(replicate (length infos) ''none'')[m := v] = pcol infos ?k (insert m ?S)" using pcol_single [OF i(2), of ?k] val by simp
      then have "amap (array_entries new') = (amap (array_entries new0))(?k \<mapsto> pcol infos ?k (insert m ?S))"
        using n(5) inv(5) False fresh(1) by (auto simp: map_add_def domIff split: option.splits)
      then have "others_inv infos i ?k new0 (Suc m) (True, new')"
        using n inv(3) found' by (simp add: others_inv_def S)
      then show ?thesis using Some get plain False n(1) by (simp add: merge_other_def lookup_vmap)
    qed
  qed
qed

lemma merge_others:
  assumes "mergeable infos" "trunc key \<notin> dom (amap (array_entries new0))" "dom (amap (array_entries new0)) \<subseteq> all_keys infos"
    and i: "i < length infos" and new0: "info_inv new0" "within (card (all_keys infos)) new0"
  shows "\<exists>s'. ofold (merge_other infos key) [int i + 1..int (length infos) - 1] (False, new0) = Some s'
    \<and> others_inv infos i (trunc key) new0 (length infos) s'"
proof -
  let ?P = "\<lambda>m. others_inv infos i (trunc key) new0 (nat m)"
  have "\<exists>s'. ofold (merge_other infos key) [int i + 1..int (length infos) - 1] (False, new0) = Some s' \<and> ?P (int (length infos)) s'"
  proof (rule ofold_upto)
    show "int i + 1 \<le> int (length infos)" using i by simp
    show "?P (int i + 1) (False, new0)" using new0 by (auto simp: others_inv_def nat_add_distrib)
  next
    fix m s assume m: "int i + 1 \<le> m" "m < int (length infos)" "?P m s"
    obtain found new where "s = (found, new)" by fastforce
    moreover have "nat (m + 1) = Suc (nat m)" using m(1) by simp
    ultimately show "\<exists>s'. merge_other infos key m s = Some s' \<and> ?P (m + 1) s'"
      using merge_other_step [OF assms(1,2,3), of i "nat m" found new] m by simp
  qed
  then show ?thesis by simp
qed

text \<open>After the keys \<open>P\<close> are done, exactly those that several objects hold have an array entry.\<close>

definition shared :: "mpir_info option list \<Rightarrow> string \<Rightarrow> bool" where
  "shared infos k \<longleftrightarrow> 2 \<le> card (holders infos k)"

definition arrays_for :: "mpir_info option list \<Rightarrow> string set \<Rightarrow> string \<Rightarrow> string list option" where
  "arrays_for infos P k = (if k \<in> P \<and> shared infos k then Some (column infos k) else None)"

definition pass1_inv :: "mpir_info option list \<Rightarrow> string set \<Rightarrow> mpir_info \<Rightarrow> bool" where
  "pass1_inv infos P new \<longleftrightarrow> info_inv new \<and> within (card (all_keys infos)) new \<and> entries new = []
     \<and> amap (array_entries new) = arrays_for infos P"

definition keys_before :: "mpir_info option list \<Rightarrow> nat \<Rightarrow> string set" where
  "keys_before infos i = (\<Union>j<i. dom (vmap infos j))"

lemma finite_holders: "finite (holders infos k)"
  by (simp add: holders_def)

lemma shared_iff:
  assumes "i \<in> holders infos k" "\<forall>j\<in>holders infos k. i \<le> j"
  shows "shared infos k \<longleftrightarrow> (\<exists>j\<in>holders infos k. i < j)"
proof
  assume "shared infos k"
  then have "holders infos k \<noteq> {i}" by (auto simp: shared_def)
  then obtain j where j: "j \<in> holders infos k" "j \<noteq> i" using assms(1) by blast
  then have "i \<le> j" using assms(2) by blast
  then have "i < j" using j(2) by simp
  then show "\<exists>j\<in>holders infos k. i < j" using j(1) by blast
next
  assume "\<exists>j\<in>holders infos k. i < j"
  then obtain j where "j \<in> holders infos k" "i < j" by blast
  then have "card {i, j} \<le> card (holders infos k)" using assms(1) finite_holders by (intro card_mono) auto
  then show "shared infos k" using \<open>i < j\<close> by (simp add: shared_def)
qed

lemma shared_key: "shared infos k \<Longrightarrow> k \<in> all_keys infos"
  by (metis all_not_in_conv card.empty holders_key not_numeral_le_zero shared_def)

lemma arrays_for_dom: "dom (arrays_for infos P) \<subseteq> all_keys infos"
  using shared_key by (auto simp: arrays_for_def split: if_splits)

lemma merge_key_step:
  assumes mg: "mergeable infos" and i: "i < length infos" and e: "vmap infos i (trunc (ie_key e)) = Some (ie_value e)"
    and P: "keys_before infos i \<subseteq> P" and s: "pass1_inv infos P new"
  shows "\<exists>new'. merge_key infos (int i) e new = Some new' \<and> pass1_inv infos (insert (trunc (ie_key e)) P) new'"
proof -
  let ?k = "trunc (ie_key e)"
  have inv: "info_inv new" "within (card (all_keys infos)) new" "entries new = []" "amap (array_entries new) = arrays_for infos P"
    using s by (auto simp: pass1_inv_def)
  have plain: "ie_value e \<noteq> MPIR_INFO_INFOKEY_ARRAY_TYPE" using mergeable_plain [OF mg i e] .
  have hold: "i \<in> holders infos ?k" using i e by (simp add: holders_def)
  show ?thesis
  proof (cases "arrays_for infos P ?k")
    case (Some vs)
    then have "?k \<in> P" "vs \<noteq> []" using amap_nonempty [OF inv(1)] inv(4) by (auto simp: arrays_for_def split: if_splits)
    then have "merge_key infos (int i) e new = Some new" "insert ?k P = P"
      using Some plain by (auto simp: merge_key_def lookup_array_amap [OF inv(1)] inv(4) aget_def)
    then show ?thesis using s by simp
  next
    case None
    have l: "MPIR_Info_lookup_array (Some new) (ie_key e) 0 = Some None" using None by (simp add: lookup_array_amap [OF inv(1)] inv(4))
    obtain found new' where o: "ofold (merge_other infos (ie_key e)) [int i + 1..int (length infos) - 1] (False, new) = Some (found, new')"
      "others_inv infos i ?k new (length infos) (found, new')"
    proof -
      have "?k \<notin> dom (amap (array_entries new))" "dom (amap (array_entries new)) \<subseteq> all_keys infos"
        using None arrays_for_dom by (auto simp: inv(4) domIff)
      from merge_others [OF mg this i inv(1,2)] obtain r where
        "ofold (merge_other infos (ie_key e)) [int i + 1..int (length infos) - 1] (False, new) = Some r"
        "others_inv infos i ?k new (length infos) r" by blast
      then show ?thesis using that [of "fst r" "snd r"] by simp
    qed
    have o': "info_inv new'" "within (card (all_keys infos)) new'" "entries new' = []"
      "found \<longleftrightarrow> (\<exists>j\<in>holders infos ?k. i < j)"
      "amap (array_entries new') = (if found then (arrays_for infos P)(?k \<mapsto> pcol infos ?k {i<..<length infos}) else arrays_for infos P)"
    proof -
      have "(\<exists>j\<in>holders infos ?k. i < j \<and> j < length infos) \<longleftrightarrow> (\<exists>j\<in>holders infos ?k. i < j)" by (auto simp: holders_def)
      then show "info_inv new'" "within (card (all_keys infos)) new'" "entries new' = []" "found \<longleftrightarrow> (\<exists>j\<in>holders infos ?k. i < j)"
        "amap (array_entries new') = (if found then (arrays_for infos P)(?k \<mapsto> pcol infos ?k {i<..<length infos}) else arrays_for infos P)"
        using o(2) inv(3,4) unfolding others_inv_def prod.case by simp_all
    qed
    show ?thesis
    proof (cases "?k \<in> P")
      case True
      then have "\<not> shared infos ?k" using None by (auto simp: arrays_for_def split: if_splits)
      then have "holders infos ?k \<subseteq> {i}" using hold finite_holders
        by (smt (verit) card_2_iff' card_le_Suc0_iff_eq insertCI linorder_not_le not_less_eq_eq numeral_2_eq_2 shared_def subsetI)
      then have nf: "\<not> found" using o'(4) by auto
      then have "merge_key infos (int i) e new = Some new'" using plain l o(1) by (simp add: merge_key_def)
      moreover have "pass1_inv infos (insert ?k P) new'" using o' nf True by (simp add: pass1_inv_def insert_absorb)
      ultimately show ?thesis by blast
    next
      case new: False
      then have first: "\<forall>j\<in>holders infos ?k. i \<le> j" using P by (force simp: keys_before_def holders_def)
      have found: "found \<longleftrightarrow> shared infos ?k" using shared_iff [OF hold first] o'(4) by simp
      show ?thesis
      proof (cases found)
        case False
        then have "merge_key infos (int i) e new = Some new'" using plain l o(1) by (simp add: merge_key_def)
        moreover have "arrays_for infos (insert ?k P) = arrays_for infos P" using False found by (auto simp: arrays_for_def)
        ultimately show ?thesis using o' False by (simp add: pass1_inv_def)
      next
        case True
        let ?S = "{i<..<length infos}"
        have "amap (array_entries new') ?k = Some (pcol infos ?k ?S)" using o'(5) True by simp
        from set_array_ok [OF o'(1,2) this, of "int i" "ie_value e"] obtain new'' where n:
          "MPIR_Info_set_array new' (int i) (ie_key e) (ie_value e) = Some new''" "info_inv new''" "within (card (all_keys infos)) new''"
          "entries new'' = entries new'" "amap (array_entries new'') = (amap (array_entries new'))(?k \<mapsto> (pcol infos ?k ?S)[nat (int i) := ie_value e])"
          using i by auto
        have "(pcol infos ?k ?S)[i := ie_value e] = pcol infos ?k (insert i ?S)"
          using pcol_insert [OF i, of ?k ?S] e by (simp add: value_or_none_def)
        also have "\<dots> = column infos ?k" using first by (intro pcol_all) (fastforce simp: holders_def)
        finally have "amap (array_entries new'') = arrays_for infos (insert ?k P)"
          using n(5) o'(5) True found by (auto simp: arrays_for_def)
        then have "pass1_inv infos (insert ?k P) new''" using n o'(3) by (simp add: pass1_inv_def)
        moreover have "merge_key infos (int i) e new = Some new''" using plain l o(1) True n(1) by (simp add: merge_key_def)
        ultimately show ?thesis by blast
      qed
    qed
  qed
qed

lemma keys_before_Suc: "keys_before infos (Suc i) = keys_before infos i \<union> dom (vmap infos i)"
  by (simp add: keys_before_def lessThan_Suc Un_commute)

lemma keys_before_all: "keys_before infos (length infos) = all_keys infos"
  by (simp add: keys_before_def all_keys_def)

lemma emap_member: "distinct (map (\<lambda>e. trunc (ie_key e)) es) \<Longrightarrow> e \<in> set es \<Longrightarrow> emap es (trunc (ie_key e)) = Some (ie_value e)"
  unfolding emap_def by (rule map_of_is_SomeI) (auto simp: o_def)

text \<open>A pass over one object: the invariant holds with one more key after each entry.\<close>

lemma pass_over_info:
  assumes mg: "mergeable infos" and i: "i < length infos" and start: "P (keys_before infos i) new"
    and step: "\<And>K e new. vmap infos i (trunc (ie_key e)) = Some (ie_value e) \<Longrightarrow> keys_before infos i \<subseteq> K \<Longrightarrow>
      (trunc (ie_key e) \<in> K \<longrightarrow> trunc (ie_key e) \<in> keys_before infos i) \<Longrightarrow> P K new \<Longrightarrow>
      \<exists>new'. f e new = Some new' \<and> P (insert (trunc (ie_key e)) K) new'"
  shows "\<exists>new'. (case infos ! i of None \<Rightarrow> Some new | Some info \<Rightarrow> ofold f (entries info) new) = Some new' \<and> P (keys_before infos (Suc i)) new'"
proof (cases "infos ! i")
  case None
  then show ?thesis using start by (simp add: keys_before_Suc vmap_def)
next
  case (Some info)
  then have "Some info \<in> set infos" using i by (metis nth_mem)
  then have inv: "info_inv info" using mg by (simp add: mergeable_def)
  let ?keys = "\<lambda>es. (\<lambda>e. trunc (ie_key e)) ` set es"
  have "\<exists>new'. ofold f (entries info) new = Some new' \<and> P (keys_before infos i \<union> ?keys (entries info)) new'"
  proof (rule ofold_list [where P = "\<lambda>es. P (keys_before infos i \<union> ?keys es)"])
    show "P (keys_before infos i \<union> ?keys []) new" using start by simp
  next
    fix pre e post s assume l: "entries info = pre @ e # post" and s: "P (keys_before infos i \<union> ?keys pre) s"
    have d: "distinct (map (\<lambda>e. trunc (ie_key e)) (pre @ e # post))" using inv l by (simp add: info_inv_def)
    then have "vmap infos i (trunc (ie_key e)) = Some (ie_value e)" using Some emap_member [OF d, of e] by (simp add: vmap_def l)
    moreover have "trunc (ie_key e) \<notin> ?keys pre" using d by simp
    ultimately show "\<exists>s'. f e s = Some s' \<and> P (keys_before infos i \<union> ?keys (pre @ [e])) s'"
      using step [of e "keys_before infos i \<union> ?keys pre" s] s by simp
  qed
  then show ?thesis using Some by (simp add: keys_before_Suc vmap_def dom_emap)
qed

lemma pass_over_infos:
  assumes mg: "mergeable infos" and start: "P {} new"
    and info: "\<And>i new. i < length infos \<Longrightarrow> P (keys_before infos i) new \<Longrightarrow> \<exists>new'. f (int i) new = Some new' \<and> P (keys_before infos (Suc i)) new'"
  shows "\<exists>new'. ofold f [0..int (length infos) - 1] new = Some new' \<and> P (all_keys infos) new'"
proof -
  have "\<exists>new'. ofold f [0..int (length infos) - 1] new = Some new' \<and> P (keys_before infos (nat (int (length infos)))) new'"
  proof (rule ofold_upto [where P = "\<lambda>i. P (keys_before infos (nat i))"])
    show "P (keys_before infos (nat 0)) new" using start by (simp add: keys_before_def)
  next
    fix i new assume "0 \<le> i" "i < int (length infos)" "P (keys_before infos (nat i)) new"
    moreover from this(1) have "nat (i + 1) = Suc (nat i)" by simp
    ultimately show "\<exists>s'. f i new = Some s' \<and> P (keys_before infos (nat (i + 1))) s'" using info [of "nat i" new] by simp
  qed simp
  then show ?thesis by (simp add: keys_before_all)
qed

lemma first_pass:
  assumes mg: "mergeable infos"
  shows "\<exists>new. ofold (merge_info infos) [0..int (length infos) - 1] MPIR_Info_alloc = Some new \<and> pass1_inv infos (all_keys infos) new"
proof (rule pass_over_infos [where P = "pass1_inv infos", OF mg])
  show "pass1_inv infos {} MPIR_Info_alloc"
    using alloc_inv by (auto simp: pass1_inv_def MPIR_Info_alloc_def arrays_for_def)
next
  fix i new assume i: "i < length infos" and s: "pass1_inv infos (keys_before infos i) new"
  have "\<exists>new'. (case infos ! i of None \<Rightarrow> Some new | Some info \<Rightarrow> ofold (merge_key infos (int i)) (entries info) new) = Some new'
      \<and> pass1_inv infos (keys_before infos (Suc i)) new'"
    by (rule pass_over_info [where P = "pass1_inv infos", OF mg i s]) (rule merge_key_step [OF mg i])
  then show "\<exists>new'. merge_info infos (int i) new = Some new' \<and> pass1_inv infos (keys_before infos (Suc i)) new'"
    using i by (simp add: merge_info_def aget_def)
qed

section \<open>The second pass\<close>

definition sole :: "mpir_info option list \<Rightarrow> string \<Rightarrow> string option" where
  "sole infos k = (case filter (\<lambda>j. vmap infos j k \<noteq> None) [0..<length infos] of [] \<Rightarrow> None | j # _ \<Rightarrow> vmap infos j k)"

definition merged_value :: "mpir_info option list \<Rightarrow> string \<Rightarrow> string option" where
  "merged_value infos k = (if shared infos k then Some MPIR_INFO_INFOKEY_ARRAY_TYPE else sole infos k)"

definition pass2_inv :: "mpir_info option list \<Rightarrow> string set \<Rightarrow> mpir_info \<Rightarrow> bool" where
  "pass2_inv infos P new \<longleftrightarrow> info_inv new \<and> within (card (all_keys infos)) new
     \<and> amap (array_entries new) = arrays_for infos (all_keys infos) \<and> emap (entries new) = (\<lambda>k. if k \<in> P then merged_value infos k else None)"

lemma sole_holder:
  assumes "holders infos k = {i}"
  shows "sole infos k = vmap infos i k"
proof -
  define js where "js = filter (\<lambda>j. vmap infos j k \<noteq> None) [0..<length infos]"
  have "set js = {i}" using assms by (auto simp: js_def holders_def)
  then obtain r where "js = i # r" by (cases js) auto
  then show ?thesis unfolding sole_def js_def [symmetric] by simp
qed

lemma unshared_holder:
  assumes "i \<in> holders infos k" "\<not> shared infos k"
  shows "holders infos k = {i}"
proof -
  have "card (holders infos k) \<le> 1" using assms(2) by (simp add: shared_def)
  then show ?thesis using assms(1) finite_holders [of infos k] by (auto simp: card_le_Suc0_iff_eq)
qed

lemma copy_key_step:
  assumes mg: "mergeable infos" and i: "i < length infos" and e: "vmap infos i (trunc (ie_key e)) = Some (ie_value e)"
    and P: "trunc (ie_key e) \<in> P \<longrightarrow> trunc (ie_key e) \<in> keys_before infos i" and s: "pass2_inv infos P new" and sub: "P \<subseteq> all_keys infos"
  shows "\<exists>new'. copy_key e new = Some new' \<and> pass2_inv infos (insert (trunc (ie_key e)) P) new'"
proof -
  let ?k = "trunc (ie_key e)" and ?N = "card (all_keys infos)"
  have inv: "info_inv new" "within ?N new" "amap (array_entries new) = arrays_for infos (all_keys infos)"
    "emap (entries new) = (\<lambda>k. if k \<in> P then merged_value infos k else None)" using s by (auto simp: pass2_inv_def)
  have plain: "ie_value e \<noteq> MPIR_INFO_INFOKEY_ARRAY_TYPE" using mergeable_plain [OF mg i e] .
  have hold: "i \<in> holders infos ?k" using i e by (simp add: holders_def)
  then have key: "?k \<in> all_keys infos" by (rule holders_key)
  let ?w = "if shared infos ?k then MPIR_INFO_INFOKEY_ARRAY_TYPE else ie_value e"
  have w: "merged_value infos ?k = Some ?w"
    using unshared_holder [OF hold] sole_holder [of infos ?k i] e by (simp add: merged_value_def)
  have a: "MPIR_Info_lookup_array (Some new) (ie_key e) 0 = (if shared infos ?k then Some (Some (column infos ?k ! 0, int (length infos))) else Some None)"
    using i key not_less_zero by (cases infos) (simp_all add: lookup_array_amap [OF inv(1)] inv(3) arrays_for_def aget_def column_def)
  show ?thesis
  proof (cases "?k \<in> P")
    case True
    then obtain j where j: "j < i" "vmap infos j ?k \<noteq> None" using P by (auto simp: keys_before_def)
    then have "j \<in> holders infos ?k" "j \<noteq> i" using i by (simp_all add: holders_def)
    then have "shared infos ?k" using unshared_holder [OF hold] by blast
    then have "copy_key e new = Some new" using a True w plain by (simp add: copy_key_def inv(4))
    then show ?thesis using s True by (simp add: insert_absorb)
  next
    case False
    then have "?k \<notin> dom (emap (entries new))" "dom (emap (entries new)) \<subset> all_keys infos"
      using inv(4) sub key by (auto split: if_splits)
    then have "length (entries new) < ?N" using length_card_emap [OF inv(1)] psubset_card_mono [OF finite_all_keys] by simp
    moreover have "?N \<le> INFO_LIMIT" using mg by (simp add: mergeable_def)
    ultimately obtain new' where n: "MPIR_Info_push new (ie_key e) ?w = Some new'" "info_inv new'" "within ?N new'"
      "entries new' = entries new @ [\<lparr>ie_key = ie_key e, ie_value = ?w\<rparr>]" "array_entries new' = array_entries new"
      using push_ok [OF inv(1,2), of "ie_key e" ?w] \<open>?k \<notin> dom (emap (entries new))\<close> by blast
    have "copy_key e new = Some new'" using a n(1) plain False by (auto simp: copy_key_def inv(4) split: if_splits)
    moreover have "emap (entries new') = (\<lambda>k. if k \<in> insert ?k P then merged_value infos k else None)"
      using w False by (auto simp: n(4) inv(4) map_add_def fun_eq_iff split: option.splits)
    ultimately show ?thesis using n inv(3) by (simp add: pass2_inv_def)
  qed
qed

lemma merge_result:
  assumes mg: "mergeable infos"
  shows "\<exists>new. MPIR_Info_merge_from_array_impl infos = Some new \<and> info_inv new \<and> within (card (all_keys infos)) new
    \<and> emap (entries new) = merged_value infos
    \<and> amap (array_entries new) = (\<lambda>k. if shared infos k then Some (column infos k) else None)"
proof -
  obtain new1 where one: "ofold (merge_info infos) [0..int (length infos) - 1] MPIR_Info_alloc = Some new1" "pass1_inv infos (all_keys infos) new1"
    using first_pass [OF mg] by blast
  let ?P = "\<lambda>K new. K \<subseteq> all_keys infos \<and> pass2_inv infos K new"
  have "\<exists>new. ofold (copy_info infos) [0..int (length infos) - 1] new1 = Some new \<and> ?P (all_keys infos) new"
  proof (rule pass_over_infos [where P = ?P, OF mg])
    show "?P {} new1" using one(2) by (auto simp: pass1_inv_def pass2_inv_def)
  next
    fix i new assume i: "i < length infos" and s: "?P (keys_before infos i) new"
    have "\<exists>new'. (case infos ! i of None \<Rightarrow> Some new | Some info \<Rightarrow> ofold copy_key (entries info) new) = Some new'
        \<and> ?P (keys_before infos (Suc i)) new'"
    proof (rule pass_over_info [where P = ?P, OF mg i s])
      fix K and e :: info_entry and new assume e: "vmap infos i (trunc (ie_key e)) = Some (ie_value e)" and K: "keys_before infos i \<subseteq> K"
        "trunc (ie_key e) \<in> K \<longrightarrow> trunc (ie_key e) \<in> keys_before infos i" "?P K new"
      have "trunc (ie_key e) \<in> all_keys infos" using e i by (auto simp: all_keys_def)
      then show "\<exists>new'. copy_key e new = Some new' \<and> ?P (insert (trunc (ie_key e)) K) new'"
        using copy_key_step [OF mg i e K(2)] K(3) by auto
    qed
    then show "\<exists>new'. copy_info infos (int i) new = Some new' \<and> ?P (keys_before infos (Suc i)) new'"
      using i by (simp add: copy_info_def aget_def)
  qed
  then obtain new where two: "ofold (copy_info infos) [0..int (length infos) - 1] new1 = Some new" "pass2_inv infos (all_keys infos) new" by blast
  have none: "merged_value infos k = None" if "k \<notin> all_keys infos" for k
  proof -
    have "holders infos k = {}" using that holders_key by blast
    then have "filter (\<lambda>j. vmap infos j k \<noteq> None) [0..<length infos] = []" by (auto simp: holders_def filter_empty_conv)
    then show ?thesis using \<open>holders infos k = {}\<close> by (simp add: merged_value_def shared_def sole_def)
  qed
  have "(\<lambda>k. if k \<in> all_keys infos then merged_value infos k else None) = merged_value infos" using none by fastforce
  moreover have "arrays_for infos (all_keys infos) = (\<lambda>k. if shared infos k then Some (column infos k) else None)"
    using shared_key by (fastforce simp: arrays_for_def)
  ultimately show ?thesis using one(1) two by (auto simp: MPIR_Info_merge_from_array_impl_def pass2_inv_def)
qed

end
