(* ===== verification/Info_Split.thy ===== *)
theory Info_Split
  imports Info_Merge
begin

text \<open>
  Splitting an info object, and splitting a merged one again.
\<close>

section \<open>Setting one key in every object\<close>

definition targets_ok :: "nat \<Rightarrow> string set \<Rightarrow> mpir_info list \<Rightarrow> bool" where
  "targets_ok n K outs \<longleftrightarrow> n \<le> INFO_LIMIT \<and> finite K \<and> (\<forall>info\<in>set outs. info_inv info \<and> within n info
     \<and> card (dom (emap (entries info)) \<union> K) \<le> n)"

lemma set_nth_ok:
  assumes ok: "targets_ok n K outs" and k: "trunc key \<in> K" and j: "j < length outs"
  shows "\<exists>outs'. set_nth key v (int j) outs = Some outs' \<and> targets_ok n K outs' \<and> length outs' = length outs
    \<and> emap (entries (outs' ! j)) = (emap (entries (outs ! j)))(trunc key \<mapsto> v) \<and> (\<forall>i. i \<noteq> j \<longrightarrow> outs' ! i = outs ! i)"
proof -
  let ?o = "outs ! j" let ?d = "dom (emap (entries ?o))"
  have o: "info_inv ?o" "within n ?o" "card (?d \<union> K) \<le> n" and n: "n \<le> INFO_LIMIT" "finite K"
    using ok nth_mem [OF j] by (auto simp: targets_ok_def)
  have fin: "finite ?d" by (simp add: dom_emap)
  have room: "trunc key \<in> ?d \<or> length (entries ?o) < n"
  proof (cases "trunc key \<in> ?d")
    case False
    then have "?d \<subset> ?d \<union> K" using k by blast
    then have "card ?d < card (?d \<union> K)" using fin n(2) by (intro psubset_card_mono) simp_all
    then show ?thesis using length_card_emap [OF o(1)] o(3) by simp
  qed simp
  obtain o' where o': "MPIR_Info_set_impl ?o key v = Some o'" "info_inv o'" "within n o'" "emap (entries o') = (emap (entries ?o))(trunc key \<mapsto> v)"
    using set_ok [OF o(1,2) room n(1), of v] by blast
  have "dom (emap (entries o')) \<union> K = ?d \<union> K" using k by (auto simp: o'(4))
  then have "targets_ok n K (outs[j := o'])"
    using ok o'(2,3) o(3) set_update_subset_insert [of outs j o'] unfolding targets_ok_def by auto
  moreover have "set_nth key v (int j) outs = Some (outs[j := o'])" using j o'(1) by (simp add: set_nth_def aget_def aset_def)
  ultimately show ?thesis using j o'(4) by (intro exI [of _ "outs[j := o']"]) simp
qed

lemma set_each:
  assumes ok: "targets_ok n K outs" and k: "trunc key \<in> K" and m: "m \<le> length outs"
    and f: "\<And>j s. j < m \<Longrightarrow> f (int j) s = set_nth key (g j) (int j) s"
  shows "\<exists>outs'. ofold f [0..int m - 1] outs = Some outs' \<and> targets_ok n K outs' \<and> length outs' = length outs
    \<and> (\<forall>j<length outs. emap (entries (outs' ! j)) =
         (if j < m then (emap (entries (outs ! j)))(trunc key \<mapsto> g j) else emap (entries (outs ! j))))"
proof -
  let ?P = "\<lambda>i s. targets_ok n K s \<and> length s = length outs \<and> (\<forall>j<length outs. emap (entries (s ! j)) =
     (if int j < i then (emap (entries (outs ! j)))(trunc key \<mapsto> g j) else emap (entries (outs ! j))))"
  have "\<exists>outs'. ofold f [0..int m - 1] outs = Some outs' \<and> ?P (int m) outs'"
  proof (rule ofold_upto)
    show "?P 0 outs" using ok by simp
  next
    fix i s assume i: "0 \<le> i" "i < int m" and s: "?P i s"
    let ?j = "nat i"
    have j: "?j < m" "?j < length s" "int ?j = i" using i m s by auto
    obtain s' where s': "set_nth key (g ?j) (int ?j) s = Some s'" "targets_ok n K s'" "length s' = length s"
      "emap (entries (s' ! ?j)) = (emap (entries (s ! ?j)))(trunc key \<mapsto> g ?j)" "\<forall>x. x \<noteq> ?j \<longrightarrow> s' ! x = s ! x"
      using set_nth_ok [of n K s key ?j "g ?j"] s k j(2) by blast
    have "emap (entries (s' ! x)) = (if int x < i + 1 then (emap (entries (outs ! x)))(trunc key \<mapsto> g x) else emap (entries (outs ! x)))"
      if x: "x < length outs" for x
    proof (cases "x = ?j")
      case True
      then show ?thesis using s'(4) s x j(3) by simp
    next
      case False
      then have "int x < i + 1 \<longleftrightarrow> int x < i" using j(3) by auto
      then show ?thesis using False s'(5) s x by simp
    qed
    then have "?P (i + 1) s'" using s'(2,3) s by simp
    moreover have "f i s = Some s'" using f [OF j(1)] s'(1) j(3) by simp
    ultimately show "\<exists>s'. f i s = Some s' \<and> ?P (i + 1) s'" by blast
  qed simp
  then show ?thesis by simp
qed

section \<open>The loop over the entries\<close>

definition arrays_present :: "mpir_info \<Rightarrow> bool" where
  "arrays_present info \<longleftrightarrow> (\<forall>k. emap (entries info) k = Some MPIR_INFO_INFOKEY_ARRAY_TYPE \<longrightarrow> amap (array_entries info) k \<noteq> None)"

text \<open>What object \<open>j\<close> gets for a key, given what it had.\<close>

definition split_value :: "mpir_info \<Rightarrow> nat \<Rightarrow> nat \<Rightarrow> string \<Rightarrow> string option \<Rightarrow> string option" where
  "split_value info cnt j k old =
     (if cnt \<le> j then old
      else case emap (entries info) k of
             None \<Rightarrow> old
           | Some v \<Rightarrow>
               if v = MPIR_INFO_INFOKEY_ARRAY_TYPE
               then (case amap (array_entries info) k of None \<Rightarrow> old | Some vs \<Rightarrow> if j < length vs then Some (vs ! j) else old)
               else Some v)"

definition split_inv :: "mpir_info \<Rightarrow> nat \<Rightarrow> nat \<Rightarrow> mpir_info list \<Rightarrow> string set \<Rightarrow> int \<times> mpir_info list \<Rightarrow> bool" where
  "split_inv info n cnt outs0 P = (\<lambda>(c, outs). targets_ok n (dom (emap (entries info))) outs \<and> length outs = length outs0
     \<and> (\<forall>j<length outs0. \<forall>k. emap (entries (outs ! j)) k =
          (if k \<in> P then split_value info cnt j k (emap (entries (outs0 ! j)) k) else emap (entries (outs0 ! j)) k)))"

lemma split_entry_step:
  assumes inv: "info_inv info" "arrays_present info" and cnt: "cnt \<le> length outs0"
    and e: "emap (entries info) (trunc (ie_key e)) = Some (ie_value e)" and new: "trunc (ie_key e) \<notin> P"
    and s: "split_inv info n cnt outs0 P (c, outs)"
  shows "\<exists>s'. split_entry info (int cnt) e (c, outs) = Some s' \<and> split_inv info n cnt outs0 (insert (trunc (ie_key e)) P) s'"
proof -
  let ?k = "trunc (ie_key e)" and ?K = "dom (emap (entries info))"
  have ok: "targets_ok n ?K outs" and len: "length outs = length outs0" and val: "\<And>j k. j < length outs0 \<Longrightarrow> emap (entries (outs ! j)) k =
      (if k \<in> P then split_value info cnt j k (emap (entries (outs0 ! j)) k) else emap (entries (outs0 ! j)) k)"
    using s by (auto simp: split_inv_def)
  have k: "?k \<in> ?K" using e by blast
  have finish: "split_inv info n cnt outs0 (insert ?k P) (c', outs')"
    if o: "targets_ok n ?K outs'" "length outs' = length outs"
      "\<forall>j<length outs. emap (entries (outs' ! j)) = (if j < m then (emap (entries (outs ! j)))(?k \<mapsto> g j) else emap (entries (outs ! j)))"
      and g: "\<And>j old. j < length outs0 \<Longrightarrow> split_value info cnt j ?k old = (if j < m then Some (g j) else old)" for c' outs' m g
    using o len val new g by (auto simp: split_inv_def)
  show ?thesis
  proof (cases "ie_value e = MPIR_INFO_INFOKEY_ARRAY_TYPE")
    case False
    obtain outs' where o: "ofold (set_nth (ie_key e) (ie_value e)) [0..int cnt - 1] outs = Some outs'" "targets_ok n ?K outs'" "length outs' = length outs"
      "\<forall>j<length outs. emap (entries (outs' ! j)) = (if j < cnt then (emap (entries (outs ! j)))(?k \<mapsto> ie_value e) else emap (entries (outs ! j)))"
      using set_each [OF ok k, of cnt "set_nth (ie_key e) (ie_value e)" "\<lambda>_. ie_value e"] cnt len by auto
    have "split_inv info n cnt outs0 (insert ?k P) (c, outs')"
      by (rule finish [OF o(2,3,4)]) (use e False in \<open>simp add: split_value_def\<close>)
    then show ?thesis using False o(1) by (simp add: split_entry_def)
  next
    case True
    then obtain vs where vs: "amap (array_entries info) ?k = Some vs" using inv(2) e by (auto simp: arrays_present_def)
    have ne: "vs \<noteq> []" using amap_nonempty [OF inv(1) vs] .
    have look: "MPIR_Info_lookup_array (Some info) (ie_key e) (int j) = Some (Some (vs ! j, int (length vs)))" if "j < length vs" for j
      using vs that by (simp add: lookup_array_amap [OF inv(1)] aget_def)
    let ?f = "\<lambda>j infos. do { a \<leftarrow> MPIR_Info_lookup_array (Some info) (ie_key e) j; (value, _) \<leftarrow> a; set_nth (ie_key e) value j infos }"
    let ?m = "min (length vs) cnt"
    have "?m \<le> length outs" using cnt len by simp
    moreover have "\<And>j s. j < ?m \<Longrightarrow> ?f (int j) s = set_nth (ie_key e) (vs ! j) (int j) s" by (simp add: look)
    ultimately obtain outs' where o: "ofold ?f [0..int ?m - 1] outs = Some outs'" "targets_ok n ?K outs'" "length outs' = length outs"
      "\<forall>j<length outs. emap (entries (outs' ! j)) = (if j < ?m then (emap (entries (outs ! j)))(?k \<mapsto> vs ! j) else emap (entries (outs ! j)))"
      using set_each [OF ok k, of ?m ?f "\<lambda>j. vs ! j"] by blast
    have "split_inv info n cnt outs0 (insert ?k P) (max c (int (length vs)), outs')"
      by (rule finish [OF o(2,3,4)]) (use e True vs in \<open>auto simp: split_value_def\<close>)
    moreover have "split_entry info (int cnt) e (c, outs) = Some (max c (int (length vs)), outs')"
      using True look [of 0] ne o(1) by (simp add: split_entry_def of_nat_min)
    ultimately show ?thesis by blast
  qed
qed

lemma split_result:
  assumes inv: "info_inv info" "arrays_present info" and cnt: "cnt \<le> length outs0" and ok: "targets_ok n (dom (emap (entries info))) outs0"
  shows "\<exists>c outs. MPIR_Info_split_into_array_impl (int cnt) outs0 info = Some (c, outs) \<and> length outs = length outs0
    \<and> (\<forall>j<length outs0. \<forall>k. emap (entries (outs ! j)) k = split_value info cnt j k (emap (entries (outs0 ! j)) k))"
proof -
  let ?keys = "\<lambda>es. (\<lambda>e. trunc (ie_key e)) ` set es"
  have "\<exists>s. ofold (split_entry info (int cnt)) (entries info) (0, outs0) = Some s \<and> split_inv info n cnt outs0 (?keys (entries info)) s"
  proof (rule ofold_list [where P = "\<lambda>es. split_inv info n cnt outs0 (?keys es)"])
    show "split_inv info n cnt outs0 (?keys []) (0, outs0)" using ok by (simp add: split_inv_def)
  next
    fix pre e post s assume l: "entries info = pre @ e # post" and s: "split_inv info n cnt outs0 (?keys pre) s"
    have d: "distinct (map (\<lambda>e. trunc (ie_key e)) (pre @ e # post))" using inv(1) l by (simp add: info_inv_def)
    have "emap (entries info) (trunc (ie_key e)) = Some (ie_value e)" using emap_member [OF d, of e] l by simp
    moreover have "trunc (ie_key e) \<notin> ?keys pre" using d by simp
    ultimately show "\<exists>s'. split_entry info (int cnt) e s = Some s' \<and> split_inv info n cnt outs0 (?keys (pre @ [e])) s'"
      using split_entry_step [OF inv cnt, of e "?keys pre" n "fst s" "snd s"] s by simp
  qed
  then obtain c outs where r: "ofold (split_entry info (int cnt)) (entries info) (0, outs0) = Some (c, outs)"
    "split_inv info n cnt outs0 (dom (emap (entries info))) (c, outs)" by (auto simp: dom_emap)
  have "split_value info cnt j k old = old" if "k \<notin> dom (emap (entries info))" for j k old
    using that by (auto simp: split_value_def domIff)
  then show ?thesis using r by (auto simp: MPIR_Info_split_into_array_impl_def split_inv_def)
qed

end
