(* ===== verification/Info_Theorems.thy ===== *)
theory Info_Theorems
  imports Hex_Roundtrip Info_Split
begin

text \<open>
  The properties of info objects: refinement of finite maps, merging and splitting, binary values.
\<close>

section \<open>Copying one key\<close>

lemma dup_values:
  assumes src: "info_inv src" "amap (array_entries src) (trunc k) = Some vs" and dest: "info_inv dest" "within n dest"
    and v0: "amap (array_entries dest) (trunc k) = Some ((replicate (length vs) ''none'')[0 := vs ! 0])" and ne: "vs \<noteq> []"
  shows "\<exists>dest'. ofold (\<lambda>i dest. do { a \<leftarrow> MPIR_Info_lookup_array (Some src) k i; (value, _) \<leftarrow> a; MPIR_Info_set_array dest i k value })
      [1..int (length vs) - 1] dest = Some dest' \<and> info_inv dest' \<and> within n dest' \<and> entries dest' = entries dest
    \<and> amap (array_entries dest') = (amap (array_entries dest))(trunc k \<mapsto> vs)"
proof -
  let ?P = "\<lambda>i d. info_inv d \<and> within n d \<and> entries d = entries dest
    \<and> amap (array_entries d) = (amap (array_entries dest))(trunc k \<mapsto> take (nat i) vs @ replicate (length vs - nat i) ''none'')"
  let ?f = "\<lambda>i dest. do { a \<leftarrow> MPIR_Info_lookup_array (Some src) k i; (value, _) \<leftarrow> a; MPIR_Info_set_array dest i k value }"
  have "\<exists>d. ofold ?f [1..int (length vs) - 1] dest = Some d \<and> ?P (int (length vs)) d"
  proof (rule ofold_upto)
    show "1 \<le> int (length vs)" using ne by (cases vs) simp_all
    have "(replicate (length vs) ''none'')[0 := vs ! 0] = take 1 vs @ replicate (length vs - 1) ''none''" using ne by (cases vs) simp_all
    then show "?P 1 dest" using dest v0 by (auto simp: fun_upd_idem)
  next
    fix i d assume i: "1 \<le> i" "i < int (length vs)" and d: "?P i d"
    let ?i = "nat i"
    have lt: "?i < length vs" using i by simp
    have "MPIR_Info_lookup_array (Some src) k i = Some (Some (vs ! ?i, int (length vs)))"
      using i by (simp add: lookup_array_amap [OF src(1)] src(2) aget_def)
    moreover have "amap (array_entries d) (trunc k) = Some (take ?i vs @ replicate (length vs - ?i) ''none'')" using d by simp
    then obtain d' where d': "MPIR_Info_set_array d i k (vs ! ?i) = Some d'" "info_inv d'" "within n d'" "entries d' = entries d"
      "amap (array_entries d') = (amap (array_entries d))(trunc k \<mapsto> (take ?i vs @ replicate (length vs - ?i) ''none'')[?i := vs ! ?i])"
      using set_array_ok [of d n k _ i "vs ! ?i"] d i by fastforce
    moreover have "(take ?i vs @ replicate (length vs - ?i) ''none'')[?i := vs ! ?i] = take (Suc ?i) vs @ replicate (length vs - Suc ?i) ''none''"
      using lt by (cases "length vs - ?i") (auto simp: list_update_append take_Suc_conv_app_nth Suc_diff_Suc [symmetric])
    moreover have "nat (i + 1) = Suc ?i" using i(1) by simp
    ultimately show "\<exists>s'. ?f i d = Some s' \<and> ?P (i + 1) s'" using d by simp
  qed
  then show ?thesis by simp
qed

lemma dup_key_ok:
  assumes src: "info_inv src" "emap (entries src) (trunc k) = Some v" and dest: "info_inv dest" "within n dest"
    and room: "length (entries dest) < n" "length (array_entries dest) < n" "n \<le> INFO_LIMIT" and new: "trunc k \<notin> dom (emap (entries dest))"
      "trunc k \<notin> dom (amap (array_entries dest))"
  shows "\<exists>dest'. MPIR_Info_dup_key_impl src k dest = Some (dest', None) \<and> info_inv dest' \<and> within n dest'
    \<and> emap (entries dest') = (emap (entries dest))(trunc k \<mapsto> v) \<and> length (entries dest') \<le> Suc (length (entries dest))
    \<and> amap (array_entries dest') = (case amap (array_entries src) (trunc k) of None \<Rightarrow> amap (array_entries dest)
        | Some vs \<Rightarrow> (amap (array_entries dest))(trunc k \<mapsto> vs))"
proof -
  obtain d1 where d1: "MPIR_Info_set_impl dest k v = Some d1" "info_inv d1" "within n d1" "emap (entries d1) = (emap (entries dest))(trunc k \<mapsto> v)"
    "amap (array_entries d1) = amap (array_entries dest)" "length (entries d1) \<le> Suc (length (entries dest))"
    using set_ok [OF dest, of k v] room(1,3) new(1) by auto
  show ?thesis
  proof (cases "amap (array_entries src) (trunc k)")
    case None
    then show ?thesis using d1 src by (simp add: MPIR_Info_dup_key_impl_def lookup_array_amap)
  next
    case (Some vs)
    have ne: "vs \<noteq> []" using amap_nonempty [OF src(1) Some] .
    have look: "MPIR_Info_lookup_array (Some src) k 0 = Some (Some (vs ! 0, int (length vs)))"
      using Some ne by (simp add: lookup_array_amap [OF src(1)] aget_def)
    obtain d2 r where d2: "info_delete_array d1 k = Some (d2, r)" "info_inv d2" "within n d2" "entries d2 = entries d1"
      "amap (array_entries d2) = (amap (array_entries d1))(trunc k := None)" "length (array_entries d2) \<le> length (array_entries d1)"
      using delete_array_ok [OF d1(2,3), of k] by blast
    have same: "amap (array_entries d2) = amap (array_entries dest)" using d2(5) d1(5) new(2) by (auto simp: domIff)
    have "length (array_entries d2) < n" using length_card_amap [OF d2(2)] length_card_amap [OF dest(1)] same room(2) by simp
    then obtain d3 where d3: "MPIR_Info_push_array d2 0 (int (length vs)) k (vs ! 0) = Some d3" "info_inv d3" "within n d3" "entries d3 = entries d2"
      "array_entries d3 = array_entries d2 @
        [\<lparr>ia_key = k, ia_values = (replicate (nat (int (length vs))) ''none'')[nat 0 := vs ! 0], ia_num_values = int (length vs)\<rparr>]"
      using push_array_ok [OF d2(2,3), of k 0 "int (length vs)" "vs ! 0"] room(3) new(2) same ne by auto
    have a3: "amap (array_entries d3) = (amap (array_entries dest))(trunc k \<mapsto> (replicate (length vs) ''none'')[0 := vs ! 0])"
      using new(2) same by (auto simp: d3(5) map_add_def domIff fun_eq_iff split: option.splits)
    obtain d4 where d4: "ofold (\<lambda>i dest. do { a \<leftarrow> MPIR_Info_lookup_array (Some src) k i; (value, _) \<leftarrow> a; MPIR_Info_set_array dest i k value })
        [1..int (length vs) - 1] d3 = Some d4" "info_inv d4" "within n d4" "entries d4 = entries d3"
        "amap (array_entries d4) = (amap (array_entries d3))(trunc k \<mapsto> vs)"
      using dup_values [OF src(1) Some d3(2,3) _ ne] a3 by auto
    have "MPIR_Info_dup_key_impl src k dest = Some (d4, None)"
      using src(2) d1(1) look d2(1) d3(1) d4(1) by (simp add: MPIR_Info_dup_key_impl_def)
    moreover have "entries d4 = entries d1" using d4(4) d3(4) d2(4) by simp
    ultimately show ?thesis using d1(4,6) d4(2,3,5) a3 Some by simp
  qed
qed

section \<open>Info objects as maps\<close>

text \<open>C30: From a new object, any sequence of at most 200 million settings and deletions runs to its
  end inside the allocated slots, and every lookup afterwards gives what the finite map does that is
  updated the same way, keys being compared up to \<open>MPI_MAX_INFO_KEY\<close> characters.  No key is stored
  twice, and one more deletion fails with \<open>MPI_ERR_INFO_NOKEY\<close> exactly for a missing key, changing
  nothing.\<close>

theorem info_refines_map:
  assumes "length ops \<le> INFO_LIMIT"
  shows "\<exists>info. run_store MPIR_Info_set_impl MPIR_Info_delete_impl ops MPIR_Info_alloc = Some info
    \<and> (\<forall>k. MPIR_Info_lookup (Some info) k = store_spec trunc ops Map.empty (trunc k))
    \<and> MPIR_Info_get_nkeys_impl info = int (card (dom (store_spec trunc ops Map.empty)))
    \<and> int (length (entries info)) \<le> capacity info
    \<and> (\<forall>k. \<exists>info' r. MPIR_Info_delete_impl info k = Some (info', r)
         \<and> (r = None \<longleftrightarrow> MPIR_Info_lookup (Some info) k \<noteq> None) \<and> (r \<noteq> None \<longrightarrow> info' = info))"
proof -
  obtain info where info: "run_store MPIR_Info_set_impl MPIR_Info_delete_impl ops MPIR_Info_alloc = Some info"
    "info_inv info" "within INFO_LIMIT info" "emap (entries info) = store_spec trunc ops (emap (entries MPIR_Info_alloc))"
    using info_store.run_refines [of MPIR_Info_alloc ops] alloc_inv assms by (auto simp: MPIR_Info_alloc_def)
  have e: "emap (entries info) = store_spec trunc ops Map.empty" using info(4) by (simp add: MPIR_Info_alloc_def)
  have "\<exists>info' r. MPIR_Info_delete_impl info k = Some (info', r)
      \<and> (r = None \<longleftrightarrow> MPIR_Info_lookup (Some info) k \<noteq> None) \<and> (r \<noteq> None \<longrightarrow> info' = info)" for k
    using delete_ok [OF info(2,3), of k] by (auto simp: domIff)
  moreover have "int (length (entries info)) \<le> capacity info" using info(2) by (simp add: info_inv_def slots_ok_def)
  moreover have "MPIR_Info_get_nkeys_impl info = int (card (dom (store_spec trunc ops Map.empty)))"
    using length_card_emap [OF info(2)] by (simp add: MPIR_Info_get_nkeys_impl_def e)
  ultimately show ?thesis using info(1) e by auto
qed

theorem info_refines_map_witness:
  "\<exists>info. run_store MPIR_Info_set_impl MPIR_Info_delete_impl
      [Put ''a'' ''1'', Put ''b'' ''2'', Put ''a'' ''3'', Remove ''b'', Remove ''c''] MPIR_Info_alloc = Some info
    \<and> MPIR_Info_lookup (Some info) ''a'' = Some ''3'' \<and> MPIR_Info_lookup (Some info) ''b'' = None"
proof -
  let ?ops = "[Put ''a'' ''1'', Put ''b'' ''2'', Put ''a'' ''3'', Remove ''b'', Remove ''c'']"
  have "length ?ops \<le> INFO_LIMIT" by (simp add: INFO_LIMIT_def)
  from info_refines_map [OF this] obtain info where i: "run_store MPIR_Info_set_impl MPIR_Info_delete_impl ?ops MPIR_Info_alloc = Some info"
    "\<forall>k. MPIR_Info_lookup (Some info) k = store_spec trunc ?ops Map.empty (trunc k)" by blast
  have "MPIR_Info_lookup (Some info) ''a'' = Some ''3''" "MPIR_Info_lookup (Some info) ''b'' = None"
    unfolding i(2) [rule_format] by (simp_all add: trunc_def MPI_MAX_INFO_KEY_def)
  then show ?thesis using i(1) by blast
qed

section \<open>Merging and splitting\<close>

lemma sole_from:
  assumes "sole infos k = Some v"
  shows "\<exists>j<length infos. vmap infos j k = Some v"
proof -
  define js where "js = filter (\<lambda>j. vmap infos j k \<noteq> None) [0..<length infos]"
  have "(case js of [] \<Rightarrow> None | j # _ \<Rightarrow> vmap infos j k) = Some v" using assms unfolding sole_def js_def .
  then obtain j r where j: "js = j # r" "vmap infos j k = Some v" by (cases js) simp_all
  have "j \<in> set js" by (simp add: j(1))
  then have "j < length infos" unfolding js_def by simp
  then show ?thesis using j(2) by blast
qed

lemma sole_plain: "mergeable infos \<Longrightarrow> sole infos k \<noteq> Some MPIR_INFO_INFOKEY_ARRAY_TYPE"
  using sole_from mergeable_plain by blast

lemma merged_arrays_present:
  assumes "emap (entries m) = merged_value infos" "mergeable infos"
    "amap (array_entries m) = (\<lambda>k. if shared infos k then Some (column infos k) else None)"
  shows "arrays_present m"
  unfolding arrays_present_def assms(1,3) merged_value_def using sole_plain [OF assms(2)] by simp

lemma fresh_targets: "finite K \<Longrightarrow> card K \<le> n \<Longrightarrow> n \<le> INFO_LIMIT \<Longrightarrow> targets_ok n K (replicate c MPIR_Info_alloc)"
  using alloc_inv by (auto simp: targets_ok_def MPIR_Info_alloc_def)

lemma merge_split_values:
  assumes mg: "mergeable infos"
  shows "\<exists>m c outs. MPIR_Info_merge_from_array_impl infos = Some m
    \<and> MPIR_Info_split_into_array_impl (int (length infos)) (replicate (length infos) MPIR_Info_alloc) m = Some (c, outs)
    \<and> length outs = length infos
    \<and> (\<forall>j<length infos. \<forall>k. emap (entries (outs ! j)) k =
         (if shared infos k then Some (value_or_none (vmap infos j k)) else sole infos k))"
proof -
  obtain m where m: "MPIR_Info_merge_from_array_impl infos = Some m" "info_inv m" "within (card (all_keys infos)) m"
    "emap (entries m) = merged_value infos" "amap (array_entries m) = (\<lambda>k. if shared infos k then Some (column infos k) else None)"
    using merge_result [OF mg] by blast
  have pres: "arrays_present m" by (rule merged_arrays_present [OF m(4) mg m(5)])
  have "card (dom (emap (entries m))) \<le> card (all_keys infos)" using length_card_emap [OF m(2)] m(3) by (simp add: within_def)
  then have "targets_ok (card (all_keys infos)) (dom (emap (entries m))) (replicate (length infos) MPIR_Info_alloc)"
    using mg by (intro fresh_targets) (simp_all add: dom_emap mergeable_def)
  from split_result [OF m(2) pres _ this, of "length infos"] obtain c outs where
    o: "MPIR_Info_split_into_array_impl (int (length infos)) (replicate (length infos) MPIR_Info_alloc) m = Some (c, outs)" "length outs = length infos"
    "\<forall>j<length infos. \<forall>k. emap (entries (outs ! j)) k =
      split_value m (length infos) j k (emap (entries (replicate (length infos) MPIR_Info_alloc ! j)) k)" by auto
  have "split_value m (length infos) j k None = (if shared infos k then Some (value_or_none (vmap infos j k)) else sole infos k)"
    if j: "j < length infos" for j k
  proof (cases "shared infos k")
    case True
    then show ?thesis using j by (simp add: split_value_def m(4,5) merged_value_def column_def)
  next
    case False
    moreover have "sole infos k \<noteq> Some MPIR_INFO_INFOKEY_ARRAY_TYPE" using sole_plain [OF mg] .
    ultimately show ?thesis using j by (auto simp: split_value_def m(4) merged_value_def split: option.splits)
  qed
  then show ?thesis using m(1) o by (auto simp: MPIR_Info_alloc_def)
qed

text \<open>C31: Merging info objects and splitting the result into as many new objects restores, in each
  object, the value of every key that all of them have.  A key that only one object has comes back
  in every object with that value; a key that several objects have comes back as \<open>none\<close> where it was
  missing; and no other key appears.\<close>

theorem info_merge_split:
  assumes "mergeable (map Some xs)"
  shows "\<exists>m c outs. MPIR_Info_merge_from_array_impl (map Some xs) = Some m
    \<and> MPIR_Info_split_into_array_impl (int (length xs)) (replicate (length xs) MPIR_Info_alloc) m = Some (c, outs)
    \<and> length outs = length xs
    \<and> (\<forall>j<length xs. \<forall>k.
         ((\<forall>i<length xs. MPIR_Info_lookup (Some (xs ! i)) k \<noteq> None) \<longrightarrow>
            MPIR_Info_lookup (Some (outs ! j)) k = MPIR_Info_lookup (Some (xs ! j)) k)
       \<and> ((\<forall>i<length xs. MPIR_Info_lookup (Some (xs ! i)) k = None) \<longrightarrow> MPIR_Info_lookup (Some (outs ! j)) k = None)
       \<and> (\<forall>i<length xs. (\<forall>i'<length xs. MPIR_Info_lookup (Some (xs ! i')) k \<noteq> None \<longleftrightarrow> i' = i) \<longrightarrow>
            MPIR_Info_lookup (Some (outs ! j)) k = MPIR_Info_lookup (Some (xs ! i)) k)
       \<and> (\<forall>i<length xs. \<forall>i'<length xs. i < i' \<longrightarrow> MPIR_Info_lookup (Some (xs ! i)) k \<noteq> None \<longrightarrow>
            MPIR_Info_lookup (Some (xs ! i')) k \<noteq> None \<longrightarrow> MPIR_Info_lookup (Some (xs ! j)) k = None \<longrightarrow>
            MPIR_Info_lookup (Some (outs ! j)) k = Some ''none''))"
proof -
  let ?infos = "map Some xs"
  have v: "vmap ?infos i (trunc k) = MPIR_Info_lookup (Some (xs ! i)) k" if "i < length xs" for i k using that by (simp add: vmap_def)
  obtain m c outs where o: "MPIR_Info_merge_from_array_impl ?infos = Some m"
    "MPIR_Info_split_into_array_impl (int (length xs)) (replicate (length xs) MPIR_Info_alloc) m = Some (c, outs)" "length outs = length xs"
    "\<forall>j<length xs. \<forall>k. emap (entries (outs ! j)) k =
         (if shared ?infos k then Some (value_or_none (vmap ?infos j k)) else sole ?infos k)"
    using merge_split_values [OF assms] by auto
  have out: "MPIR_Info_lookup (Some (outs ! j)) k =
      (if shared ?infos (trunc k) then Some (value_or_none (MPIR_Info_lookup (Some (xs ! j)) k)) else sole ?infos (trunc k))"
    if "j < length xs" for j k using o(4) v [OF that] that by simp
  have hold: "i \<in> holders ?infos (trunc k) \<longleftrightarrow> i < length xs \<and> MPIR_Info_lookup (Some (xs ! i)) k \<noteq> None" for i k
    using v by (auto simp: holders_def)
  have one: "sole ?infos (trunc k) = MPIR_Info_lookup (Some (xs ! i)) k" "\<not> shared ?infos (trunc k)"
    if "i < length xs" "\<forall>i'<length xs. MPIR_Info_lookup (Some (xs ! i')) k \<noteq> None \<longleftrightarrow> i' = i" for i k
  proof -
    have h: "holders ?infos (trunc k) = {i}" using that hold by blast
    then show "sole ?infos (trunc k) = MPIR_Info_lookup (Some (xs ! i)) k" using sole_holder v [OF that(1)] by simp
    show "\<not> shared ?infos (trunc k)" by (simp add: shared_def h)
  qed
  have all: "MPIR_Info_lookup (Some (outs ! j)) k = MPIR_Info_lookup (Some (xs ! j)) k"
    if "j < length xs" "\<forall>i<length xs. MPIR_Info_lookup (Some (xs ! i)) k \<noteq> None" for j k
  proof (cases "shared ?infos (trunc k)")
    case True
    then show ?thesis using out [OF that(1)] that by (auto simp: value_or_none_def split: option.splits)
  next
    case False
    have "j \<in> holders ?infos (trunc k)" using hold that by blast
    then have "holders ?infos (trunc k) = {j}" using False by (rule unshared_holder)
    then show ?thesis using out [OF that(1)] False sole_holder v [OF that(1)] by simp
  qed
  have none: "MPIR_Info_lookup (Some (outs ! j)) k = None"
    if "j < length xs" "\<forall>i<length xs. MPIR_Info_lookup (Some (xs ! i)) k = None" for j k
  proof -
    have h: "holders ?infos (trunc k) = {}" using hold that(2) by blast
    then have "sole ?infos (trunc k) \<noteq> Some v" for v using sole_from [of ?infos "trunc k" v] unfolding holders_def by blast
    then have "sole ?infos (trunc k) = None" by (meson not_None_eq)
    then show ?thesis using out [OF that(1)] h by (simp add: shared_def)
  qed
  have two: "MPIR_Info_lookup (Some (outs ! j)) k = Some ''none''"
    if "j < length xs" "i < length xs" "i' < length xs" "i < i'" "MPIR_Info_lookup (Some (xs ! i)) k \<noteq> None"
      "MPIR_Info_lookup (Some (xs ! i')) k \<noteq> None" "MPIR_Info_lookup (Some (xs ! j)) k = None" for j i i' k
  proof -
    have h: "i \<in> holders ?infos (trunc k)" "i' \<in> holders ?infos (trunc k)" using hold that(2,3,5,6) by blast+
    have "shared ?infos (trunc k)"
    proof (rule ccontr)
      assume "\<not> shared ?infos (trunc k)"
      then show False using unshared_holder [OF h(1)] h(2) that(4) by simp
    qed
    then show ?thesis using out [OF that(1)] that(7) by (simp add: value_or_none_def)
  qed
  have three: "MPIR_Info_lookup (Some (outs ! j)) k = MPIR_Info_lookup (Some (xs ! i)) k"
    if "j < length xs" "i < length xs" "\<forall>i'<length xs. MPIR_Info_lookup (Some (xs ! i')) k \<noteq> None \<longleftrightarrow> i' = i" for j i k
    unfolding out [OF that(1)] using one [OF that(2,3)] by (simp only: if_False)
  show ?thesis
  proof (intro exI conjI allI impI)
    show "MPIR_Info_merge_from_array_impl ?infos = Some m" by (rule o(1))
    show "MPIR_Info_split_into_array_impl (int (length xs)) (replicate (length xs) MPIR_Info_alloc) m = Some (c, outs)" by (rule o(2))
    show "length outs = length xs" by (rule o(3))
  qed (fact all none three two)+
qed

definition two_infos :: "mpir_info list" where
  "two_infos = [\<lparr>entries = [\<lparr>ie_key = ''host'', ie_value = ''a''\<rparr>, \<lparr>ie_key = ''wdir'', ie_value = ''/tmp''\<rparr>], capacity = 10,
       array_entries = [], array_capacity = 0\<rparr>,
     \<lparr>entries = [\<lparr>ie_key = ''host'', ie_value = ''b''\<rparr>], capacity = 10, array_entries = [], array_capacity = 0\<rparr>]"

lemma two_infos_mergeable: "mergeable (map Some two_infos)"
proof -
  have "all_keys (map Some two_infos) \<subseteq> {''host'', ''wdir''}"
    by (auto simp: all_keys_def vmap_def two_infos_def trunc_def MPI_MAX_INFO_KEY_def less_Suc_eq split: if_splits)
  then have "card (all_keys (map Some two_infos)) \<le> card {''host'', ''wdir''}" by (intro card_mono) auto
  then have "card (all_keys (map Some two_infos)) \<le> INFO_LIMIT" by (simp add: INFO_LIMIT_def)
  then show ?thesis
    by (auto simp: mergeable_def two_infos_def info_inv_def arrays_ok_def slots_ok_def INFO_INITIAL_SIZE_def trunc_def MPI_MAX_INFO_KEY_def
        ran_def MPIR_INFO_INFOKEY_ARRAY_TYPE_def split: if_splits)
qed

theorem info_merge_split_witness:
  "\<exists>m c outs. MPIR_Info_merge_from_array_impl (map Some two_infos) = Some m
    \<and> MPIR_Info_split_into_array_impl 2 [MPIR_Info_alloc, MPIR_Info_alloc] m = Some (c, outs)
    \<and> MPIR_Info_lookup (Some (outs ! 1)) ''host'' = Some ''b'' \<and> MPIR_Info_lookup (Some (outs ! 1)) ''wdir'' = Some ''/tmp''"
proof -
  have len: "length two_infos = 2" "replicate 2 MPIR_Info_alloc = [MPIR_Info_alloc, MPIR_Info_alloc]"
    by (simp_all add: two_infos_def numeral_2_eq_2)
  have host: "MPIR_Info_lookup (Some (two_infos ! 0)) ''host'' = Some ''a''" "MPIR_Info_lookup (Some (two_infos ! 1)) ''host'' = Some ''b''"
    and wdir: "MPIR_Info_lookup (Some (two_infos ! 0)) ''wdir'' = Some ''/tmp''" "MPIR_Info_lookup (Some (two_infos ! 1)) ''wdir'' = None"
    by (simp_all add: two_infos_def trunc_def MPI_MAX_INFO_KEY_def)
  have both: "\<forall>i<length two_infos. MPIR_Info_lookup (Some (two_infos ! i)) ''host'' \<noteq> None"
    and first: "\<forall>i<length two_infos. MPIR_Info_lookup (Some (two_infos ! i)) ''wdir'' \<noteq> None \<longleftrightarrow> i = 0"
    using host wdir unfolding len by (auto simp: less_2_cases_iff simp del: lookup_emap)
  have lt: "1 < length two_infos" "0 < length two_infos" by (simp_all add: len)
  show ?thesis
    using info_merge_split [OF two_infos_mergeable]
  proof (elim exE conjE, goal_cases)
    case (1 m c outs)
    note q = 1(4) [THEN spec [of _ 1], THEN mp, OF lt(1), THEN spec]
    have "MPIR_Info_lookup (Some (outs ! 1)) ''host'' = Some ''b''"
      using q [of "''host''", THEN conjunct1, THEN mp, OF both] host(2) by (rule trans)
    moreover have "MPIR_Info_lookup (Some (outs ! 1)) ''wdir'' = Some ''/tmp''"
      using q [of "''wdir''", THEN conjunct2, THEN conjunct2, THEN conjunct1, THEN spec [of _ 0], THEN mp, OF lt(2), THEN mp, OF first] wdir(1)
      by (rule trans)
    moreover have "MPIR_Info_split_into_array_impl 2 [MPIR_Info_alloc, MPIR_Info_alloc] m = Some (c, outs)"
      using 1(2) unfolding len by simp
    ultimately show ?thesis using 1(1) by blast
  qed
qed

text \<open>A value that is the wildcard itself, set by a user, makes the split trip its assertion.\<close>

lemma wildcard_value_aborts_split:
  assumes "info_inv info" "emap (entries info) (trunc (ie_key e)) = Some MPIR_INFO_INFOKEY_ARRAY_TYPE"
    "amap (array_entries info) (trunc (ie_key e)) = None" "ie_value e = MPIR_INFO_INFOKEY_ARRAY_TYPE"
  shows "split_entry info cnt e (c, outs) = None"
  using assms by (simp add: split_entry_def lookup_array_amap)

section \<open>Binary values\<close>

text \<open>C32: A binary value of at most 511 bytes that is set in an info object is read back unchanged by a
  caller that asks for its exact size, which \<open>MPL_hex_decode_len\<close> tells; a caller with a larger buffer gets \<open>MPI_ERR_OTHER\<close>.  The
  text fits the buffer of 1024 characters whatever the bytes are.\<close>

theorem info_hex_roundtrip:
  assumes inv: "info_inv info" "within n info" "length (entries info) < n" "n \<le> INFO_LIMIT"
    and size: "length bytes \<le> 511" and buf: "length bytes \<le> length buf" "int (length buf) \<le> INT_MAX"
  shows "\<exists>info'. MPIR_Info_set_hex_impl info key bytes = Some info'
    \<and> MPIR_Info_get_hex_impl info' key buf = Some (bytes @ drop (length bytes) buf, True,
        if length bytes < length buf then Some MPI_ERR_OTHER else None)
    \<and> Option.bind (MPIR_Info_lookup (Some info') key) MPL_hex_decode_len = Some (int (length bytes))
    \<and> (\<forall>k. trunc k \<noteq> trunc key \<longrightarrow> MPIR_Info_lookup (Some info') k = MPIR_Info_lookup (Some info) k)"
proof -
  have "int (length (hex_text bytes)) < 1024" using hex_text_length [of bytes] size by simp
  then have e: "MPL_hex_encode bytes 1024 = Some (Inl (hex_text bytes))" using hex_encode_text [of bytes 1024 "[]"] by (simp add: MPL_hex_encode_def)
  obtain info' where i: "MPIR_Info_set_impl info key (hex_text bytes) = Some info'" "emap (entries info') = (emap (entries info))(trunc key \<mapsto> hex_text bytes)"
    using set_ok [OF inv(1,2) _ inv(4), of key "hex_text bytes"] inv(3) by blast
  have "MPL_hex_decode (hex_text bytes) buf = Some (bytes @ drop (length bytes) buf, Hex_size (int (length bytes)))"
    using hex_decode_text [of 0 bytes buf] buf by (simp add: MPL_hex_decode_def)
  then have "MPIR_Info_get_hex_impl info' key buf = Some (bytes @ drop (length bytes) buf, True,
      if length bytes < length buf then Some MPI_ERR_OTHER else None)"
    using i(2) buf(1) by (simp add: MPIR_Info_get_hex_impl_def MPIR_Info_decode_hex_def)
  moreover have "MPIR_Info_set_hex_impl info key bytes = Some info'" using e i(1) by (simp add: MPIR_Info_set_hex_impl_def)
  moreover have "MPL_hex_decode_len (hex_text bytes) = Some (int (length bytes))"
    using hex_len_text [of 0 bytes] size by (simp add: MPL_hex_decode_len_def INT_MAX_def)
  ultimately show ?thesis using i(2) by auto
qed

theorem info_hex_roundtrip_witness:
  "\<exists>info'. MPIR_Info_set_hex_impl MPIR_Info_alloc ''key'' [0x12, 0, 0, 0, 0xAB] = Some info'
    \<and> MPIR_Info_get_hex_impl info' ''key'' (replicate 5 0) = Some ([0x12, 0, 0, 0, 0xAB], True, None)"
proof -
  have "length (entries MPIR_Info_alloc) < 1" "(1 :: nat) \<le> INFO_LIMIT" "length [0x12, 0, 0, 0, 0xAB :: 8 word] \<le> 511"
    "length [0x12, 0, 0, 0, 0xAB :: 8 word] \<le> length (replicate 5 (0 :: 8 word))" "int (length (replicate 5 (0 :: 8 word))) \<le> INT_MAX"
    by (simp_all add: MPIR_Info_alloc_def INFO_LIMIT_def INT_MAX_def)
  from info_hex_roundtrip [OF alloc_inv this, of "''key''"] show ?thesis by auto
qed

end
