(* ===== verification/Compr_Registry.thy ===== *)
theory Compr_Registry
  imports Info_Split Part_Comm
begin

text \<open>
  Payload compressors, \<open>mpi/compr/register_compr_impl.c\<close> and \<open>mpi/compr/compr_util.c\<close>: the list of
  registered compressors, the searches in it, its publication in an info object, and the info object
  of the environment (\<open>mpi/info/infoutil.c\<close>, \<open>mpi/info/info_impl.c\<close>).

  The state is the list from \<open>MPIR_Compressor_head\<close> on, newest first.
  \<open>MPIR_Compressor_deregister_all\<close> frees its nodes and leaves the head as it is; \<open>cs_freed\<close> records
  that, and a walk over freed nodes has no result.  Counters and sizes that the code keeps in an
  \<open>int\<close> go through \<open>cint\<close>, so that one which leaves the range has no result either.
\<close>

definition MPIX_MAX_COMPRESSOR_STRING :: nat where "MPIX_MAX_COMPRESSOR_STRING = 128"

record registered =
  rc_name :: string
  rc_compressor :: compressor
  rc_deflates :: bool
  rc_deregister :: "int option"

record compr_state =
  MPIR_Compressor_head :: "registered list"
  cs_freed :: bool

definition compr_init :: compr_state where
  "compr_init = \<lparr>MPIR_Compressor_head = [], cs_freed = False\<rparr>"

definition compr_nodes :: "compr_state \<Rightarrow> registered list option" where
  "compr_nodes st = (if cs_freed st \<and> MPIR_Compressor_head st \<noteq> [] then None else Some (MPIR_Compressor_head st))"

section \<open>Registration and searches\<close>

fun name_used :: "string \<Rightarrow> registered list \<Rightarrow> bool" where
  "name_used name [] = False"
| "name_used name (r # rs) = (strncmp_eq MPIX_MAX_COMPRESSOR_STRING name (rc_name r) \<or> name_used name rs)"

definition MPIR_Register_compressor_impl :: "registered \<Rightarrow> compr_state \<Rightarrow> (compr_state \<times> mpi_error option) option" where
  "MPIR_Register_compressor_impl new st = do {
     rs \<leftarrow> compr_nodes st;
     if name_used (rc_name new) rs then Some (st, Some MPI_ERR_ARG)
     else if \<not> rc_deflates new \<and> \<not> cp_inflates (rc_compressor new) then Some (st, Some MPI_ERR_ARG)
     else Some (st\<lparr>MPIR_Compressor_head := new # rs\<rparr>, None)
   }"

fun lookup_name :: "string \<Rightarrow> registered list \<Rightarrow> registered option" where
  "lookup_name name [] = None"
| "lookup_name name (r # rs) =
     (if strncmp_eq MPIX_MAX_COMPRESSOR_STRING name (rc_name r) then Some r else lookup_name name rs)"

definition MPIR_Compressor_lookup :: "string \<Rightarrow> compr_state \<Rightarrow> registered option option" where
  "MPIR_Compressor_lookup name st = map_option (lookup_name name) (compr_nodes st)"

fun lookup_nth :: "int \<Rightarrow> int \<Rightarrow> registered list \<Rightarrow> string option option" where
  "lookup_nth n i [] = Some None"
| "lookup_nth n i (r # rs) =
     (if i = n then Some (Some (rc_name r)) else do { i \<leftarrow> cint (i + 1); lookup_nth n i rs })"

definition MPIR_Compressor_lookup_nth :: "int \<Rightarrow> compr_state \<Rightarrow> string option option" where
  "MPIR_Compressor_lookup_nth n st = do { rs \<leftarrow> compr_nodes st; lookup_nth n 0 rs }"

fun count_nodes :: "int \<Rightarrow> registered list \<Rightarrow> int option" where
  "count_nodes i [] = Some i"
| "count_nodes i (r # rs) = do { i \<leftarrow> cint (i + 1); count_nodes i rs }"

definition MPIR_Compressor_lookup_num :: "compr_state \<Rightarrow> int option" where
  "MPIR_Compressor_lookup_num st = do { rs \<leftarrow> compr_nodes st; count_nodes 0 rs }"

text \<open>The list of names is built with \<open>strcat\<close> in a buffer of the size computed before.\<close>

definition strcat :: "int \<Rightarrow> string \<Rightarrow> string \<Rightarrow> string option" where
  "strcat room s t = (if int (length s + length t) < room then Some (s @ t) else None)"

fun list_length :: "int \<Rightarrow> registered list \<Rightarrow> int option" where
  "list_length len [] = Some len"
| "list_length len (r # rs) = do {
     len \<leftarrow> cint (len + int (min (length (rc_name r)) MPIX_MAX_COMPRESSOR_STRING + 1));
     list_length len rs
   }"

fun list_names :: "int \<Rightarrow> registered list \<Rightarrow> string \<Rightarrow> string option" where
  "list_names room [] s = Some s"
| "list_names room (r # rs) s = do {
     s \<leftarrow> strcat room s (rc_name r);
     s \<leftarrow> (if rs \<noteq> [] then strcat room s '','' else Some s);
     list_names room rs s
   }"

definition MPIR_Compressor_lookup_list :: "compr_state \<Rightarrow> (string option \<times> int) option" where
  "MPIR_Compressor_lookup_list st = do {
     rs \<leftarrow> compr_nodes st;
     len \<leftarrow> list_length 0 rs;
     if len = 0 then Some (None, 0)
     else do { s \<leftarrow> list_names len rs []; Some (Some s, len) }
   }"

text \<open>The arguments of the \<open>deregister_fn\<close> calls, in order.\<close>

definition MPIR_Compressor_deregister_all :: "compr_state \<Rightarrow> (compr_state \<times> int list) option" where
  "MPIR_Compressor_deregister_all st = do {
     rs \<leftarrow> compr_nodes st;
     Some (st\<lparr>cs_freed := True\<rparr>, List.map_filter rc_deregister rs)
   }"

section \<open>Publication\<close>

definition compressor_info :: "compr_state \<Rightarrow> int \<Rightarrow> mpir_info list \<Rightarrow> mpir_info list option" where
  "compressor_info st i infos = do {
     n \<leftarrow> MPIR_Compressor_lookup_nth i st;
     name \<leftarrow> n;
     info \<leftarrow> MPIR_Info_set_impl MPIR_Info_alloc ''compressor'' name;
     Some (infos @ [info])
   }"

definition set_compressors :: "compr_state \<Rightarrow> int \<Rightarrow> mpir_info \<Rightarrow> mpir_info option" where
  "set_compressors st compressor_num info =
     (if compressor_num = 0 then Some info
      else do {
        info_array \<leftarrow> ofold (compressor_info st) [0..compressor_num - 1] [];
        info_merged \<leftarrow> MPIR_Info_merge_from_array_impl (map Some info_array);
        (info, _) \<leftarrow> MPIR_Info_dup_key_impl info_merged ''compressor'' info;
        Some info
      })"

definition MPIR_Compressor_set_info :: "compr_state \<Rightarrow> mpir_info \<Rightarrow> mpir_info option" where
  "MPIR_Compressor_set_info st info = do {
     compressor_num \<leftarrow> MPIR_Compressor_lookup_num st;
     info \<leftarrow> set_compressors st compressor_num info;
     (list_string, string_len) \<leftarrow> MPIR_Compressor_lookup_list st;
     if string_len \<noteq> 0
     then do { s \<leftarrow> list_string; MPIR_Info_set_impl info ''compressor_list'' s }
     else Some info
   }"

text \<open>\<open>MPL_strjoin\<close> sums the lengths, allocates, and copies with the separator over the terminator
  that \<open>strcpy\<close> has written.\<close>

fun join_length :: "int \<Rightarrow> string list \<Rightarrow> int option" where
  "join_length len [] = Some len"
| "join_length len (s # ss) = do { len \<leftarrow> cint (len + int (length s)); join_length len ss }"

fun join_copy :: "int \<Rightarrow> string list \<Rightarrow> char \<Rightarrow> string \<Rightarrow> string option" where
  "join_copy room [] sep out = Some out"
| "join_copy room (s # ss) sep out =
     (if int (length out + length s) < room
      then if ss = [] then Some (out @ s) else join_copy room ss sep (out @ s @ [sep])
      else None)"

definition MPL_strjoin :: "string list \<Rightarrow> char \<Rightarrow> string option" where
  "MPL_strjoin strs sep =
     (if strs = [] then Some []
      else do {
        len \<leftarrow> join_length 0 strs;
        room \<leftarrow> cint (len + int (length strs));
        join_copy room strs sep []
      })"

definition MPIR_Info_setup_env :: "compr_state \<Rightarrow> string list \<Rightarrow> mpir_info option" where
  "MPIR_Info_setup_env st argv = do {
     info \<leftarrow> (case argv of [] \<Rightarrow> Some MPIR_Info_alloc | a # _ \<Rightarrow> MPIR_Info_push MPIR_Info_alloc ''command'' a);
     info \<leftarrow> (case argv of
         a # b # r \<Rightarrow> do { command_args \<leftarrow> MPL_strjoin (b # r) (CHR '' ''); MPIR_Info_push info ''argv'' command_args }
       | _ \<Rightarrow> Some info);
     MPIR_Compressor_set_info st info
   }"

definition MPIR_Info_create_env_impl :: "compr_state \<Rightarrow> string list \<Rightarrow> mpir_info option" where
  "MPIR_Info_create_env_impl st argv = MPIR_Info_setup_env st argv"

end
