(* ===== verification/Compr_Theorems.thy ===== *)
theory Compr_Theorems
  imports Info_Theorems Compr_Registry
begin

text \<open>
  The registry of compressors as a map of names, and what the environment's info object says of it.
\<close>

section \<open>The registry\<close>

definition cname :: "string \<Rightarrow> string" where
  "cname n = take MPIX_MAX_COMPRESSOR_STRING n"

lemma strncmp_cname: "strncmp_eq MPIX_MAX_COMPRESSOR_STRING a b \<longleftrightarrow> cname a = cname b"
  by (simp add: strncmp_eq_def cname_def)

lemma name_used_iff: "name_used name rs \<longleftrightarrow> lookup_name name rs \<noteq> None"
  by (induction rs) auto

lemma register_lookup:
  assumes "\<not> cs_freed st" "MPIR_Compressor_lookup (rc_name new) st = Some None" "rc_deflates new \<or> cp_inflates (rc_compressor new)"
  shows "\<exists>st'. MPIR_Register_compressor_impl new st = Some (st', None) \<and> \<not> cs_freed st'
    \<and> (\<forall>name. MPIR_Compressor_lookup name st' =
         (if cname name = cname (rc_name new) then Some (Some new) else MPIR_Compressor_lookup name st))"
  using assms by (auto simp: MPIR_Register_compressor_impl_def MPIR_Compressor_lookup_def compr_nodes_def name_used_iff strncmp_cname)

lemma registered_name_refused:
  assumes "MPIR_Compressor_lookup (rc_name new) st = Some (Some r)"
  shows "MPIR_Register_compressor_impl new st = Some (st, Some MPI_ERR_ARG)"
  using assms by (auto simp: MPIR_Register_compressor_impl_def MPIR_Compressor_lookup_def name_used_iff)

text \<open>After \<open>MPIR_Compressor_deregister_all\<close> every walk over a registry that was not empty reads freed
  nodes.\<close>

lemma registry_dangles:
  assumes "MPIR_Compressor_deregister_all st = Some (st', args)" "MPIR_Compressor_head st \<noteq> []"
  shows "MPIR_Compressor_lookup name st' = None" "MPIR_Register_compressor_impl new st' = None" "MPIR_Info_create_env_impl st' [] = None"
proof -
  have "st' = st\<lparr>cs_freed := True\<rparr>" using assms(1) by (auto simp: MPIR_Compressor_deregister_all_def bind_eq_Some_conv)
  then have n: "compr_nodes st' = None" using assms(2) by (simp add: compr_nodes_def)
  then show "MPIR_Compressor_lookup name st' = None" "MPIR_Register_compressor_impl new st' = None" "MPIR_Info_create_env_impl st' [] = None"
    by (simp_all add: MPIR_Compressor_lookup_def MPIR_Register_compressor_impl_def MPIR_Info_create_env_impl_def
        MPIR_Info_setup_env_def MPIR_Compressor_set_info_def MPIR_Compressor_lookup_num_def)
qed

lemma lookup_nth_eq:
  assumes "0 \<le> i" "i \<le> n" "n < i + int (length rs)" "n \<le> INT_MAX"
  shows "lookup_nth n i rs = Some (Some (rc_name (rs ! nat (n - i))))"
  using assms
proof (induction rs arbitrary: i)
  case (Cons r rs)
  show ?case
  proof (cases "i = n")
    case False
    have "nat (n - i) = Suc (nat (n - (i + 1)))" using False Cons.prems by simp
    moreover have "cint (i + 1) = Some (i + 1)" using False Cons.prems by (simp add: cint_def)
    ultimately show ?thesis using False Cons by auto
  qed simp
qed simp

lemma count_nodes_eq: "0 \<le> i \<Longrightarrow> i + int (length rs) \<le> INT_MAX \<Longrightarrow> count_nodes i rs = Some (i + int (length rs))"
  by (induction rs arbitrary: i) (auto simp: cint_def)

section \<open>Joined names\<close>

text \<open>The names with the separator between them, the room they take with their separators and the
  terminator, and that this room is an \<open>int\<close>.\<close>

fun joined :: "string list \<Rightarrow> char \<Rightarrow> string" where
  "joined [] sep = []"
| "joined [s] sep = s"
| "joined (s # t # ss) sep = s @ sep # joined (t # ss) sep"

definition join_size :: "string list \<Rightarrow> int" where
  "join_size ss = (\<Sum>s\<leftarrow>ss. int (length s) + 1)"

definition join_fits :: "string list \<Rightarrow> bool" where
  "join_fits ss \<longleftrightarrow> join_size ss \<le> INT_MAX"

lemma join_size_simps [simp]: "join_size [] = 0" "join_size (s # ss) = int (length s) + 1 + join_size ss"
  by (simp_all add: join_size_def)

lemma join_size_bounds: "int (length ss) \<le> join_size ss" "0 \<le> join_size ss"
  by (induction ss) simp_all

lemma join_length_eq:
  "0 \<le> len \<Longrightarrow> len + join_size ss \<le> INT_MAX \<Longrightarrow> join_length len ss = Some (len + join_size ss - int (length ss))"
proof (induction ss arbitrary: len)
  case (Cons s ss)
  then show ?case using join_size_bounds [of ss] by (simp add: cint_def)
qed simp

lemma join_copy_eq:
  assumes "ss \<noteq> []" "int (length out) + join_size ss \<le> room"
  shows "join_copy room ss sep out = Some (out @ joined ss sep)"
  using assms
proof (induction ss arbitrary: out)
  case (Cons s ss)
  show ?case
  proof (cases ss)
    case ss: (Cons t ts)
    have "join_copy room ss sep (out @ s @ [sep]) = Some ((out @ s @ [sep]) @ joined ss sep)"
      using Cons.prems(2) ss by (intro Cons.IH) simp_all
    then show ?thesis using Cons.prems(2) join_size_bounds [of ss] ss by simp
  qed (use Cons.prems(2) in simp)
qed simp

text \<open>\<open>MPL_strjoin\<close> joins the strings whose room is an \<open>int\<close>.\<close>

lemma strjoin_joins:
  assumes "join_fits ss"
  shows "MPL_strjoin ss sep = Some (joined ss sep)"
proof -
  have "cint (join_size ss) = Some (join_size ss)"
    using assms join_size_bounds(2) [of ss] by (simp add: cint_def join_fits_def)
  then show ?thesis using assms by (simp add: MPL_strjoin_def join_length_eq join_copy_eq join_fits_def)
qed

section \<open>The list of names\<close>

definition names_ok :: "registered list \<Rightarrow> bool" where
  "names_ok rs \<longleftrightarrow> (\<forall>r\<in>set rs. 1 \<le> length (rc_name r) \<and> length (rc_name r) \<le> MPIX_MAX_COMPRESSOR_STRING
     \<and> rc_name r \<noteq> MPIR_INFO_INFOKEY_ARRAY_TYPE)"

lemma list_length_eq:
  "names_ok rs \<Longrightarrow> 0 \<le> len \<Longrightarrow> list_length len rs =
    (if rs = [] \<or> len + join_size (map rc_name rs) \<le> INT_MAX then Some (len + join_size (map rc_name rs)) else None)"
proof (induction rs arbitrary: len)
  case (Cons r rs)
  have "min (length (rc_name r)) MPIX_MAX_COMPRESSOR_STRING = length (rc_name r)" "names_ok rs"
    using Cons.prems(1) by (auto simp: names_ok_def)
  moreover note Cons.IH [OF this(2), of "len + (1 + int (length (rc_name r)))"]
  ultimately show ?case using Cons.prems(2) join_size_bounds [of "map rc_name rs"] by (auto simp: cint_def)
qed simp

lemma list_names_join:
  assumes "names_ok rs" "int (length s) + join_size (map rc_name rs) \<le> room" "rs \<noteq> []"
  shows "list_names room rs s = Some (s @ joined (map rc_name rs) (CHR '',''))"
  using assms
proof (induction rs arbitrary: s)
  case (Cons r rs)
  have len: "int (length s + length (rc_name r)) + 1 + join_size (map rc_name rs) \<le> room"
    using Cons.prems(2) by simp
  have nn: "0 \<le> join_size (map rc_name rs)" by (rule join_size_bounds)
  show ?case
  proof (cases rs)
    case Nil
    then show ?thesis using len by (simp add: strcat_def)
  next
    case (Cons q qs)
    have "1 \<le> length (rc_name q)" using Cons.prems(1) by (simp add: names_ok_def Cons)
    then have "2 \<le> join_size (map rc_name rs)" using join_size_bounds(2) [of "map rc_name qs"] by (simp add: Cons)
    then have "strcat room (s @ rc_name r) '','' = Some ((s @ rc_name r) @ '','')" using len by (simp add: strcat_def)
    moreover have "strcat room s (rc_name r) = Some (s @ rc_name r)" using len nn by (simp add: strcat_def)
    moreover have "list_names room rs ((s @ rc_name r) @ '','') = Some (((s @ rc_name r) @ '','') @ joined (map rc_name rs) (CHR '',''))"
      using Cons.prems(1) len Cons by (intro Cons.IH) (simp_all add: names_ok_def)
    ultimately show ?thesis using Cons by simp
  qed
qed simp

lemma lookup_list_names:
  assumes "\<not> cs_freed st" "names_ok (MPIR_Compressor_head st)" "MPIR_Compressor_head st \<noteq> []"
    and "join_fits (map rc_name (MPIR_Compressor_head st))"
  shows "MPIR_Compressor_lookup_list st =
    Some (Some (joined (map rc_name (MPIR_Compressor_head st)) (CHR '','')), join_size (map rc_name (MPIR_Compressor_head st)))"
    "join_size (map rc_name (MPIR_Compressor_head st)) \<noteq> 0"
proof -
  obtain q qs where q: "MPIR_Compressor_head st = q # qs" using assms(3) by (cases "MPIR_Compressor_head st") simp_all
  show n: "join_size (map rc_name (MPIR_Compressor_head st)) \<noteq> 0"
    using join_size_bounds(2) [of "map rc_name qs"] by (simp add: q)
  then show "MPIR_Compressor_lookup_list st =
    Some (Some (joined (map rc_name (MPIR_Compressor_head st)) (CHR '','')), join_size (map rc_name (MPIR_Compressor_head st)))"
    using list_names_join [OF assms(2), of "[]"] list_length_eq [OF assms(2), of 0] assms(1,3,4)
    by (simp add: MPIR_Compressor_lookup_list_def compr_nodes_def join_fits_def)
qed

text \<open>Names that together take more than \<open>INT_MAX\<close> characters overflow the length.\<close>

lemma lookup_list_overflow:
  assumes "\<not> cs_freed st" "names_ok (MPIR_Compressor_head st)" "\<not> join_fits (map rc_name (MPIR_Compressor_head st))"
  shows "MPIR_Compressor_lookup_list st = None"
proof -
  have "MPIR_Compressor_head st \<noteq> []" using assms(3) by (auto simp: join_fits_def INT_MAX_def)
  then show ?thesis using assms list_length_eq [OF assms(2), of 0]
    by (simp add: MPIR_Compressor_lookup_list_def compr_nodes_def join_fits_def)
qed

section \<open>The array of names\<close>

definition named :: "string \<Rightarrow> mpir_info" where
  "named name = \<lparr>entries = [\<lparr>ie_key = ''compressor'', ie_value = name\<rparr>], capacity = 10, array_entries = [], array_capacity = 0\<rparr>"

lemma set_named: "MPIR_Info_set_impl MPIR_Info_alloc ''compressor'' name = Some (named name)"
  by (simp add: MPIR_Info_set_impl_def info_find_key_def MPIR_Info_alloc_def MPIR_Info_push_def grow_def INFO_INITIAL_SIZE_def named_def)

lemma compressor_infos:
  assumes "\<not> cs_freed st" "int (length (MPIR_Compressor_head st)) \<le> INT_MAX"
  shows "ofold (compressor_info st) [0..int (length (MPIR_Compressor_head st)) - 1] [] = Some (map (named \<circ> rc_name) (MPIR_Compressor_head st))"
proof -
  let ?rs = "MPIR_Compressor_head st"
  have "\<exists>s. ofold (compressor_info st) [0..int (length ?rs) - 1] [] = Some s \<and> s = map (named \<circ> rc_name) (take (nat (int (length ?rs))) ?rs)"
  proof (rule ofold_upto [where P = "\<lambda>i s. s = map (named \<circ> rc_name) (take (nat i) ?rs)"])
    fix i s assume i: "0 \<le> i" "i < int (length ?rs)" "s = map (named \<circ> rc_name) (take (nat i) ?rs)"
    have "MPIR_Compressor_lookup_nth i st = Some (Some (rc_name (?rs ! nat i)))"
      using i assms by (simp add: MPIR_Compressor_lookup_nth_def compr_nodes_def lookup_nth_eq)
    moreover have "nat (i + 1) = Suc (nat i)" "nat i < length ?rs" using i by simp_all
    ultimately show "\<exists>s'. compressor_info st i s = Some s' \<and> s' = map (named \<circ> rc_name) (take (nat (i + 1)) ?rs)"
      using i(3) by (simp add: compressor_info_def set_named take_Suc_conv_app_nth)
  qed simp_all
  then show ?thesis by simp
qed

lemma trunc_literals [simp]: "trunc ''compressor'' = ''compressor''" "trunc ''compressor_list'' = ''compressor_list''"
    "trunc ''command'' = ''command''" "trunc ''argv'' = ''argv''"
  by (simp_all add: trunc_def MPI_MAX_INFO_KEY_def)

lemma named_vmap:
  assumes "j < length ns"
  shows "vmap (map (Some \<circ> named) ns) j k = (if k = ''compressor'' then Some (ns ! j) else None)"
  using assms by (simp add: vmap_def named_def)

lemma named_holders: "holders (map (Some \<circ> named) ns) k = (if k = ''compressor'' then {..<length ns} else {})"
  using named_vmap by (auto simp: holders_def)

lemma named_mergeable:
  assumes "\<forall>n\<in>set ns. n \<noteq> MPIR_INFO_INFOKEY_ARRAY_TYPE"
  shows "mergeable (map (Some \<circ> named) ns)"
proof -
  have "all_keys (map (Some \<circ> named) ns) \<subseteq> {''compressor''}" using named_vmap by (auto simp: all_keys_def split: if_splits)
  then have "card (all_keys (map (Some \<circ> named) ns)) \<le> card {''compressor''}" by (intro card_mono) auto
  then have "card (all_keys (map (Some \<circ> named) ns)) \<le> INFO_LIMIT" by (simp add: INFO_LIMIT_def)
  moreover have "info_inv (named n)" for n
    by (simp add: named_def info_inv_def arrays_ok_def slots_ok_def INFO_INITIAL_SIZE_def)
  moreover have "ran (emap (entries (named n))) = {n}" for n by (auto simp: named_def ran_def)
  ultimately show ?thesis using assms by (auto simp: mergeable_def)
qed

lemma merged_names:
  assumes "ns \<noteq> []" "\<forall>n\<in>set ns. n \<noteq> MPIR_INFO_INFOKEY_ARRAY_TYPE"
  shows "\<exists>m. MPIR_Info_merge_from_array_impl (map (Some \<circ> named) ns) = Some m \<and> info_inv m
    \<and> emap (entries m) ''compressor'' = Some (if 2 \<le> length ns then MPIR_INFO_INFOKEY_ARRAY_TYPE else ns ! 0)
    \<and> amap (array_entries m) ''compressor'' = (if 2 \<le> length ns then Some ns else None)"
proof -
  let ?is = "map (Some \<circ> named) ns"
  obtain m where m: "MPIR_Info_merge_from_array_impl ?is = Some m" "info_inv m" "emap (entries m) = merged_value ?is"
    "amap (array_entries m) = (\<lambda>k. if shared ?is k then Some (column ?is k) else None)"
    using merge_result [OF named_mergeable [OF assms(2)]] by blast
  have sh: "shared ?is ''compressor'' \<longleftrightarrow> 2 \<le> length ns" by (simp add: shared_def named_holders)
  have col: "column ?is ''compressor'' = ns"
    by (rule nth_equalityI) (simp_all add: column_def named_vmap value_or_none_def)
  have "sole ?is ''compressor'' = Some (ns ! 0)" if "\<not> 2 \<le> length ns"
  proof -
    have "length ns = 1" using that assms(1) by (cases ns) (simp_all add: not_less_eq_eq)
    then have "holders ?is ''compressor'' = {0}" by (auto simp: named_holders)
    then show ?thesis using sole_holder named_vmap [of 0 ns "''compressor''"] assms(1) by simp
  qed
  then show ?thesis using m sh col by (auto simp: merged_value_def)
qed

section \<open>The environment\<close>

definition env_base :: "string list \<Rightarrow> mpir_info option" where
  "env_base argv = do {
     info \<leftarrow> (case argv of [] \<Rightarrow> Some MPIR_Info_alloc | a # _ \<Rightarrow> MPIR_Info_push MPIR_Info_alloc ''command'' a);
     (case argv of
        a # b # r \<Rightarrow> do { command_args \<leftarrow> MPL_strjoin (b # r) (CHR '' ''); MPIR_Info_push info ''argv'' command_args }
      | _ \<Rightarrow> Some info)
   }"

lemma env_base_ok:
  assumes "join_fits (List.tl argv)"
  shows "\<exists>info. env_base argv = Some info \<and> info_inv info \<and> within 4 info \<and> length (entries info) \<le> 2 \<and> array_entries info = []
    \<and> emap (entries info) = [''argv'' \<mapsto> joined (List.tl argv) (CHR '' ''), ''command'' \<mapsto> List.hd argv] |`
        ((if argv = [] then {} else {''command''}) \<union> (if length argv \<le> 1 then {} else {''argv''}))"
proof -
  let ?i0 = MPIR_Info_alloc
  have lim: "(4 :: nat) \<le> INFO_LIMIT" by (simp add: INFO_LIMIT_def)
  have i0: "entries ?i0 = []" "array_entries ?i0 = []" by (simp_all add: MPIR_Info_alloc_def)
  show ?thesis
  proof (cases argv)
    case Nil
    then show ?thesis using alloc_inv by (simp add: env_base_def i0)
  next
    case (Cons a r)
    obtain i1 where i1: "MPIR_Info_push ?i0 ''command'' a = Some i1" "info_inv i1" "within 4 i1"
      "entries i1 = [\<lparr>ie_key = ''command'', ie_value = a\<rparr>]" "array_entries i1 = []"
      using push_ok [OF alloc_inv(1) alloc_inv(2) [of 4] _ lim, of "''command''" a] by (auto simp: i0)
    show ?thesis
    proof (cases r)
      case Nil
      then show ?thesis using Cons i1 by (auto simp: env_base_def restrict_map_def fun_eq_iff)
    next
      case r: (Cons b r')
      let ?v = "joined r (CHR '' '')"
      have j: "MPL_strjoin r (CHR '' '') = Some ?v" using assms Cons by (intro strjoin_joins) simp
      have "length (entries i1) < 4" "trunc ''argv'' \<notin> dom (emap (entries i1))" by (simp_all add: i1(4))
      from push_ok [OF i1(2,3) this(1) lim this(2), of ?v] obtain i2 where i2: "MPIR_Info_push i1 ''argv'' ?v = Some i2" "info_inv i2" "within 4 i2"
        "entries i2 = entries i1 @ [\<lparr>ie_key = ''argv'', ie_value = ?v\<rparr>]" "array_entries i2 = array_entries i1" by blast
      then show ?thesis using Cons r i1 j by (auto simp: env_base_def restrict_map_def fun_eq_iff map_add_def)
    qed
  qed
qed

lemma setup_env_base: "MPIR_Info_setup_env st argv = do { info \<leftarrow> env_base argv; MPIR_Compressor_set_info st info }"
  by (auto simp: MPIR_Info_setup_env_def env_base_def split: list.splits Option.bind_splits)

text \<open>C33: The info object of the environment lists the registered compressors, newest first: their
  names joined by commas under \<open>compressor_list\<close>, and under \<open>compressor\<close> the name itself when there is
  one compressor and an array-type entry with all names when there are several.  The list of names
  fits the buffer whose size is computed before, because the binding admits names of at most
  \<open>MPIX_MAX_COMPRESSOR_STRING\<close> characters, as long as the names with their separators and the
  terminator, and likewise the program's arguments, take at most \<open>INT_MAX\<close> characters: both sizes are
  computed in an \<open>int\<close>, and past this bound the computation overflows (\<open>lookup_list_overflow\<close>).\<close>

theorem compressors_published:
  assumes ok: "\<not> cs_freed st" "names_ok (MPIR_Compressor_head st)"
    and fits: "join_fits (map rc_name (MPIR_Compressor_head st))" "join_fits (List.tl argv)"
  defines "ns \<equiv> map rc_name (MPIR_Compressor_head st)"
  shows "\<exists>info. MPIR_Info_create_env_impl st argv = Some info
    \<and> MPIR_Info_lookup (Some info) ''compressor_list'' = (if ns = [] then None else Some (joined ns (CHR '','')))
    \<and> MPIR_Info_lookup (Some info) ''compressor'' =
        (if ns = [] then None else if length ns = 1 then Some (ns ! 0) else Some MPIR_INFO_INFOKEY_ARRAY_TYPE)
    \<and> (\<forall>i<length ns. MPIR_Info_lookup_array (Some info) ''compressor'' (int i) =
        Some (if length ns = 1 then None else Some (ns ! i, int (length ns))))"
proof -
  obtain b where b: "env_base argv = Some b" "info_inv b" "within 4 b" "length (entries b) \<le> 2" "array_entries b = []"
    "''compressor'' \<notin> dom (emap (entries b))" "''compressor_list'' \<notin> dom (emap (entries b))"
    using env_base_ok [OF fits(2)] by (auto simp: restrict_map_def domIff split: if_splits)
  have lim: "(4 :: nat) \<le> INFO_LIMIT" by (simp add: INFO_LIMIT_def)
  have len: "int (length (MPIR_Compressor_head st)) \<le> INT_MAX"
    using fits(1) join_size_bounds(1) [of "map rc_name (MPIR_Compressor_head st)"] by (simp add: join_fits_def)
  then have num: "MPIR_Compressor_lookup_num st = Some (int (length ns))"
    using ok(1) by (simp add: MPIR_Compressor_lookup_num_def compr_nodes_def ns_def count_nodes_eq)
  show ?thesis
  proof (cases "ns = []")
    case True
    then have "MPIR_Compressor_head st = []" by (simp add: ns_def)
    then have "MPIR_Compressor_lookup_list st = Some (None, 0)" using ok(1)
      by (simp add: MPIR_Compressor_lookup_list_def compr_nodes_def)
    then have "MPIR_Info_create_env_impl st argv = Some b"
      using b(1) num True by (simp add: MPIR_Info_create_env_impl_def setup_env_base MPIR_Compressor_set_info_def set_compressors_def)
    then show ?thesis using b(6,7) True by (simp add: domIff)
  next
    case False
    have plain: "\<forall>n\<in>set ns. n \<noteq> MPIR_INFO_INFOKEY_ARRAY_TYPE" using ok(2) by (auto simp: ns_def names_ok_def)
    obtain m where m: "MPIR_Info_merge_from_array_impl (map (Some \<circ> named) ns) = Some m" "info_inv m"
      "emap (entries m) ''compressor'' = Some (if 2 \<le> length ns then MPIR_INFO_INFOKEY_ARRAY_TYPE else ns ! 0)"
      "amap (array_entries m) ''compressor'' = (if 2 \<le> length ns then Some ns else None)"
      using merged_names [OF False plain] by blast
    let ?v = "if 2 \<le> length ns then MPIR_INFO_INFOKEY_ARRAY_TYPE else ns ! 0"
    obtain d where d: "MPIR_Info_dup_key_impl m ''compressor'' b = Some (d, None)" "info_inv d" "within 4 d"
      "emap (entries d) = (emap (entries b))(''compressor'' \<mapsto> ?v)" "length (entries d) \<le> 3"
      "amap (array_entries d) = (if 2 \<le> length ns then [''compressor'' \<mapsto> ns] else Map.empty)"
      using dup_key_ok [OF m(2), of "''compressor''" ?v b 4] m(3,4) b lim by (auto split: if_splits)
    have set: "set_compressors st (int (length ns)) b = Some d"
      using False compressor_infos [OF ok(1) len] m(1) d(1) by (simp add: set_compressors_def ns_def o_def)
    obtain info where i: "MPIR_Info_set_impl d ''compressor_list'' (joined ns (CHR '','')) = Some info" "info_inv info"
      "emap (entries info) = (emap (entries d))(''compressor_list'' \<mapsto> joined ns (CHR '',''))"
      "amap (array_entries info) = amap (array_entries d)"
      using set_ok [OF d(2,3) _ lim, of "''compressor_list''" "joined ns (CHR '','')"] d(4,5) b(7) by (auto simp: domIff)
    have "MPIR_Compressor_head st \<noteq> []" using False by (simp add: ns_def)
    note l = lookup_list_names [OF ok this fits(1), folded ns_def]
    have "MPIR_Info_create_env_impl st argv = Some info"
      using b(1) num set l i(1) by (simp add: MPIR_Info_create_env_impl_def setup_env_base MPIR_Compressor_set_info_def)
    moreover have "length ns = 1 \<longleftrightarrow> \<not> 2 \<le> length ns" using False by (cases ns) (simp_all add: not_less_eq_eq)
    moreover have "MPIR_Info_lookup_array (Some info) ''compressor'' (int j) = Some (if \<not> 2 \<le> length ns then None else Some (ns ! j, int (length ns)))"
      if "j < length ns" for j using that by (simp add: lookup_array_amap [OF i(2)] i(4) d(6) aget_def)
    ultimately show ?thesis using False i(3) d(4) by simp
  qed
qed

definition two_compressors :: compr_state where
  "two_compressors = \<lparr>MPIR_Compressor_head =
     [\<lparr>rc_name = ''zlib'', rc_compressor = \<lparr>cp_inflates = True, cp_req_init = None\<rparr>, rc_deflates = True, rc_deregister = None\<rparr>,
      \<lparr>rc_name = ''null'', rc_compressor = \<lparr>cp_inflates = True, cp_req_init = None\<rparr>, rc_deflates = True, rc_deregister = None\<rparr>],
     cs_freed = False\<rparr>"

theorem compressors_published_witness:
  "\<exists>info. MPIR_Info_create_env_impl two_compressors [''a.out'', ''-v''] = Some info
    \<and> MPIR_Info_lookup (Some info) ''compressor_list'' = Some ''zlib,null''
    \<and> MPIR_Info_lookup_array (Some info) ''compressor'' 1 = Some (Some (''null'', 2))"
proof -
  have ok: "\<not> cs_freed two_compressors" "names_ok (MPIR_Compressor_head two_compressors)"
    by (simp_all add: two_compressors_def names_ok_def MPIX_MAX_COMPRESSOR_STRING_def MPIR_INFO_INFOKEY_ARRAY_TYPE_def)
  have ns: "map rc_name (MPIR_Compressor_head two_compressors) = [''zlib'', ''null'']" by (simp add: two_compressors_def)
  have fits: "join_fits (map rc_name (MPIR_Compressor_head two_compressors))" "join_fits (List.tl [''a.out'', ''-v''])"
    by (simp_all add: ns join_fits_def INT_MAX_def)
  obtain info where i: "MPIR_Info_create_env_impl two_compressors [''a.out'', ''-v''] = Some info"
    "MPIR_Info_lookup (Some info) ''compressor_list'' = Some (joined [''zlib'', ''null''] (CHR '',''))"
    "\<forall>i<2. MPIR_Info_lookup_array (Some info) ''compressor'' (int i) = Some (Some ([''zlib'', ''null''] ! i, 2))"
    using compressors_published [OF ok fits] unfolding ns by auto
  have "MPIR_Info_lookup_array (Some info) ''compressor'' 1 = Some (Some (''null'', 2))" using i(3) [rule_format, of 1] by simp
  then show ?thesis using i(1,2) by simp
qed

end
