(* ===== verification/Comm_Split.thy ===== *)
theory Comm_Split
  imports Psmpi_Prelude "HOL-Library.Multiset"
begin

text \<open>
  Creation of communicators from communicators: \<open>MPIR_Comm_split_impl\<close>
  (\<open>mpi/comm/comm_split.c\<close>), \<open>MPII_Comm_copy\<close> and \<open>MPII_Comm_dup\<close> (\<open>mpi/comm/commutil.c\<close>).

  A communicator is a record of the fields these functions read and write; \<open>cm_local_map\<close> and
  \<open>cm_remote_map\<close> are the \<open>src_mapping\<close> arrays of its L2L and R2R mappers, the ranks in the parent of
  its members.  The type parameter is the type of the value under the topology keyval, the one
  attribute the library itself keeps.  What the collectives inside (\<open>MPIR_Allgather\<close>,
  \<open>MPIR_Get_contextid_sparse\<close>, \<open>MPIC_Sendrecv\<close>, \<open>MPIR_Bcast\<close>) return to the calling process, the
  object allocation, \<open>MPIR_Comm_commit\<close> and \<open>qsort\<close> are fields of \<open>comm_env\<close>, an argument of every
  function here.
\<close>

section \<open>Data\<close>

record 't MPIR_Comm =
  cm_kind :: MPIR_Comm_kind_t
  cm_rank :: int
  cm_local_size :: int
  cm_remote_size :: int
  cm_context_id :: int
  cm_recvcontext_id :: int
  cm_local_map :: "int list"
  cm_remote_map :: "int list"
  cm_is_low_group :: bool
  cm_errhandler :: "int option"
  cm_session :: "int option"
  cm_tainted :: bool
  cm_topology :: "'t option"

record splittype =
  st_color :: int
  st_key :: int

record sorttype =
  so_color :: int
  so_key :: int
  so_orig_idx :: int

record comm_env =
  ce_allgather :: "int \<Rightarrow> splittype \<Rightarrow> splittype list mpi_result"
  ce_remote_allgather :: "splittype \<Rightarrow> splittype list mpi_result"
  ce_contextid :: "bool \<Rightarrow> int mpi_result"
  ce_intercomm_contextid :: "(int \<times> int) mpi_result"
  ce_sendrecv :: "int \<Rightarrow> int mpi_result"
  ce_bcast :: "int option \<Rightarrow> int mpi_result"
  ce_comm_create :: "mpi_error option"
  ce_commit :: "mpi_error option"
  ce_use_qsort :: bool
  ce_qsort :: "sorttype list \<Rightarrow> sorttype list"

text \<open>The outcome of a call: the error code, the communicator pointer, and the context ids the call
  gave back with \<open>MPIR_Free_contextid\<close>.\<close>

type_synonym 't comm_outcome = "mpi_error option \<times> 't MPIR_Comm option \<times> int list"

section \<open>Sorting the table of keys\<close>

definition sorttype_compare :: "sorttype \<Rightarrow> sorttype \<Rightarrow> int" where
  "sorttype_compare s1 s2 =
     (if so_key s1 > so_key s2 then 1
      else if so_key s1 < so_key s2 then -1
      else if so_orig_idx s1 > so_orig_idx s2 then 1
      else if so_orig_idx s1 < so_orig_idx s2 then -1
      else 0)"

function shift_loop :: "sorttype \<Rightarrow> int \<Rightarrow> sorttype list \<Rightarrow> (sorttype list \<times> int) option" where
  "shift_loop tmp j keytable = do {
     e \<leftarrow> aget keytable j;
     if so_key e > so_key tmp then do {
       keytable' \<leftarrow> aset keytable (j + 1) e;
       if j - 1 < 0 then Some (keytable', j - 1) else shift_loop tmp (j - 1) keytable'
     }
     else Some (keytable, j)
   }"
  by pat_completeness auto
termination by (relation "measure (\<lambda>(tmp, j, keytable). nat j)") auto

declare shift_loop.simps [simp del]

definition insert_step :: "int \<Rightarrow> sorttype list \<Rightarrow> sorttype list option" where
  "insert_step i keytable = do {
     tmp \<leftarrow> aget keytable i;
     (keytable, j) \<leftarrow> shift_loop tmp (i - 1) keytable;
     aset keytable (j + 1) tmp
   }"

definition index_step :: "int \<Rightarrow> sorttype list \<Rightarrow> sorttype list option" where
  "index_step i keytable = do {
     e \<leftarrow> aget keytable i;
     aset keytable i (e\<lparr>so_orig_idx := i\<rparr>)
   }"

definition MPIU_Sort_inttable :: "comm_env \<Rightarrow> sorttype list \<Rightarrow> int \<Rightarrow> sorttype list option" where
  "MPIU_Sort_inttable env keytable n =
     (if ce_use_qsort env then map_option (ce_qsort env) (ofold index_step [0..n - 1] keytable)
      else ofold insert_step [1..n - 1] keytable)"

section \<open>MPIR\_Comm\_split\_impl\<close>

text \<open>The entries of one color are threaded through their own \<open>color\<close> fields; \<open>last_ptr\<close> points to
  \<open>first_entry\<close> (\<open>None\<close>) or to the color of an entry.\<close>

type_synonym link_state = "int \<times> int \<times> splittype list \<times> int option"

definition link_step :: "int \<Rightarrow> int \<Rightarrow> link_state \<Rightarrow> link_state option" where
  "link_step color i = (\<lambda>(new_size, first_entry, table, last_ptr). do {
     e \<leftarrow> aget table i;
     if st_color e = color then
       (case last_ptr of
          None \<Rightarrow> Some (new_size + 1, i, table, Some i)
        | Some k \<Rightarrow> do {
            l \<leftarrow> aget table k;
            table' \<leftarrow> aset table k (l\<lparr>st_color := i\<rparr>);
            Some (new_size + 1, first_entry, table', Some i)
          })
     else Some (new_size, first_entry, table, last_ptr)
   })"

definition link_colors :: "int \<Rightarrow> int \<Rightarrow> splittype list \<Rightarrow> (int \<times> int \<times> splittype list) option" where
  "link_colors color n table = do {
     (new_size, first_entry, table, last_ptr) \<leftarrow> ofold (link_step color) [0..n - 1] (0, 0, table, None);
     Some (new_size, first_entry, table)
   }"

definition keytable_step :: "splittype list \<Rightarrow> int \<Rightarrow> sorttype list \<times> int \<Rightarrow> (sorttype list \<times> int) option" where
  "keytable_step table i = (\<lambda>(keytable, first_entry). do {
     e \<leftarrow> aget table first_entry;
     Some (keytable @ [\<lparr>so_color = first_entry, so_key = st_key e, so_orig_idx = 0\<rparr>], st_color e)
   })"

definition fill_keytable :: "splittype list \<Rightarrow> int \<Rightarrow> int \<Rightarrow> sorttype list option" where
  "fill_keytable table new_size first_entry =
     map_option fst (ofold (keytable_step table) [0..new_size - 1] ([], first_entry))"

definition rank_step :: "int \<Rightarrow> sorttype list \<Rightarrow> int \<Rightarrow> int list \<times> int \<Rightarrow> (int list \<times> int) option" where
  "rank_step rank keytable i = (\<lambda>(src_mapping, new_rank). do {
     e \<leftarrow> aget keytable i;
     Some (src_mapping @ [so_color e], if so_color e = rank then i else new_rank)
   })"

text \<open>A new object: the sizes are \<open>-1\<close>, most of the rest is cleared; the rank is not initialised.\<close>

definition MPII_Comm_init :: "int \<Rightarrow> 't MPIR_Comm" where
  "MPII_Comm_init rank0 = \<lparr>cm_kind = INTRACOMM, cm_rank = rank0, cm_local_size = -1, cm_remote_size = -1,
     cm_context_id = 0, cm_recvcontext_id = 0, cm_local_map = [], cm_remote_map = [], cm_is_low_group = False,
     cm_errhandler = None, cm_session = None, cm_tainted = False, cm_topology = None\<rparr>"

definition split_remote :: "comm_env \<Rightarrow> 't MPIR_Comm \<Rightarrow> int \<Rightarrow> int \<Rightarrow> int \<Rightarrow> (mpi_error + int \<times> int \<times> splittype list) option" where
  "split_remote env comm color key new_size =
     (if cm_kind comm = INTERCOMM then
        (case ce_remote_allgather env \<lparr>st_color = color, st_key = key\<rparr> of
           Inl e \<Rightarrow> Some (Inl e)
         | Inr remotetable \<Rightarrow> map_option Inr (link_colors color (cm_remote_size comm) remotetable))
      else Some (Inr (new_size, 0, [])))"

text \<open>The context ids: the new one, the remote one of an intercommunicator, and the ids freed.\<close>

definition split_context :: "comm_env \<Rightarrow> 't MPIR_Comm \<Rightarrow> bool \<Rightarrow> (mpi_error + int \<times> int \<times> int list) option" where
  "split_context env comm in_newcomm =
     (if cm_kind comm = INTRACOMM then
        (case ce_contextid env (\<not> in_newcomm) of
           Inl e \<Rightarrow> Some (Inl e)
         | Inr new_context_id \<Rightarrow> if new_context_id = 0 then None else Some (Inr (new_context_id, 0, [])))
      else
        (case ce_contextid env (if cm_rank comm = 0 then False else \<not> in_newcomm) of
           Inl e \<Rightarrow> Some (Inl e)
         | Inr new_context_id \<Rightarrow>
             if new_context_id = 0 then None
             else if cm_rank comm = 0 then
               (case ce_sendrecv env new_context_id of
                  Inl e \<Rightarrow> Some (Inl e)
                | Inr remote \<Rightarrow>
                    (case ce_bcast env (Some remote) of
                       Inl e \<Rightarrow> Some (Inl e)
                     | Inr remote_context_id \<Rightarrow>
                         Some (Inr (new_context_id, remote_context_id, if in_newcomm then [] else [new_context_id]))))
             else
               (case ce_bcast env None of
                  Inl e \<Rightarrow> Some (Inl e)
                | Inr remote_context_id \<Rightarrow> Some (Inr (new_context_id, remote_context_id, [])))))"

definition sorted_members :: "comm_env \<Rightarrow> splittype list \<Rightarrow> int \<Rightarrow> int \<Rightarrow> sorttype list option" where
  "sorted_members env table new_size first_entry = do {
     keytable \<leftarrow> fill_keytable table new_size first_entry;
     MPIU_Sort_inttable env keytable new_size
   }"

definition split_create ::
    "comm_env \<Rightarrow> 't MPIR_Comm \<Rightarrow> int \<Rightarrow> int \<times> int \<times> splittype list \<Rightarrow> int \<times> int \<times> splittype list \<Rightarrow> int \<Rightarrow> int \<Rightarrow> 't MPIR_Comm option" where
  "split_create env comm rank0 = (\<lambda>(new_size, first_entry, table) (new_remote_size, first_remote_entry, remotetable)
      new_context_id remote_context_id. do {
     keytable \<leftarrow> sorted_members env table new_size first_entry;
     (src_mapping, rank) \<leftarrow> ofold (rank_step (cm_rank comm) keytable) [0..new_size - 1] ([], rank0);
     let newcomm = (MPII_Comm_init rank)\<lparr>cm_recvcontext_id := new_context_id, cm_local_size := new_size,
       cm_kind := cm_kind comm, cm_session := cm_session comm, cm_local_map := src_mapping,
       cm_errhandler := cm_errhandler comm, cm_tainted := cm_tainted comm\<rparr>;
     if cm_kind comm = INTERCOMM then do {
       remotekeytable \<leftarrow> sorted_members env remotetable new_remote_size first_remote_entry;
       Some (newcomm\<lparr>cm_remote_map := map so_color remotekeytable, cm_context_id := remote_context_id,
         cm_remote_size := new_remote_size, cm_is_low_group := cm_is_low_group comm\<rparr>)
     }
     else Some (newcomm\<lparr>cm_context_id := new_context_id, cm_remote_size := new_size\<rparr>)
   })"

definition MPIR_Comm_split_impl ::
    "comm_env \<Rightarrow> 't MPIR_Comm \<Rightarrow> int \<Rightarrow> int \<Rightarrow> int \<Rightarrow> 't MPIR_Comm option \<Rightarrow> 't comm_outcome option" where
  "MPIR_Comm_split_impl env comm rank0 color key newcomm_ptr =
     (case ce_allgather env (cm_rank comm) \<lparr>st_color = color, st_key = key\<rparr> of
        Inl e \<Rightarrow> Some (Some e, newcomm_ptr, [])
      | Inr table \<Rightarrow> do {
          (new_size, first_entry, table) \<leftarrow>
            (if color \<noteq> MPI_UNDEFINED then link_colors color (cm_local_size comm) table else Some (0, 0, table));
          remote \<leftarrow> split_remote env comm color key new_size;
          case remote of
            Inl e \<Rightarrow> Some (Some e, newcomm_ptr, [])
          | Inr (new_remote_size, first_remote_entry, remotetable) \<Rightarrow> do {
              let in_newcomm = (color \<noteq> MPI_UNDEFINED \<and> new_remote_size > 0);
              ctx \<leftarrow> split_context env comm in_newcomm;
              case ctx of
                Inl e \<Rightarrow> Some (Some e, newcomm_ptr, [])
              | Inr (new_context_id, remote_context_id, freed) \<Rightarrow>
                  if \<not> in_newcomm then Some (None, None, freed)
                  else
                    (case ce_comm_create env of
                       Some e \<Rightarrow> Some (Some e, None, freed)
                     | None \<Rightarrow> do {
                         newcomm \<leftarrow> split_create env comm rank0 (new_size, first_entry, table)
                           (new_remote_size, first_remote_entry, remotetable) new_context_id remote_context_id;
                         Some (ce_commit env, Some newcomm, freed)
                       })
            }
        })"

section \<open>MPII\_Comm\_copy and MPII\_Comm\_dup\<close>

definition MPII_Comm_copy :: "comm_env \<Rightarrow> 't MPIR_Comm \<Rightarrow> int \<Rightarrow> 't MPIR_Comm option \<Rightarrow> 't comm_outcome option" where
  "MPII_Comm_copy env comm n outcomm_ptr =
     (case (if cm_kind comm = INTERCOMM then ce_intercomm_contextid env
            else map_sum id (\<lambda>c. (c, c)) (ce_contextid env False)) of
        Inl e \<Rightarrow> Some (Some e, outcomm_ptr, [])
      | Inr (new_context_id, new_recvcontext_id) \<Rightarrow>
          if cm_kind comm = INTRACOMM \<and> new_context_id = 0 then None
          else if cm_rank comm \<ge> n then Some (None, None, [new_recvcontext_id])
          else
            (case ce_comm_create env of
               Some e \<Rightarrow> Some (Some e, outcomm_ptr, [])
             | None \<Rightarrow>
                 let inter = (cm_kind comm = INTERCOMM);
                     mapping = (if n = cm_local_size comm then None else Some [0..n - 1]);
                     newcomm = \<lparr>cm_kind = cm_kind comm, cm_rank = cm_rank comm,
                       cm_local_size = (if inter then cm_local_size comm else n),
                       cm_remote_size = (if inter then cm_remote_size comm else n),
                       cm_context_id = new_context_id, cm_recvcontext_id = new_recvcontext_id,
                       cm_local_map = (if inter then [0..cm_local_size comm - 1]
                         else case mapping of None \<Rightarrow> [0..cm_local_size comm - 1] | Some m \<Rightarrow> m),
                       cm_remote_map = (if inter then case mapping of None \<Rightarrow> [0..cm_remote_size comm - 1] | Some m \<Rightarrow> m else []),
                       cm_is_low_group = (if inter then cm_is_low_group comm else False),
                       cm_errhandler = cm_errhandler comm, cm_session = cm_session comm,
                       cm_tainted = cm_tainted comm, cm_topology = None\<rparr>
                 in case ce_commit env of
                      Some e \<Rightarrow> Some (Some e, outcomm_ptr, [])
                    | None \<Rightarrow> Some (None, Some newcomm, [])))"

text \<open>\<open>attr_dup\<close> is \<open>MPIR_Attr_dup_list\<close> on the topology attribute.\<close>

definition MPII_Comm_dup ::
    "comm_env \<Rightarrow> ('t option \<Rightarrow> (mpi_error + 't option) option) \<Rightarrow> 't MPIR_Comm \<Rightarrow> 't MPIR_Comm option \<Rightarrow> 't comm_outcome option" where
  "MPII_Comm_dup env attr_dup comm newcomm_ptr = do {
     attrs \<leftarrow> attr_dup (cm_topology comm);
     case attrs of
       Inl e \<Rightarrow> Some (Some e, newcomm_ptr, [])
     | Inr new_attributes \<Rightarrow> do {
         (err, p, freed) \<leftarrow> MPII_Comm_copy env comm (cm_local_size comm) newcomm_ptr;
         case err of
           Some e \<Rightarrow> Some (Some e, p, freed)
         | None \<Rightarrow> do {
             newcomm \<leftarrow> p;
             Some (None, Some (newcomm\<lparr>cm_topology := new_attributes\<rparr>), freed)
           }
       }
   }"

end
