(* ===== verification/Topologies.thy ===== *)
theory Topologies
  imports Comm_Split
begin

text \<open>
  Virtual topologies: the structures of \<open>include/mpir_topo.h\<close>, their attachment to communicators
  (\<open>mpi/topo/topoutil.c\<close>) and the Cartesian functions of \<open>mpi/topo/topo_impl.c\<close>.

  The tag of the union is the constructor of \<open>MPIR_Topology\<close>; \<open>MPI_TOPO_OTHER\<close> stands for any other
  value of the field \<open>kind\<close>.  The topology of a communicator is the field \<open>cm_topology\<close>, the value
  under \<open>MPIR_Topology_keyval\<close>.  Arithmetic is checked: a product or sum outside the 32-bit range and a
  division by zero have no result.  Arrays of length 0 and the one-element arrays of a zero-dimensional
  topology, which are never written, are empty lists.
\<close>

section \<open>Data\<close>

record MPII_Graph_topology =
  gr_nnodes :: int
  gr_nedges :: int
  gr_index :: "int list"
  gr_edges :: "int list"

record MPII_Cart_topology =
  ca_nnodes :: int
  ca_ndims :: int
  ca_dims :: "int list"
  ca_periodic :: "int list"
  ca_position :: "int list"

record MPII_Dist_graph_topology =
  dg_indegree :: int
  dg_in :: "int list option"
  dg_in_weights :: "int list option"
  dg_outdegree :: int
  dg_out :: "int list option"
  dg_out_weights :: "int list option"
  dg_is_weighted :: bool

datatype MPIR_Topology =
    MPI_GRAPH MPII_Graph_topology | MPI_CART MPII_Cart_topology | MPI_DIST_GRAPH MPII_Dist_graph_topology
  | MPI_TOPO_OTHER int

type_synonym topo_comm = "MPIR_Topology MPIR_Comm"

text \<open>The environment of a topology call: the collectives on the parent and on \<open>MPI_COMM_SELF\<close>, that
  communicator, and the results of \<open>MPIR_Comm_copy_stream\<close> and of the attribute calls of
  \<open>MPIR_Topology_put\<close>.\<close>

record topo_env =
  te_comm :: comm_env
  te_self :: comm_env
  te_comm_self :: topo_comm
  te_copy_stream :: "mpi_error option"
  te_put :: "mpi_error option"

definition MAX_CART_DIM :: nat where "MAX_CART_DIM = 16"

section \<open>Checked arithmetic\<close>

definition idiv :: "int \<Rightarrow> int \<Rightarrow> int option" where
  "idiv a b = (if b = 0 then None else cint (cdiv a b))"

definition imod :: "int \<Rightarrow> int \<Rightarrow> int option" where
  "imod a b = do { q \<leftarrow> idiv a b; Some (a - b * q) }"

section \<open>The topology attribute\<close>

definition MPIR_Topology_get :: "topo_comm \<Rightarrow> MPIR_Topology option" where
  "MPIR_Topology_get comm = cm_topology comm"

definition MPIR_Topology_put :: "topo_env \<Rightarrow> topo_comm \<Rightarrow> MPIR_Topology \<Rightarrow> mpi_error option \<times> topo_comm" where
  "MPIR_Topology_put env comm topo =
     (case te_put env of Some e \<Rightarrow> (Some e, comm) | None \<Rightarrow> (None, comm\<lparr>cm_topology := Some topo\<rparr>))"

definition MPIR_Copy_array :: "int \<Rightarrow> int list option \<Rightarrow> int list option option" where
  "MPIR_Copy_array n a =
     (case a of
        None \<Rightarrow> if n = 0 then Some None else None
      | Some xs \<Rightarrow> if 0 \<le> n \<and> n \<le> int (length xs) then Some (Some (take (nat n) xs)) else None)"

definition copy_ints :: "int \<Rightarrow> int list \<Rightarrow> int list option" where
  "copy_ints n xs = do { c \<leftarrow> MPIR_Copy_array n (Some xs); c }"

definition MPIR_Topology_copy_internal :: "MPIR_Topology \<Rightarrow> (mpi_error + MPIR_Topology) option" where
  "MPIR_Topology_copy_internal old =
     (case old of
        MPI_CART c \<Rightarrow> do {
          dims \<leftarrow> copy_ints (ca_ndims c) (ca_dims c);
          periodic \<leftarrow> copy_ints (ca_ndims c) (ca_periodic c);
          position \<leftarrow> copy_ints (ca_ndims c) (ca_position c);
          Some (Inr (MPI_CART \<lparr>ca_nnodes = ca_nnodes c, ca_ndims = ca_ndims c, ca_dims = dims, ca_periodic = periodic, ca_position = position\<rparr>))
        }
      | MPI_GRAPH g \<Rightarrow> do {
          index \<leftarrow> copy_ints (gr_nnodes g) (gr_index g);
          edges \<leftarrow> copy_ints (gr_nedges g) (gr_edges g);
          Some (Inr (MPI_GRAPH \<lparr>gr_nnodes = gr_nnodes g, gr_nedges = gr_nedges g, gr_index = index, gr_edges = edges\<rparr>))
        }
      | MPI_DIST_GRAPH d \<Rightarrow> do {
          ins \<leftarrow> MPIR_Copy_array (dg_indegree d) (dg_in d);
          outs \<leftarrow> MPIR_Copy_array (dg_outdegree d) (dg_out d);
          in_weights \<leftarrow> (if dg_is_weighted d then MPIR_Copy_array (dg_indegree d) (dg_in_weights d) else Some None);
          out_weights \<leftarrow> (if dg_is_weighted d then MPIR_Copy_array (dg_outdegree d) (dg_out_weights d) else Some None);
          Some (Inr (MPI_DIST_GRAPH \<lparr>dg_indegree = dg_indegree d, dg_in = ins, dg_in_weights = in_weights,
            dg_outdegree = dg_outdegree d, dg_out = outs, dg_out_weights = out_weights, dg_is_weighted = dg_is_weighted d\<rparr>))
        }
      | MPI_TOPO_OTHER k \<Rightarrow> Some (Inl MPI_ERR_TOPOLOGY))"

definition topology_attr_dup :: "MPIR_Topology option \<Rightarrow> (mpi_error + MPIR_Topology option) option" where
  "topology_attr_dup attr =
     (case attr of
        None \<Rightarrow> Some (Inr None)
      | Some t \<Rightarrow> map_option (map_sum id Some) (MPIR_Topology_copy_internal t))"

definition MPIR_Comm_dup_impl :: "comm_env \<Rightarrow> mpi_error option \<Rightarrow> topo_comm \<Rightarrow> topo_comm option \<Rightarrow> MPIR_Topology comm_outcome option" where
  "MPIR_Comm_dup_impl env copy_stream comm newcomm_ptr = do {
     (err, p, freed) \<leftarrow> MPII_Comm_dup env topology_attr_dup comm newcomm_ptr;
     case err of Some e \<Rightarrow> Some (Some e, p, freed) | None \<Rightarrow> Some (copy_stream, p, freed)
   }"

definition MPIR_Topo_test_impl :: "topo_comm \<Rightarrow> int" where
  "MPIR_Topo_test_impl comm =
     (case MPIR_Topology_get comm of
        None \<Rightarrow> MPI_UNDEFINED
      | Some (MPI_GRAPH g) \<Rightarrow> 1 | Some (MPI_CART c) \<Rightarrow> 2 | Some (MPI_DIST_GRAPH d) \<Rightarrow> 3 | Some (MPI_TOPO_OTHER k) \<Rightarrow> k)"

section \<open>Coordinates and ranks\<close>

definition cart_of :: "topo_comm \<Rightarrow> MPII_Cart_topology option" where
  "cart_of comm = (case MPIR_Topology_get comm of Some (MPI_CART c) \<Rightarrow> Some c | _ \<Rightarrow> None)"

definition coords_step :: "int list \<Rightarrow> int \<Rightarrow> int \<times> int \<times> int list \<Rightarrow> (int \<times> int \<times> int list) option" where
  "coords_step dims i = (\<lambda>(nnodes, rank, coords). do {
     d \<leftarrow> aget dims i;
     nnodes' \<leftarrow> idiv nnodes d;
     q \<leftarrow> idiv rank nnodes';
     coords' \<leftarrow> aset coords i q;
     rank' \<leftarrow> imod rank nnodes';
     Some (nnodes', rank', coords')
   })"

definition MPIR_Cart_coords_impl :: "topo_comm \<Rightarrow> int \<Rightarrow> int \<Rightarrow> int list \<Rightarrow> int list option" where
  "MPIR_Cart_coords_impl comm rank maxdims coords = do {
     c \<leftarrow> cart_of comm;
     (nnodes, rank, coords) \<leftarrow> ofold (coords_step (ca_dims c)) [0..ca_ndims c - 1] (ca_nnodes c, rank, coords);
     Some coords
   }"

definition wrap_coord :: "int \<Rightarrow> int \<Rightarrow> int \<Rightarrow> int option" where
  "wrap_coord periodic d coord =
     (if periodic \<noteq> 0 then
        (if coord \<ge> d then imod coord d
         else if coord < 0 then do {
           coord' \<leftarrow> imod coord d;
           if coord' \<noteq> 0 then cint (d + coord') else Some coord'
         }
         else Some coord)
      else Some coord)"

definition cart_rank_step :: "MPII_Cart_topology \<Rightarrow> int list \<Rightarrow> int \<Rightarrow> int \<times> int \<Rightarrow> (int \<times> int) option" where
  "cart_rank_step c coords i = (\<lambda>(rank, multiplier). do {
     coord \<leftarrow> aget coords i;
     periodic \<leftarrow> aget (ca_periodic c) i;
     d \<leftarrow> aget (ca_dims c) i;
     coord \<leftarrow> wrap_coord periodic d coord;
     m \<leftarrow> cint (multiplier * coord);
     rank' \<leftarrow> cint (rank + m);
     multiplier' \<leftarrow> cint (multiplier * d);
     Some (rank', multiplier')
   })"

definition MPIR_Cart_rank_impl :: "topo_comm \<Rightarrow> int list \<Rightarrow> int mpi_result option" where
  "MPIR_Cart_rank_impl comm coords =
     (case cart_of comm of
        None \<Rightarrow> Some (Inl MPI_ERR_TOPOLOGY)
      | Some c \<Rightarrow> do {
          (rank, multiplier) \<leftarrow> ofold (cart_rank_step c coords) (rev [0..ca_ndims c - 1]) (0, 1);
          Some (Inr rank)
        })"

definition MPIR_Cartdim_get_impl :: "topo_comm \<Rightarrow> int mpi_result" where
  "MPIR_Cartdim_get_impl comm = (case cart_of comm of None \<Rightarrow> Inl MPI_ERR_TOPOLOGY | Some c \<Rightarrow> Inr (ca_ndims c))"

text \<open>Neither the function nor its caller compares \<open>maxdims\<close> with the number of dimensions.\<close>

definition copy_out :: "int \<Rightarrow> int list \<Rightarrow> int list \<Rightarrow> int list option" where
  "copy_out n vals buf = ofold (\<lambda>i buf. do { v \<leftarrow> aget vals i; aset buf i v }) [0..n - 1] buf"

definition MPIR_Cart_get_impl :: "topo_comm \<Rightarrow> int \<Rightarrow> int list \<Rightarrow> int list \<Rightarrow> int list \<Rightarrow> (int list \<times> int list \<times> int list) option" where
  "MPIR_Cart_get_impl comm maxdims dims periods coords = do {
     c \<leftarrow> cart_of comm;
     dims \<leftarrow> copy_out (ca_ndims c) (ca_dims c) dims;
     periods \<leftarrow> copy_out (ca_ndims c) (ca_periodic c) periods;
     coords \<leftarrow> copy_out (ca_ndims c) (ca_position c) coords;
     Some (dims, periods, coords)
   }"

section \<open>Creation\<close>

definition dims_product :: "int list \<Rightarrow> int list \<Rightarrow> int \<Rightarrow> int option" where
  "dims_product dims is n0 = ofold (\<lambda>i n. do { d \<leftarrow> aget dims i; cint (n * d) }) is n0"

definition MPIR_Cart_map_impl :: "topo_comm \<Rightarrow> int \<Rightarrow> int list \<Rightarrow> int list \<Rightarrow> int mpi_result option" where
  "MPIR_Cart_map_impl comm ndims dims periods = do {
     nranks \<leftarrow> (if ndims = 0 then Some 1 else do { d \<leftarrow> aget dims 0; dims_product dims [1..ndims - 1] d });
     if cm_remote_size comm < nranks then Some (Inl MPI_ERR_DIMS)
     else Some (Inr (if cm_rank comm < nranks then cm_rank comm else MPI_UNDEFINED))
   }"

definition create_step ::
    "int list \<Rightarrow> int list \<Rightarrow> int \<Rightarrow> int \<times> int \<times> int list \<times> int list \<times> int list \<Rightarrow> (int \<times> int \<times> int list \<times> int list \<times> int list) option" where
  "create_step dims periods i = (\<lambda>(nranks, rank, cdims, cperiodic, cposition). do {
     d \<leftarrow> aget dims i;
     p \<leftarrow> aget periods i;
     nranks' \<leftarrow> idiv nranks d;
     q \<leftarrow> idiv rank nranks';
     rank' \<leftarrow> imod rank nranks';
     Some (nranks', rank', cdims @ [d], cperiodic @ [p], cposition @ [q])
   })"

definition attach_topology ::
    "topo_env \<Rightarrow> topo_comm \<Rightarrow> MPIR_Topology \<Rightarrow> topo_comm option \<Rightarrow> int list \<Rightarrow> MPIR_Topology comm_outcome" where
  "attach_topology env newcomm topo p freed =
     (case MPIR_Topology_put env newcomm topo of
        (Some e, nc) \<Rightarrow> (Some e, p, freed)
      | (None, nc) \<Rightarrow> (None, Some nc, freed))"

text \<open>The new communicator of a Cartesian topology and the rank to compute the position from.\<close>

definition cart_newcomm ::
    "topo_env \<Rightarrow> topo_comm \<Rightarrow> int \<Rightarrow> int \<Rightarrow> int list \<Rightarrow> int list \<Rightarrow> bool \<Rightarrow> int \<Rightarrow> (mpi_error option \<times> topo_comm option \<times> int \<times> int list) option" where
  "cart_newcomm env comm rank0 ndims dims periods reorder newsize =
     (if reorder then do {
        m \<leftarrow> MPIR_Cart_map_impl comm ndims dims periods;
        case m of
          Inl e \<Rightarrow> Some (Some e, None, 0, [])
        | Inr rank \<Rightarrow> do {
            (err, nc, freed) \<leftarrow> MPIR_Comm_split_impl (te_comm env) comm rank0
              (if rank = MPI_UNDEFINED then MPI_UNDEFINED else 1) rank None;
            Some (err, nc, rank, freed)
          }
      }
      else do {
        (err, nc, freed) \<leftarrow> MPII_Comm_copy (te_comm env) comm newsize None;
        Some (err, nc, cm_rank comm, freed)
      })"

definition MPIR_Cart_create_impl ::
    "topo_env \<Rightarrow> topo_comm \<Rightarrow> int \<Rightarrow> int \<Rightarrow> int list \<Rightarrow> int list \<Rightarrow> bool \<Rightarrow> topo_comm option \<Rightarrow> MPIR_Topology comm_outcome option" where
  "MPIR_Cart_create_impl env comm rank0 ndims dims periods reorder p = do {
     newsize \<leftarrow> dims_product dims [0..ndims - 1] 1;
     if newsize > cm_remote_size comm then Some (Some MPI_ERR_ARG, p, [])
     else if ndims = 0 then
       (if cm_rank comm = 0 then do {
          (err, nc, freed) \<leftarrow> MPIR_Comm_dup_impl (te_self env) (te_copy_stream env) (te_comm_self env) None;
          case err of
            Some e \<Rightarrow> Some (Some e, p, freed)
          | None \<Rightarrow> do {
              newcomm \<leftarrow> nc;
              Some (attach_topology env newcomm
                (MPI_CART \<lparr>ca_nnodes = 1, ca_ndims = 0, ca_dims = [], ca_periodic = [], ca_position = []\<rparr>) p freed)
            }
        }
        else Some (None, None, []))
     else do {
       (err, nc, rank, freed) \<leftarrow> cart_newcomm env comm rank0 ndims dims periods reorder newsize;
       case err of
         Some e \<Rightarrow> Some (Some e, p, freed)
       | None \<Rightarrow>
           if rank \<ge> newsize \<or> rank = MPI_UNDEFINED then Some (None, None, freed)
           else do {
             (nranks, r, cdims, cperiodic, cposition) \<leftarrow> ofold (create_step dims periods) [0..ndims - 1] (newsize, rank, [], [], []);
             newcomm \<leftarrow> nc;
             Some (attach_topology env newcomm (MPI_CART \<lparr>ca_nnodes = newsize, ca_ndims = ndims, ca_dims = cdims,
               ca_periodic = cperiodic, ca_position = cposition\<rparr>) p freed)
           }
     }
   }"

section \<open>Shifts\<close>

definition shifted_rank :: "topo_comm \<Rightarrow> MPII_Cart_topology \<Rightarrow> int \<Rightarrow> int list \<Rightarrow> int option" where
  "shifted_rank comm c direction pos = do {
     x \<leftarrow> aget pos direction;
     periodic \<leftarrow> aget (ca_periodic c) direction;
     d \<leftarrow> aget (ca_dims c) direction;
     if periodic = 0 \<and> (x \<ge> d \<or> x < 0) then Some MPI_PROC_NULL
     else do {
       r \<leftarrow> MPIR_Cart_rank_impl comm pos;
       case r of Inl e \<Rightarrow> None | Inr rank \<Rightarrow> Some rank
     }
   }"

definition MPIR_Cart_shift_impl :: "topo_comm \<Rightarrow> int \<Rightarrow> int \<Rightarrow> (int \<times> int) mpi_result option" where
  "MPIR_Cart_shift_impl comm direction disp =
     (case cart_of comm of
        None \<Rightarrow> Some (Inl MPI_ERR_TOPOLOGY)
      | Some c \<Rightarrow>
          if ca_ndims c = 0 then Some (Inl MPI_ERR_TOPOLOGY)
          else if direction \<ge> ca_ndims c then Some (Inl MPI_ERR_ARG)
          else if disp = 0 then Some (Inr (cm_rank comm, cm_rank comm))
          else do {
            pos \<leftarrow> copy_out (ca_ndims c) (ca_position c) (replicate MAX_CART_DIM 0);
            x \<leftarrow> aget pos direction;
            x \<leftarrow> cint (x + disp);
            pos \<leftarrow> aset pos direction x;
            rank_dest \<leftarrow> shifted_rank comm c direction pos;
            y \<leftarrow> aget (ca_position c) direction;
            y \<leftarrow> cint (y - disp);
            pos \<leftarrow> aset pos direction y;
            rank_source \<leftarrow> shifted_rank comm c direction pos;
            Some (Inr (rank_source, rank_dest))
          })"

section \<open>Sub-grids\<close>

fun any_remains :: "int list \<Rightarrow> int list \<Rightarrow> bool option" where
  "any_remains remain_dims [] = Some False"
| "any_remains remain_dims (i # is) = do {
     r \<leftarrow> aget remain_dims i;
     if r \<noteq> 0 then Some True else any_remains remain_dims is
   }"

definition sub_size_step :: "MPII_Cart_topology \<Rightarrow> int list \<Rightarrow> int \<Rightarrow> int \<times> int \<Rightarrow> (int \<times> int) option" where
  "sub_size_step c remain_dims i = (\<lambda>(ndims, nnodes). do {
     r \<leftarrow> aget remain_dims i;
     if r \<noteq> 0 then do { d \<leftarrow> aget (ca_dims c) i; nnodes' \<leftarrow> cint (nnodes * d); Some (ndims + 1, nnodes') }
     else Some (ndims, nnodes)
   })"

definition sub_key_step :: "MPII_Cart_topology \<Rightarrow> int list \<Rightarrow> int \<Rightarrow> int \<times> int \<Rightarrow> (int \<times> int) option" where
  "sub_key_step c remain_dims i = (\<lambda>(key, color). do {
     r \<leftarrow> aget remain_dims i;
     d \<leftarrow> aget (ca_dims c) i;
     x \<leftarrow> aget (ca_position c) i;
     if r \<noteq> 0 then do { k \<leftarrow> cint (key * d); k \<leftarrow> cint (k + x); Some (k, color) }
     else do { k \<leftarrow> cint (color * d); k \<leftarrow> cint (k + x); Some (key, k) }
   })"

definition sub_dims_step :: "MPII_Cart_topology \<Rightarrow> int list \<Rightarrow> int \<Rightarrow> int list \<times> int list \<Rightarrow> (int list \<times> int list) option" where
  "sub_dims_step c remain_dims i = (\<lambda>(dims, periodic). do {
     r \<leftarrow> aget remain_dims i;
     if r \<noteq> 0 then do { d \<leftarrow> aget (ca_dims c) i; p \<leftarrow> aget (ca_periodic c) i; Some (dims @ [d], periodic @ [p]) }
     else Some (dims, periodic)
   })"

definition MPIR_Cart_sub_impl :: "topo_env \<Rightarrow> topo_comm \<Rightarrow> int \<Rightarrow> int list \<Rightarrow> topo_comm option \<Rightarrow> MPIR_Topology comm_outcome option" where
  "MPIR_Cart_sub_impl env comm rank0 remain_dims p =
     (case MPIR_Topology_get comm of
        Some (MPI_CART c) \<Rightarrow> do {
          let is = [0..ca_ndims c - 1];
          any \<leftarrow> any_remains remain_dims is;
          if \<not> any then MPIR_Cart_create_impl env comm rank0 0 [] [] False p
          else do {
            (ndims, nnodes) \<leftarrow> ofold (sub_size_step c remain_dims) is (0, 1);
            (key, color) \<leftarrow> ofold (sub_key_step c remain_dims) is (0, 0);
            (err, nc, freed) \<leftarrow> MPIR_Comm_split_impl (te_comm env) comm rank0 color key None;
            case err of
              Some e \<Rightarrow> Some (Some e, p, freed)
            | None \<Rightarrow> do {
                (dims, periodic) \<leftarrow> ofold (sub_dims_step c remain_dims) is ([], []);
                newcomm \<leftarrow> nc;
                (n, r, position) \<leftarrow> ofold (coords_step dims) [0..ndims - 1] (nnodes, cm_rank newcomm, replicate (nat ndims) 0);
                Some (attach_topology env newcomm (MPI_CART \<lparr>ca_nnodes = nnodes, ca_ndims = ndims, ca_dims = dims,
                  ca_periodic = periodic, ca_position = position\<rparr>) (Some newcomm) freed)
              }
          }
        }
      | _ \<Rightarrow> Some (Some MPI_ERR_TOPOLOGY, p, []))"

end
