(* ===== verification/Cart_Grid.thy ===== *)
theory Cart_Grid
  imports Topologies
begin

text \<open>
  The row-major numbering of a grid and the loops that compute it.  \<open>grid_numbering\<close> is the contract
  between coordinates and ranks; \<open>row_major\<close> and \<open>grid_coords\<close> implement it, and the loops of
  \<open>MPIR_Cart_rank_impl\<close> and \<open>MPIR_Cart_coords_impl\<close> compute these two functions.
\<close>

section \<open>Numberings\<close>

locale grid_numbering =
  fixes inside :: "'c \<Rightarrow> bool" and valid :: "int \<Rightarrow> bool" and number :: "'c \<Rightarrow> int" and place :: "int \<Rightarrow> 'c"
  assumes number_valid: "inside c \<Longrightarrow> valid (number c)"
    and place_inside: "valid r \<Longrightarrow> inside (place r)"
    and place_number: "inside c \<Longrightarrow> place (number c) = c"
    and number_place: "valid r \<Longrightarrow> number (place r) = r"
begin

lemma number_eq_iff: "inside c \<Longrightarrow> inside c' \<Longrightarrow> number c = number c' \<longleftrightarrow> c = c'"
  using place_number by metis

lemma place_eq_iff: "valid r \<Longrightarrow> valid r' \<Longrightarrow> place r = place r' \<longleftrightarrow> r = r'"
  using number_place by metis

lemma number_bij: "bij_betw number {c. inside c} {r. valid r}"
  by (rule bij_betw_byWitness [where f' = place]) (auto simp: place_number number_place number_valid place_inside)

end

section \<open>Row-major order\<close>

fun row_major :: "int list \<Rightarrow> int list \<Rightarrow> int" where
  "row_major (d # ds) (c # cs) = c * prod_list ds + row_major ds cs"
| "row_major ds cs = 0"

fun grid_coords :: "int list \<Rightarrow> int \<Rightarrow> int list" where
  "grid_coords [] r = []"
| "grid_coords (d # ds) r = r div prod_list ds # grid_coords ds (r mod prod_list ds)"

definition in_grid :: "int list \<Rightarrow> int list \<Rightarrow> bool" where
  "in_grid ds cs \<longleftrightarrow> list_all2 (\<lambda>d c. 0 \<le> c \<and> c < d) ds cs"

definition pos_dims :: "int list \<Rightarrow> bool" where
  "pos_dims ds \<longleftrightarrow> (\<forall>d\<in>set ds. 1 \<le> d)"

definition grid_rank :: "int list \<Rightarrow> int \<Rightarrow> bool" where
  "grid_rank ds r \<longleftrightarrow> pos_dims ds \<and> 0 \<le> r \<and> r < prod_list ds"

lemma pos_dims_simps [simp]: "pos_dims []" "pos_dims (d # ds) \<longleftrightarrow> 1 \<le> d \<and> pos_dims ds" "pos_dims (ds @ es) \<longleftrightarrow> pos_dims ds \<and> pos_dims es"
  by (auto simp: pos_dims_def)

lemma in_grid_simps [simp]:
  "in_grid [] cs \<longleftrightarrow> cs = []" "in_grid ds [] \<longleftrightarrow> ds = []" "in_grid (d # ds) (c # cs) \<longleftrightarrow> 0 \<le> c \<and> c < d \<and> in_grid ds cs"
  by (simp_all add: in_grid_def)

lemma in_grid_length: "in_grid ds cs \<Longrightarrow> length cs = length ds"
  by (simp add: in_grid_def list_all2_lengthD)

lemma prod_pos: "pos_dims ds \<Longrightarrow> 1 \<le> prod_list ds"
proof (induction ds)
  case (Cons d ds)
  then have "1 * 1 \<le> d * prod_list ds" by (intro mult_mono) simp_all
  then show ?case by simp
qed simp

lemma in_grid_pos: "in_grid ds cs \<Longrightarrow> pos_dims ds"
  by (induction ds arbitrary: cs) (auto simp: in_grid_def list_all2_Cons1)

lemma row_major_bound:
  assumes "in_grid ds cs"
  shows "0 \<le> row_major ds cs \<and> row_major ds cs < prod_list ds"
  using assms
proof (induction ds cs rule: row_major.induct)
  case (1 d ds c cs)
  then have IH: "0 \<le> row_major ds cs" "row_major ds cs < prod_list ds" and c: "0 \<le> c" "c \<le> d - 1" by simp_all
  have "c * prod_list ds \<le> (d - 1) * prod_list ds" using c IH by (intro mult_right_mono) simp_all
  then have "c * prod_list ds + row_major ds cs < d * prod_list ds" using IH by (simp add: left_diff_distrib)
  moreover have "0 \<le> c * prod_list ds" using c IH by simp
  ultimately show ?case using IH by simp
qed simp_all

lemma coords_of_row_major:
  assumes "in_grid ds cs"
  shows "grid_coords ds (row_major ds cs) = cs"
  using assms
proof (induction ds cs rule: row_major.induct)
  case (1 d ds c cs)
  then have IH: "grid_coords ds (row_major ds cs) = cs" and b: "0 \<le> row_major ds cs" "row_major ds cs < prod_list ds"
    using row_major_bound [of ds cs] by simp_all
  have "(c * prod_list ds + row_major ds cs) div prod_list ds = c"
    "(c * prod_list ds + row_major ds cs) mod prod_list ds = row_major ds cs"
    using b by simp_all
  then show ?case using IH by simp
qed simp_all

lemma grid_rank_Cons:
  assumes "grid_rank (d # ds) r"
  shows "grid_rank ds (r mod prod_list ds)" "0 \<le> r div prod_list ds" "r div prod_list ds < d" "0 \<le> r" "r < d * prod_list ds" "1 \<le> d" "1 \<le> prod_list ds"
proof -
  have p: "1 \<le> prod_list ds" and r: "0 \<le> r" "r < d * prod_list ds" "1 \<le> d" "pos_dims ds"
    using assms prod_pos by (auto simp: grid_rank_def)
  show "grid_rank ds (r mod prod_list ds)" using p r by (simp add: grid_rank_def)
  show "r div prod_list ds < d"
  proof (rule ccontr)
    assume "\<not> r div prod_list ds < d"
    then have "d * prod_list ds \<le> r div prod_list ds * prod_list ds" using p by (intro mult_right_mono) simp_all
    moreover have "r div prod_list ds * prod_list ds + r mod prod_list ds = r" by simp
    moreover have "0 \<le> r mod prod_list ds" using p by simp
    ultimately show False using r(2) by linarith
  qed
  show "0 \<le> r div prod_list ds" using p r(1) by (simp add: pos_imp_zdiv_nonneg_iff)
qed (use assms prod_pos in \<open>auto simp: grid_rank_def\<close>)

lemma row_major_of_coords:
  assumes "grid_rank ds r"
  shows "in_grid ds (grid_coords ds r) \<and> row_major ds (grid_coords ds r) = r"
  using assms
proof (induction ds arbitrary: r)
  case (Cons d ds)
  note g = grid_rank_Cons [OF Cons.prems]
  show ?case using Cons.IH [OF g(1)] g(2,3) by simp
qed (simp add: grid_rank_def)

lemma length_grid_coords [simp]: "length (grid_coords ds r) = length ds"
  by (induction ds arbitrary: r) simp_all

interpretation row_major: grid_numbering "in_grid ds" "grid_rank ds" "row_major ds" "grid_coords ds" for ds
proof
  show "in_grid ds c \<Longrightarrow> grid_rank ds (row_major ds c)" for c
    using row_major_bound in_grid_pos by (auto simp: grid_rank_def)
qed (simp_all add: row_major_of_coords coords_of_row_major)

section \<open>The arithmetic of the loops\<close>

lemma idiv_nonneg: "0 \<le> a \<Longrightarrow> a \<le> INT_MAX \<Longrightarrow> 1 \<le> b \<Longrightarrow> idiv a b = Some (a div b)"
proof -
  assume a: "0 \<le> a" "a \<le> INT_MAX" "1 \<le> b"
  have "cdiv a b = a div b" using a by (cases "a = 0") (simp_all add: cdiv_def)
  moreover have "0 \<le> a div b" using a by (simp add: pos_imp_zdiv_nonneg_iff)
  moreover have "a div b \<le> a" using a zdiv_mono2 [of a 1 b] by simp
  ultimately show ?thesis using a by (simp add: idiv_def cint_def)
qed

lemma imod_nonneg: "0 \<le> a \<Longrightarrow> a \<le> INT_MAX \<Longrightarrow> 1 \<le> b \<Longrightarrow> imod a b = Some (a mod b)"
  by (simp add: imod_def idiv_nonneg minus_mult_div_eq_mod)

lemma grid_step:
  assumes "grid_rank (d # ds) r" "prod_list (d # ds) \<le> INT_MAX"
  shows "idiv (prod_list (d # ds)) d = Some (prod_list ds)" "idiv r (prod_list ds) = Some (r div prod_list ds)"
    "imod r (prod_list ds) = Some (r mod prod_list ds)" "prod_list ds \<le> INT_MAX"
proof -
  note g = grid_rank_Cons [OF assms(1)]
  have "0 \<le> d * prod_list ds" using g by simp
  then show "idiv (prod_list (d # ds)) d = Some (prod_list ds)" using g assms(2) by (simp add: idiv_nonneg)
  show "idiv r (prod_list ds) = Some (r div prod_list ds)" "imod r (prod_list ds) = Some (r mod prod_list ds)"
    using g assms(2) by (simp_all add: idiv_nonneg imod_nonneg)
  have "1 * prod_list ds \<le> d * prod_list ds" using g by (intro mult_right_mono) simp_all
  then show "prod_list ds \<le> INT_MAX" using assms(2) by simp
qed

lemma upto_pre: "[int (length pre)..int (length pre + length (x # xs)) - 1] = int (length pre) # [int (length (pre @ [x]))..int (length (pre @ [x]) + length xs) - 1]"
  by (subst upto_rec1) (simp_all add: algebra_simps)

lemma coords_walk:
  assumes "grid_rank ds r" "prod_list ds \<le> INT_MAX" "length cs = length pre" "length ds \<le> length rest"
  shows "\<exists>n r'. ofold (coords_step (pre @ ds)) [int (length pre)..int (length pre + length ds) - 1] (prod_list ds, r, cs @ rest)
    = Some (n, r', cs @ grid_coords ds r @ drop (length ds) rest)"
  using assms
proof (induction ds arbitrary: pre r cs rest)
  case (Cons d ds)
  obtain x rest' where rest: "rest = x # rest'" using Cons.prems(4) by (cases rest) simp_all
  note s = grid_step [OF Cons.prems(1,2)] and g = grid_rank_Cons [OF Cons.prems(1)]
  have "coords_step (pre @ d # ds) (int (length pre)) (prod_list (d # ds), r, cs @ rest)
    = Some (prod_list ds, r mod prod_list ds, (cs @ [r div prod_list ds]) @ rest')"
    using s Cons.prems(3) by (simp add: coords_step_def aget_def aset_def nth_append list_update_append rest)
  moreover obtain n r' where "ofold (coords_step ((pre @ [d]) @ ds)) [int (length (pre @ [d]))..int (length (pre @ [d]) + length ds) - 1]
      (prod_list ds, r mod prod_list ds, (cs @ [r div prod_list ds]) @ rest')
    = Some (n, r', (cs @ [r div prod_list ds]) @ grid_coords ds (r mod prod_list ds) @ drop (length ds) rest')"
    using Cons.IH [OF g(1) s(4), of "cs @ [r div prod_list ds]" "pre @ [d]" rest'] Cons.prems(3,4) rest by auto
  ultimately show ?case unfolding upto_pre by (simp add: rest)
qed simp

lemma create_walk:
  assumes "grid_rank ds r" "prod_list ds \<le> INT_MAX" "length periods = length (pre @ ds)"
  shows "\<exists>n r'. ofold (create_step (pre @ ds) periods) [int (length pre)..int (length pre + length ds) - 1]
      (prod_list ds, r, pre, take (length pre) periods, cs)
    = Some (n, r', pre @ ds, periods, cs @ grid_coords ds r)"
  using assms
proof (induction ds arbitrary: pre r cs)
  case (Cons d ds)
  note s = grid_step [OF Cons.prems(1,2)] and g = grid_rank_Cons [OF Cons.prems(1)]
  have "take (length pre) periods @ [periods ! length pre] = take (length (pre @ [d])) periods"
    using Cons.prems(3) by (simp add: take_Suc_conv_app_nth)
  then have "create_step (pre @ d # ds) periods (int (length pre)) (prod_list (d # ds), r, pre, take (length pre) periods, cs)
    = Some (prod_list ds, r mod prod_list ds, pre @ [d], take (length (pre @ [d])) periods, cs @ [r div prod_list ds])"
    using s Cons.prems(3) by (simp add: create_step_def aget_def nth_append)
  moreover obtain n r' where "ofold (create_step ((pre @ [d]) @ ds) periods) [int (length (pre @ [d]))..int (length (pre @ [d]) + length ds) - 1]
      (prod_list ds, r mod prod_list ds, pre @ [d], take (length (pre @ [d])) periods, cs @ [r div prod_list ds])
    = Some (n, r', (pre @ [d]) @ ds, periods, (cs @ [r div prod_list ds]) @ grid_coords ds (r mod prod_list ds))"
    using Cons.IH [OF g(1) s(4), of "pre @ [d]" "cs @ [r div prod_list ds]"] Cons.prems(3) by auto
  ultimately show ?case unfolding upto_pre by simp
qed simp

end
