(* ===== verification/Cart_Loops.thy ===== *)
theory Cart_Loops
  imports Cart_Grid
begin

text \<open>
  What each Cartesian function computes on a well-formed topology: coordinates, ranks, the copies of
  the arrays and the product of the dimensions.
\<close>

definition int32 :: "int \<Rightarrow> bool" where
  "int32 x \<longleftrightarrow> -2147483648 \<le> x \<and> x \<le> INT_MAX"

lemma cint_int32: "int32 x \<Longrightarrow> cint x = Some x" "\<not> int32 x \<Longrightarrow> cint x = None"
  by (auto simp: cint_def int32_def)

definition cart_ok :: "MPII_Cart_topology \<Rightarrow> bool" where
  "cart_ok c \<longleftrightarrow> ca_ndims c = int (length (ca_dims c)) \<and> pos_dims (ca_dims c) \<and> length (ca_periodic c) = length (ca_dims c)
     \<and> ca_nnodes c = prod_list (ca_dims c) \<and> ca_nnodes c \<le> INT_MAX"

lemma cart_okD:
  assumes "cart_ok c"
  shows "ca_ndims c = int (length (ca_dims c))" "pos_dims (ca_dims c)" "length (ca_periodic c) = length (ca_dims c)"
    "ca_nnodes c = prod_list (ca_dims c)" "prod_list (ca_dims c) \<le> INT_MAX" "1 \<le> prod_list (ca_dims c)"
  using assms by (auto simp: cart_ok_def prod_pos)

section \<open>Coordinates of a rank\<close>

lemma cart_coords_eq:
  assumes "cart_of comm = Some c" "cart_ok c" "0 \<le> r" "r < ca_nnodes c" "length (ca_dims c) \<le> length buf"
  shows "MPIR_Cart_coords_impl comm r maxdims buf = Some (grid_coords (ca_dims c) r @ drop (length (ca_dims c)) buf)"
proof -
  note ok = cart_okD [OF assms(2)]
  have "grid_rank (ca_dims c) r" using ok assms(3,4) by (simp add: grid_rank_def)
  then show ?thesis using coords_walk [of "ca_dims c" r "[]" "[]" buf] ok assms(1,5)
    by (auto simp: MPIR_Cart_coords_impl_def)
qed

section \<open>Rank of coordinates\<close>

lemma wrap_coord_eq:
  assumes "1 \<le> d" "d \<le> INT_MAX" "int32 x"
  shows "wrap_coord p d x = Some (if p \<noteq> 0 then x mod d else x)"
proof (cases "p \<noteq> 0 \<and> x < 0")
  case True
  have q: "cdiv x d = - ((- x) div d)" using True assms(1) by (simp add: cdiv_def)
  have "(- x) div d \<le> - x" using zdiv_mono2 [of "- x" 1 d] True assms(1) by simp
  moreover have "0 \<le> (- x) div d" using True assms(1) by (simp add: pos_imp_zdiv_nonneg_iff)
  ultimately have "int32 (cdiv x d)" using assms(3) q by (simp add: int32_def INT_MAX_def)
  then have m: "imod x d = Some (- ((- x) mod d))"
    using assms(1) q by (simp add: imod_def idiv_def cint_int32 minus_mult_div_eq_mod [symmetric])
  have b: "0 \<le> (- x) mod d" "(- x) mod d < d" using assms(1) by simp_all
  have xm: "x mod d = (if (- x) mod d = 0 then 0 else d - (- x) mod d)" using zmod_zminus1_eq_if [of "- x" d] by simp
  have "int32 (d - (- x) mod d)" using b assms(1,2) unfolding int32_def by linarith
  then show ?thesis using True m xm assms(1) by (simp add: wrap_coord_def cint_int32)
next
  case False
  then show ?thesis using assms by (auto simp: wrap_coord_def imod_nonneg int32_def)
qed

fun wrap_all :: "int list \<Rightarrow> int list \<Rightarrow> int list \<Rightarrow> int list" where
  "wrap_all (p # ps) (d # ds) (x # xs) = (if p \<noteq> 0 then x mod d else x) # wrap_all ps ds xs"
| "wrap_all ps ds xs = []"

definition legal_coords :: "MPII_Cart_topology \<Rightarrow> int list \<Rightarrow> bool" where
  "legal_coords c xs \<longleftrightarrow> length (ca_dims c) \<le> length xs
     \<and> (\<forall>i<length (ca_dims c). int32 (xs ! i) \<and> (ca_periodic c ! i \<noteq> 0 \<or> 0 \<le> xs ! i \<and> xs ! i < ca_dims c ! i))"

lemma wrap_all_in_grid:
  assumes "pos_dims ds" "length ps = length ds" "length ds \<le> length xs"
    "\<forall>i<length ds. ps ! i \<noteq> 0 \<or> 0 \<le> xs ! i \<and> xs ! i < ds ! i"
  shows "in_grid ds (wrap_all ps ds xs)"
  using assms
proof (induction ps ds xs rule: wrap_all.induct)
  case (1 p ps d ds x xs)
  have "\<forall>i<length ds. ps ! i \<noteq> 0 \<or> 0 \<le> xs ! i \<and> xs ! i < ds ! i" using "1.prems"(4) by (metis Suc_less_eq length_Cons nth_Cons_Suc)
  moreover have "p \<noteq> 0 \<or> 0 \<le> x \<and> x < d" using "1.prems"(4) by (metis length_greater_0_conv list.distinct(1) nth_Cons_0)
  ultimately show ?case using 1 by auto
qed (auto simp: in_grid_def)

lemma cart_rank_walk:
  assumes "ca_dims c = pre @ ds" "ca_periodic c = ppre @ ps" "coords = xpre @ xs"
    "length ppre = length pre" "length xpre = length pre" "length ps = length ds" "length ds \<le> length xs"
    "prod_list ds \<le> INT_MAX" "in_grid ds (wrap_all ps ds xs)" "\<forall>x\<in>set (take (length ds) xs). int32 x"
  shows "ofold (cart_rank_step c coords) (rev [int (length pre)..int (length pre + length ds) - 1]) (0, 1)
    = Some (row_major ds (wrap_all ps ds xs), prod_list ds)"
  using assms
proof (induction ds arbitrary: pre ppre ps xpre xs)
  case (Cons d ds)
  obtain p ps' where ps: "ps = p # ps'" using Cons.prems(6) by (cases ps) simp_all
  obtain x xs' where xs: "xs = x # xs'" using Cons.prems(7) by (cases xs) simp_all
  let ?x = "if p \<noteq> 0 then x mod d else x" and ?r = "row_major ds (wrap_all ps' ds xs')"
  have g: "in_grid ds (wrap_all ps' ds xs')" and x: "0 \<le> ?x" "?x < d" using Cons.prems(9) by (simp_all only: ps xs wrap_all.simps in_grid_simps)
  have pd: "1 \<le> prod_list ds" using g in_grid_pos prod_pos by blast
  have r: "0 \<le> ?r" "?r < prod_list ds" using row_major_bound [OF g] by simp_all
  have le: "prod_list ds \<le> d * prod_list ds" "d \<le> d * prod_list ds" using x pd by (simp_all add: mult_le_cancel_right1 mult_le_cancel_left1)
  have le': "prod_list ds \<le> INT_MAX" "d \<le> INT_MAX" using le Cons.prems(8) unfolding prod_list.Cons by linarith+
  have "?x * prod_list ds \<le> d * prod_list ds - prod_list ds"
    using x pd mult_right_mono [of ?x "d - 1" "prod_list ds"] by (simp add: left_diff_distrib del: mult_le_cancel_right_pos)
  then have b: "0 \<le> prod_list ds * ?x" "prod_list ds * ?x + ?r < d * prod_list ds" "prod_list ds * ?x \<le> d * prod_list ds"
    using x pd r by (simp_all add: mult.commute)
  have c32: "cint (prod_list ds * ?x) = Some (prod_list ds * ?x)" "cint (?r + prod_list ds * ?x) = Some (prod_list ds * ?x + ?r)"
    "cint (prod_list ds * d) = Some (d * prod_list ds)"
    using b r Cons.prems(8) order_trans [OF b(1,3)] by (simp_all add: cint_def mult.commute add.commute)
  have IH: "ofold (cart_rank_step c coords) (rev [int (length (pre @ [d]))..int (length (pre @ [d]) + length ds) - 1]) (0, 1) = Some (?r, prod_list ds)"
    by (rule Cons.IH [of "pre @ [d]" "ppre @ [p]" ps' "xpre @ [x]" xs'])
       (use Cons.prems le' g in \<open>simp_all add: ps xs\<close>)
  have w: "wrap_coord p d x = Some ?x"
    by (rule wrap_coord_eq) (use x le' Cons.prems(10) in \<open>simp_all add: xs\<close>)
  have idx: "aget coords (int (length pre)) = Some x" "aget (ca_periodic c) (int (length pre)) = Some p" "aget (ca_dims c) (int (length pre)) = Some d"
    using Cons.prems by (simp_all add: aget_def ps xs nth_append)
  have "cart_rank_step c coords (int (length pre)) (?r, prod_list ds) = Some (prod_list ds * ?x + ?r, d * prod_list ds)"
    unfolding cart_rank_step_def prod.case idx Option.bind.bind_lunit w c32 ..
  then show ?case unfolding upto_pre rev.simps ofold_append IH by (simp add: ps xs mult.commute)
qed simp

lemma cart_rank_eq:
  assumes "cart_of comm = Some c" "cart_ok c" "legal_coords c coords"
  shows "MPIR_Cart_rank_impl comm coords = Some (Inr (row_major (ca_dims c) (wrap_all (ca_periodic c) (ca_dims c) coords)))"
    "in_grid (ca_dims c) (wrap_all (ca_periodic c) (ca_dims c) coords)"
proof -
  note ok = cart_okD [OF assms(2)]
  have l: "length (ca_dims c) \<le> length coords" "\<forall>i<length (ca_dims c). int32 (coords ! i)"
    "\<forall>i<length (ca_dims c). ca_periodic c ! i \<noteq> 0 \<or> 0 \<le> coords ! i \<and> coords ! i < ca_dims c ! i"
    using assms(3) by (auto simp: legal_coords_def)
  show g: "in_grid (ca_dims c) (wrap_all (ca_periodic c) (ca_dims c) coords)" by (rule wrap_all_in_grid [OF ok(2,3) l(1,3)])
  have "\<forall>x\<in>set (take (length (ca_dims c)) coords). int32 x" using l(1,2) by (auto simp: in_set_conv_nth)
  then have "ofold (cart_rank_step c coords) (rev [0..int (length (ca_dims c)) - 1]) (0, 1)
    = Some (row_major (ca_dims c) (wrap_all (ca_periodic c) (ca_dims c) coords), prod_list (ca_dims c))"
    using cart_rank_walk [of c "[]" "ca_dims c" "[]" "ca_periodic c" coords "[]" coords] ok l(1) g by simp
  then show "MPIR_Cart_rank_impl comm coords = Some (Inr (row_major (ca_dims c) (wrap_all (ca_periodic c) (ca_dims c) coords)))"
    using assms(1) ok(1) by (simp add: MPIR_Cart_rank_impl_def)
qed

lemma dim_le_prod: "pos_dims ds \<Longrightarrow> d \<in> set ds \<Longrightarrow> d \<le> prod_list ds"
proof (induction ds)
  case (Cons e ds)
  have p: "1 \<le> prod_list ds" "1 \<le> e" using Cons.prems(1) prod_pos by simp_all
  then have "e \<le> e * prod_list ds" "prod_list ds \<le> e * prod_list ds" by (simp_all add: mult_le_cancel_left1 mult_le_cancel_right1)
  moreover have "d = e \<or> d \<le> prod_list ds" using Cons by auto
  ultimately have "d \<le> e * prod_list ds" by linarith
  then show ?case by simp
qed simp

lemma wrap_all_in: "in_grid ds cs \<Longrightarrow> length ps = length ds \<Longrightarrow> wrap_all ps ds (cs @ extra) = cs"
  by (induction ps ds cs rule: wrap_all.induct) auto

lemma in_grid_legal:
  assumes "cart_ok c" "in_grid (ca_dims c) cs"
  shows "legal_coords c (cs @ extra)"
proof -
  have "ca_dims c ! i \<le> INT_MAX" if "i < length (ca_dims c)" for i
    using dim_le_prod [OF cart_okD(2) [OF assms(1)] nth_mem [OF that]] cart_okD(5) [OF assms(1)] by simp
  then show ?thesis using assms(2) in_grid_length [OF assms(2)]
    by (fastforce simp: legal_coords_def int32_def in_grid_def list_all2_conv_all_nth nth_append)
qed

section \<open>Copies\<close>

lemma copy_out_eq:
  assumes "length vals = n" "n \<le> length buf"
  shows "copy_out (int n) vals buf = Some (vals @ drop n buf)"
proof -
  have "\<exists>s'. ofold (\<lambda>i buf. do { v \<leftarrow> aget vals i; aset buf i v }) [0..int n - 1] buf = Some s' \<and> s' = take (nat (int n)) vals @ drop (nat (int n)) buf"
  proof (rule ofold_upto)
    fix i s assume i: "0 \<le> i" "i < int n" and s: "s = take (nat i) vals @ drop (nat i) buf"
    have ni: "nat i < length vals" "nat i < length buf" "nat (i + 1) = Suc (nat i)" using i assms by simp_all
    have "s[nat i := vals ! nat i] = take (nat (i + 1)) vals @ drop (nat (i + 1)) buf"
      using ni by (simp add: s list_update_append take_Suc_conv_app_nth Cons_nth_drop_Suc [symmetric])
    then show "\<exists>s'. (do { v \<leftarrow> aget vals i; aset s i v }) = Some s' \<and> s' = take (nat (i + 1)) vals @ drop (nat (i + 1)) buf"
      using i ni assms by (simp add: aget_def aset_def s)
  qed simp_all
  then show ?thesis using assms by (simp add: copy_out_def)
qed

lemma copy_out_short: "int (length buf) < n \<Longrightarrow> copy_out n vals buf = None"
proof -
  assume n: "int (length buf) < n"
  have len: "ofold (\<lambda>i buf. do { v \<leftarrow> aget vals i; aset buf i v }) is b = Some b' \<Longrightarrow> length b' = length b" for "is" b b'
    by (induction "is" arbitrary: b) (auto simp: aset_def split: Option.bind_splits if_splits)
  have "[0..n - 1] = [0..int (length buf) - 1] @ [int (length buf)..n - 1]" using n upto_split1 [of 0 "int (length buf)" "n - 1"] by simp
  also have "\<dots> = [0..int (length buf) - 1] @ int (length buf) # [int (length buf) + 1..n - 1]" using n by (subst (2) upto_rec1) simp_all
  finally have split: "[0..n - 1] = [0..int (length buf) - 1] @ int (length buf) # [int (length buf) + 1..n - 1]" .
  show ?thesis
  proof (cases "ofold (\<lambda>i buf. do { v \<leftarrow> aget vals i; aset buf i v }) [0..int (length buf) - 1] buf")
    case (Some b)
    then have "aset b (int (length buf)) v = None" for v using len [OF Some] by (simp add: aset_def)
    then show ?thesis using Some by (cases "aget vals (int (length buf))") (simp_all add: copy_out_def split ofold_append)
  qed (simp add: copy_out_def split ofold_append)
qed

section \<open>The product of the dimensions\<close>

lemma dims_product_walk:
  assumes "pos_dims ds" "1 \<le> n0" "n0 * prod_list ds \<le> INT_MAX"
  shows "dims_product (pre @ ds) [int (length pre)..int (length pre + length ds) - 1] n0 = Some (n0 * prod_list ds)"
  using assms
proof (induction ds arbitrary: pre n0)
  case (Cons d ds)
  have p: "1 \<le> prod_list ds" using Cons.prems(1) prod_pos by simp
  have n: "1 \<le> n0 * d" using Cons.prems(1,2) mult_mono [of 1 n0 1 d] by simp
  have "n0 * d \<le> n0 * d * prod_list ds" using n p by (simp add: mult_le_cancel_left1)
  then have c: "cint (n0 * d) = Some (n0 * d)" using n Cons.prems(3) by (simp add: cint_def mult.assoc)
  have "dims_product ((pre @ [d]) @ ds) [int (length (pre @ [d]))..int (length (pre @ [d]) + length ds) - 1] (n0 * d) = Some (n0 * d * prod_list ds)"
    by (rule Cons.IH) (use Cons.prems n in \<open>simp_all add: mult.assoc\<close>)
  then show ?case unfolding upto_pre by (simp add: dims_product_def aget_def nth_append c mult.assoc)
qed (simp add: dims_product_def)

lemma dims_product_eq:
  "pos_dims dims \<Longrightarrow> prod_list dims \<le> INT_MAX \<Longrightarrow> dims_product dims [0..int (length dims) - 1] 1 = Some (prod_list dims)"
  using dims_product_walk [of dims 1 "[]"] by simp

end
