(* ===== verification/Split_Sort.thy ===== *)
theory Split_Sort
  imports Comm_Split
begin

text \<open>
  The two sorts of \<open>MPIU_Sort_inttable\<close> and the lists threaded through the table of colors: the
  insertion sort and \<open>qsort\<close> with the original indices both give the stable sort by key, and the walk
  over the links visits the ranks of one color in increasing order.
\<close>

section \<open>Stable sorting by a key\<close>

lemma sort_key_snoc:
  "sort_key f (xs @ [x]) = takeWhile (\<lambda>y. f y \<le> f x) (sort_key f xs) @ x # dropWhile (\<lambda>y. f y \<le> f x) (sort_key f xs)"
    (is "_ = ?a @ x # ?b")
proof (rule properties_for_sort_key)
  have split: "sort_key f xs = ?a @ ?b" by simp
  have ab: "\<forall>y\<in>set ?b. f x < f y"
  proof
    fix y assume y: "y \<in> set ?b"
    then have ne: "?b \<noteq> []" by (cases ?b) simp_all
    then have h: "f x < f (List.hd ?b)" using hd_dropWhile [of "\<lambda>y. f y \<le> f x" "sort_key f xs"] by auto
    have "sorted (map f ?b)" by (rule sorted_wrt_dropWhile [OF sorted_sort_key [of f xs], unfolded dropWhile_map o_def])
    then have "f (List.hd ?b) \<le> f y" using y ne by (cases ?b) auto
    then show "f x < f y" using h by simp
  qed
  show "mset (?a @ x # ?b) = mset (xs @ [x])"
    using mset_append [of ?a ?b] by simp
  show "filter (\<lambda>y. f k = f y) (?a @ x # ?b) = filter (\<lambda>y. f k = f y) (xs @ [x])" for k
  proof -
    have f: "filter (\<lambda>y. f k = f y) xs = filter (\<lambda>y. f k = f y) ?a @ filter (\<lambda>y. f k = f y) ?b"
      using sort_key_stable [of f "f k" xs] filter_append [of "\<lambda>y. f k = f y" ?a ?b] by (simp add: eq_commute)
    have e: "filter (\<lambda>y. f k = f y) ?b = []" if "f k = f x"
      using ab that by (auto simp: filter_empty_conv)
    show ?thesis using f e by simp
  qed
  show "sorted (map f (?a @ x # ?b))"
  proof -
    have s: "sorted (map f ?a)" "sorted (map f ?b)"
      by (rule sorted_wrt_takeWhile [OF sorted_sort_key [of f xs], unfolded takeWhile_map o_def],
          rule sorted_wrt_dropWhile [OF sorted_sort_key [of f xs], unfolded dropWhile_map o_def])
    have "\<forall>y\<in>set ?a. f y \<le> f x" by (auto dest: set_takeWhileD)
    then show ?thesis using s ab by (auto simp: sorted_append less_imp_le intro: order_trans [OF _ less_imp_le])
  qed
qed

section \<open>The insertion sort\<close>

lemma nth_hole: "(xs @ h # ys) ! length xs = h" "(xs @ h # ys)[length xs := z] = xs @ z # ys"
  by simp_all

lemma shift_loop_correct:
  assumes "xs \<noteq> []" "sorted (map so_key xs)"
  shows "\<exists>h'. shift_loop tmp (int (length xs) - 1) (xs @ h # ys) =
    Some (takeWhile (\<lambda>e. so_key e \<le> so_key tmp) xs @ h' # dropWhile (\<lambda>e. so_key e \<le> so_key tmp) xs @ ys,
      int (length (takeWhile (\<lambda>e. so_key e \<le> so_key tmp) xs)) - 1)"
  using assms
proof (induction xs arbitrary: h ys rule: rev_induct)
  case (snoc e xs)
  have g: "aget (xs @ e # h # ys) (int (length xs)) = Some e" by (simp add: aget_def)
  have s: "aset (xs @ e # h # ys) (int (length xs) + 1) e = Some (xs @ e # e # ys)"
    using nth_hole(2) [of "xs @ [e]" h ys e] by (simp add: aset_def nat_add_distrib)
  show ?case
  proof (cases "so_key e > so_key tmp")
    case False
    then have "\<forall>y\<in>set (xs @ [e]). so_key y \<le> so_key tmp" using snoc.prems(2) by (auto simp: sorted_append intro: order_trans)
    then have "takeWhile (\<lambda>e. so_key e \<le> so_key tmp) (xs @ [e]) = xs @ [e]" "dropWhile (\<lambda>e. so_key e \<le> so_key tmp) (xs @ [e]) = []"
      by (simp_all add: takeWhile_eq_all_conv del: takeWhile_append dropWhile_append)
    then show ?thesis using False by (subst shift_loop.simps) (simp add: g del: takeWhile_append dropWhile_append)
  next
    case True
    then have td: "takeWhile (\<lambda>e. so_key e \<le> so_key tmp) (xs @ [e]) = takeWhile (\<lambda>e. so_key e \<le> so_key tmp) xs"
      "dropWhile (\<lambda>e. so_key e \<le> so_key tmp) (xs @ [e]) = dropWhile (\<lambda>e. so_key e \<le> so_key tmp) xs @ [e]"
      by (simp_all add: takeWhile_tail dropWhile_append3 not_le)
    show ?thesis
    proof (cases "xs = []")
      case True
      then show ?thesis using \<open>so_key e > so_key tmp\<close> g s by (subst shift_loop.simps) (simp add: ac_simps)
    next
      case False
      then obtain h' where "shift_loop tmp (int (length xs) - 1) (xs @ e # e # ys) =
        Some (takeWhile (\<lambda>e. so_key e \<le> so_key tmp) xs @ h' # dropWhile (\<lambda>e. so_key e \<le> so_key tmp) xs @ e # ys,
          int (length (takeWhile (\<lambda>e. so_key e \<le> so_key tmp) xs)) - 1)"
        using snoc.IH [of e "e # ys"] snoc.prems(2) by (auto simp: sorted_append)
      then show ?thesis using True False g s
        by (subst shift_loop.simps) (simp add: td ac_simps)
    qed
  qed
qed simp

lemma insert_step_correct:
  assumes "xs \<noteq> []" "sorted (map so_key xs)"
  shows "insert_step (int (length xs)) (xs @ tmp # ys) =
    Some (takeWhile (\<lambda>e. so_key e \<le> so_key tmp) xs @ tmp # dropWhile (\<lambda>e. so_key e \<le> so_key tmp) xs @ ys)"
proof -
  obtain h' where "shift_loop tmp (int (length xs) - 1) (xs @ tmp # ys) =
    Some (takeWhile (\<lambda>e. so_key e \<le> so_key tmp) xs @ h' # dropWhile (\<lambda>e. so_key e \<le> so_key tmp) xs @ ys,
      int (length (takeWhile (\<lambda>e. so_key e \<le> so_key tmp) xs)) - 1)"
    using shift_loop_correct [OF assms] by blast
  then show ?thesis by (simp add: insert_step_def aget_def aset_def nth_hole)
qed

lemma insertion_sort_correct: "ofold insert_step [1..int (length kt) - 1] kt = Some (sort_key so_key kt)"
proof (cases "kt = []")
  case False
  have "\<exists>s'. ofold insert_step [1..int (length kt) - 1] kt = Some s'
    \<and> s' = sort_key so_key (take (nat (int (length kt))) kt) @ drop (nat (int (length kt))) kt"
  proof (rule ofold_upto)
    show "1 \<le> int (length kt)" using False by (cases kt) simp_all
    show "kt = sort_key so_key (take (nat 1) kt) @ drop (nat 1) kt" using False by (cases kt) simp_all
  next
    fix i s assume i: "1 \<le> i" "i < int (length kt)" and s: "s = sort_key so_key (take (nat i) kt) @ drop (nat i) kt"
    let ?xs = "sort_key so_key (take (nat i) kt)"
    have len: "length ?xs = nat i" using i by simp
    have d: "drop (nat i) kt = kt ! nat i # drop (nat (i + 1)) kt"
      using i by (simp add: Cons_nth_drop_Suc nat_add_distrib)
    have "insert_step i s = Some (takeWhile (\<lambda>e. so_key e \<le> so_key (kt ! nat i)) ?xs @ kt ! nat i
      # dropWhile (\<lambda>e. so_key e \<le> so_key (kt ! nat i)) ?xs @ drop (nat (i + 1)) kt)"
      using insert_step_correct [of ?xs "kt ! nat i" "drop (nat (i + 1)) kt"] len i
      by (simp add: s d flip: length_0_conv)
    moreover have "take (nat (i + 1)) kt = take (nat i) kt @ [kt ! nat i]"
      using i by (simp add: nat_add_distrib take_Suc_conv_app_nth)
    ultimately show "\<exists>s'. insert_step i s = Some s' \<and> s' = sort_key so_key (take (nat (i + 1)) kt) @ drop (nat (i + 1)) kt"
      by (simp add: sort_key_snoc)
  qed
  then show ?thesis by simp
qed simp

section \<open>qsort with the original indices\<close>

text \<open>What the C library promises of \<open>qsort\<close>: a permutation of the table in the order of the comparison.
  It says nothing of entries that compare equal.\<close>

definition qsort_contract :: "(sorttype list \<Rightarrow> sorttype list) \<Rightarrow> bool" where
  "qsort_contract qs \<longleftrightarrow> (\<forall>t. mset (qs t) = mset t \<and> sorted_wrt (\<lambda>a b. sorttype_compare a b \<le> 0) (qs t))"

lemma compare_le: "sorttype_compare a b \<le> 0 \<longleftrightarrow> so_key a < so_key b \<or> so_key a = so_key b \<and> so_orig_idx a \<le> so_orig_idx b"
  by (simp add: sorttype_compare_def)

lemma index_loop: "ofold index_step [0..int (length kt) - 1] kt = Some (map (\<lambda>i. (kt ! i)\<lparr>so_orig_idx := int i\<rparr>) [0..<length kt])"
proof -
  have "\<exists>s'. ofold index_step [0..int (length kt) - 1] kt = Some s'
    \<and> s' = map (\<lambda>i. (kt ! i)\<lparr>so_orig_idx := int i\<rparr>) [0..<nat (int (length kt))] @ drop (nat (int (length kt))) kt"
  proof (rule ofold_upto)
    fix i s assume i: "0 \<le> i" "i < int (length kt)"
      and s: "s = map (\<lambda>i. (kt ! i)\<lparr>so_orig_idx := int i\<rparr>) [0..<nat i] @ drop (nat i) kt"
    have d: "drop (nat i) kt = kt ! nat i # drop (nat (i + 1)) kt"
      using i by (simp add: Cons_nth_drop_Suc nat_add_distrib)
    let ?xs = "map (\<lambda>i. (kt ! i)\<lparr>so_orig_idx := int i\<rparr>) [0..<nat i]"
    have len: "int (length ?xs) = i" using i by simp
    have s': "s = ?xs @ kt ! nat i # drop (nat (i + 1)) kt" by (simp only: s d)
    have "index_step (int (length ?xs)) s = Some (?xs @ (kt ! nat i)\<lparr>so_orig_idx := int (length ?xs)\<rparr> # drop (nat (i + 1)) kt)"
      by (simp add: index_step_def s' aget_def aset_def nth_hole nth_append list_update_append)
    moreover have "map (\<lambda>i. (kt ! i)\<lparr>so_orig_idx := int i\<rparr>) [0..<nat (i + 1)] = ?xs @ [(kt ! nat i)\<lparr>so_orig_idx := i\<rparr>]"
      using i by (simp add: nat_add_distrib)
    ultimately show "\<exists>s'. index_step i s = Some s' \<and> s' = map (\<lambda>i. (kt ! i)\<lparr>so_orig_idx := int i\<rparr>) [0..<nat (i + 1)] @ drop (nat (i + 1)) kt"
      unfolding len by simp
  qed simp_all
  then show ?thesis by simp
qed

lemma qsort_is_stable:
  assumes "qsort_contract qs" "sorted_wrt (<) (map so_orig_idx kt)"
  shows "qs kt = sort_key so_key kt"
proof (rule properties_for_sort_key [symmetric])
  have m: "mset (qs kt) = mset kt" and s: "sorted_wrt (\<lambda>a b. sorttype_compare a b \<le> 0) (qs kt)"
    using assms(1) by (auto simp: qsort_contract_def)
  have d: "distinct (map so_orig_idx kt)" using assms(2) strict_sorted_iff by blast
  have d': "distinct (map so_orig_idx (qs kt))"
    using d m mset_eq_imp_distinct_iff [of "map so_orig_idx (qs kt)" "map so_orig_idx kt"] by simp
  show "mset (qs kt) = mset kt" by (rule m)
  show "sorted (map so_key (qs kt))"
    using s by (auto simp: sorted_wrt_map compare_le elim!: sorted_wrt_mono_rel [rotated])
  fix k
  show "filter (\<lambda>x. so_key k = so_key x) (qs kt) = filter (\<lambda>x. so_key k = so_key x) kt"
  proof (rule map_sorted_distinct_set_unique)
    show "inj_on so_orig_idx (set (filter (\<lambda>x. so_key k = so_key x) (qs kt)) \<union> set (filter (\<lambda>x. so_key k = so_key x) kt))"
      using d mset_eq_setD [OF m] by (auto simp: distinct_map intro: inj_on_subset)
    have "sorted_wrt (\<lambda>a b. sorttype_compare a b \<le> 0) (filter (\<lambda>x. so_key k = so_key x) (qs kt))"
      by (rule sorted_wrt_filter [OF s])
    then have "sorted_wrt (\<lambda>a b. so_orig_idx a \<le> so_orig_idx b) (filter (\<lambda>x. so_key k = so_key x) (qs kt))"
      by (rule sorted_wrt_mono_rel [rotated]) (auto simp: compare_le)
    then show "sorted (map so_orig_idx (filter (\<lambda>x. so_key k = so_key x) (qs kt)))" by (simp add: sorted_wrt_map)
    have "sorted_wrt (\<lambda>a b. so_orig_idx a < so_orig_idx b) (filter (\<lambda>x. so_key k = so_key x) kt)"
      by (rule sorted_wrt_filter) (use assms(2) in \<open>simp add: sorted_wrt_map\<close>)
    then show "sorted (map so_orig_idx (filter (\<lambda>x. so_key k = so_key x) kt))"
      unfolding sorted_wrt_map by (rule sorted_wrt_mono_rel [rotated]) simp
    show "distinct (map so_orig_idx (filter (\<lambda>x. so_key k = so_key x) (qs kt)))" using d' by (rule distinct_map_filter)
    show "distinct (map so_orig_idx (filter (\<lambda>x. so_key k = so_key x) kt))" using d by (rule distinct_map_filter)
    show "set (filter (\<lambda>x. so_key k = so_key x) (qs kt)) = set (filter (\<lambda>x. so_key k = so_key x) kt)"
      using mset_eq_setD [OF m] by simp
  qed
qed

lemma sort_key_map: "sort_key f (map g xs) = map g (sort_key (\<lambda>x. f (g x)) xs)"
proof (induction xs)
  case (Cons x xs)
  have "insort_key f (g x) (map g ys) = map g (insort_key (\<lambda>x. f (g x)) x ys)" for ys
    by (induction ys) simp_all
  then show ?case using Cons.IH by simp
qed simp

lemma sort_inttable_correct:
  assumes "ce_use_qsort env \<Longrightarrow> qsort_contract (ce_qsort env)"
  shows "\<exists>kt'. MPIU_Sort_inttable env kt (int (length kt)) = Some kt' \<and> map so_color kt' = map so_color (sort_key so_key kt)"
proof (cases "ce_use_qsort env")
  case True
  let ?u = "\<lambda>i. (kt ! i)\<lparr>so_orig_idx := int i\<rparr>"
  have "sorted_wrt (<) (map so_orig_idx (map ?u [0..<length kt]))"
    by (simp add: comp_def sorted_wrt_map sorted_wrt_upt)
  then have "MPIU_Sort_inttable env kt (int (length kt)) = Some (map ?u (sort_key (\<lambda>i. so_key (kt ! i)) [0..<length kt]))"
    using qsort_is_stable [OF assms [OF True]] True by (simp add: MPIU_Sort_inttable_def index_loop sort_key_map)
  moreover have "sort_key so_key kt = map ((!) kt) (sort_key (\<lambda>i. so_key (kt ! i)) [0..<length kt])"
    using sort_key_map [of so_key "(!) kt" "[0..<length kt]"] by (simp add: map_nth)
  ultimately show ?thesis by (simp add: comp_def)
next
  case False
  then show ?thesis by (simp add: MPIU_Sort_inttable_def insertion_sort_correct)
qed

section \<open>The links through the color fields\<close>

definition color_ranks :: "int \<Rightarrow> splittype list \<Rightarrow> nat list" where
  "color_ranks color table = filter (\<lambda>r. st_color (table ! r) = color) [0..<length table]"

fun color_chain :: "int \<Rightarrow> splittype list \<Rightarrow> nat list \<Rightarrow> bool" where
  "color_chain first table [] = True"
| "color_chain first table [m] = (first = int m)"
| "color_chain first table (m # ms) = (first = int m \<and> color_chain (st_color (table ! m)) table ms)"

lemma chain_snoc:
  assumes "color_chain first table ms" "ms \<noteq> []" "distinct ms" "\<forall>m\<in>set ms. m < length table"
  shows "color_chain first (table[last ms := (table ! last ms)\<lparr>st_color := int i\<rparr>]) (ms @ [i])"
  using assms
proof (induction first table ms rule: color_chain.induct)
  case (3 first table m m' ms)
  then have "last (m' # ms) \<noteq> m" using last_in_set [of "m' # ms"] by (metis distinct.simps(2) list.distinct(1))
  then show ?case using 3 by (cases ms) simp_all
qed simp_all

definition link_inv :: "int \<Rightarrow> splittype list \<Rightarrow> int \<Rightarrow> link_state \<Rightarrow> bool" where
  "link_inv color table i = (\<lambda>(new_size, first, tb, last_ptr).
     let ms = color_ranks color (take (nat i) table) in
     new_size = int (length ms) \<and> length tb = length table
     \<and> (\<forall>r<length table. st_key (tb ! r) = st_key (table ! r))
     \<and> (\<forall>r<length table. nat i \<le> r \<longrightarrow> tb ! r = table ! r)
     \<and> last_ptr = (if ms = [] then None else Some (int (last ms))) \<and> color_chain first tb ms)"

lemma color_ranks_step:
  assumes "0 \<le> i" "i < int (length table)"
  shows "color_ranks color (take (nat (i + 1)) table) =
    color_ranks color (take (nat i) table) @ (if st_color (table ! nat i) = color then [nat i] else [])"
proof -
  have "nat (i + 1) = Suc (nat i)" "nat i < length table" using assms by simp_all
  moreover from this have "filter (\<lambda>r. st_color (take (Suc (nat i)) table ! r) = color) [0..<nat i]
    = filter (\<lambda>r. st_color (take (nat i) table ! r) = color) [0..<nat i]" by (intro filter_cong) simp_all
  ultimately show ?thesis by (simp add: color_ranks_def min_absorb2)
qed

lemma color_ranks_take: "m \<in> set (color_ranks color (take k table)) \<Longrightarrow> m < k \<and> m < length table"
  by (simp add: color_ranks_def)

lemma link_step_inv:
  assumes i: "0 \<le> i" "i < int (length table)" and inv: "link_inv color table i (k, first, tb, lp)"
  shows "\<exists>s'. link_step color i (k, first, tb, lp) = Some s' \<and> link_inv color table (i + 1) s'"
proof -
  define ms where "ms = color_ranks color (take (nat i) table)"
  have I: "k = int (length ms)" "length tb = length table" "\<forall>r<length table. st_key (tb ! r) = st_key (table ! r)"
    "\<forall>r<length table. nat i \<le> r \<longrightarrow> tb ! r = table ! r" "lp = (if ms = [] then None else Some (int (last ms)))" "color_chain first tb ms"
    using inv by (simp_all add: link_inv_def Let_def ms_def)
  have msi: "color_ranks color (take (nat (i + 1)) table) = ms @ (if st_color (table ! nat i) = color then [nat i] else [])"
    using color_ranks_step [OF i] by (simp add: ms_def)
  have tbi: "tb ! nat i = table ! nat i" using I(4) i by (simp add: nat_less_iff)
  have lt: "m < nat i \<and> m < length table" if "m \<in> set ms" for m using color_ranks_take that by (auto simp: ms_def)
  show ?thesis
  proof (cases "st_color (table ! nat i) = color \<and> ms \<noteq> []")
    case True
    let ?k = "last ms"
    let ?tb = "tb[?k := (tb ! ?k)\<lparr>st_color := i\<rparr>]"
    have k: "?k < nat i" "?k < length table" using lt [of ?k] True by simp_all
    have "link_step color i (k, first, tb, lp) = Some (k + 1, first, ?tb, Some i)"
      using True I(2,5) k i tbi by (simp add: link_step_def aget_def aset_def)
    moreover have "\<forall>r<length table. st_key (?tb ! r) = st_key (table ! r)" using I(2,3) k by (simp add: nth_list_update)
    moreover have "\<forall>r<length table. nat (i + 1) \<le> r \<longrightarrow> ?tb ! r = table ! r" using I(2,4) k i by (simp add: nth_list_update)
    moreover have "color_chain first ?tb (ms @ [nat i])"
    proof -
      have "distinct ms" by (simp add: ms_def color_ranks_def)
      then show ?thesis using chain_snoc [OF I(6), of "nat i"] True lt I(2) i by simp
    qed
    ultimately show ?thesis using True I(1,2) i by (simp add: link_inv_def msi)
  next
    case False
    then show ?thesis using I i tbi by (auto simp: link_step_def aget_def link_inv_def msi)
  qed
qed

lemma link_colors_correct:
  "\<exists>first table'. link_colors color (int (length table)) table = Some (int (length (color_ranks color table)), first, table')
    \<and> length table' = length table \<and> (\<forall>r<length table. st_key (table' ! r) = st_key (table ! r))
    \<and> color_chain first table' (color_ranks color table)"
proof -
  have "\<exists>s'. ofold (link_step color) [0..int (length table) - 1] (0, 0, table, None) = Some s' \<and> link_inv color table (int (length table)) s'"
  proof (rule ofold_upto)
    show "link_inv color table 0 (0, 0, table, None)" by (simp add: link_inv_def color_ranks_def)
  next
    fix i s assume "0 \<le> i" "i < int (length table)" "link_inv color table i s"
    then show "\<exists>s'. link_step color i s = Some s' \<and> link_inv color table (i + 1) s'" by (cases s) (use link_step_inv in blast)
  qed simp
  then show ?thesis by (auto simp: link_colors_def link_inv_def Let_def)
qed

lemma keytable_walk:
  assumes "color_chain first table ms" "\<forall>m\<in>set ms. m < length table"
  shows "\<exists>first'. ofold (keytable_step table) [a..a + int (length ms) - 1] (kt, first) =
    Some (kt @ map (\<lambda>m. \<lparr>so_color = int m, so_key = st_key (table ! m), so_orig_idx = 0\<rparr>) ms, first')"
  using assms
proof (induction first table ms arbitrary: a kt rule: color_chain.induct)
  case (2 first table m)
  then show ?case by (simp add: keytable_step_def aget_def)
next
  case (3 first table m m' ms)
  let ?f = "\<lambda>m. \<lparr>so_color = int m, so_key = st_key (table ! m), so_orig_idx = 0\<rparr>"
  have "[a..a + int (length (m # m' # ms)) - 1] = a # [a + 1..a + 1 + int (length (m' # ms)) - 1]"
    by (subst upto_rec1) (simp_all add: algebra_simps)
  moreover have "keytable_step table a (kt, first) = Some (kt @ [?f m], st_color (table ! m))"
    using "3.prems" by (simp add: keytable_step_def aget_def)
  moreover obtain first' where "ofold (keytable_step table) [a + 1..a + 1 + int (length (m' # ms)) - 1] (kt @ [?f m], st_color (table ! m)) =
      Some ((kt @ [?f m]) @ map ?f (m' # ms), first')"
    using "3.IH" [of "a + 1" "kt @ [?f m]"] "3.prems" by auto
  ultimately show ?case by simp
qed simp

text \<open>The table of keys of one color, sorted: the ranks of that color in the order of key and rank.\<close>

definition split_members :: "int \<Rightarrow> splittype list \<Rightarrow> nat list" where
  "split_members color table = sort_key (\<lambda>r. st_key (table ! r)) (color_ranks color table)"

lemma sorted_members_correct:
  assumes "ce_use_qsort env \<Longrightarrow> qsort_contract (ce_qsort env)"
    "length table' = length table" "\<forall>r<length table. st_key (table' ! r) = st_key (table ! r)"
    "color_chain first table' (color_ranks color table)"
  shows "\<exists>kt. sorted_members env table' (int (length (color_ranks color table))) first = Some kt
    \<and> map so_color kt = map int (split_members color table)"
proof -
  let ?ms = "color_ranks color table"
  let ?f = "\<lambda>m. \<lparr>so_color = int m, so_key = st_key (table ! m), so_orig_idx = 0\<rparr>"
  have lt: "\<forall>m\<in>set ?ms. m < length table'" by (simp add: color_ranks_def assms(2))
  have "map (\<lambda>m. \<lparr>so_color = int m, so_key = st_key (table' ! m), so_orig_idx = 0\<rparr>) ?ms = map ?f ?ms"
    using lt assms(2,3) by (intro map_cong) simp_all
  then have "fill_keytable table' (int (length ?ms)) first = Some (map ?f ?ms)"
    using keytable_walk [OF assms(4) lt, of 0 "[]"] by (auto simp: fill_keytable_def)
  moreover obtain kt where "MPIU_Sort_inttable env (map ?f ?ms) (int (length (map ?f ?ms))) = Some kt"
    "map so_color kt = map so_color (sort_key so_key (map ?f ?ms))"
    using sort_inttable_correct [OF assms(1)] by blast
  ultimately show ?thesis by (simp add: sorted_members_def split_members_def sort_key_map comp_def)
qed

end
