(* ===== verification/Split_Theorems.thy ===== *)
theory Split_Theorems
  imports Split_Sort
begin

text \<open>
  What \<open>MPIR_Comm_split_impl\<close>, \<open>MPII_Comm_copy\<close> and \<open>MPII_Comm_dup\<close> give to each process: the
  members of the new communicator, their order, and the rank of the caller.
\<close>

section \<open>The order of the members\<close>

lemma sort_key_lex:
  fixes f :: "nat \<Rightarrow> int"
  assumes "sorted_wrt (<) xs"
  shows "sorted_wrt (\<lambda>a b. f a < f b \<or> f a = f b \<and> a < b) (sort_key f xs)"
  using assms
proof (induction xs)
  case (Cons x xs)
  have "sorted_wrt (\<lambda>a b. f a < f b \<or> f a = f b \<and> a < b) (insort_key f x ys)"
    if "sorted_wrt (\<lambda>a b. f a < f b \<or> f a = f b \<and> a < b) ys" "\<forall>y\<in>set ys. x < y" for ys
    using that
  proof (induction ys)
    case (Cons y ys)
    have "f x < f z \<or> f x = f z \<and> x < z" if "f x \<le> f y" "z \<in> set ys" for z
      using that Cons.prems by (fastforce intro: order.strict_trans1)
    then show ?case using Cons by (auto simp: set_insort_key)
  qed simp
  then show ?case using Cons by simp
qed simp

lemma members_spec:
  "set (split_members color table) = {q. q < length table \<and> st_color (table ! q) = color}"
  "distinct (split_members color table)"
  "sorted_wrt (\<lambda>a b. st_key (table ! a) < st_key (table ! b) \<or> st_key (table ! a) = st_key (table ! b) \<and> a < b) (split_members color table)"
proof -
  show "set (split_members color table) = {q. q < length table \<and> st_color (table ! q) = color}"
    by (auto simp: split_members_def color_ranks_def)
  show "distinct (split_members color table)" by (simp add: split_members_def color_ranks_def)
  have "sorted_wrt (<) (color_ranks color table)" by (simp add: color_ranks_def sorted_wrt_filter)
  then show "sorted_wrt (\<lambda>a b. st_key (table ! a) < st_key (table ! b) \<or> st_key (table ! a) = st_key (table ! b) \<and> a < b) (split_members color table)"
    unfolding split_members_def by (rule sort_key_lex)
qed

lemma length_members: "length (split_members color table) = length (color_ranks color table)"
  by (simp add: split_members_def)

section \<open>The new communicator\<close>

lemma rank_walk:
  assumes "distinct (map so_color kt)" "k < length kt" "so_color (kt ! k) = rank"
  shows "ofold (rank_step rank kt) [0..int (length kt) - 1] ([], rank0) = Some (map so_color kt, int k)"
proof -
  have "\<exists>s'. ofold (rank_step rank kt) [0..int (length kt) - 1] ([], rank0) = Some s'
    \<and> s' = (map so_color (take (nat (int (length kt))) kt), if int k < int (length kt) then int k else rank0)"
  proof (rule ofold_upto)
    fix i s assume i: "0 \<le> i" "i < int (length kt)" and s: "s = (map so_color (take (nat i) kt), if int k < i then int k else rank0)"
    have ni: "nat i < length kt" using i by simp
    have "so_color (kt ! nat i) = rank \<longleftrightarrow> nat i = k"
      using nth_eq_iff_index_eq [OF assms(1), of "nat i" k] ni assms(2,3) by simp
    moreover have "take (nat (i + 1)) kt = take (nat i) kt @ [kt ! nat i]"
      using i ni by (simp add: nat_add_distrib take_Suc_conv_app_nth)
    ultimately show "\<exists>s'. rank_step rank kt i s = Some s' \<and> s' = (map so_color (take (nat (i + 1)) kt), if int k < i + 1 then int k else rank0)"
      using i by (auto simp: rank_step_def s aget_def)
  qed simp_all
  then show ?thesis using assms(2) by simp
qed

definition split_comm :: "'t MPIR_Comm \<Rightarrow> nat list \<Rightarrow> nat list \<Rightarrow> int \<Rightarrow> int \<Rightarrow> int \<Rightarrow> 't MPIR_Comm" where
  "split_comm comm ms rs rank cid rcid = (MPII_Comm_init rank)\<lparr>cm_recvcontext_id := cid, cm_local_size := int (length ms),
     cm_kind := cm_kind comm, cm_session := cm_session comm, cm_local_map := map int ms,
     cm_errhandler := cm_errhandler comm, cm_tainted := cm_tainted comm,
     cm_remote_map := (if cm_kind comm = INTERCOMM then map int rs else []),
     cm_context_id := (if cm_kind comm = INTERCOMM then rcid else cid),
     cm_remote_size := (if cm_kind comm = INTERCOMM then int (length rs) else int (length ms)),
     cm_is_low_group := (if cm_kind comm = INTERCOMM then cm_is_low_group comm else False)\<rparr>"

lemma split_create_correct:
  assumes q: "ce_use_qsort env \<Longrightarrow> qsort_contract (ce_qsort env)"
    and t: "length tb = length table" "\<forall>r<length table. st_key (tb ! r) = st_key (table ! r)" "color_chain first tb (color_ranks color table)"
    and k: "k < length (split_members color table)" "split_members color table ! k = r" "cm_rank comm = int r"
    and rt: "cm_kind comm = INTERCOMM \<Longrightarrow>
      length rtb = length rtable \<and> (\<forall>r<length rtable. st_key (rtb ! r) = st_key (rtable ! r)) \<and> color_chain rfirst rtb (color_ranks color rtable)"
  shows "split_create env comm rank0 (int (length (color_ranks color table)), first, tb)
      (int (length (color_ranks color rtable)), rfirst, rtb) cid rcid
    = Some (split_comm comm (split_members color table) (split_members color rtable) (int k) cid rcid)"
proof -
  obtain kt where kt: "sorted_members env tb (int (length (color_ranks color table))) first = Some kt"
    "map so_color kt = map int (split_members color table)"
    using sorted_members_correct [OF q t] by blast
  have len: "length kt = length (color_ranks color table)" using arg_cong [OF kt(2), of length] by (simp add: length_members)
  have "distinct (map so_color kt)" unfolding kt(2) using members_spec(2) by (simp add: distinct_map)
  moreover have "so_color (kt ! k) = cm_rank comm"
    using arg_cong [OF kt(2), of "\<lambda>l. l ! k"] k len by (simp add: length_members)
  ultimately have walk: "ofold (rank_step (cm_rank comm) kt) [0..int (length (color_ranks color table)) - 1] ([], rank0)
      = Some (map int (split_members color table), int k)"
    using rank_walk [of kt k "cm_rank comm" rank0] k(1) len kt(2) by (simp add: length_members)
  show ?thesis
  proof (cases "cm_kind comm")
    case INTRACOMM
    then show ?thesis by (simp add: split_create_def kt(1) walk split_comm_def length_members MPII_Comm_init_def)
  next
    case INTERCOMM
    then obtain rkt where "sorted_members env rtb (int (length (color_ranks color rtable))) rfirst = Some rkt"
      "map so_color rkt = map int (split_members color rtable)"
      using sorted_members_correct [OF q, of rtb rtable rfirst color] rt by blast
    then show ?thesis using INTERCOMM by (simp add: split_create_def kt(1) walk split_comm_def length_members MPII_Comm_init_def)
  qed
qed

lemma own_index:
  assumes "r < length table" "st_color (table ! r) = color"
  obtains k where "k < length (split_members color table)" "split_members color table ! k = r"
  using assms members_spec(1) [of color table] by (metis (mono_tags, lifting) in_set_conv_nth mem_Collect_eq)

lemma own_color_nonempty:
  assumes "r < length table"
  shows "0 < int (length (color_ranks (st_color (table ! r)) table))"
proof -
  have "r \<in> set (color_ranks (st_color (table ! r)) table)" using assms by (simp add: color_ranks_def)
  then show ?thesis by (cases "color_ranks (st_color (table ! r)) table") simp_all
qed

lemma split_pair: "\<lparr>st_color = st_color e, st_key = st_key e\<rparr> = (e :: splittype)" by simp

lemma comm_split_undefined:
  assumes "cm_kind comm = INTRACOMM" "ce_allgather env (cm_rank comm) \<lparr>st_color = MPI_UNDEFINED, st_key = key\<rparr> = Inr table"
    "ce_contextid env True = Inr cid" "cid \<noteq> 0"
  shows "MPIR_Comm_split_impl env comm rank0 MPI_UNDEFINED key p = Some (None, None, [])"
  using assms by (simp add: MPIR_Comm_split_impl_def split_remote_def split_context_def)

lemma comm_split_intra:
  assumes q: "ce_use_qsort env \<Longrightarrow> qsort_contract (ce_qsort env)"
    and c: "cm_kind comm = INTRACOMM" "cm_local_size comm = int (length table)" "cm_rank comm = int r"
    and t: "r < length table" "ce_allgather env (int r) (table ! r) = Inr table" "st_color (table ! r) \<noteq> MPI_UNDEFINED"
    and x: "ce_contextid env False = Inr cid" "cid \<noteq> 0" "ce_comm_create env = None"
    and k: "k < length (split_members (st_color (table ! r)) table)" "split_members (st_color (table ! r)) table ! k = r"
  shows "MPIR_Comm_split_impl env comm rank0 (st_color (table ! r)) (st_key (table ! r)) p =
    Some (ce_commit env, Some (split_comm comm (split_members (st_color (table ! r)) table) [] (int k) cid 0), [])"
proof -
  let ?c = "st_color (table ! r)"
  obtain first tb where l: "link_colors ?c (int (length table)) table = Some (int (length (color_ranks ?c table)), first, tb)"
    and tb: "length tb = length table" "\<forall>q<length table. st_key (tb ! q) = st_key (table ! q)" "color_chain first tb (color_ranks ?c table)"
    using link_colors_correct [of ?c table] by blast
  have "split_create env comm rank0 (int (length (color_ranks ?c table)), first, tb) (int (length (color_ranks ?c table)), 0, []) cid 0
    = Some (split_comm comm (split_members ?c table) (split_members ?c table) (int k) cid 0)"
    by (rule split_create_correct [OF q tb k(1,2) c(3)]) (use c in simp_all)
  moreover have "split_comm comm (split_members ?c table) (split_members ?c table) (int k) cid 0 = split_comm comm (split_members ?c table) [] (int k) cid 0"
    using c(1) by (simp add: split_comm_def)
  ultimately show ?thesis using own_color_nonempty [OF t(1)] t x c
    by (simp add: MPIR_Comm_split_impl_def split_pair l split_remote_def split_context_def)
qed

lemma comm_split_inter:
  assumes q: "ce_use_qsort env \<Longrightarrow> qsort_contract (ce_qsort env)"
    and c: "cm_kind comm = INTERCOMM" "cm_local_size comm = int (length table)" "cm_rank comm = int r"
      "cm_remote_size comm = int (length rtable)"
    and t: "r < length table" "ce_allgather env (int r) (table ! r) = Inr table" "st_color (table ! r) \<noteq> MPI_UNDEFINED"
      "ce_remote_allgather env (table ! r) = Inr rtable" "color_ranks (st_color (table ! r)) rtable \<noteq> []"
    and x: "split_context env comm True = Some (Inr (cid, rcid, []))" "ce_comm_create env = None"
    and k: "k < length (split_members (st_color (table ! r)) table)" "split_members (st_color (table ! r)) table ! k = r"
  shows "MPIR_Comm_split_impl env comm rank0 (st_color (table ! r)) (st_key (table ! r)) p =
    Some (ce_commit env, Some (split_comm comm (split_members (st_color (table ! r)) table)
      (split_members (st_color (table ! r)) rtable) (int k) cid rcid), [])"
proof -
  let ?c = "st_color (table ! r)"
  obtain first tb where l: "link_colors ?c (int (length table)) table = Some (int (length (color_ranks ?c table)), first, tb)"
    and tb: "length tb = length table" "\<forall>q<length table. st_key (tb ! q) = st_key (table ! q)" "color_chain first tb (color_ranks ?c table)"
    using link_colors_correct [of ?c table] by blast
  obtain rfirst rtb where rl: "link_colors ?c (int (length rtable)) rtable = Some (int (length (color_ranks ?c rtable)), rfirst, rtb)"
    and rtb: "length rtb = length rtable" "\<forall>q<length rtable. st_key (rtb ! q) = st_key (rtable ! q)" "color_chain rfirst rtb (color_ranks ?c rtable)"
    using link_colors_correct [of ?c rtable] by blast
  have "split_create env comm rank0 (int (length (color_ranks ?c table)), first, tb) (int (length (color_ranks ?c rtable)), rfirst, rtb) cid rcid
    = Some (split_comm comm (split_members ?c table) (split_members ?c rtable) (int k) cid rcid)"
    by (rule split_create_correct [OF q tb k(1,2) c(3)]) (use rtb in simp_all)
  then show ?thesis using t x c
    by (simp add: MPIR_Comm_split_impl_def split_pair l rl split_remote_def)
qed

section \<open>MPI\_Comm\_split\<close>

text \<open>A \<open>qsort\<close> that keeps the contract.\<close>

fun qinsert :: "sorttype \<Rightarrow> sorttype list \<Rightarrow> sorttype list" where
  "qinsert x [] = [x]"
| "qinsert x (y # ys) = (if sorttype_compare x y \<le> 0 then x # y # ys else y # qinsert x ys)"

definition qsort_ref :: "sorttype list \<Rightarrow> sorttype list" where
  "qsort_ref t = foldr qinsert t []"

lemma qsort_ref_contract: "qsort_contract qsort_ref"
proof -
  have m: "mset (qinsert x ys) = add_mset x (mset ys)" for x ys by (induction ys) simp_all
  then have st: "set (qinsert x ys) = insert x (set ys)" for x ys by (metis set_mset_add_mset_insert set_mset_mset)
  have w: "sorted_wrt (\<lambda>a b. sorttype_compare a b \<le> 0) ys \<Longrightarrow> sorted_wrt (\<lambda>a b. sorttype_compare a b \<le> 0) (qinsert x ys)" for x ys
    by (induction ys) (auto simp: st compare_le)
  have "mset (foldr qinsert t []) = mset t \<and> sorted_wrt (\<lambda>a b. sorttype_compare a b \<le> 0) (foldr qinsert t [])" for t
    by (induction t) (simp_all add: m w)
  then show ?thesis by (simp add: qsort_contract_def qsort_ref_def)
qed

text \<open>C34: Let every process of an intracommunicator call \<open>MPI_Comm_split\<close> and let \<open>table\<close> be the colors and
  keys of all ranks.  A process of a color other than \<open>MPI_UNDEFINED\<close> gets a communicator whose members
  are exactly the processes of its color, in the order of their keys and, under equal keys, of their
  ranks; its own rank is its place in that order.  The walk over the reused color fields, the
  insertion sort and any \<open>qsort\<close> that keeps its contract stay inside their arrays and give the same
  order, so all processes of a color see the same communicator.\<close>

theorem comm_split:
  assumes "ce_use_qsort env \<longrightarrow> qsort_contract (ce_qsort env)"
    and "cm_kind comm = INTRACOMM" "cm_local_size comm = int (length table)" "cm_rank comm = int r"
    and "r < length table" "ce_allgather env (int r) (table ! r) = Inr table" "st_color (table ! r) \<noteq> MPI_UNDEFINED"
    and "ce_contextid env False = Inr cid" "cid \<noteq> 0" "ce_comm_create env = None" "ce_commit env = None"
  shows "\<exists>newcomm ms k. MPIR_Comm_split_impl env comm rank0 (st_color (table ! r)) (st_key (table ! r)) p = Some (None, Some newcomm, [])
    \<and> cm_local_map newcomm = map int ms \<and> cm_local_size newcomm = int (length ms) \<and> cm_remote_size newcomm = int (length ms)
    \<and> cm_rank newcomm = int k \<and> k < length ms \<and> ms ! k = r
    \<and> cm_context_id newcomm = cid \<and> cm_recvcontext_id newcomm = cid
    \<and> set ms = {q. q < length table \<and> st_color (table ! q) = st_color (table ! r)} \<and> distinct ms
    \<and> sorted_wrt (\<lambda>a b. st_key (table ! a) < st_key (table ! b) \<or> st_key (table ! a) = st_key (table ! b) \<and> a < b) ms"
proof -
  let ?ms = "split_members (st_color (table ! r)) table"
  obtain k where k: "k < length ?ms" "?ms ! k = r" using own_index [OF assms(5) refl] .
  have "ce_use_qsort env \<Longrightarrow> qsort_contract (ce_qsort env)" using assms(1) by simp
  then have "MPIR_Comm_split_impl env comm rank0 (st_color (table ! r)) (st_key (table ! r)) p = Some (None, Some (split_comm comm ?ms [] (int k) cid 0), [])"
    using comm_split_intra [OF _ assms(2-10) k] assms(11) by simp
  moreover have "cm_local_map (split_comm comm ?ms [] (int k) cid 0) = map int ?ms" "cm_local_size (split_comm comm ?ms [] (int k) cid 0) = int (length ?ms)"
    "cm_remote_size (split_comm comm ?ms [] (int k) cid 0) = int (length ?ms)" "cm_rank (split_comm comm ?ms [] (int k) cid 0) = int k"
    "cm_context_id (split_comm comm ?ms [] (int k) cid 0) = cid" "cm_recvcontext_id (split_comm comm ?ms [] (int k) cid 0) = cid"
    using assms(2) by (simp_all add: split_comm_def MPII_Comm_init_def)
  ultimately show ?thesis using k
    by (intro exI [of _ "split_comm comm ?ms [] (int k) cid 0"] exI [of _ ?ms] exI [of _ k] conjI) (simp_all add: members_spec)
qed

definition split_table_ex :: "splittype list" where
  "split_table_ex = map (\<lambda>(c, k). \<lparr>st_color = c, st_key = k\<rparr>) [(1, 5), (2, 0), (1, 3), (1, 5)]"

definition split_env_ex :: comm_env where
  "split_env_ex = \<lparr>ce_allgather = (\<lambda>_ _. Inr split_table_ex), ce_remote_allgather = (\<lambda>_. Inl MPI_ERR_OTHER),
     ce_contextid = (\<lambda>_. Inr 16), ce_intercomm_contextid = Inl MPI_ERR_OTHER, ce_sendrecv = (\<lambda>_. Inl MPI_ERR_OTHER),
     ce_bcast = (\<lambda>_. Inl MPI_ERR_OTHER), ce_comm_create = None, ce_commit = None, ce_use_qsort = True, ce_qsort = qsort_ref\<rparr>"

definition split_comm_ex :: "unit MPIR_Comm" where
  "split_comm_ex = (MPII_Comm_init 0)\<lparr>cm_local_size := 4, cm_remote_size := 4\<rparr>"

theorem comm_split_witness:
  "\<exists>newcomm ms k. MPIR_Comm_split_impl split_env_ex split_comm_ex 0 1 5 None = Some (None, Some newcomm, [])
    \<and> cm_local_map newcomm = map int ms \<and> k < length ms \<and> ms ! k = 0 \<and> set ms = {q. q < 4 \<and> st_color (split_table_ex ! q) = 1}"
proof -
  have [simp]: "split_table_ex ! 0 = \<lparr>st_color = 1, st_key = 5\<rparr>" "length split_table_ex = 4" by (simp_all add: split_table_ex_def)
  show ?thesis
    using comm_split [of split_env_ex split_comm_ex split_table_ex 0 16 0 None] qsort_ref_contract
    by (auto simp: split_env_ex_def split_comm_ex_def MPII_Comm_init_def MPI_UNDEFINED_def)
qed

end
