(* ===== verification/Cart_Theorems.thy ===== *)
theory Cart_Theorems
  imports Cart_Loops Split_Theorems
begin

text \<open>
  Cartesian topologies: creation establishes a well-formed grid, ranks and coordinates are inverse to
  each other, and the two ends of a shift agree.
\<close>

definition grid_comm :: "topo_comm \<Rightarrow> MPII_Cart_topology \<Rightarrow> bool" where
  "grid_comm comm c \<longleftrightarrow> cart_of comm = Some c \<and> cart_ok c \<and> cm_kind comm = INTRACOMM
     \<and> 0 \<le> cm_rank comm \<and> cm_rank comm < ca_nnodes c \<and> cm_local_size comm = ca_nnodes c \<and> cm_remote_size comm = ca_nnodes c
     \<and> ca_position c = grid_coords (ca_dims c) (cm_rank comm)"

lemma grid_commD:
  assumes "grid_comm comm c"
  shows "cart_of comm = Some c" "cart_ok c" "cm_kind comm = INTRACOMM"
    "grid_rank (ca_dims c) (cm_rank comm)" "cm_local_size comm = ca_nnodes c" "ca_position c = grid_coords (ca_dims c) (cm_rank comm)"
    "in_grid (ca_dims c) (ca_position c)"
  using assms cart_okD [of c] row_major_of_coords [of "ca_dims c" "cm_rank comm"] by (auto simp: grid_comm_def grid_rank_def)

section \<open>Creation\<close>

text \<open>The collectives of a call of \<open>MPI_Cart_create\<close> succeed: every process gets a context id and, with
  \<open>reorder\<close>, the table of what \<open>MPIR_Cart_map_impl\<close> tells the processes to contribute.\<close>

definition create_table :: "int \<Rightarrow> nat \<Rightarrow> splittype list" where
  "create_table newsize n = map (\<lambda>r. if int r < newsize then \<lparr>st_color = 1, st_key = int r\<rparr>
     else \<lparr>st_color = MPI_UNDEFINED, st_key = MPI_UNDEFINED\<rparr>) [0..<n]"

definition comm_env_ok :: "comm_env \<Rightarrow> int \<Rightarrow> splittype list \<Rightarrow> int \<Rightarrow> bool" where
  "comm_env_ok env rank table cid \<longleftrightarrow> (ce_use_qsort env \<longrightarrow> qsort_contract (ce_qsort env))
     \<and> ce_allgather env rank (table ! nat rank) = Inr table \<and> ce_contextid env False = Inr cid \<and> ce_contextid env True = Inr cid
     \<and> cid \<noteq> 0 \<and> ce_comm_create env = None \<and> ce_commit env = None"

lemma create_members:
  assumes "0 \<le> newsize" "newsize \<le> int n"
  shows "split_members 1 (create_table newsize n) = [0..<nat newsize]"
proof -
  have "filter (\<lambda>r. st_color (create_table newsize n ! r) = 1) [0..<n] = filter (\<lambda>r. r < nat newsize) [0..<n]"
    by (rule filter_cong) (auto simp: create_table_def MPI_UNDEFINED_def)
  also have "\<dots> = [0..<nat newsize]"
  proof (rule strict_sorted_equal)
    show "sorted_wrt (<) (filter (\<lambda>r. r < nat newsize) [0..<n])" by (simp add: sorted_wrt_filter)
  qed (use assms in \<open>auto simp: sorted_wrt_upt\<close>)
  finally have c: "color_ranks 1 (create_table newsize n) = [0..<nat newsize]" by (simp add: color_ranks_def create_table_def)
  have keys: "map (\<lambda>r. st_key (create_table newsize n ! r)) [0..<nat newsize] = map int [0..<nat newsize]"
    using assms by (intro map_cong) (auto simp: create_table_def)
  have "sorted (map (\<lambda>r. st_key (create_table newsize n ! r)) [0..<nat newsize])" unfolding keys by (simp add: sorted_map)
  then show ?thesis unfolding split_members_def c by (rule sort_key_id_if_sorted)
qed

lemma cart_map_eq:
  assumes "pos_dims dims" "dims \<noteq> []" "prod_list dims \<le> cm_remote_size comm" "cm_remote_size comm \<le> INT_MAX"
  shows "MPIR_Cart_map_impl comm (int (length dims)) dims periods = Some (Inr (if cm_rank comm < prod_list dims then cm_rank comm else MPI_UNDEFINED))"
proof -
  obtain d ds where d: "dims = d # ds" using assms(2) by (cases dims) simp_all
  have "dims_product ([d] @ ds) [int (length [d])..int (length [d] + length ds) - 1] d = Some (d * prod_list ds)"
    by (rule dims_product_walk) (use assms(1,3,4) in \<open>simp_all add: d\<close>)
  then show ?thesis using assms(3) by (simp add: MPIR_Cart_map_impl_def d aget_def)
qed

text \<open>The communicator below the new topology.\<close>

lemma cart_newcomm_eq:
  assumes comm: "cm_kind comm = INTRACOMM" "cm_rank comm = int r" "r < n" "cm_local_size comm = int n" "cm_remote_size comm = int n"
      "int n \<le> INT_MAX"
    and dims: "pos_dims dims" "dims \<noteq> []" "prod_list dims \<le> int n"
    and env: "comm_env_ok (te_comm env) (int r) (create_table (prod_list dims) n) cid"
  shows "\<exists>nc rank freed. cart_newcomm env comm rank0 (int (length dims)) dims periods reorder (prod_list dims) = Some (None, nc, rank, freed)
    \<and> (int r \<ge> prod_list dims \<longrightarrow> rank \<ge> prod_list dims \<or> rank = MPI_UNDEFINED)
    \<and> (int r < prod_list dims \<longrightarrow> rank = int r \<and> freed = [] \<and> (\<exists>newcomm. nc = Some newcomm \<and> cm_rank newcomm = int r
        \<and> cm_kind newcomm = INTRACOMM \<and> cm_local_size newcomm = prod_list dims \<and> cm_remote_size newcomm = prod_list dims))"
proof (cases reorder)
  case False
  then show ?thesis using comm env by (auto simp: cart_newcomm_def MPII_Comm_copy_def comm_env_ok_def Let_def split: option.splits)
next
  case True
  let ?t = "create_table (prod_list dims) n"
  have p: "1 \<le> prod_list dims" using dims(1) by (rule prod_pos)
  have m: "MPIR_Cart_map_impl comm (int (length dims)) dims periods = Some (Inr (if int r < prod_list dims then int r else MPI_UNDEFINED))"
    using cart_map_eq [OF dims(1,2)] comm dims(3) by simp
  show ?thesis
  proof (cases "int r < prod_list dims")
    case True
    then have tr: "?t ! r = \<lparr>st_color = 1, st_key = int r\<rparr>" using comm(3) by (simp add: create_table_def)
    have "split_members 1 ?t = [0..<nat (prod_list dims)]" using create_members p dims(3) by simp
    then have "MPIR_Comm_split_impl (te_comm env) comm rank0 1 (int r) None
      = Some (None, Some (split_comm comm [0..<nat (prod_list dims)] [] (int r) cid 0), [])"
      using comm_split_intra [of "te_comm env" comm ?t r cid r rank0 None] comm env True tr
      by (simp add: comm_env_ok_def MPI_UNDEFINED_def create_table_def)
    moreover have "int r \<noteq> MPI_UNDEFINED" by (simp add: MPI_UNDEFINED_def)
    ultimately show ?thesis using \<open>reorder\<close> True m comm p by (simp add: cart_newcomm_def split_comm_def MPII_Comm_init_def)
  next
    case False
    then have "?t ! r = \<lparr>st_color = MPI_UNDEFINED, st_key = MPI_UNDEFINED\<rparr>" using comm(3) by (simp add: create_table_def)
    then have "MPIR_Comm_split_impl (te_comm env) comm rank0 MPI_UNDEFINED MPI_UNDEFINED None = Some (None, None, [])"
      using comm env by (intro comm_split_undefined) (auto simp: comm_env_ok_def)
    then show ?thesis using \<open>reorder\<close> False m by (simp add: cart_newcomm_def)
  qed
qed

lemma cart_create_grid:
  assumes "cm_kind comm = INTRACOMM" "cm_rank comm = int r" "r < n" "cm_local_size comm = int n" "cm_remote_size comm = int n"
      "int n \<le> INT_MAX"
    and "pos_dims dims" "dims \<noteq> []" "length periods = length dims" "prod_list dims \<le> int n" "int r < prod_list dims"
    and "comm_env_ok (te_comm env) (int r) (create_table (prod_list dims) n) cid" "te_put env = None"
  shows "\<exists>newcomm c. MPIR_Cart_create_impl env comm rank0 (int (length dims)) dims periods reorder p = Some (None, Some newcomm, [])
      \<and> grid_comm newcomm c \<and> ca_dims c = dims \<and> ca_periodic c = periods \<and> cm_rank newcomm = int r"
proof -
  have le: "prod_list dims \<le> INT_MAX" using assms(6,10) by simp
  have prod: "dims_product dims [0..int (length dims) - 1] 1 = Some (prod_list dims)" using assms(7) le by (rule dims_product_eq)
  obtain newcomm where nc: "cart_newcomm env comm rank0 (int (length dims)) dims periods reorder (prod_list dims) = Some (None, Some newcomm, int r, [])"
    "cm_rank newcomm = int r" "cm_kind newcomm = INTRACOMM" "cm_local_size newcomm = prod_list dims" "cm_remote_size newcomm = prod_list dims"
    using cart_newcomm_eq [OF assms(1-8,10,12), of rank0 periods reorder] assms(11) by auto
  have "grid_rank dims (int r)" using assms(7,11) by (simp add: grid_rank_def)
  then obtain a b where "ofold (create_step dims periods) [0..int (length dims) - 1] (prod_list dims, int r, [], [], [])
    = Some (a, b, dims, periods, grid_coords dims (int r))"
    using create_walk [of dims "int r" periods "[]" "[]"] assms(9) le by auto
  moreover have "int r \<noteq> MPI_UNDEFINED" by (simp add: MPI_UNDEFINED_def)
  ultimately show ?thesis using nc le assms(5,7-11,13)
    by (auto simp: MPIR_Cart_create_impl_def prod attach_topology_def MPIR_Topology_put_def grid_comm_def cart_of_def MPIR_Topology_get_def cart_ok_def)
qed

text \<open>C35: \<open>MPI_Cart_create\<close> over an intracommunicator of \<open>n\<close> processes, with and without \<open>reorder\<close>: when the
  product of the dimensions exceeds \<open>n\<close> every process gets \<open>MPI_ERR_ARG\<close>; otherwise the processes below
  the product get a communicator of exactly that many processes, with the given dimensions and periods,
  their old rank and the row-major coordinates of that rank, and the others get \<open>MPI_COMM_NULL\<close>.\<close>

theorem cart_create:
  assumes "cm_kind comm = INTRACOMM" "cm_rank comm = int r" "r < n" "cm_local_size comm = int n" "cm_remote_size comm = int n"
      "int n \<le> INT_MAX"
    and "pos_dims dims" "dims \<noteq> []" "length periods = length dims" "prod_list dims \<le> INT_MAX"
    and "comm_env_ok (te_comm env) (int r) (create_table (prod_list dims) n) cid" "te_put env = None"
  shows "(if prod_list dims > int n then MPIR_Cart_create_impl env comm rank0 (int (length dims)) dims periods reorder p = Some (Some MPI_ERR_ARG, p, [])
    else if int r \<ge> prod_list dims then \<exists>freed. MPIR_Cart_create_impl env comm rank0 (int (length dims)) dims periods reorder p = Some (None, None, freed)
    else \<exists>newcomm c. MPIR_Cart_create_impl env comm rank0 (int (length dims)) dims periods reorder p = Some (None, Some newcomm, [])
      \<and> grid_comm newcomm c \<and> ca_dims c = dims \<and> ca_periodic c = periods \<and> cm_rank newcomm = int r)"
proof -
  have prod: "dims_product dims [0..int (length dims) - 1] 1 = Some (prod_list dims)" using assms(7,10) by (rule dims_product_eq)
  have "\<exists>freed. MPIR_Cart_create_impl env comm rank0 (int (length dims)) dims periods reorder p = Some (None, None, freed)"
    if "prod_list dims \<le> int n" "int r \<ge> prod_list dims"
    using cart_newcomm_eq [OF assms(1-8) that(1) assms(11), of rank0 periods reorder] that assms(5,8)
    by (auto simp: MPIR_Cart_create_impl_def prod)
  moreover have "MPIR_Cart_create_impl env comm rank0 (int (length dims)) dims periods reorder p = Some (Some MPI_ERR_ARG, p, [])"
    if "prod_list dims > int n" using that assms(5) by (simp add: MPIR_Cart_create_impl_def prod)
  ultimately show ?thesis using cart_create_grid [OF assms(1-9) _ _ assms(11,12)] by simp
qed

definition cart_env_ex :: "splittype list \<Rightarrow> topo_env" where
  "cart_env_ex table = \<lparr>te_comm = split_env_ex\<lparr>ce_allgather := (\<lambda>_ _. Inr table)\<rparr>, te_self = split_env_ex,
     te_comm_self = (MPII_Comm_init 0)\<lparr>cm_local_size := 1, cm_remote_size := 1\<rparr>, te_copy_stream = None, te_put = None\<rparr>"

definition world_ex :: "nat \<Rightarrow> int \<Rightarrow> topo_comm" where
  "world_ex n r = (MPII_Comm_init r)\<lparr>cm_local_size := int n, cm_remote_size := int n\<rparr>"

lemma cart_env_ex_ok: "comm_env_ok (te_comm (cart_env_ex table)) rank table 16" "te_put (cart_env_ex table) = None"
  by (simp_all add: comm_env_ok_def cart_env_ex_def split_env_ex_def qsort_ref_contract)

theorem cart_create_witness:
  "\<exists>newcomm c. MPIR_Cart_create_impl (cart_env_ex (create_table 6 7)) (world_ex 7 4) 0 2 [2, 3] [0, 1] True None = Some (None, Some newcomm, [])
    \<and> grid_comm newcomm c \<and> ca_dims c = [2, 3] \<and> ca_periodic c = [0, 1] \<and> cm_rank newcomm = 4"
  using cart_create [of "world_ex 7 4" 4 7 "[2, 3]" "[0, 1]" "cart_env_ex (create_table 6 7)" 16 0 True None]
    cart_env_ex_ok(1) [of "create_table 6 7" 4] cart_env_ex_ok(2) [of "create_table 6 7"]
  by (simp add: world_ex_def MPII_Comm_init_def INT_MAX_def)

text \<open>The product is computed in an \<open>int\<close> without a check: it overflows before it is compared with the
  size of the communicator.\<close>

lemma cart_create_overflow: "MPIR_Cart_create_impl env comm rank0 2 [65536, 65536] periods reorder p = None"
  by (simp add: MPIR_Cart_create_impl_def dims_product_def upto_rec1 aget_def cint_def INT_MAX_def)

section \<open>Ranks and coordinates\<close>

text \<open>C36: On a well-formed Cartesian topology \<open>MPI_Cart_coords\<close> and \<open>MPI_Cart_rank\<close> are inverse to each
  other: the coordinates of every rank are inside the grid and lead back to the rank; and every
  coordinate vector that is inside the grid in the non-periodic dimensions leads to a rank of the
  communicator whose coordinates are the vector, reduced modulo the dimension where it is periodic.  No
  intermediate product overflows.\<close>

theorem cart_rank_coords:
  assumes "cart_of comm = Some c" "cart_ok c" "length buf = length (ca_dims c)" "0 \<le> r" "r < ca_nnodes c" "legal_coords c xs"
  shows "(\<exists>cs. MPIR_Cart_coords_impl comm r maxdims buf = Some cs \<and> in_grid (ca_dims c) cs \<and> MPIR_Cart_rank_impl comm cs = Some (Inr r))
    \<and> (\<exists>s. MPIR_Cart_rank_impl comm xs = Some (Inr s) \<and> 0 \<le> s \<and> s < ca_nnodes c
         \<and> MPIR_Cart_coords_impl comm s maxdims buf = Some (wrap_all (ca_periodic c) (ca_dims c) xs))"
proof
  note ok = cart_okD [OF assms(2)]
  have g: "grid_rank (ca_dims c) r" using ok assms(4,5) by (simp add: grid_rank_def)
  note g' = row_major_of_coords [OF g]
  have legal: "legal_coords c (grid_coords (ca_dims c) r)" using in_grid_legal [OF assms(2), of _ "[]"] g' by simp
  have wrap: "wrap_all (ca_periodic c) (ca_dims c) (grid_coords (ca_dims c) r) = grid_coords (ca_dims c) r"
    using wrap_all_in [of "ca_dims c" "grid_coords (ca_dims c) r" "ca_periodic c" "[]"] g' ok(3) by simp
  show "\<exists>cs. MPIR_Cart_coords_impl comm r maxdims buf = Some cs \<and> in_grid (ca_dims c) cs \<and> MPIR_Cart_rank_impl comm cs = Some (Inr r)"
    using cart_coords_eq [OF assms(1,2,4,5), of buf maxdims] cart_rank_eq(1) [OF assms(1,2) legal] g' wrap assms(3) by simp
  let ?s = "row_major (ca_dims c) (wrap_all (ca_periodic c) (ca_dims c) xs)"
  note rk = cart_rank_eq [OF assms(1,2,6)]
  have b: "0 \<le> ?s" "?s < ca_nnodes c" using row_major_bound [OF rk(2)] ok(4) by simp_all
  then show "\<exists>s. MPIR_Cart_rank_impl comm xs = Some (Inr s) \<and> 0 \<le> s \<and> s < ca_nnodes c
       \<and> MPIR_Cart_coords_impl comm s maxdims buf = Some (wrap_all (ca_periodic c) (ca_dims c) xs)"
    using rk cart_coords_eq [OF assms(1,2) b, of buf maxdims] row_major.place_number [OF rk(2)] assms(3) by simp
qed

definition cart_ex :: "int \<Rightarrow> MPII_Cart_topology" where
  "cart_ex r = \<lparr>ca_nnodes = 6, ca_ndims = 2, ca_dims = [2, 3], ca_periodic = [0, 1], ca_position = [r div 3, r mod 3]\<rparr>"

definition cart_comm_ex :: "int \<Rightarrow> topo_comm" where
  "cart_comm_ex r = (world_ex 6 r)\<lparr>cm_topology := Some (MPI_CART (cart_ex r))\<rparr>"

lemma cart_ex_ok: "cart_of (cart_comm_ex r) = Some (cart_ex r)" "cart_ok (cart_ex r)" "0 \<le> r \<Longrightarrow> r < 6 \<Longrightarrow> grid_comm (cart_comm_ex r) (cart_ex r)"
  by (simp_all add: cart_of_def cart_comm_ex_def MPIR_Topology_get_def world_ex_def MPII_Comm_init_def cart_ok_def cart_ex_def INT_MAX_def grid_comm_def)

theorem cart_rank_coords_witness:
  "\<exists>s. MPIR_Cart_rank_impl (cart_comm_ex 4) [1, -1] = Some (Inr s) \<and> MPIR_Cart_coords_impl (cart_comm_ex 4) s 2 [0, 0] = Some [1, 2]"
proof -
  have "legal_coords (cart_ex 4) [1, -1]"
    by (simp add: legal_coords_def cart_ex_def int32_def INT_MAX_def less_Suc_eq numeral_2_eq_2)
  then show ?thesis using cart_rank_coords [OF cart_ex_ok(1,2) [of 4], of "[0, 0]" 0 "[1, -1]" 2] by (auto simp: cart_ex_def)
qed

section \<open>Shifts\<close>

text \<open>The process at distance \<open>disp\<close> in one direction, if there is one.\<close>

definition neighbour :: "MPII_Cart_topology \<Rightarrow> int \<Rightarrow> nat \<Rightarrow> int \<Rightarrow> int option" where
  "neighbour c r dir disp =
     (let cs = grid_coords (ca_dims c) r; d = ca_dims c ! dir; x = cs ! dir + disp in
      if ca_periodic c ! dir \<noteq> 0 then Some (row_major (ca_dims c) (cs[dir := x mod d]))
      else if 0 \<le> x \<and> x < d then Some (row_major (ca_dims c) (cs[dir := x]))
      else None)"

definition proc_of :: "int option \<Rightarrow> int" where
  "proc_of r = (case r of None \<Rightarrow> MPI_PROC_NULL | Some s \<Rightarrow> s)"

lemma wrap_all_update:
  assumes "in_grid ds cs" "length ps = length ds" "i < length ds"
  shows "wrap_all ps ds (cs[i := x] @ extra) = cs[i := if ps ! i \<noteq> 0 then x mod ds ! i else x]"
  using assms
proof (induction ps ds cs arbitrary: i rule: wrap_all.induct)
  case (1 p ps d ds c cs)
  then show ?case using wrap_all_in [of ds cs ps extra] by (cases i) auto
qed auto

lemma in_grid_nth: "in_grid ds cs \<longleftrightarrow> length cs = length ds \<and> (\<forall>i<length ds. 0 \<le> cs ! i \<and> cs ! i < ds ! i)"
  by (auto simp: in_grid_def list_all2_conv_all_nth)

lemma nth_upd: "k < length xs \<Longrightarrow> xs[j := x] ! k = (if k = j then x else xs ! k)"
  by (cases "k = j") simp_all

lemma in_grid_update: "in_grid ds cs \<Longrightarrow> 0 \<le> x \<Longrightarrow> x < ds ! i \<Longrightarrow> in_grid ds (cs[i := x])"
  by (auto simp: in_grid_nth nth_upd)

lemma shifted_rank_eq:
  assumes "cart_of comm = Some c" "cart_ok c" "grid_rank (ca_dims c) r" "dir < length (ca_dims c)"
    "int32 (grid_coords (ca_dims c) r ! dir + disp)"
  shows "shifted_rank comm c (int dir) ((grid_coords (ca_dims c) r)[dir := grid_coords (ca_dims c) r ! dir + disp] @ extra) = Some (proc_of (neighbour c r dir disp))"
proof -
  let ?cs = "grid_coords (ca_dims c) r"
  let ?x = "?cs ! dir + disp"
  note ok = cart_okD [OF assms(2)]
  have g: "in_grid (ca_dims c) ?cs" using row_major_of_coords [OF assms(3)] by simp
  have legal: "legal_coords c (?cs[dir := ?x] @ extra)" if "ca_periodic c ! dir \<noteq> 0 \<or> 0 \<le> ?x \<and> ?x < ca_dims c ! dir"
    using in_grid_legal [OF assms(2) g, of extra] that assms(5)
    by (auto simp: legal_coords_def nth_append nth_upd)
  have idx: "aget (?cs[dir := ?x] @ extra) (int dir) = Some ?x" "aget (ca_periodic c) (int dir) = Some (ca_periodic c ! dir)"
    "aget (ca_dims c) (int dir) = Some (ca_dims c ! dir)"
    using assms(4) ok(3) by (simp_all add: aget_def nth_append)
  show ?thesis
  proof (cases "ca_periodic c ! dir \<noteq> 0 \<or> 0 \<le> ?x \<and> ?x < ca_dims c ! dir")
    case True
    then have "MPIR_Cart_rank_impl comm (?cs[dir := ?x] @ extra) = Some (Inr (row_major (ca_dims c)
        (?cs[dir := if ca_periodic c ! dir \<noteq> 0 then ?x mod ca_dims c ! dir else ?x])))"
      using cart_rank_eq(1) [OF assms(1,2) legal [OF True]] wrap_all_update [OF g ok(3) assms(4), of ?x extra] by simp
    then show ?thesis using True idx by (auto simp: shifted_rank_def neighbour_def proc_of_def Let_def)
  next
    case False
    then show ?thesis using idx by (auto simp: shifted_rank_def neighbour_def proc_of_def Let_def)
  qed
qed

lemma neighbour_zero:
  assumes "cart_ok c" "grid_rank (ca_dims c) r" "dir < length (ca_dims c)"
  shows "neighbour c r dir 0 = Some r"
proof -
  let ?cs = "grid_coords (ca_dims c) r"
  have g: "in_grid (ca_dims c) ?cs" "row_major (ca_dims c) ?cs = r" using row_major_of_coords [OF assms(2)] by simp_all
  then have "0 \<le> ?cs ! dir" "?cs ! dir < ca_dims c ! dir" using assms(3) by (simp_all add: in_grid_nth)
  then show ?thesis using g by (simp add: neighbour_def Let_def)
qed

text \<open>The reach of a shift: neither sum of a coordinate and the displacement leaves the range of an
  \<open>int\<close>.\<close>

definition disp_ok :: "MPII_Cart_topology \<Rightarrow> int \<Rightarrow> bool" where
  "disp_ok c disp \<longleftrightarrow> ca_nnodes c - INT_MAX \<le> disp \<and> disp \<le> INT_MAX - ca_nnodes c"

lemma cart_shift_eq:
  assumes "grid_comm comm c" "dir < length (ca_dims c)" "length (ca_dims c) \<le> MAX_CART_DIM" "disp_ok c disp"
  shows "MPIR_Cart_shift_impl comm (int dir) disp =
    Some (Inr (proc_of (neighbour c (cm_rank comm) dir (- disp)), proc_of (neighbour c (cm_rank comm) dir disp)))"
proof -
  note g = grid_commD [OF assms(1)]
  note ok = cart_okD [OF g(2)]
  let ?cs = "grid_coords (ca_dims c) (cm_rank comm)" and ?n = "length (ca_dims c)"
  let ?extra = "replicate (MAX_CART_DIM - ?n) (0 :: int)"
  have b: "0 \<le> ?cs ! dir" "?cs ! dir < ca_nnodes c"
    using g(6,7) assms(2) dim_le_prod [OF ok(2) nth_mem [OF assms(2)]] ok(4) by (auto simp: in_grid_nth)
  then have i32: "int32 (?cs ! dir + disp)" "int32 (?cs ! dir - disp)"
    using assms(4) ok(5,6) by (auto simp: disp_ok_def int32_def INT_MAX_def)
  have copy: "copy_out (int ?n) ?cs (replicate MAX_CART_DIM 0) = Some (?cs @ ?extra)"
    using copy_out_eq [of ?cs ?n "replicate MAX_CART_DIM 0"] assms(3) by simp
  show ?thesis
  proof (cases "disp = 0")
    case True
    then show ?thesis using g(1) ok(1) assms(2) neighbour_zero [OF g(2,4) assms(2)] by (auto simp: MPIR_Cart_shift_impl_def proc_of_def)
  next
    case False
    have upd: "aget (?cs @ ?extra) (int dir) = Some (?cs ! dir)" "aget ?cs (int dir) = Some (?cs ! dir)"
      "aset (?cs @ ?extra) (int dir) x = Some (?cs[dir := x] @ ?extra)" "aset (?cs[dir := y] @ ?extra) (int dir) x = Some (?cs[dir := x] @ ?extra)" for x y
      using assms(2) by (simp_all add: aget_def aset_def nth_append list_update_append)
    have "shifted_rank comm c (int dir) (?cs[dir := ?cs ! dir + disp] @ ?extra) = Some (proc_of (neighbour c (cm_rank comm) dir disp))"
      by (rule shifted_rank_eq [OF g(1,2,4) assms(2) i32(1)])
    moreover have "shifted_rank comm c (int dir) (?cs[dir := ?cs ! dir - disp] @ ?extra) = Some (proc_of (neighbour c (cm_rank comm) dir (- disp)))"
      using shifted_rank_eq [OF g(1,2,4) assms(2), of "- disp" ?extra] i32(2) by simp
    ultimately show ?thesis using False g(1,6) ok(1) assms(2) i32
      by (auto simp: MPIR_Cart_shift_impl_def copy upd cint_int32)
  qed
qed

lemma neighbour_iff:
  assumes "cart_ok c" "grid_rank (ca_dims c) r" "grid_rank (ca_dims c) s" "dir < length (ca_dims c)"
  shows "neighbour c r dir disp = Some s \<longleftrightarrow>
    (\<forall>i<length (ca_dims c). i \<noteq> dir \<longrightarrow> grid_coords (ca_dims c) s ! i = grid_coords (ca_dims c) r ! i)
    \<and> grid_coords (ca_dims c) s ! dir = (if ca_periodic c ! dir \<noteq> 0 then (grid_coords (ca_dims c) r ! dir + disp) mod ca_dims c ! dir
       else grid_coords (ca_dims c) r ! dir + disp)"
proof -
  let ?a = "grid_coords (ca_dims c) r" and ?b = "grid_coords (ca_dims c) s" and ?n = "length (ca_dims c)"
  have a: "in_grid (ca_dims c) ?a" and b: "in_grid (ca_dims c) ?b" "row_major (ca_dims c) ?b = s"
    using row_major_of_coords assms(2,3) by blast+
  have d: "1 \<le> ca_dims c ! dir" using cart_okD(2) [OF assms(1)] assms(4) by (simp add: pos_dims_def)
  have eq: "row_major (ca_dims c) (?a[dir := y]) = s \<longleftrightarrow> (\<forall>i<?n. i \<noteq> dir \<longrightarrow> ?b ! i = ?a ! i) \<and> ?b ! dir = y"
    if "0 \<le> y" "y < ca_dims c ! dir" for y
  proof -
    have "row_major (ca_dims c) (?a[dir := y]) = s \<longleftrightarrow> ?a[dir := y] = ?b"
      using row_major.number_eq_iff [OF in_grid_update [OF a that] b(1)] b(2) by simp
    also have "\<dots> \<longleftrightarrow> (\<forall>i<?n. i \<noteq> dir \<longrightarrow> ?b ! i = ?a ! i) \<and> ?b ! dir = y"
      using assms(4) by (auto simp: list_eq_iff_nth_eq nth_upd)
    finally show ?thesis .
  qed
  have bd: "0 \<le> ?b ! dir" "?b ! dir < ca_dims c ! dir" using b(1) assms(4) by (simp_all add: in_grid_nth)
  show ?thesis
  proof (cases "ca_periodic c ! dir \<noteq> 0")
    case True
    then show ?thesis using eq [of "(?a ! dir + disp) mod ca_dims c ! dir"] d by (simp add: neighbour_def Let_def)
  next
    case False
    then show ?thesis using eq [of "?a ! dir + disp"] bd by (auto simp: neighbour_def Let_def)
  qed
qed

lemma neighbour_dual:
  assumes "cart_ok c" "grid_rank (ca_dims c) r" "grid_rank (ca_dims c) s" "dir < length (ca_dims c)"
  shows "neighbour c r dir disp = Some s \<longleftrightarrow> neighbour c s dir (- disp) = Some r"
proof -
  have undo: "(b - disp) mod d = a" if "(a + disp) mod d = b" "0 \<le> a" "a < d" for a b d disp :: int
    using that mod_diff_left_eq [of "a + disp" d disp] by simp
  have one: "neighbour c s dir (- disp) = Some r" if "neighbour c r dir disp = Some s" "grid_rank (ca_dims c) r" "grid_rank (ca_dims c) s" for r s disp
  proof -
    have "0 \<le> grid_coords (ca_dims c) r ! dir" "grid_coords (ca_dims c) r ! dir < ca_dims c ! dir"
      using row_major_of_coords [OF that(2)] assms(4) by (simp_all add: in_grid_nth)
    then show ?thesis
      using that(1) undo [of "grid_coords (ca_dims c) r ! dir" disp "ca_dims c ! dir"]
      unfolding neighbour_iff [OF assms(1) that(2,3) assms(4)] neighbour_iff [OF assms(1) that(3,2) assms(4)]
      by (auto split: if_splits)
  qed
  show ?thesis using one [of r disp s] one [of s "- disp" r] assms by auto
qed

text \<open>C37: \<open>MPI_Cart_shift\<close> on two processes \<open>A\<close> and \<open>B\<close> of one grid of at most sixteen dimensions: both calls
  return; \<open>B\<close> is the destination of \<open>A\<close> exactly when \<open>A\<close> is the source of \<open>B\<close>, so the sends and receives
  of a shift match; and the destination is \<open>MPI_PROC_NULL\<close> exactly when the shift leaves the grid in a
  dimension that is not periodic, and a rank of the communicator otherwise.\<close>

theorem cart_shift:
  assumes "grid_comm commA cA" "grid_comm commB cB" "ca_dims cB = ca_dims cA" "ca_periodic cB = ca_periodic cA"
    "dir < length (ca_dims cA)" "length (ca_dims cA) \<le> MAX_CART_DIM" "disp_ok cA disp"
  shows "\<exists>sA dA sB dB. MPIR_Cart_shift_impl commA (int dir) disp = Some (Inr (sA, dA)) \<and> MPIR_Cart_shift_impl commB (int dir) disp = Some (Inr (sB, dB))
    \<and> (dA = cm_rank commB \<longleftrightarrow> sB = cm_rank commA)
    \<and> (if ca_periodic cA ! dir = 0 \<and> (ca_position cA ! dir + disp < 0 \<or> ca_dims cA ! dir \<le> ca_position cA ! dir + disp)
        then dA = MPI_PROC_NULL else 0 \<le> dA \<and> dA < ca_nnodes cA)"
proof -
  note a = grid_commD [OF assms(1)] and b = grid_commD [OF assms(2)]
  note ok = cart_okD [OF a(2)]
  let ?A = "cm_rank commA" and ?B = "cm_rank commB"
  have nB: "neighbour cB = neighbour cA" using assms(3,4) by (intro ext) (simp add: neighbour_def Let_def)
  have "ca_nnodes cB = ca_nnodes cA" using ok(4) cart_okD(4) [OF b(2)] assms(3) by simp
  then have "disp_ok cB disp" using assms(7) by (simp add: disp_ok_def)
  then have B: "MPIR_Cart_shift_impl commB (int dir) disp = Some (Inr (proc_of (neighbour cA ?B dir (- disp)), proc_of (neighbour cA ?B dir disp)))"
    using cart_shift_eq [OF assms(2)] assms(3,5,6) nB by simp
  have neg: "?A \<noteq> MPI_PROC_NULL" "?B \<noteq> MPI_PROC_NULL" using a(4) b(4) by (auto simp: grid_rank_def MPI_PROC_NULL_def)
  have "proc_of (neighbour cA ?A dir disp) = ?B \<longleftrightarrow> neighbour cA ?A dir disp = Some ?B"
    "proc_of (neighbour cA ?B dir (- disp)) = ?A \<longleftrightarrow> neighbour cA ?B dir (- disp) = Some ?A"
    using neg by (auto simp: proc_of_def split: option.splits)
  moreover have "neighbour cA ?A dir disp = Some ?B \<longleftrightarrow> neighbour cA ?B dir (- disp) = Some ?A"
    using neighbour_dual [OF a(2,4) _ assms(5)] b(4) assms(3) by simp
  moreover have "if ca_periodic cA ! dir = 0 \<and> (ca_position cA ! dir + disp < 0 \<or> ca_dims cA ! dir \<le> ca_position cA ! dir + disp)
    then proc_of (neighbour cA ?A dir disp) = MPI_PROC_NULL else 0 \<le> proc_of (neighbour cA ?A dir disp) \<and> proc_of (neighbour cA ?A dir disp) < ca_nnodes cA"
  proof -
    have d: "1 \<le> ca_dims cA ! dir" using ok(2) assms(5) by (simp add: pos_dims_def)
    have "0 \<le> row_major (ca_dims cA) ((ca_position cA)[dir := y]) \<and> row_major (ca_dims cA) ((ca_position cA)[dir := y]) < ca_nnodes cA"
      if "0 \<le> y" "y < ca_dims cA ! dir" for y
      using row_major_bound [OF in_grid_update [OF a(7) that]] ok(4) by simp
    then show ?thesis using d a(6) by (auto simp: neighbour_def Let_def proc_of_def)
  qed
  ultimately show ?thesis using cart_shift_eq [OF assms(1,5,6,7)] B by blast
qed

theorem cart_shift_witness:
  "\<exists>sA dA sB dB. MPIR_Cart_shift_impl (cart_comm_ex 4) (int 1) (-2) = Some (Inr (sA, dA))
    \<and> MPIR_Cart_shift_impl (cart_comm_ex 5) (int 1) (-2) = Some (Inr (sB, dB)) \<and> (dA = 5 \<longleftrightarrow> sB = 4) \<and> 0 \<le> dA \<and> dA < 6"
proof -
  have "grid_comm (cart_comm_ex 4) (cart_ex 4)" "grid_comm (cart_comm_ex 5) (cart_ex 5)" by (simp_all add: cart_ex_ok)
  then show ?thesis using cart_shift [of "cart_comm_ex 4" "cart_ex 4" "cart_comm_ex 5" "cart_ex 5" 1 "-2"]
    by (simp add: cart_ex_def cart_comm_ex_def world_ex_def MPII_Comm_init_def MAX_CART_DIM_def disp_ok_def INT_MAX_def)
qed

text \<open>The array \<open>pos\<close> of \<open>MPIR_Cart_shift_impl\<close> has \<open>MAX_CART_DIM\<close> elements and nothing limits the number
  of dimensions: on every grid of more than sixteen dimensions a shift by a nonzero displacement writes
  behind it.\<close>

theorem cart_shift_overruns:
  assumes "grid_comm comm c" "dir < length (ca_dims c)" "MAX_CART_DIM < length (ca_dims c)" "disp \<noteq> 0"
  shows "MPIR_Cart_shift_impl comm (int dir) disp = None"
proof -
  note g = grid_commD [OF assms(1)]
  have "copy_out (ca_ndims c) (ca_position c) (replicate MAX_CART_DIM 0) = None"
    using cart_okD(1) [OF g(2)] assms(3) by (intro copy_out_short) simp
  then show ?thesis using g(1) cart_okD(1) [OF g(2)] assms(2,4) by (auto simp: MPIR_Cart_shift_impl_def)
qed

theorem cart_shift_overruns_witness:
  "\<exists>comm. MPIR_Cart_create_impl (cart_env_ex (create_table 1 1)) (world_ex 1 0) 0 17 (replicate 17 1) (replicate 17 0) False None = Some (None, Some comm, [])
    \<and> MPIR_Cart_shift_impl comm 0 1 = None"
proof -
  have "pos_dims (replicate 17 1)" "prod_list (replicate 17 1) = (1 :: int)" by (simp_all add: pos_dims_def)
  then obtain comm c where "MPIR_Cart_create_impl (cart_env_ex (create_table 1 1)) (world_ex 1 0) 0 17 (replicate 17 1) (replicate 17 0) False None = Some (None, Some comm, [])"
    "grid_comm comm c" "ca_dims c = replicate 17 1"
    using cart_create_grid [of "world_ex 1 0" 0 1 "replicate 17 1" "replicate 17 0" "cart_env_ex (create_table 1 1)" 16 0 False None]
      cart_env_ex_ok(1) [of "create_table 1 1" 0] cart_env_ex_ok(2) [of "create_table 1 1"]
    by (auto simp: world_ex_def MPII_Comm_init_def INT_MAX_def)
  then show ?thesis using cart_shift_overruns [of comm c 0 1] by (auto simp: MAX_CART_DIM_def)
qed

end
