(* ===== verification/Cart_Sub.thy ===== *)
theory Cart_Sub
  imports Cart_Theorems
begin

text \<open>
  \<open>MPI_Cart_sub\<close>: every process computes a color from the coordinates it drops and a key from those it
  keeps, \<open>MPIR_Comm_split_impl\<close> sorts the processes, and each computes its position again from its new
  rank.  The theorem of this theory joins the split and the grid: the new position is the projection of
  the old one.
\<close>

section \<open>Kept and dropped coordinates\<close>

fun kept :: "int list \<Rightarrow> int list \<Rightarrow> int list" where
  "kept (b # bs) (x # xs) = (if b \<noteq> 0 then x # kept bs xs else kept bs xs)"
| "kept bs xs = []"

fun lost :: "int list \<Rightarrow> int list \<Rightarrow> int list" where
  "lost (b # bs) (x # xs) = (if b \<noteq> 0 then lost bs xs else x # lost bs xs)"
| "lost bs xs = []"

fun weave :: "int list \<Rightarrow> int list \<Rightarrow> int list \<Rightarrow> int list" where
  "weave [] ys zs = []"
| "weave (b # bs) ys zs = (if b \<noteq> 0 then List.hd ys # weave bs (List.tl ys) zs else List.hd zs # weave bs ys (List.tl zs))"

lemma keep_snoc: "length bs = length xs \<Longrightarrow> kept (bs @ [b]) (xs @ [x]) = kept bs xs @ (if b \<noteq> 0 then [x] else [])"
  by (induction bs xs rule: kept.induct) simp_all

lemma lose_snoc: "length bs = length xs \<Longrightarrow> lost (bs @ [b]) (xs @ [x]) = lost bs xs @ (if b \<noteq> 0 then [] else [x])"
  by (induction bs xs rule: lost.induct) simp_all

lemma keep_length: "length xs = length ys \<Longrightarrow> length (kept bs xs) = length (kept bs ys)"
proof (induction bs xs arbitrary: ys rule: kept.induct)
  case (1 b bs x xs)
  then show ?case by (cases ys) simp_all
qed simp_all

lemma weave_split: "length bs = length xs \<Longrightarrow> weave bs (kept bs xs) (lost bs xs) = xs"
  by (induction bs xs rule: kept.induct) simp_all

lemma in_grid_parts:
  assumes "in_grid ds xs" "length bs = length ds"
  shows "in_grid (kept bs ds) (kept bs xs)" "in_grid (lost bs ds) (lost bs xs)"
  using assms by (induction bs ds arbitrary: xs rule: kept.induct) (auto simp: in_grid_def list_all2_Cons1)

lemma in_grid_weave:
  assumes "in_grid (kept bs ds) ys" "in_grid (lost bs ds) zs" "length bs = length ds"
  shows "in_grid ds (weave bs ys zs)" "kept bs (weave bs ys zs) = ys" "lost bs (weave bs ys zs) = zs"
  using assms by (induction bs ds arbitrary: ys zs rule: kept.induct) (auto simp: in_grid_def list_all2_Cons1)

lemma pos_parts: "pos_dims ds \<Longrightarrow> pos_dims (kept bs ds)" "pos_dims ds \<Longrightarrow> pos_dims (lost bs ds)"
  by (induction bs ds rule: kept.induct) simp_all

lemma prod_parts:
  assumes "pos_dims ds" "length bs = length ds"
  shows "prod_list (kept bs ds) * prod_list (lost bs ds) = prod_list ds"
  using assms by (induction bs ds rule: kept.induct) (simp_all add: mult.assoc mult.left_commute)

lemma prod_parts_le:
  assumes "pos_dims ds" "length bs = length ds"
  shows "prod_list (kept bs ds) \<le> prod_list ds" "prod_list (lost bs ds) \<le> prod_list ds"
proof -
  have "1 \<le> prod_list (kept bs ds)" "1 \<le> prod_list (lost bs ds)" using pos_parts prod_pos assms(1) by simp_all
  then show "prod_list (kept bs ds) \<le> prod_list ds" "prod_list (lost bs ds) \<le> prod_list ds"
    using prod_parts [OF assms] mult_le_cancel_left1 [of "prod_list (kept bs ds)" "prod_list (lost bs ds)"]
      mult_le_cancel_right1 [of "prod_list (lost bs ds)" "prod_list (kept bs ds)"] by simp_all
qed

lemma prod_take_le:
  assumes "pos_dims ds"
  shows "prod_list (take i ds) \<le> prod_list ds"
proof -
  have "pos_dims (take i ds)" "pos_dims (drop i ds)" using assms by (auto simp: pos_dims_def dest: in_set_takeD in_set_dropD)
  then have "1 \<le> prod_list (take i ds)" "1 \<le> prod_list (drop i ds)" using prod_pos by simp_all
  moreover have "prod_list ds = prod_list (take i ds) * prod_list (drop i ds)" by (metis append_take_drop_id prod_list.append)
  ultimately show ?thesis using mult_le_cancel_left1 [of "prod_list (take i ds)" "prod_list (drop i ds)"] by simp
qed

lemma row_major_snoc: "length cs = length ds \<Longrightarrow> row_major (ds @ [d]) (cs @ [c]) = row_major ds cs * d + c"
  by (induction ds cs rule: row_major.induct) (simp_all add: algebra_simps)

section \<open>The loops\<close>

lemma any_remains_eq: "length bs = n \<Longrightarrow> any_remains bs [0..int n - 1] = Some (\<exists>b\<in>set bs. b \<noteq> 0)"
proof -
  have walk: "any_remains (pre @ bs) [int (length pre)..int (length pre + length bs) - 1] = Some (\<exists>b\<in>set bs. b \<noteq> 0)" for pre bs
  proof (induction bs arbitrary: pre)
    case (Cons b bs)
    show ?case using Cons.IH [of "pre @ [b]"] unfolding upto_pre by (auto simp: aget_def nth_append)
  qed simp
  show "length bs = n \<Longrightarrow> any_remains bs [0..int n - 1] = Some (\<exists>b\<in>set bs. b \<noteq> 0)" using walk [of "[]" bs] by simp
qed

text \<open>The state of the loops after \<open>i\<close> dimensions.\<close>

definition front :: "int \<Rightarrow> 'a list \<Rightarrow> 'a list" where
  "front i xs = take (nat i) xs"

lemma front_step: "0 \<le> i \<Longrightarrow> i < int (length xs) \<Longrightarrow> front (i + 1) xs = front i xs @ [xs ! nat i]"
  by (simp add: front_def nat_add_distrib take_Suc_conv_app_nth)

lemma front_simps [simp]: "front 0 xs = []" "front (int (length xs)) xs = xs"
  by (simp_all add: front_def)

lemma length_front: "length (front i xs) = min (length xs) (nat i)"
  by (simp add: front_def)

lemma front_bounds:
  assumes "pos_dims ds" "in_grid ds xs" "length bs = length ds" "prod_list ds \<le> INT_MAX"
  shows "0 \<le> row_major (kept (front i bs) (front i ds)) (kept (front i bs) (front i xs))"
    "row_major (kept (front i bs) (front i ds)) (kept (front i bs) (front i xs)) < INT_MAX"
    "0 \<le> row_major (lost (front i bs) (front i ds)) (lost (front i bs) (front i xs))"
    "row_major (lost (front i bs) (front i ds)) (lost (front i bs) (front i xs)) < INT_MAX"
    "1 \<le> prod_list (kept (front i bs) (front i ds))" "prod_list (kept (front i bs) (front i ds)) \<le> INT_MAX"
proof -
  have g: "in_grid (front i ds) (front i xs)" using assms(2) by (simp add: in_grid_def front_def list_all2_takeI)
  have p: "pos_dims (front i ds)" using assms(1) by (auto simp: pos_dims_def front_def dest: in_set_takeD)
  have l: "length (front i bs) = length (front i ds)" using assms(3) by (simp add: length_front)
  have le: "prod_list (front i ds) \<le> INT_MAX" using prod_take_le [OF assms(1)] assms(4) by (auto simp: front_def intro: order_trans)
  note k = prod_parts_le [OF p l] and g' = in_grid_parts [OF g l]
  show "0 \<le> row_major (kept (front i bs) (front i ds)) (kept (front i bs) (front i xs))"
    "row_major (kept (front i bs) (front i ds)) (kept (front i bs) (front i xs)) < INT_MAX"
    using row_major_bound [OF g'(1)] k le by simp_all
  show "0 \<le> row_major (lost (front i bs) (front i ds)) (lost (front i bs) (front i xs))"
    "row_major (lost (front i bs) (front i ds)) (lost (front i bs) (front i xs)) < INT_MAX"
    using row_major_bound [OF g'(2)] k le by simp_all
  show "1 \<le> prod_list (kept (front i bs) (front i ds))" using pos_parts(1) [OF p] by (rule prod_pos)
  show "prod_list (kept (front i bs) (front i ds)) \<le> INT_MAX" using k le by simp
qed

lemma aget_front: "0 \<le> i \<Longrightarrow> i < int (length xs) \<Longrightarrow> aget xs i = Some (xs ! nat i)"
  by (simp add: aget_def)

lemma sub_size_walk:
  assumes "pos_dims (ca_dims c)" "length bs = length (ca_dims c)" "prod_list (ca_dims c) \<le> INT_MAX" "in_grid (ca_dims c) (ca_position c)"
  shows "ofold (sub_size_step c bs) [0..int (length (ca_dims c)) - 1] (0, 1) = Some (int (length (kept bs (ca_dims c))), prod_list (kept bs (ca_dims c)))"
proof -
  let ?k = "\<lambda>i. kept (front i bs) (front i (ca_dims c))"
  have "\<exists>s'. ofold (sub_size_step c bs) [0..int (length (ca_dims c)) - 1] (0, 1) = Some s'
    \<and> s' = (int (length (?k (int (length (ca_dims c))))), prod_list (?k (int (length (ca_dims c)))))"
  proof (rule ofold_upto)
    fix i s assume i: "0 \<le> i" "i < int (length (ca_dims c))" and s: "s = (int (length (?k i)), prod_list (?k i))"
    have "?k (i + 1) = ?k i @ (if bs ! nat i \<noteq> 0 then [ca_dims c ! nat i] else [])"
      using i assms(2) by (simp add: front_step keep_snoc length_front)
    moreover have "1 \<le> prod_list (?k (i + 1))" "prod_list (?k (i + 1)) \<le> INT_MAX"
      using front_bounds(5,6) [OF assms(1,4,2,3), of "i + 1"] by simp_all
    ultimately show "\<exists>s'. sub_size_step c bs i s = Some s' \<and> s' = (int (length (?k (i + 1))), prod_list (?k (i + 1)))"
      using i assms(2) by (cases "bs ! nat i = 0") (simp_all add: sub_size_step_def s aget_front cint_def)
  qed simp_all
  then show ?thesis using assms(2) front_simps(2) [of bs] by simp
qed

lemma sub_key_walk:
  assumes "pos_dims (ca_dims c)" "length bs = length (ca_dims c)" "prod_list (ca_dims c) \<le> INT_MAX" "in_grid (ca_dims c) (ca_position c)"
  shows "ofold (sub_key_step c bs) [0..int (length (ca_dims c)) - 1] (0, 0) =
    Some (row_major (kept bs (ca_dims c)) (kept bs (ca_position c)), row_major (lost bs (ca_dims c)) (lost bs (ca_position c)))"
proof -
  let ?ds = "ca_dims c" and ?xs = "ca_position c"
  let ?k = "\<lambda>i. row_major (kept (front i bs) (front i ?ds)) (kept (front i bs) (front i ?xs))"
  let ?l = "\<lambda>i. row_major (lost (front i bs) (front i ?ds)) (lost (front i bs) (front i ?xs))"
  have len: "length ?xs = length ?ds" by (rule in_grid_length [OF assms(4)])
  have "\<exists>s'. ofold (sub_key_step c bs) [0..int (length ?ds) - 1] (0, 0) = Some s' \<and> s' = (?k (int (length ?ds)), ?l (int (length ?ds)))"
  proof (rule ofold_upto)
    fix i s assume i: "0 \<le> i" "i < int (length ?ds)" and s: "s = (?k i, ?l i)"
    let ?b = "bs ! nat i" and ?d = "?ds ! nat i" and ?x = "?xs ! nat i"
    have x: "0 \<le> ?x" "1 \<le> ?d" using assms(1,4) i by (auto simp: in_grid_nth pos_dims_def)
    have fr: "front (i + 1) bs = front i bs @ [?b]" "front (i + 1) ?ds = front i ?ds @ [?d]" "front (i + 1) ?xs = front i ?xs @ [?x]"
      using i assms(2) len by (simp_all add: front_step)
    have lf: "length (front i bs) = length (front i ?ds)" "length (front i bs) = length (front i ?xs)"
      using assms(2) len by (simp_all add: length_front)
    have "length (kept (front i bs) (front i ?xs)) = length (kept (front i bs) (front i ?ds))"
      "length (lost (front i bs) (front i ?xs)) = length (lost (front i bs) (front i ?ds))"
      using in_grid_parts [of "front i ?ds" "front i ?xs" "front i bs"] lf assms(4)
      by (auto simp: in_grid_def front_def list_all2_takeI dest!: list_all2_lengthD)
    then have k: "?k (i + 1) = (if ?b \<noteq> 0 then ?k i * ?d + ?x else ?k i)" and l: "?l (i + 1) = (if ?b \<noteq> 0 then ?l i else ?l i * ?d + ?x)"
      using lf by (simp_all add: fr keep_snoc lose_snoc row_major_snoc)
    note b = front_bounds [OF assms(1,4,2,3), of i] and b' = front_bounds [OF assms(1,4,2,3), of "i + 1"]
    have nn: "0 \<le> ?k i * ?d" "0 \<le> ?l i * ?d" using b x by simp_all
    show "\<exists>s'. sub_key_step c bs i s = Some s' \<and> s' = (?k (i + 1), ?l (i + 1))"
      using i assms(2) len k l b' nn x by (cases "?b = 0") (simp_all add: sub_key_step_def s aget_front cint_def)
  qed simp_all
  then show ?thesis using assms(2) len front_simps(2) [of bs] front_simps(2) [of ?xs] by simp
qed

lemma sub_dims_walk:
  assumes "length bs = length (ca_dims c)" "length (ca_periodic c) = length (ca_dims c)"
  shows "ofold (sub_dims_step c bs) [0..int (length (ca_dims c)) - 1] ([], []) = Some (kept bs (ca_dims c), kept bs (ca_periodic c))"
proof -
  let ?k = "\<lambda>i xs. kept (front i bs) (front i xs)"
  let ?n = "int (length (ca_dims c))"
  have "\<exists>s'. ofold (sub_dims_step c bs) [0..?n - 1] ([], []) = Some s' \<and> s' = (?k ?n (ca_dims c), ?k ?n (ca_periodic c))"
  proof (rule ofold_upto)
    fix i s assume i: "0 \<le> i" "i < ?n" and s: "s = (?k i (ca_dims c), ?k i (ca_periodic c))"
    then show "\<exists>s'. sub_dims_step c bs i s = Some s' \<and> s' = (?k (i + 1) (ca_dims c), ?k (i + 1) (ca_periodic c))"
      using assms by (simp add: sub_dims_step_def aget_front front_step keep_snoc length_front)
  qed simp_all
  then show ?thesis using assms front_simps(2) [of bs] front_simps(2) [of "ca_periodic c"] by simp
qed

section \<open>The processes of a sub-grid\<close>

definition sub_color :: "int list \<Rightarrow> int list \<Rightarrow> int \<Rightarrow> int" where
  "sub_color bs ds r = row_major (lost bs ds) (lost bs (grid_coords ds r))"

definition sub_key :: "int list \<Rightarrow> int list \<Rightarrow> int \<Rightarrow> int" where
  "sub_key bs ds r = row_major (kept bs ds) (kept bs (grid_coords ds r))"

definition sub_table :: "int list \<Rightarrow> int list \<Rightarrow> splittype list" where
  "sub_table bs ds = map (\<lambda>r. \<lparr>st_color = sub_color bs ds (int r), st_key = sub_key bs ds (int r)\<rparr>) [0..<nat (prod_list ds)]"

lemma sub_color_eq:
  assumes "length bs = length ds" "grid_rank ds q" "grid_rank ds r"
  shows "sub_color bs ds q = sub_color bs ds r \<longleftrightarrow> lost bs (grid_coords ds q) = lost bs (grid_coords ds r)"
    "sub_key bs ds q = sub_key bs ds r \<longleftrightarrow> kept bs (grid_coords ds q) = kept bs (grid_coords ds r)"
proof -
  have "in_grid ds (grid_coords ds q)" "in_grid ds (grid_coords ds r)" using row_major_of_coords assms(2,3) by blast+
  note q = in_grid_parts [OF this(1) assms(1)] and r = in_grid_parts [OF this(2) assms(1)]
  show "sub_color bs ds q = sub_color bs ds r \<longleftrightarrow> lost bs (grid_coords ds q) = lost bs (grid_coords ds r)"
    unfolding sub_color_def by (rule row_major.number_eq_iff [OF q(2) r(2)])
  show "sub_key bs ds q = sub_key bs ds r \<longleftrightarrow> kept bs (grid_coords ds q) = kept bs (grid_coords ds r)"
    unfolding sub_key_def by (rule row_major.number_eq_iff [OF q(1) r(1)])
qed

lemma same_place:
  assumes "length bs = length ds" "grid_rank ds q" "grid_rank ds r" "sub_color bs ds q = sub_color bs ds r" "sub_key bs ds q = sub_key bs ds r"
  shows "q = r"
proof -
  have e: "kept bs (grid_coords ds q) = kept bs (grid_coords ds r)" "lost bs (grid_coords ds q) = lost bs (grid_coords ds r)"
    using sub_color_eq [OF assms(1-3)] assms(4,5) by simp_all
  have "grid_coords ds q = weave bs (kept bs (grid_coords ds q)) (lost bs (grid_coords ds q))" using weave_split assms(1) by simp
  also have "\<dots> = grid_coords ds r" unfolding e using weave_split assms(1) by simp
  finally have "grid_coords ds q = grid_coords ds r" .
  then show ?thesis using row_major.place_eq_iff [OF assms(2,3)] by simp
qed

lemma sub_color_bounds:
  assumes "length bs = length ds" "grid_rank ds r"
  shows "0 \<le> sub_color bs ds r" "0 \<le> sub_key bs ds r" "sub_key bs ds r < prod_list (kept bs ds)"
proof -
  have "in_grid ds (grid_coords ds r)" using row_major_of_coords assms(2) by blast
  note g = in_grid_parts [OF this assms(1)]
  show "0 \<le> sub_color bs ds r" "0 \<le> sub_key bs ds r" "sub_key bs ds r < prod_list (kept bs ds)"
    using row_major_bound [OF g(1)] row_major_bound [OF g(2)] by (simp_all add: sub_color_def sub_key_def)
qed

lemma sub_place_exists:
  assumes "length bs = length ds" "grid_rank ds r" "0 \<le> v" "v < prod_list (kept bs ds)"
  shows "\<exists>q. grid_rank ds q \<and> sub_color bs ds q = sub_color bs ds r \<and> sub_key bs ds q = v"
proof -
  have "grid_rank (kept bs ds) v" using assms pos_parts(1) by (simp add: grid_rank_def)
  then have v: "in_grid (kept bs ds) (grid_coords (kept bs ds) v)" "row_major (kept bs ds) (grid_coords (kept bs ds) v) = v"
    using row_major_of_coords by blast+
  have "in_grid ds (grid_coords ds r)" using row_major_of_coords assms(2) by blast
  note l = in_grid_parts(2) [OF this assms(1)]
  note w = in_grid_weave [OF v(1) l assms(1)]
  let ?w = "weave bs (grid_coords (kept bs ds) v) (lost bs (grid_coords ds r))"
  have "grid_rank ds (row_major ds ?w)" "grid_coords ds (row_major ds ?w) = ?w"
    using row_major.number_valid [OF w(1)] row_major.place_number [OF w(1)] by simp_all
  then show ?thesis using w v(2) by (auto simp: sub_color_def sub_key_def)
qed

lemma sub_members:
  assumes "length bs = length ds" "grid_rank ds r"
  defines "ms \<equiv> split_members (sub_color bs ds r) (sub_table bs ds)"
  shows "set ms = {q. grid_rank ds (int q) \<and> sub_color bs ds (int q) = sub_color bs ds r}"
    "map (\<lambda>q. sub_key bs ds (int q)) ms = [0..prod_list (kept bs ds) - 1]"
proof -
  have len: "length (sub_table bs ds) = nat (prod_list ds)" by (simp add: sub_table_def)
  have nth: "sub_table bs ds ! q = \<lparr>st_color = sub_color bs ds (int q), st_key = sub_key bs ds (int q)\<rparr>" if "q < nat (prod_list ds)" for q
    using that by (simp add: sub_table_def)
  have rank: "q < nat (prod_list ds) \<longleftrightarrow> grid_rank ds (int q)" for q using assms(2) by (auto simp: grid_rank_def)
  show set: "set ms = {q. grid_rank ds (int q) \<and> sub_color bs ds (int q) = sub_color bs ds r}"
    unfolding ms_def members_spec(1) len using nth rank by auto
  show "map (\<lambda>q. sub_key bs ds (int q)) ms = [0..prod_list (kept bs ds) - 1]"
  proof (rule strict_sorted_equal)
    have "sorted_wrt (\<lambda>a b. sub_key bs ds (int a) < sub_key bs ds (int b)) ms"
    proof (rule sorted_wrt_mono_rel [OF _ members_spec(3) [of "sub_table bs ds" "sub_color bs ds r", folded ms_def]])
      fix a b assume ab: "a \<in> set ms" "b \<in> set ms"
        and lt: "st_key (sub_table bs ds ! a) < st_key (sub_table bs ds ! b) \<or> st_key (sub_table bs ds ! a) = st_key (sub_table bs ds ! b) \<and> a < b"
      then have g: "grid_rank ds (int a)" "grid_rank ds (int b)" "sub_color bs ds (int a) = sub_color bs ds (int b)" using set by auto
      then have "sub_key bs ds (int a) = sub_key bs ds (int b) \<Longrightarrow> a = b" using same_place [OF assms(1) g(1,2,3)] by simp
      then show "sub_key bs ds (int a) < sub_key bs ds (int b)" using lt nth g(1,2) rank by auto
    qed
    then show "sorted_wrt (<) (map (\<lambda>q. sub_key bs ds (int q)) ms)" by (simp add: sorted_wrt_map)
    have "v \<in> (\<lambda>q. sub_key bs ds (int q)) ` set ms" if v: "0 \<le> v" "v < prod_list (kept bs ds)" for v
    proof -
      obtain q where q: "grid_rank ds q" "sub_color bs ds q = sub_color bs ds r" "sub_key bs ds q = v"
        using sub_place_exists [OF assms(1,2) v] by blast
      then have "nat q \<in> set ms" "sub_key bs ds (int (nat q)) = v" using set by (auto simp: grid_rank_def)
      then show ?thesis by blast
    qed
    then show "set (map (\<lambda>q. sub_key bs ds (int q)) ms) = set [0..prod_list (kept bs ds) - 1]"
      using set sub_color_bounds(2,3) [OF assms(1)] by fastforce
  qed (simp add: sorted_wrt_upto)
qed

lemma sub_member_set:
  assumes "length bs = length ds" "grid_rank ds r"
  shows "set (map int (split_members (sub_color bs ds r) (sub_table bs ds))) = {q. grid_rank ds q \<and> lost bs (grid_coords ds q) = lost bs (grid_coords ds r)}"
proof -
  have "set (map int (split_members (sub_color bs ds r) (sub_table bs ds))) = {q. grid_rank ds q \<and> sub_color bs ds q = sub_color bs ds r}"
  proof -
    have "q \<in> range int" if "grid_rank ds q" for q using that by (auto simp: grid_rank_def intro: range_eqI [of _ _ "nat q"])
    then show ?thesis using sub_members(1) [OF assms] by auto
  qed
  also have "\<dots> = {q. grid_rank ds q \<and> lost bs (grid_coords ds q) = lost bs (grid_coords ds r)}"
    using sub_color_eq(1) [OF assms(1) _ assms(2)] by auto
  finally show ?thesis .
qed

lemma sub_split:
  assumes "grid_comm comm c" "length bs = length (ca_dims c)" "comm_env_ok env (cm_rank comm) (sub_table bs (ca_dims c)) cid"
  defines "ms \<equiv> split_members (sub_color bs (ca_dims c) (cm_rank comm)) (sub_table bs (ca_dims c))"
  shows "MPIR_Comm_split_impl env comm rank0 (sub_color bs (ca_dims c) (cm_rank comm)) (sub_key bs (ca_dims c) (cm_rank comm)) None
      = Some (None, Some (split_comm comm ms [] (sub_key bs (ca_dims c) (cm_rank comm)) cid 0), [])"
    "int (length ms) = prod_list (kept bs (ca_dims c))"
proof -
  note g = grid_commD [OF assms(1)]
  note ok = cart_okD [OF g(2)]
  let ?ds = "ca_dims c" and ?r = "cm_rank comm"
  let ?color = "sub_color bs ?ds ?r" and ?key = "sub_key bs ?ds ?r" and ?t = "sub_table bs ?ds"
  note b = sub_color_bounds [OF assms(2) g(4)] and m = sub_members(2) [OF assms(2) g(4), folded ms_def]
  have r: "int (nat ?r) = ?r" "nat ?r < length ?t" "?t ! nat ?r = \<lparr>st_color = ?color, st_key = ?key\<rparr>"
    using g(4) by (auto simp: grid_rank_def sub_table_def)
  obtain k where k: "k < length ms" "ms ! k = nat ?r" using own_index [of "nat ?r" ?t ?color] r unfolding ms_def by auto
  have P: "1 \<le> prod_list (kept bs ?ds)" using pos_parts(1) [OF ok(2)] by (rule prod_pos)
  show lm: "int (length ms) = prod_list (kept bs ?ds)" using arg_cong [OF m, of length] P by simp
  have ik: "int k = ?key" using arg_cong [OF m, of "\<lambda>l. l ! k"] k r(1) lm by (simp add: nth_upto)
  show "MPIR_Comm_split_impl env comm rank0 ?color ?key None = Some (None, Some (split_comm comm ms [] ?key cid 0), [])"
    using comm_split_intra [of env comm ?t "nat ?r" cid k rank0 None] assms(3) g(3,5) ok(4,6) r k b(1) ik
    by (simp add: comm_env_ok_def MPI_UNDEFINED_def sub_table_def ms_def)
qed

text \<open>C38: \<open>MPI_Cart_sub\<close> on every process of a grid, with at least one remaining dimension: the process gets
  a communicator with a well-formed Cartesian topology whose dimensions and periods are the remaining
  ones and where its position, computed again from the rank the split gave it, is its old position
  without the dropped coordinates.  The members are exactly the processes with the same dropped
  coordinates, numbered in row-major order of the remaining ones.\<close>

theorem cart_sub:
  assumes "grid_comm comm c" "length bs = length (ca_dims c)" "\<exists>b\<in>set bs. b \<noteq> 0"
    "comm_env_ok (te_comm env) (cm_rank comm) (sub_table bs (ca_dims c)) cid" "te_put env = None"
  shows "\<exists>newcomm c'. MPIR_Cart_sub_impl env comm rank0 bs p = Some (None, Some newcomm, []) \<and> grid_comm newcomm c'
    \<and> ca_dims c' = kept bs (ca_dims c) \<and> ca_periodic c' = kept bs (ca_periodic c) \<and> ca_position c' = kept bs (ca_position c)
    \<and> set (cm_local_map newcomm) = {q. grid_rank (ca_dims c) q \<and> lost bs (grid_coords (ca_dims c) q) = lost bs (ca_position c)}
    \<and> map (\<lambda>q. row_major (kept bs (ca_dims c)) (kept bs (grid_coords (ca_dims c) q))) (cm_local_map newcomm) = [0..ca_nnodes c' - 1]"
proof -
  note g = grid_commD [OF assms(1)]
  note ok = cart_okD [OF g(2)]
  let ?ds = "ca_dims c" and ?r = "cm_rank comm"
  let ?ks = "kept bs ?ds" and ?key = "sub_key bs ?ds ?r"
  let ?ms = "split_members (sub_color bs ?ds ?r) (sub_table bs ?ds)"
  let ?nc = "split_comm comm ?ms [] ?key cid 0"
  let ?c = "\<lparr>ca_nnodes = prod_list ?ks, ca_ndims = int (length ?ks), ca_dims = ?ks, ca_periodic = kept bs (ca_periodic c), ca_position = kept bs (ca_position c)\<rparr>"
  note sp = sub_split [OF assms(1,2,4)] and b = sub_color_bounds [OF assms(2) g(4)] and m = sub_members [OF assms(2) g(4)]
  have P: "pos_dims ?ks" "prod_list ?ks \<le> INT_MAX"
    using pos_parts(1) [OF ok(2)] prod_parts_le(1) [OF ok(2) assms(2)] ok(5) by simp_all
  have key: "grid_rank ?ks ?key" using P b(2,3) by (simp add: grid_rank_def)
  have pos: "grid_coords ?ks ?key = kept bs (ca_position c)"
    using row_major.place_number [OF in_grid_parts(1) [OF g(7) assms(2)]] g(6) by (simp add: sub_key_def)
  obtain n r' where walk: "ofold (coords_step ?ks) [0..int (length ?ks) - 1] (prod_list ?ks, ?key, replicate (length ?ks) 0) = Some (n, r', grid_coords ?ks ?key)"
    using coords_walk [OF key P(2), of "[]" "[]" "replicate (length ?ks) 0"] by auto
  have fields: "cm_rank ?nc = ?key" "cm_kind ?nc = INTRACOMM" "cm_local_size ?nc = prod_list ?ks" "cm_remote_size ?nc = prod_list ?ks"
    "cm_local_map ?nc = map int ?ms"
    using g(3) sp(2) by (simp_all add: split_comm_def MPII_Comm_init_def)
  have "MPIR_Cart_sub_impl env comm rank0 bs p = Some (None, Some (?nc\<lparr>cm_topology := Some (MPI_CART ?c)\<rparr>), [])"
    using g(1,6) ok assms(2,3,5) any_remains_eq [OF assms(2)] sub_size_walk [OF ok(2) assms(2) ok(5) g(7)] sub_key_walk [OF ok(2) assms(2) ok(5) g(7)]
      sub_dims_walk [OF assms(2) ok(3)] sp(1) fields(1) walk pos
    by (auto simp: MPIR_Cart_sub_impl_def cart_of_def sub_color_def sub_key_def attach_topology_def MPIR_Topology_put_def split: option.splits MPIR_Topology.splits)
  moreover have "grid_comm (?nc\<lparr>cm_topology := Some (MPI_CART ?c)\<rparr>) ?c"
    using fields P key pos keep_length [OF ok(3)] by (simp add: grid_comm_def cart_of_def MPIR_Topology_get_def cart_ok_def grid_rank_def)
  moreover have "set (map int ?ms) = {q. grid_rank ?ds q \<and> lost bs (grid_coords ?ds q) = lost bs (ca_position c)}"
    using sub_member_set [OF assms(2) g(4)] g(6) by simp
  moreover have "map (\<lambda>q. row_major ?ks (kept bs (grid_coords ?ds q))) (map int ?ms) = [0..prod_list ?ks - 1]"
    using m(2) by (simp add: sub_key_def comp_def)
  ultimately show ?thesis using fields(5)
    by (intro exI [of _ "?nc\<lparr>cm_topology := Some (MPI_CART ?c)\<rparr>"] exI [of _ ?c]) simp
qed

theorem cart_sub_witness:
  "\<exists>newcomm c'. MPIR_Cart_sub_impl (cart_env_ex (sub_table [0, 1] [2, 3])) (cart_comm_ex 4) 0 [0, 1] None = Some (None, Some newcomm, [])
    \<and> ca_dims c' = [3] \<and> ca_periodic c' = [1] \<and> ca_position c' = [1] \<and> grid_comm newcomm c'"
proof -
  have "grid_comm (cart_comm_ex 4) (cart_ex 4)" by (simp add: cart_ex_ok)
  then show ?thesis
    using cart_sub [of "cart_comm_ex 4" "cart_ex 4" "[0, 1]" "cart_env_ex (sub_table [0, 1] [2, 3])" 16 0 None]
      cart_env_ex_ok(1) [of "sub_table [0, 1] [2, 3]" 4] cart_env_ex_ok(2) [of "sub_table [0, 1] [2, 3]"]
    by (auto simp: cart_ex_def cart_comm_ex_def world_ex_def MPII_Comm_init_def)
qed

text \<open>With no remaining dimension the function creates a zero-dimensional topology from the whole
  communicator, so only its rank 0 gets a communicator, although every process is a sub-grid of its
  own.\<close>

lemma cart_sub_none_remains:
  assumes "grid_comm comm c" "length bs = length (ca_dims c)" "\<forall>b\<in>set bs. b = 0" "cm_rank comm \<noteq> 0"
  shows "MPIR_Cart_sub_impl env comm rank0 bs p = Some (None, None, [])"
proof -
  note g = grid_commD [OF assms(1)]
  note ok = cart_okD [OF g(2)]
  have "MPIR_Cart_create_impl env comm rank0 0 [] [] False p = Some (None, None, [])"
    using assms(1,4) ok by (simp add: MPIR_Cart_create_impl_def dims_product_def grid_comm_def)
  then show ?thesis using g(1) ok(1) any_remains_eq [OF assms(2)] assms(3)
    by (auto simp: MPIR_Cart_sub_impl_def cart_of_def split: option.splits MPIR_Topology.splits)
qed

end
