(* ===== verification/Topo_Graphs.thy ===== *)
theory Topo_Graphs
  imports Topologies
begin

text \<open>
  Graph and distributed graph topologies (\<open>mpi/topo/topo_impl.c\<close>, \<open>mpi/topo/dist_graph_create.c\<close>) and
  the canonical neighbour lists of any topology (\<open>mpi/topo/topoutil.c\<close>).

  Buffers of the caller are lists and every store into them is checked; \<open>None\<close> as a weight array is
  \<open>MPI_UNWEIGHTED\<close>.  The functions that fill buffers return the error code and the buffers.
\<close>

section \<open>Graphs\<close>

definition graph_of :: "topo_comm \<Rightarrow> MPII_Graph_topology option" where
  "graph_of comm = (case MPIR_Topology_get comm of Some (MPI_GRAPH g) \<Rightarrow> Some g | _ \<Rightarrow> None)"

definition MPIR_Graph_map_impl :: "topo_comm \<Rightarrow> int \<Rightarrow> int" where
  "MPIR_Graph_map_impl comm nnodes = (if cm_rank comm < nnodes then cm_rank comm else MPI_UNDEFINED)"

definition copy_first :: "int \<Rightarrow> int list \<Rightarrow> int list option" where
  "copy_first n xs = ofold (\<lambda>i ys. do { x \<leftarrow> aget xs i; Some (ys @ [x]) }) [0..n - 1] []"

definition MPIR_Graph_create_impl ::
    "topo_env \<Rightarrow> topo_comm \<Rightarrow> int \<Rightarrow> int \<Rightarrow> int list \<Rightarrow> int list \<Rightarrow> bool \<Rightarrow> topo_comm option \<Rightarrow> MPIR_Topology comm_outcome option" where
  "MPIR_Graph_create_impl env comm rank0 nnodes indx edges reorder p = do {
     (err, nc, freed) \<leftarrow>
       (if reorder then
          (let nrank = MPIR_Graph_map_impl comm nnodes in
           MPIR_Comm_split_impl (te_comm env) comm rank0 (if nrank = MPI_UNDEFINED then MPI_UNDEFINED else 1) nrank None)
        else MPII_Comm_copy (te_comm env) comm nnodes None);
     case err of
       Some e \<Rightarrow> Some (Some e, p, freed)
     | None \<Rightarrow>
         (case nc of
            None \<Rightarrow> Some (None, None, freed)
          | Some newcomm \<Rightarrow> do {
              nedges \<leftarrow> aget indx (nnodes - 1);
              index' \<leftarrow> copy_first nnodes indx;
              edges' \<leftarrow> copy_first nedges edges;
              Some (attach_topology env newcomm
                (MPI_GRAPH \<lparr>gr_nnodes = nnodes, gr_nedges = nedges, gr_index = index', gr_edges = edges'\<rparr>) p freed)
            })
   }"

definition MPIR_Graph_get_impl ::
    "topo_comm \<Rightarrow> int \<Rightarrow> int \<Rightarrow> int list \<Rightarrow> int list \<Rightarrow> (mpi_error option \<times> int list \<times> int list) option" where
  "MPIR_Graph_get_impl comm maxindex maxedges indx edges =
     (case graph_of comm of
        None \<Rightarrow> Some (Some MPI_ERR_TOPOLOGY, indx, edges)
      | Some g \<Rightarrow>
          if gr_nnodes g > maxindex \<or> gr_nedges g > maxedges then Some (Some MPI_ERR_ARG, indx, edges)
          else do {
            indx \<leftarrow> copy_out (gr_nnodes g) (gr_index g) indx;
            edges \<leftarrow> copy_out (gr_nedges g) (gr_edges g) edges;
            Some (None, indx, edges)
          })"

definition MPIR_Graphdims_get_impl :: "topo_comm \<Rightarrow> (int \<times> int) mpi_result" where
  "MPIR_Graphdims_get_impl comm = (case graph_of comm of None \<Rightarrow> Inl MPI_ERR_TOPOLOGY | Some g \<Rightarrow> Inr (gr_nnodes g, gr_nedges g))"

text \<open>\<open>maxneighbors\<close> is not used.\<close>

definition MPIR_Graph_neighbors_impl :: "topo_comm \<Rightarrow> int \<Rightarrow> int \<Rightarrow> int list \<Rightarrow> (mpi_error option \<times> int list) option" where
  "MPIR_Graph_neighbors_impl comm rank maxneighbors neighbors =
     (case graph_of comm of
        None \<Rightarrow> Some (Some MPI_ERR_TOPOLOGY, neighbors)
      | Some g \<Rightarrow>
          if rank < 0 \<or> rank \<ge> gr_nnodes g then Some (Some MPI_ERR_RANK, neighbors)
          else do {
            first \<leftarrow> (if rank = 0 then Some 0 else aget (gr_index g) (rank - 1));
            stop \<leftarrow> aget (gr_index g) rank;
            neighbors \<leftarrow> ofold (\<lambda>i buf. do { e \<leftarrow> aget (gr_edges g) i; aset buf (i - first) e }) [first..stop - 1] neighbors;
            Some (None, neighbors)
          })"

definition MPIR_Graph_neighbors_count_impl :: "topo_comm \<Rightarrow> int \<Rightarrow> int mpi_result option" where
  "MPIR_Graph_neighbors_count_impl comm rank =
     (case graph_of comm of
        None \<Rightarrow> Some (Inl MPI_ERR_TOPOLOGY)
      | Some g \<Rightarrow>
          if rank < 0 \<or> rank \<ge> gr_nnodes g then Some (Inl MPI_ERR_RANK)
          else if rank = 0 then map_option Inr (aget (gr_index g) rank)
          else do {
            a \<leftarrow> aget (gr_index g) rank;
            b \<leftarrow> aget (gr_index g) (rank - 1);
            n \<leftarrow> cint (a - b);
            Some (Inr n)
          })"

section \<open>Distributed graphs given by their neighbours\<close>

definition dist_graph_of :: "topo_comm \<Rightarrow> MPII_Dist_graph_topology option" where
  "dist_graph_of comm = (case MPIR_Topology_get comm of Some (MPI_DIST_GRAPH d) \<Rightarrow> Some d | _ \<Rightarrow> None)"

text \<open>\<open>MPIR_Memcpy\<close> of \<open>n\<close> integers into a fresh array and into a buffer of the caller.\<close>

definition memcpy_new :: "int \<Rightarrow> int list \<Rightarrow> int list option" where
  "memcpy_new n xs = (if n \<le> int (length xs) then Some (take (nat n) xs) else None)"

definition memcpy_into :: "int \<Rightarrow> int list option \<Rightarrow> int list \<Rightarrow> int list option" where
  "memcpy_into n src buf = do {
     xs \<leftarrow> src;
     if n \<le> int (length xs) \<and> n \<le> int (length buf) then Some (take (nat n) xs @ drop (nat n) buf) else None
   }"

definition adjacent_side :: "int \<Rightarrow> int list \<Rightarrow> int list option \<Rightarrow> bool \<Rightarrow> (int list option \<times> int list option) option" where
  "adjacent_side degree ranks weights is_weighted =
     (if degree > 0 then do {
        xs \<leftarrow> memcpy_new degree ranks;
        if is_weighted then do { ws \<leftarrow> weights; ws \<leftarrow> memcpy_new degree ws; Some (Some xs, Some ws) }
        else Some (Some xs, None)
      }
      else Some (None, None))"

definition MPIR_Dist_graph_create_adjacent_impl ::
    "topo_env \<Rightarrow> topo_comm \<Rightarrow> int \<Rightarrow> int list \<Rightarrow> int list option \<Rightarrow> int \<Rightarrow> int list \<Rightarrow> int list option \<Rightarrow> topo_comm option
      \<Rightarrow> MPIR_Topology comm_outcome option" where
  "MPIR_Dist_graph_create_adjacent_impl env comm indegree sources sourceweights outdegree destinations destweights p = do {
     (err, nc, freed) \<leftarrow> MPII_Comm_copy (te_comm env) comm (cm_local_size comm) p;
     case err of
       Some e \<Rightarrow> Some (Some e, nc, freed)
     | None \<Rightarrow> do {
         let is_weighted = (sourceweights \<noteq> None);
         (ins, in_weights) \<leftarrow> adjacent_side indegree sources sourceweights is_weighted;
         (outs, out_weights) \<leftarrow> adjacent_side outdegree destinations destweights is_weighted;
         newcomm \<leftarrow> nc;
         Some (attach_topology env newcomm (MPI_DIST_GRAPH \<lparr>dg_indegree = indegree, dg_in = ins, dg_in_weights = in_weights,
           dg_outdegree = outdegree, dg_out = outs, dg_out_weights = out_weights, dg_is_weighted = is_weighted\<rparr>) nc freed)
       }
   }"

definition MPIR_Dist_graph_neighbors_count_impl :: "topo_comm \<Rightarrow> (int \<times> int \<times> bool) mpi_result" where
  "MPIR_Dist_graph_neighbors_count_impl comm =
     (case dist_graph_of comm of
        None \<Rightarrow> Inl MPI_ERR_TOPOLOGY
      | Some d \<Rightarrow> Inr (dg_indegree d, dg_outdegree d, dg_is_weighted d))"

definition neighbours_side ::
    "int \<Rightarrow> int list option \<Rightarrow> int list option \<Rightarrow> bool \<Rightarrow> int list \<Rightarrow> int list option \<Rightarrow> (int list \<times> int list option) option" where
  "neighbours_side degree ranks weights is_weighted buf wbuf =
     (if degree > 0 then do {
        buf \<leftarrow> memcpy_into degree ranks buf;
        case wbuf of
          None \<Rightarrow> Some (buf, None)
        | Some w \<Rightarrow> if is_weighted then do { w \<leftarrow> memcpy_into degree weights w; Some (buf, Some w) } else Some (buf, Some w)
      }
      else Some (buf, wbuf))"

type_synonym nhb_buffers = "int list \<times> int list option \<times> int list \<times> int list option"

definition MPIR_Dist_graph_neighbors_impl ::
    "topo_comm \<Rightarrow> int \<Rightarrow> int list \<Rightarrow> int list option \<Rightarrow> int \<Rightarrow> int list \<Rightarrow> int list option \<Rightarrow> (mpi_error option \<times> nhb_buffers) option" where
  "MPIR_Dist_graph_neighbors_impl comm maxindegree sources sourceweights maxoutdegree destinations destweights =
     (case dist_graph_of comm of
        None \<Rightarrow> Some (Some MPI_ERR_TOPOLOGY, (sources, sourceweights, destinations, destweights))
      | Some d \<Rightarrow> do {
          (sources, sourceweights) \<leftarrow> neighbours_side maxindegree (dg_in d) (dg_in_weights d) (dg_is_weighted d) sources sourceweights;
          (destinations, destweights) \<leftarrow> neighbours_side maxoutdegree (dg_out d) (dg_out_weights d) (dg_is_weighted d) destinations destweights;
          Some (None, (sources, sourceweights, destinations, destweights))
        })"

section \<open>Canonical neighbours\<close>

definition MPIR_Topo_canon_nhb_count :: "topo_comm \<Rightarrow> (int \<times> int \<times> bool) mpi_result option" where
  "MPIR_Topo_canon_nhb_count comm =
     (case MPIR_Topology_get comm of
        None \<Rightarrow> Some (Inl MPI_ERR_TOPOLOGY)
      | Some (MPI_DIST_GRAPH d) \<Rightarrow> Some (MPIR_Dist_graph_neighbors_count_impl comm)
      | Some (MPI_GRAPH g) \<Rightarrow> map_option (map_sum id (\<lambda>n. (n, n, False))) (MPIR_Graph_neighbors_count_impl comm (cm_rank comm))
      | Some (MPI_CART c) \<Rightarrow> do { n \<leftarrow> cint (2 * ca_ndims c); Some (Inr (n, n, False)) }
      | Some (MPI_TOPO_OTHER k) \<Rightarrow> None)"

fun canon_shifts :: "topo_comm \<Rightarrow> int list \<Rightarrow> int list \<Rightarrow> int list \<Rightarrow> (mpi_error option \<times> int list \<times> int list) option" where
  "canon_shifts comm [] sources dests = Some (None, sources, dests)"
| "canon_shifts comm (d # ds) sources dests = do {
     r \<leftarrow> MPIR_Cart_shift_impl comm d 1;
     case r of
       Inl e \<Rightarrow> Some (Some e, sources, dests)
     | Inr (s, t) \<Rightarrow> do {
         sources \<leftarrow> aset sources (2 * d) s;
         sources \<leftarrow> aset sources (2 * d + 1) t;
         dests \<leftarrow> aset dests (2 * d) s;
         dests \<leftarrow> aset dests (2 * d + 1) t;
         canon_shifts comm ds sources dests
       }
   }"

definition MPIR_Topo_canon_nhb ::
    "topo_comm \<Rightarrow> int \<Rightarrow> int list \<Rightarrow> int list option \<Rightarrow> int \<Rightarrow> int list \<Rightarrow> int list option \<Rightarrow> (mpi_error option \<times> nhb_buffers) option" where
  "MPIR_Topo_canon_nhb comm indegree sources inweights outdegree dests outweights =
     (case MPIR_Topology_get comm of
        None \<Rightarrow> Some (Some MPI_ERR_TOPOLOGY, (sources, inweights, dests, outweights))
      | Some (MPI_DIST_GRAPH d) \<Rightarrow> MPIR_Dist_graph_neighbors_impl comm indegree sources inweights outdegree dests outweights
      | Some (MPI_GRAPH g) \<Rightarrow>
          if indegree \<noteq> outdegree then None
          else do {
            (err, sources) \<leftarrow> MPIR_Graph_neighbors_impl comm (cm_rank comm) indegree sources;
            case err of
              Some e \<Rightarrow> Some (Some e, (sources, inweights, dests, outweights))
            | None \<Rightarrow> do { dests \<leftarrow> memcpy_into outdegree (Some sources) dests; Some (None, (sources, inweights, dests, outweights)) }
          }
      | Some (MPI_CART c) \<Rightarrow>
          if indegree \<noteq> outdegree \<or> indegree \<noteq> 2 * ca_ndims c then None
          else do {
            (err, sources, dests) \<leftarrow> canon_shifts comm [0..ca_ndims c - 1] sources dests;
            Some (err, (sources, inweights, dests, outweights))
          }
      | Some (MPI_TOPO_OTHER k) \<Rightarrow> None)"

end
