(* ===== verification/Dist_Graph.thy ===== *)
theory Dist_Graph
  imports Topo_Graphs
begin

text \<open>
  \<open>MPIR_Dist_graph_create_impl\<close> (\<open>mpi/topo/dist_graph_create.c\<close>): every process describes some edges of
  the graph, and each edge is sent to its source and to its destination.

  One process: \<open>edge_sizes\<close> and \<open>edge_arrays\<close> are the two passes over the edges, \<open>peer_flags\<close> is the
  buffer of the reduction, \<open>posted_sends\<close> the messages of the send loop, \<open>receive_edges\<close> a receive loop with
  its growing arrays.  The messages in the order in which \<open>MPIC_Probe\<close> and \<open>MPIC_Recv\<close> deliver them, the
  result of \<open>MPIR_Reduce_scatter_block\<close> and the result of \<open>MPIC_Waitall\<close> are fields of \<open>dist_env\<close>.
  \<open>MPL_realloc\<close> to length 0 gives a null pointer.
\<close>

section \<open>The passes over the edges\<close>

text \<open>The loop over the sources and, for each, over its degree; \<open>idx\<close> runs over all edges.\<close>

definition source_step ::
    "(int \<Rightarrow> bool) \<Rightarrow> (int \<Rightarrow> int \<Rightarrow> 's \<Rightarrow> 's option) \<Rightarrow> int list \<Rightarrow> int list \<Rightarrow> int \<Rightarrow> int \<times> 's \<Rightarrow> (int \<times> 's) option" where
  "source_step source_ok body sources degrees i = (\<lambda>(idx, s). do {
     source \<leftarrow> aget sources i;
     degree \<leftarrow> aget degrees i;
     if \<not> source_ok source then None
     else ofold (\<lambda>j (idx, s). do { s' \<leftarrow> body source idx s; Some (idx + 1, s') }) [0..degree - 1] (idx, s)
   })"

definition edge_loop :: "(int \<Rightarrow> bool) \<Rightarrow> (int \<Rightarrow> int \<Rightarrow> 's \<Rightarrow> 's option) \<Rightarrow> int \<Rightarrow> int list \<Rightarrow> int list \<Rightarrow> 's \<Rightarrow> 's option" where
  "edge_loop source_ok body n sources degrees s0 =
     map_option snd (ofold (source_step source_ok body sources degrees) [0..n - 1] (0, s0))"

definition add2 :: "int list \<Rightarrow> int \<Rightarrow> int list option" where
  "add2 xs i = do { x \<leftarrow> aget xs i; x' \<leftarrow> cint (x + 2); aset xs i x' }"

definition size_body :: "int \<Rightarrow> int list \<Rightarrow> int \<Rightarrow> int \<Rightarrow> int list \<times> int list \<Rightarrow> (int list \<times> int list) option" where
  "size_body comm_size destinations source idx = (\<lambda>(rin_sizes, rout_sizes). do {
     d \<leftarrow> aget destinations idx;
     if \<not> d < comm_size then None
     else do { rout_sizes \<leftarrow> add2 rout_sizes source; rin_sizes \<leftarrow> add2 rin_sizes d; Some (rin_sizes, rout_sizes) }
   })"

definition edge_sizes :: "int \<Rightarrow> int \<Rightarrow> int list \<Rightarrow> int list \<Rightarrow> int list \<Rightarrow> (int list \<times> int list) option" where
  "edge_sizes comm_size n sources degrees destinations =
     edge_loop (\<lambda>s. s < comm_size) (size_body comm_size destinations) n sources degrees
       (replicate (nat comm_size) 0, replicate (nat comm_size) 0)"

text \<open>An array of arrays with the next free index of each.\<close>

type_synonym filled = "int list list \<times> int list"

definition push :: "filled \<Rightarrow> int \<Rightarrow> int \<Rightarrow> filled option" where
  "push f i v = (case f of (arrs, idxs) \<Rightarrow> do {
     arr \<leftarrow> aget arrs i;
     k \<leftarrow> aget idxs i;
     arr' \<leftarrow> aset arr k v;
     arrs' \<leftarrow> aset arrs i arr';
     idxs' \<leftarrow> aset idxs i (k + 1);
     Some (arrs', idxs')
   })"

definition fill_body :: "int \<Rightarrow> int list \<Rightarrow> int list option \<Rightarrow> int \<Rightarrow> int \<Rightarrow> filled \<times> filled \<Rightarrow> (filled \<times> filled) option" where
  "fill_body comm_size destinations weights s_rank idx = (\<lambda>(rin, rout). do {
     d_rank \<leftarrow> aget destinations idx;
     weight \<leftarrow> (case weights of None \<Rightarrow> Some 0 | Some ws \<Rightarrow> aget ws idx);
     if \<not> d_rank < comm_size \<or> \<not> d_rank \<ge> 0 then None
     else do {
       rout \<leftarrow> push rout s_rank d_rank;
       rout \<leftarrow> push rout s_rank weight;
       rin \<leftarrow> push rin d_rank s_rank;
       rin \<leftarrow> push rin d_rank weight;
       Some (rin, rout)
     }
   })"

definition edge_arrays ::
    "int \<Rightarrow> int \<Rightarrow> int list \<Rightarrow> int list \<Rightarrow> int list \<Rightarrow> int list option \<Rightarrow> (int list list \<times> int list list) option" where
  "edge_arrays comm_size n sources degrees destinations weights = do {
     (rin_sizes, rout_sizes) \<leftarrow> edge_sizes comm_size n sources degrees destinations;
     let alloc = (\<lambda>sizes. (map (\<lambda>k. replicate (nat k) 0) sizes, replicate (nat comm_size) 0));
     ((rin, rin_idx), (rout, rout_idx)) \<leftarrow> edge_loop (\<lambda>s. s < comm_size \<and> s \<ge> 0) (fill_body comm_size destinations weights)
       n sources degrees (alloc rin_sizes, alloc rout_sizes);
     if rin_idx = rin_sizes \<and> rout_idx = rout_sizes then Some (rin, rout) else None
   }"

section \<open>Exchange\<close>

definition peer_flags :: "int list list \<Rightarrow> int list list \<Rightarrow> int list" where
  "peer_flags rin rout = concat (map2 (\<lambda>a b. [if a \<noteq> [] then 1 else 0, if b \<noteq> [] then 1 else 0]) rin rout)"

datatype topo_tag = MPIR_TOPO_A_TAG | MPIR_TOPO_B_TAG

definition posted_sends :: "int list list \<Rightarrow> int list list \<Rightarrow> (nat \<times> topo_tag \<times> int list) list" where
  "posted_sends rin rout = concat (map (\<lambda>i.
     (if rin ! i \<noteq> [] then [(i, MPIR_TOPO_A_TAG, rin ! i)] else [])
     @ (if rout ! i \<noteq> [] then [(i, MPIR_TOPO_B_TAG, rout ! i)] else [])) [0..<length rin])"

text \<open>One side of the graph while it is received: degree, capacity, ranks, weights.\<close>

type_synonym recv_state = "int \<times> int \<times> int list \<times> int list option"

definition grow_array :: "int \<Rightarrow> int list \<Rightarrow> int list" where
  "grow_array capacity xs = xs @ replicate (nat capacity - length xs) 0"

definition recv_edge :: "int list \<Rightarrow> int \<Rightarrow> recv_state \<Rightarrow> recv_state option" where
  "recv_edge buf j = (\<lambda>(degree, capacity, ranks, weights). do {
     capacity' \<leftarrow> (if degree \<ge> capacity then cint (capacity * 2) else Some capacity);
     let ranks = grow_array capacity' ranks;
     let weights = map_option (grow_array capacity') weights;
     r \<leftarrow> aget buf (2 * j);
     ranks \<leftarrow> aset ranks degree r;
     weights \<leftarrow> (case weights of
        None \<Rightarrow> Some None
      | Some ws \<Rightarrow> do { w \<leftarrow> aget buf (2 * j + 1); ws \<leftarrow> aset ws degree w; Some (Some ws) });
     degree' \<leftarrow> cint (degree + 1);
     Some (degree', capacity', ranks, weights)
   })"

definition recv_message :: "int list \<Rightarrow> recv_state \<Rightarrow> recv_state option" where
  "recv_message buf s = ofold (recv_edge buf) [0..int (length buf) div 2 - 1] s"

text \<open>The receive loop for \<open>peers\<close> messages, and the arrays cut to their length after it.\<close>

definition receive_edges :: "bool \<Rightarrow> int \<Rightarrow> int list list \<Rightarrow> (int \<times> int list option \<times> int list option) option" where
  "receive_edges is_weighted peers messages = (if int (length messages) < peers then None else do {
     (degree, capacity, ranks, weights) \<leftarrow> ofold recv_message (take (nat peers) messages)
       (0, 10, replicate 10 0, if is_weighted then Some (replicate 10 0) else None);
     let shrink = (\<lambda>xs. if degree = 0 then None else Some (take (nat degree) xs));
     Some (degree, shrink ranks, Option.bind weights shrink)
   })"

record dist_env =
  de_topo :: topo_env
  de_reduce_scatter :: "int list \<Rightarrow> (int \<times> int) mpi_result"
  de_inbound :: "int list list"
  de_outbound :: "int list list"
  de_waitall :: "mpi_error option"

definition MPIR_Dist_graph_create_impl ::
    "dist_env \<Rightarrow> topo_comm \<Rightarrow> int \<Rightarrow> int list \<Rightarrow> int list \<Rightarrow> int list \<Rightarrow> int list option \<Rightarrow> topo_comm option
      \<Rightarrow> ((nat \<times> topo_tag \<times> int list) list \<times> MPIR_Topology comm_outcome) option" where
  "MPIR_Dist_graph_create_impl env comm n sources degrees destinations weights p = do {
     let comm_size = cm_local_size comm;
     (err, nc, freed) \<leftarrow> MPII_Comm_copy (te_comm (de_topo env)) comm comm_size None;
     case err of
       Some e \<Rightarrow> Some ([], (Some e, p, freed))
     | None \<Rightarrow> do {
         newcomm \<leftarrow> nc;
         (rin, rout) \<leftarrow> edge_arrays comm_size n sources degrees destinations weights;
         case de_reduce_scatter env (peer_flags rin rout) of
           Inl e \<Rightarrow> Some ([], (Some e, p, freed))
         | Inr (in_peers, out_peers) \<Rightarrow>
             if \<not> (0 \<le> in_peers \<and> in_peers \<le> comm_size \<and> 0 \<le> out_peers \<and> out_peers \<le> comm_size) then None
             else do {
               let sends = posted_sends rin rout;
               let is_weighted = (weights \<noteq> None);
               (indegree, ins, in_weights) \<leftarrow> receive_edges is_weighted in_peers (de_inbound env);
               (outdegree, outs, out_weights) \<leftarrow> receive_edges is_weighted out_peers (de_outbound env);
               case de_waitall env of
                 Some e \<Rightarrow> Some (sends, (Some e, p, freed))
               | None \<Rightarrow> Some (sends, attach_topology (de_topo env) newcomm (MPI_DIST_GRAPH \<lparr>dg_indegree = indegree, dg_in = ins,
                   dg_in_weights = in_weights, dg_outdegree = outdegree, dg_out = outs, dg_out_weights = out_weights,
                   dg_is_weighted = is_weighted\<rparr>) p freed)
             }
       }
   }"

end
