(* ===== verification/Dist_Loops.thy ===== *)
theory Dist_Loops
  imports Dist_Graph Cart_Loops "HOL-Library.Multiset"
begin

text \<open>
  The loops of \<open>MPIR_Dist_graph_create_impl\<close> as functions of the list of edges a process describes:
  the array for each peer holds the edges that start or end there, and the receive loop collects all
  edges of the messages it gets.
\<close>

section \<open>Loops over lists\<close>

lemma ofold_map: "ofold f (map g xs) s = ofold (\<lambda>x. f (g x)) xs s"
  by (induction xs arbitrary: s) (auto split: Option.bind_splits)

lemma ofold_cong: "xs = ys \<Longrightarrow> (\<And>x s. x \<in> set ys \<Longrightarrow> f x s = g x s) \<Longrightarrow> ofold f xs s = ofold g ys s"
  by (induction ys arbitrary: xs s) (auto split: Option.bind_splits)

text \<open>The source of every edge, in the order of the edges.\<close>

definition edge_sources :: "int list \<Rightarrow> int list \<Rightarrow> int list" where
  "edge_sources sources degrees = concat (map2 (\<lambda>s k. replicate (nat k) s) sources degrees)"

lemma inner_loop:
  "ofold (\<lambda>j (idx, s). do { s' \<leftarrow> body src idx s; Some (idx + 1, s') }) js (int m, s)
    = map_option (\<lambda>s. (int (m + length js), s)) (ofold (\<lambda>e. body src (int e)) [m..<m + length js] s)"
proof (induction js arbitrary: m s)
  case (Cons j js)
  have "[m..<m + length (j # js)] = m # [Suc m..<Suc m + length js]" by (subst upt_conv_Cons) simp_all
  then show ?case using Cons.IH [of "Suc m"] by (cases "body src (int m) s") (simp_all add: add.commute)
qed simp

lemma outer_loop:
  assumes "\<forall>s\<in>set ss. source_ok s" "length ks = length ss" "length dpre = length spre"
  shows "ofold (source_step source_ok body (spre @ ss) (dpre @ ks)) [int (length spre)..int (length spre + length ss) - 1] (int m, s)
    = map_option (\<lambda>s. (int (m + length (edge_sources ss ks)), s))
        (ofold (\<lambda>e. body (edge_sources ss ks ! (e - m)) (int e)) [m..<m + length (edge_sources ss ks)] s)"
  using assms
proof (induction ss arbitrary: spre dpre ks m s)
  case (Cons x ss)
  obtain k ks' where ks: "ks = k # ks'" using Cons.prems(2) by (cases ks) simp_all
  define a where "a = nat k"
  let ?es = "edge_sources ss ks'"
  have es: "edge_sources (x # ss) (k # ks') = replicate a x @ ?es" by (simp add: edge_sources_def a_def)
  have up: "[m..<m + a + length ?es] = [m..<m + a] @ [m + a..<m + a + length ?es]"
    using upt_add_eq_append [of m "m + a" "length ?es"] by simp
  have one: "ofold (\<lambda>e. body ((replicate a x @ ?es) ! (e - m)) (int e)) [m..<m + a] s = ofold (\<lambda>e. body x (int e)) [m..<m + a] s"
    by (rule ofold_cong) (auto simp: nth_append)
  have two: "ofold (\<lambda>e. body ((replicate a x @ ?es) ! (e - m)) (int e)) [m + a..<m + a + length ?es] s'
    = ofold (\<lambda>e. body (?es ! (e - (m + a))) (int e)) [m + a..<m + a + length ?es] s'" for s'
    by (rule ofold_cong) (auto simp: nth_append)
  have step: "source_step source_ok body (spre @ x # ss) (dpre @ k # ks') (int (length spre)) (int m, s)
    = map_option (\<lambda>s. (int (m + a), s)) (ofold (\<lambda>e. body x (int e)) [m..<m + a] s)"
    using Cons.prems(1,3) inner_loop [of body x "[0..k - 1]" m s] by (simp add: source_step_def aget_def nth_append a_def)
  have IH: "ofold (source_step source_ok body (spre @ x # ss) (dpre @ k # ks')) [int (length (spre @ [x]))..int (length (spre @ [x]) + length ss) - 1] (int (m + a), s')
    = map_option (\<lambda>s. (int (m + a + length ?es), s)) (ofold (\<lambda>e. body (?es ! (e - (m + a))) (int e)) [m + a..<m + a + length ?es] s')" for s'
    using Cons.IH [of ks' "dpre @ [k]" "spre @ [x]" "m + a" s'] Cons.prems unfolding append.assoc append_Cons append_Nil ks by simp
  have tot: "m + length (replicate a x @ ?es) = m + a + length ?es" by simp
  show ?case
  proof (cases "ofold (\<lambda>e. body x (int e)) [m..<m + a] s")
    case (Some s1)
    show ?thesis unfolding ks upto_pre es up ofold_append ofold.simps one step Some option.map Option.bind.simps IH two tot ..
  next
    case None
    show ?thesis unfolding ks upto_pre es tot up ofold_append ofold.simps one step None option.map Option.bind.simps ..
  qed
qed (simp add: edge_sources_def)

lemma edge_loop_eq:
  assumes "\<forall>s\<in>set sources. source_ok s" "length degrees = length sources"
  shows "edge_loop source_ok body (int (length sources)) sources degrees s0
    = ofold (\<lambda>e. body (edge_sources sources degrees ! e) (int e)) [0..<length (edge_sources sources degrees)] s0"
  using outer_loop [OF assms, of "[]" "[]" body 0 s0] by (simp add: edge_loop_def option.map_comp comp_def option.map_ident)

section \<open>The edges a process describes\<close>

record graph_part =
  gp_sources :: "int list"
  gp_degrees :: "int list"
  gp_destinations :: "int list"
  gp_weights :: "int list option"

type_synonym edge = "int \<times> int \<times> int"

definition part_edges :: "graph_part \<Rightarrow> edge list" where
  "part_edges g = map (\<lambda>e. (edge_sources (gp_sources g) (gp_degrees g) ! e, gp_destinations g ! e,
     case gp_weights g of None \<Rightarrow> 0 | Some ws \<Rightarrow> ws ! e)) [0..<length (edge_sources (gp_sources g) (gp_degrees g))]"

definition part_ok :: "nat \<Rightarrow> graph_part \<Rightarrow> bool" where
  "part_ok n g \<longleftrightarrow> length (gp_degrees g) = length (gp_sources g) \<and> (\<forall>s\<in>set (gp_sources g). 0 \<le> s \<and> s < int n)
     \<and> length (edge_sources (gp_sources g) (gp_degrees g)) \<le> length (gp_destinations g)
     \<and> (\<forall>d\<in>set (gp_destinations g). 0 \<le> d \<and> d < int n)
     \<and> (case gp_weights g of None \<Rightarrow> True | Some ws \<Rightarrow> length (edge_sources (gp_sources g) (gp_degrees g)) \<le> length ws)
     \<and> 2 * int (length (edge_sources (gp_sources g) (gp_degrees g))) \<le> INT_MAX"

definition edges_to :: "edge list \<Rightarrow> nat \<Rightarrow> edge list" where
  "edges_to es i = filter (\<lambda>(s, d, w). d = int i) es"

definition edges_from :: "edge list \<Rightarrow> nat \<Rightarrow> edge list" where
  "edges_from es i = filter (\<lambda>(s, d, w). s = int i) es"

definition sources_of :: "edge list \<Rightarrow> int list" where
  "sources_of es = concat (map (\<lambda>(s, d, w). [s, w]) es)"

definition destinations_of :: "edge list \<Rightarrow> int list" where
  "destinations_of es = concat (map (\<lambda>(s, d, w). [d, w]) es)"

lemma length_encoded: "length (sources_of es) = 2 * length es" "length (destinations_of es) = 2 * length es"
  by (induction es) (auto simp: sources_of_def destinations_of_def)

lemma edge_sources_in: "s \<in> set (edge_sources ss ks) \<Longrightarrow> s \<in> set ss"
  by (auto simp: edge_sources_def dest: set_zip_leftD)

lemma part_edges_in:
  assumes "part_ok n g" "(s, d, w) \<in> set (part_edges g)"
  shows "0 \<le> s" "s < int n" "0 \<le> d" "d < int n"
proof -
  let ?m = "length (edge_sources (gp_sources g) (gp_degrees g))"
  obtain e where e: "e < ?m" "s = edge_sources (gp_sources g) (gp_degrees g) ! e" "d = gp_destinations g ! e"
    using assms(2) by (auto simp: part_edges_def)
  then have "s \<in> set (gp_sources g)" using edge_sources_in nth_mem by metis
  moreover have "d \<in> set (gp_destinations g)" using e assms(1) by (simp add: part_ok_def)
  ultimately show "0 \<le> s" "s < int n" "0 \<le> d" "d < int n" using assms(1) by (auto simp: part_ok_def)
qed

text \<open>Both passes are loops over the list of edges.\<close>

lemma edge_loop_edges:
  assumes "part_ok n g" "\<And>s. 0 \<le> s \<Longrightarrow> s < int n \<Longrightarrow> source_ok s"
    "\<And>s d w idx st. (s, d, w) \<in> set (part_edges g) \<Longrightarrow> aget (gp_destinations g) idx = Some d
      \<Longrightarrow> (case gp_weights g of None \<Rightarrow> Some 0 | Some ws \<Rightarrow> aget ws idx) = Some w \<Longrightarrow> body s idx st = body' (s, d, w) st"
  shows "edge_loop source_ok body (int (length (gp_sources g))) (gp_sources g) (gp_degrees g) s0 = ofold body' (part_edges g) s0"
proof -
  let ?es = "edge_sources (gp_sources g) (gp_degrees g)"
  let ?edge = "\<lambda>e. (?es ! e, gp_destinations g ! e, case gp_weights g of None \<Rightarrow> 0 | Some ws \<Rightarrow> ws ! e)"
  have "edge_loop source_ok body (int (length (gp_sources g))) (gp_sources g) (gp_degrees g) s0 = ofold (\<lambda>e. body (?es ! e) (int e)) [0..<length ?es] s0"
    using assms(1,2) by (intro edge_loop_eq) (auto simp: part_ok_def)
  also have "\<dots> = ofold (\<lambda>e. body' (?edge e)) [0..<length ?es] s0"
  proof (rule ofold_cong)
    fix e st assume "e \<in> set [0..<length ?es]"
    then have e: "e < length ?es" by simp
    then show "body (?es ! e) (int e) st = body' (?edge e) st"
      using assms(1) by (intro assms(3)) (auto simp: part_edges_def part_ok_def aget_def split: option.splits)
  qed simp
  also have "\<dots> = ofold body' (part_edges g) s0" by (simp add: part_edges_def ofold_map)
  finally show ?thesis .
qed

lemma add2_map:
  assumes "i < n" "int32 (f i + 2)"
  shows "add2 (map f [0..<n]) (int i) = Some (map (f(i := f i + 2)) [0..<n])"
proof -
  have "(map f [0..<n])[i := f i + 2] = map (f(i := f i + 2)) [0..<n]"
    by (rule nth_equalityI) (auto simp: nth_list_update)
  then show ?thesis using assms by (simp add: add2_def aget_def aset_def cint_int32)
qed

lemma count_snoc:
  "length (edges_to (es @ [(s, d, w)]) i) = length (edges_to es i) + (if d = int i then 1 else 0)"
  "length (edges_from (es @ [(s, d, w)]) i) = length (edges_from es i) + (if s = int i then 1 else 0)"
  by (simp_all add: edges_to_def edges_from_def)

lemma edge_sizes_eq:
  assumes "part_ok n g"
  shows "edge_sizes (int n) (int (length (gp_sources g))) (gp_sources g) (gp_degrees g) (gp_destinations g) =
    Some (map (\<lambda>i. 2 * int (length (edges_to (part_edges g) i))) [0..<n], map (\<lambda>i. 2 * int (length (edges_from (part_edges g) i))) [0..<n])"
proof -
  let ?body = "\<lambda>(s, d, w :: int) (rin, rout). do { rout \<leftarrow> add2 rout s; rin \<leftarrow> add2 rin d; Some (rin, rout) }"
  let ?P = "\<lambda>es. (map (\<lambda>i. 2 * int (length (edges_to es i))) [0..<n], map (\<lambda>i. 2 * int (length (edges_from es i))) [0..<n])"
  have rep: "replicate n 0 = map (\<lambda>i. 0 :: int) [0..<n]" by (simp add: map_replicate_const)
  have "edge_sizes (int n) (int (length (gp_sources g))) (gp_sources g) (gp_degrees g) (gp_destinations g) = ofold ?body (part_edges g) (?P [])"
    unfolding edge_sizes_def nat_int rep
    by (subst edge_loop_edges [OF assms, where body' = ?body])
       (auto simp: size_body_def edges_to_def edges_from_def dest: part_edges_in(4) [OF assms])
  moreover have "\<exists>s'. ofold ?body (part_edges g) (?P []) = Some s' \<and> s' = ?P (part_edges g)"
  proof (rule ofold_list)
    fix pre x post st assume es: "part_edges g = pre @ x # post" and st: "st = ?P pre"
    obtain s d w where x: "x = (s, d, w)" by (cases x)
    have "(s, d, w) \<in> set (part_edges g)" using es x by simp
    note b = part_edges_in [OF assms this]
    have m: "2 * int (length pre) + 2 \<le> INT_MAX"
      using assms arg_cong [OF es, of length] by (simp add: part_ok_def part_edges_def)
    have l: "int (length (edges_to pre i)) \<le> int (length pre)" "int (length (edges_from pre i)) \<le> int (length pre)" for i
      by (simp_all add: edges_to_def edges_from_def)
    have i32: "int32 (2 * int (length (edges_to pre i)) + 2)" "int32 (2 * int (length (edges_from pre i)) + 2)" for i
      using m l [of i] unfolding int32_def by linarith+
    have a: "add2 (map (\<lambda>i. 2 * int (length (edges_from pre i))) [0..<n]) s = Some (map (\<lambda>i. 2 * int (length (edges_from (pre @ [x]) i))) [0..<n])"
      using add2_map [of "nat s" n "\<lambda>i. 2 * int (length (edges_from pre i))"] i32(2) b by (auto simp: x count_snoc intro!: map_cong)
    have c: "add2 (map (\<lambda>i. 2 * int (length (edges_to pre i))) [0..<n]) d = Some (map (\<lambda>i. 2 * int (length (edges_to (pre @ [x]) i))) [0..<n])"
      using add2_map [of "nat d" n "\<lambda>i. 2 * int (length (edges_to pre i))"] i32(1) b by (auto simp: x count_snoc intro!: map_cong)
    show "\<exists>s'. ?body x st = Some s' \<and> s' = ?P (pre @ [x])" using a c by (simp add: st x)
  qed simp
  ultimately show ?thesis by simp
qed

definition filled_of :: "nat \<Rightarrow> (nat \<Rightarrow> int list) \<Rightarrow> (nat \<Rightarrow> nat) \<Rightarrow> filled" where
  "filled_of n f room = (map (\<lambda>i. f i @ replicate (room i) 0) [0..<n], map (\<lambda>i. int (length (f i))) [0..<n])"

lemma push_filled:
  assumes "i < n" "room i = Suc k"
  shows "push (filled_of n f room) (int i) v = Some (filled_of n (f(i := f i @ [v])) (room(i := k)))"
proof -
  have a: "(map (\<lambda>i. f i @ replicate (room i) 0) [0..<n])[i := f i @ v # replicate k 0]
    = map (\<lambda>j. (f(i := f i @ [v])) j @ replicate ((room(i := k)) j) 0) [0..<n]"
    by (rule nth_equalityI) (auto simp: nth_list_update)
  have b: "(map (\<lambda>i. int (length (f i))) [0..<n])[i := int (length (f i)) + 1] = map (\<lambda>j. int (length ((f(i := f i @ [v])) j))) [0..<n]"
    by (rule nth_equalityI) (auto simp: nth_list_update)
  show ?thesis using assms(1)
    by (simp add: push_def filled_of_def aget_def aset_def assms(2) list_update_append a [simplified] b [simplified])
qed

lemma push_pair:
  assumes "i < n" "room i = Suc (Suc k)"
  shows "(do { r \<leftarrow> push (filled_of n f room) (int i) a; push r (int i) b }) = Some (filled_of n (f(i := f i @ [a, b])) (room(i := k)))"
  using push_filled [of i n room "Suc k" f a] push_filled [of i n "room(i := Suc k)" k "f(i := f i @ [a])" b] assms by simp

text \<open>The arrays after the edges \<open>pre\<close> of all edges \<open>es\<close>.\<close>

definition filled_in :: "nat \<Rightarrow> edge list \<Rightarrow> edge list \<Rightarrow> filled" where
  "filled_in n es pre = filled_of n (\<lambda>i. sources_of (edges_to pre i)) (\<lambda>i. 2 * (length (edges_to es i) - length (edges_to pre i)))"

definition filled_out :: "nat \<Rightarrow> edge list \<Rightarrow> edge list \<Rightarrow> filled" where
  "filled_out n es pre = filled_of n (\<lambda>i. destinations_of (edges_from pre i)) (\<lambda>i. 2 * (length (edges_from es i) - length (edges_from pre i)))"

lemma push_in:
  assumes "es = pre @ (s, d, w) # post" "0 \<le> d" "d < int n"
  shows "(do { r \<leftarrow> push (filled_in n es pre) d s; push r d w }) = Some (filled_in n es (pre @ [(s, d, w)]))"
proof -
  let ?room = "\<lambda>pre i. 2 * (length (edges_to es i) - length (edges_to pre i))"
  have "?room pre (nat d) = Suc (Suc (?room (pre @ [(s, d, w)]) (nat d)))" using assms by (simp add: edges_to_def)
  note p = push_pair [of "nat d" n "?room pre", OF _ this, of "\<lambda>i. sources_of (edges_to pre i)" s w]
  have "(\<lambda>i. sources_of (edges_to pre i))(nat d := sources_of (edges_to pre (nat d)) @ [s, w]) = (\<lambda>i. sources_of (edges_to (pre @ [(s, d, w)]) i))"
    "(?room pre)(nat d := ?room (pre @ [(s, d, w)]) (nat d)) = ?room (pre @ [(s, d, w)])"
    using assms(2) by (auto simp: sources_of_def edges_to_def)
  then show ?thesis using p assms(2,3) by (simp add: filled_in_def)
qed

lemma push_out:
  assumes "es = pre @ (s, d, w) # post" "0 \<le> s" "s < int n"
  shows "(do { r \<leftarrow> push (filled_out n es pre) s d; push r s w }) = Some (filled_out n es (pre @ [(s, d, w)]))"
proof -
  let ?room = "\<lambda>pre i. 2 * (length (edges_from es i) - length (edges_from pre i))"
  have "?room pre (nat s) = Suc (Suc (?room (pre @ [(s, d, w)]) (nat s)))" using assms by (simp add: edges_from_def)
  note p = push_pair [of "nat s" n "?room pre", OF _ this, of "\<lambda>i. destinations_of (edges_from pre i)" d w]
  have "(\<lambda>i. destinations_of (edges_from pre i))(nat s := destinations_of (edges_from pre (nat s)) @ [d, w]) = (\<lambda>i. destinations_of (edges_from (pre @ [(s, d, w)]) i))"
    "(?room pre)(nat s := ?room (pre @ [(s, d, w)]) (nat s)) = ?room (pre @ [(s, d, w)])"
    using assms(2) by (auto simp: destinations_of_def edges_from_def)
  then show ?thesis using p assms(2,3) by (simp add: filled_out_def)
qed

lemma edge_arrays_eq:
  assumes "part_ok n g"
  shows "edge_arrays (int n) (int (length (gp_sources g))) (gp_sources g) (gp_degrees g) (gp_destinations g) (gp_weights g) =
    Some (map (\<lambda>i. sources_of (edges_to (part_edges g) i)) [0..<n], map (\<lambda>i. destinations_of (edges_from (part_edges g) i)) [0..<n])"
proof -
  let ?es = "part_edges g"
  let ?body = "\<lambda>(s, d, w) (rin, rout). do {
    rout \<leftarrow> push rout s d; rout \<leftarrow> push rout s w; rin \<leftarrow> push rin d s; rin \<leftarrow> push rin d w; Some (rin, rout) }"
  have loop: "edge_loop (\<lambda>s. s < int n \<and> s \<ge> 0) (fill_body (int n) (gp_destinations g) (gp_weights g)) (int (length (gp_sources g)))
    (gp_sources g) (gp_degrees g) st = ofold ?body ?es st" for st
    by (rule edge_loop_edges [OF assms]) (auto simp: fill_body_def dest: part_edges_in(3,4) [OF assms])
  have "\<exists>s'. ofold ?body ?es (filled_in n ?es [], filled_out n ?es []) = Some s' \<and> s' = (filled_in n ?es ?es, filled_out n ?es ?es)"
  proof (rule ofold_list [where P = "\<lambda>pre s. s = (filled_in n ?es pre, filled_out n ?es pre)"])
    fix pre x post st assume es: "?es = pre @ x # post" and st: "st = (filled_in n ?es pre, filled_out n ?es pre)"
    obtain s d w where x: "x = (s, d, w)" by (cases x)
    have "(s, d, w) \<in> set ?es" using es x by simp
    note b = part_edges_in [OF assms this]
    have "?body x st = do { rout \<leftarrow> do { r \<leftarrow> push (filled_out n ?es pre) s d; push r s w };
        rin \<leftarrow> do { r \<leftarrow> push (filled_in n ?es pre) d s; push r d w }; Some (rin, rout) }"
      by (simp add: st x)
    then show "\<exists>s'. ?body x st = Some s' \<and> s' = (filled_in n ?es (pre @ [x]), filled_out n ?es (pre @ [x]))"
      unfolding push_out [OF es [unfolded x] b(1,2)] push_in [OF es [unfolded x] b(3,4)] by (simp add: x)
  qed simp
  then have run: "ofold ?body ?es (filled_in n ?es [], filled_out n ?es []) = Some (filled_in n ?es ?es, filled_out n ?es ?es)" by blast
  have start: "(map (\<lambda>k. replicate (nat k) 0) (map (\<lambda>i. 2 * int (length (edges_to ?es i))) [0..<n]), replicate n 0) = filled_in n ?es []"
    "(map (\<lambda>k. replicate (nat k) 0) (map (\<lambda>i. 2 * int (length (edges_from ?es i))) [0..<n]), replicate n 0) = filled_out n ?es []"
    by (simp_all add: filled_in_def filled_out_def filled_of_def edges_to_def edges_from_def sources_of_def destinations_of_def map_replicate_const nat_mult_distrib)
  have fin: "filled_in n ?es ?es = (map (\<lambda>i. sources_of (edges_to ?es i)) [0..<n], map (\<lambda>i. 2 * int (length (edges_to ?es i))) [0..<n])"
    "filled_out n ?es ?es = (map (\<lambda>i. destinations_of (edges_from ?es i)) [0..<n], map (\<lambda>i. 2 * int (length (edges_from ?es i))) [0..<n])"
    by (simp_all add: filled_in_def filled_out_def filled_of_def length_encoded)
  show ?thesis unfolding edge_arrays_def edge_sizes_eq [OF assms]
    by (simp only: Option.bind.bind_lunit prod.case Let_def nat_int start loop run fin simp_thms if_True)
qed

section \<open>Receiving\<close>

text \<open>The pairs of rank and weight in a message.\<close>

fun decode :: "int list \<Rightarrow> (int \<times> int) list" where
  "decode (r # w # xs) = (r, w) # decode xs"
| "decode xs = []"

lemma decode_encoded:
  "decode (sources_of es) = map (\<lambda>(s, d, w). (s, w)) es" "decode (destinations_of es) = map (\<lambda>(s, d, w). (d, w)) es"
  by (induction es) (auto simp: sources_of_def destinations_of_def)

lemma length_decode: "length (decode xs) = length xs div 2"
  by (induction xs rule: decode.induct) simp_all

lemma decode_nth: "j < length xs div 2 \<Longrightarrow> decode xs ! j = (xs ! (2 * j), xs ! (2 * j + 1))"
proof (induction xs arbitrary: j rule: decode.induct)
  case (1 r w xs)
  then show ?case by (cases j) simp_all
qed simp_all

text \<open>The state of the receive loop after the pairs \<open>ps\<close>.\<close>

definition recv_inv :: "bool \<Rightarrow> (int \<times> int) list \<Rightarrow> recv_state \<Rightarrow> bool" where
  "recv_inv weighted ps = (\<lambda>(degree, capacity, ranks, weights). degree = int (length ps)
     \<and> int (length ps) \<le> capacity \<and> 10 \<le> capacity \<and> capacity \<le> 10 + 2 * int (length ps)
     \<and> int (length ranks) = capacity \<and> take (length ps) ranks = map fst ps
     \<and> (case weights of None \<Rightarrow> \<not> weighted | Some ws \<Rightarrow> weighted \<and> int (length ws) = capacity \<and> take (length ps) ws = map snd ps))"

lemma take_grow: "n \<le> length xs \<Longrightarrow> take n (grow_array c xs) = take n xs" "int (length xs) \<le> c \<Longrightarrow> int (length (grow_array c xs)) = c"
  by (simp_all add: grow_array_def)

lemma store_next:
  assumes "take n xs = ys" "n = length ys" "n < length xs"
  shows "take (Suc n) (xs[n := y]) = ys @ [y]"
  using assms by (simp add: take_Suc_conv_app_nth)

lemma recv_edge_inv:
  assumes "recv_inv weighted ps st" "j < length buf div 2" "int (length ps) < 500000000"
  shows "\<exists>st'. recv_edge buf (int j) st = Some st' \<and> recv_inv weighted (ps @ [decode buf ! j]) st'"
proof -
  obtain degree capacity ranks weights where st: "st = (degree, capacity, ranks, weights)" by (cases st)
  define c where "c = (if degree \<ge> capacity then capacity * 2 else capacity)"
  have I: "degree = int (length ps)" "int (length ps) \<le> capacity" "10 \<le> capacity" "capacity \<le> 10 + 2 * int (length ps)"
    "int (length ranks) = capacity" "take (length ps) ranks = map fst ps"
    using assms(1) by (simp_all add: recv_inv_def st)
  have c: "int (length ps) < c" "10 \<le> c" "c \<le> 10 + 2 * int (length ps + 1)" "capacity \<le> c" "cint (capacity * 2) = Some (capacity * 2)"
    using I assms(3) by (auto simp: c_def cint_def INT_MAX_def)
  have cap: "(if degree \<ge> capacity then cint (capacity * 2) else Some capacity) = Some c" using c(5) by (simp add: c_def)
  have deg: "cint (degree + 1) = Some (degree + 1)" using I(1) assms(3) by (simp add: cint_def INT_MAX_def)
  have buf: "aget buf (2 * int j) = Some (fst (decode buf ! j))" "aget buf (2 * int j + 1) = Some (snd (decode buf ! j))"
    using assms(2) by (simp_all add: aget_def decode_nth nat_mult_distrib nat_add_distrib)
  have room: "\<exists>xs'. aset (grow_array c xs) degree v = Some xs' \<and> int (length xs') = c \<and> take (Suc (length ps)) xs' = ys @ [v]"
    if "int (length xs) = capacity" "take (length ps) xs = ys" "length ys = length ps" for xs ys v
  proof -
    have le: "length ps \<le> length xs" using that(1) I(2) by linarith
    have t: "take (length ps) (grow_array c xs) = ys" using take_grow(1) [OF le] that(2) by (rule trans)
    have l: "int (length (grow_array c xs)) = c" by (rule take_grow(2)) (simp only: that(1) c(4))
    have n: "length ps < length (grow_array c xs)" using c(1) l by linarith
    show ?thesis
    proof (intro exI conjI)
      show "aset (grow_array c xs) degree v = Some ((grow_array c xs)[length ps := v])" using n I(1) by (simp add: aset_def)
      show "int (length ((grow_array c xs)[length ps := v])) = c" using l by simp
      show "take (Suc (length ps)) ((grow_array c xs)[length ps := v]) = ys @ [v]" using store_next [OF t that(3) [symmetric] n] .
    qed
  qed
  obtain rs where rs: "aset (grow_array c ranks) degree (fst (decode buf ! j)) = Some rs" "int (length rs) = c"
    "take (Suc (length ps)) rs = map fst ps @ [fst (decode buf ! j)]"
    using room [OF I(5,6)] by auto
  show ?thesis
  proof (cases weights)
    case None
    have "recv_edge buf (int j) st = Some (degree + 1, c, rs, None)" by (simp add: recv_edge_def st None cap deg buf rs Let_def)
    moreover have "recv_inv weighted (ps @ [decode buf ! j]) (degree + 1, c, rs, None)"
      using assms(1) c(1-3) rs(2,3) by (simp add: recv_inv_def st None I(1))
    ultimately show ?thesis by blast
  next
    case (Some ws)
    then have w: "int (length ws) = capacity" "take (length ps) ws = map snd ps" "weighted" using assms(1) by (simp_all add: recv_inv_def st)
    obtain ws' where ws': "aset (grow_array c ws) degree (snd (decode buf ! j)) = Some ws'" "int (length ws') = c"
      "take (Suc (length ps)) ws' = map snd ps @ [snd (decode buf ! j)]"
      using room [OF w(1,2)] by auto
    have "recv_edge buf (int j) st = Some (degree + 1, c, rs, Some ws')" by (simp add: recv_edge_def st Some cap deg buf rs ws' Let_def)
    moreover have "recv_inv weighted (ps @ [decode buf ! j]) (degree + 1, c, rs, Some ws')"
      using w(3) c(1-3) rs(2,3) ws'(2,3) by (simp add: recv_inv_def I(1))
    ultimately show ?thesis by blast
  qed
qed

lemma recv_message_inv:
  assumes "recv_inv weighted ps st" "int (length ps + length (decode buf)) \<le> 500000000"
  shows "\<exists>st'. recv_message buf st = Some st' \<and> recv_inv weighted (ps @ decode buf) st'"
proof -
  have "\<exists>st'. ofold (recv_edge buf) [0..int (length buf) div 2 - 1] st = Some st'
    \<and> recv_inv weighted (ps @ take (nat (int (length buf) div 2)) (decode buf)) st'"
  proof (rule ofold_upto)
    fix i s assume i: "0 \<le> i" "i < int (length buf) div 2" and s: "recv_inv weighted (ps @ take (nat i) (decode buf)) s"
    have ni: "nat i < length buf div 2" using i by linarith
    then have "take (nat (i + 1)) (decode buf) = take (nat i) (decode buf) @ [decode buf ! nat i]"
      using i by (simp add: nat_add_distrib take_Suc_conv_app_nth length_decode)
    moreover have "length (take (nat i) (decode buf)) < length (decode buf)" using ni by (simp add: length_decode)
    then have "int (length (ps @ take (nat i) (decode buf))) < 500000000"
      using assms(2) unfolding length_append by linarith
    ultimately show "\<exists>s'. recv_edge buf i s = Some s' \<and> recv_inv weighted (ps @ take (nat (i + 1)) (decode buf)) s'"
      using recv_edge_inv [OF s ni] i by simp
  qed (use assms(1) in simp_all)
  then show ?thesis using length_decode [of buf] by (simp add: recv_message_def nat_div_distrib)
qed

lemma receive_edges_eq:
  assumes "int (length (concat (map decode msgs))) \<le> 500000000"
  shows "receive_edges weighted (int (length msgs)) msgs = (let ps = concat (map decode msgs) in
    Some (int (length ps), if ps = [] then None else Some (map fst ps), if ps = [] \<or> \<not> weighted then None else Some (map snd ps)))"
proof -
  let ?s0 = "(0, 10, replicate 10 0, if weighted then Some (replicate 10 0) else None)"
  have "\<exists>s'. ofold recv_message msgs ?s0 = Some s' \<and> recv_inv weighted (concat (map decode msgs)) s'"
  proof (rule ofold_list [where P = "\<lambda>pre. recv_inv weighted (concat (map decode pre))"])
    fix pre x post s assume m: "msgs = pre @ x # post" and s: "recv_inv weighted (concat (map decode pre)) s"
    have "int (length (concat (map decode pre)) + length (decode x)) \<le> 500000000" using assms m by simp
    then show "\<exists>s'. recv_message x s = Some s' \<and> recv_inv weighted (concat (map decode (pre @ [x]))) s'"
      using recv_message_inv [OF s] by simp
  qed (simp add: recv_inv_def)
  then obtain d c rs ws where run: "ofold recv_message msgs ?s0 = Some (d, c, rs, ws)" "recv_inv weighted (concat (map decode msgs)) (d, c, rs, ws)"
    by (metis prod_cases4)
  then show ?thesis by (auto simp: receive_edges_def recv_inv_def Let_def split: option.splits)
qed

end
