(* ===== verification/Dist_Theorems.thy ===== *)
theory Dist_Theorems
  imports Dist_Loops Cart_Theorems
begin

text \<open>
  Distributed graphs: whatever process describes an edge, its source gets it as an outgoing and its
  destination as an incoming edge, exactly once, in every order of delivery.
\<close>

section \<open>Messages\<close>

definition messages_to :: "nat \<Rightarrow> topo_tag \<Rightarrow> (nat \<times> topo_tag \<times> int list) list \<Rightarrow> int list list" where
  "messages_to q tag sends = map (\<lambda>(i, t, m). m) (filter (\<lambda>(i, t, m). i = q \<and> t = tag) sends)"

lemma concat_single: "q < n \<Longrightarrow> concat (map (\<lambda>i. if i = q then xs else []) [0..<n]) = xs"
proof (induction n)
  case (Suc n)
  then show ?case by (cases "q = n") (auto simp: less_Suc_eq intro!: concat_eq_Nil_conv [THEN iffD2])
qed simp

lemma messages_concat: "messages_to q tag (concat xss) = concat (map (messages_to q tag) xss)"
  by (induction xss) (simp_all add: messages_to_def)

lemma messages_to_posted:
  assumes "q < length rin"
  shows "messages_to q MPIR_TOPO_A_TAG (posted_sends rin rout) = (if rin ! q \<noteq> [] then [rin ! q] else [])"
    "messages_to q MPIR_TOPO_B_TAG (posted_sends rin rout) = (if rout ! q \<noteq> [] then [rout ! q] else [])"
proof -
  let ?F = "\<lambda>i. (if rin ! i \<noteq> [] then [(i, MPIR_TOPO_A_TAG, rin ! i)] else []) @ (if rout ! i \<noteq> [] then [(i, MPIR_TOPO_B_TAG, rout ! i)] else [])"
  have "map (messages_to q MPIR_TOPO_A_TAG) (map ?F [0..<length rin]) = map (\<lambda>i. if i = q then (if rin ! q \<noteq> [] then [rin ! q] else []) else []) [0..<length rin]"
    "map (messages_to q MPIR_TOPO_B_TAG) (map ?F [0..<length rin]) = map (\<lambda>i. if i = q then (if rout ! q \<noteq> [] then [rout ! q] else []) else []) [0..<length rin]"
    by (auto simp: messages_to_def)
  then show "messages_to q MPIR_TOPO_A_TAG (posted_sends rin rout) = (if rin ! q \<noteq> [] then [rin ! q] else [])"
    "messages_to q MPIR_TOPO_B_TAG (posted_sends rin rout) = (if rout ! q \<noteq> [] then [rout ! q] else [])"
    unfolding posted_sends_def messages_concat by (simp_all only: concat_single [OF assms])
qed

lemma peer_flags_nth:
  assumes "length rout = length rin" "q < length rin"
  shows "peer_flags rin rout ! (2 * q) = (if rin ! q \<noteq> [] then 1 else 0)" "peer_flags rin rout ! (2 * q + 1) = (if rout ! q \<noteq> [] then 1 else 0)"
  using assms
proof (induction rin arbitrary: rout q)
  case (Cons a rin)
  {
    case 1
    obtain b rout' where "rout = b # rout'" using 1 by (cases rout) simp_all
    then show ?case using Cons.IH(1) [of rout' "q - 1"] 1 by (cases q) (simp_all add: peer_flags_def)
  next
    case 2
    obtain b rout' where "rout = b # rout'" using 2 by (cases rout) simp_all
    then show ?case using Cons.IH(2) [of rout' "q - 1"] 2 by (cases q) (simp_all add: peer_flags_def)
  }
qed simp_all

section \<open>The exchange of all processes\<close>

definition graph_arrays :: "nat \<Rightarrow> graph_part \<Rightarrow> int list list \<times> int list list" where
  "graph_arrays n g = (case edge_arrays (int n) (int (length (gp_sources g))) (gp_sources g) (gp_degrees g) (gp_destinations g) (gp_weights g) of
     Some a \<Rightarrow> a | None \<Rightarrow> ([], []))"

definition graph_sends :: "nat \<Rightarrow> graph_part \<Rightarrow> (nat \<times> topo_tag \<times> int list) list" where
  "graph_sends n g = (case graph_arrays n g of (rin, rout) \<Rightarrow> posted_sends rin rout)"

definition graph_flags :: "nat \<Rightarrow> graph_part \<Rightarrow> int list" where
  "graph_flags n g = (case graph_arrays n g of (rin, rout) \<Rightarrow> peer_flags rin rout)"

text \<open>What process \<open>q\<close> gets from the others: the sums of the flags addressed to it, and every message
  posted to it, in some order.\<close>

definition dist_env_ok :: "dist_env \<Rightarrow> graph_part list \<Rightarrow> nat \<Rightarrow> bool" where
  "dist_env_ok env parts q \<longleftrightarrow> (let n = length parts in
     de_reduce_scatter env (graph_flags n (parts ! q)) =
       Inr (sum_list (map (\<lambda>g. graph_flags n g ! (2 * q)) parts), sum_list (map (\<lambda>g. graph_flags n g ! (2 * q + 1)) parts))
     \<and> mset (de_inbound env) = mset (concat (map (\<lambda>g. messages_to q MPIR_TOPO_A_TAG (graph_sends n g)) parts))
     \<and> mset (de_outbound env) = mset (concat (map (\<lambda>g. messages_to q MPIR_TOPO_B_TAG (graph_sends n g)) parts))
     \<and> de_waitall env = None)"

lemma graph_arrays_eq:
  assumes "part_ok n g"
  shows "graph_arrays n g = (map (\<lambda>i. sources_of (edges_to (part_edges g) i)) [0..<n], map (\<lambda>i. destinations_of (edges_from (part_edges g) i)) [0..<n])"
  by (simp add: graph_arrays_def edge_arrays_eq [OF assms])

lemma part_messages:
  assumes "part_ok n g" "q < n"
  shows "messages_to q MPIR_TOPO_A_TAG (graph_sends n g) = (if edges_to (part_edges g) q \<noteq> [] then [sources_of (edges_to (part_edges g) q)] else [])"
    "messages_to q MPIR_TOPO_B_TAG (graph_sends n g) = (if edges_from (part_edges g) q \<noteq> [] then [destinations_of (edges_from (part_edges g) q)] else [])"
    "graph_flags n g ! (2 * q) = int (length (messages_to q MPIR_TOPO_A_TAG (graph_sends n g)))"
    "graph_flags n g ! (2 * q + 1) = int (length (messages_to q MPIR_TOPO_B_TAG (graph_sends n g)))"
proof -
  have e: "sources_of es = [] \<longleftrightarrow> es = []" "destinations_of es = [] \<longleftrightarrow> es = []" for es
    using length_encoded [of es] by (metis length_0_conv mult_is_0 zero_neq_numeral)+
  show A: "messages_to q MPIR_TOPO_A_TAG (graph_sends n g) = (if edges_to (part_edges g) q \<noteq> [] then [sources_of (edges_to (part_edges g) q)] else [])"
    and B: "messages_to q MPIR_TOPO_B_TAG (graph_sends n g) = (if edges_from (part_edges g) q \<noteq> [] then [destinations_of (edges_from (part_edges g) q)] else [])"
    using assms(2) by (simp_all add: graph_sends_def graph_arrays_eq [OF assms(1)] messages_to_posted e)
  show "graph_flags n g ! (2 * q) = int (length (messages_to q MPIR_TOPO_A_TAG (graph_sends n g)))"
    "graph_flags n g ! (2 * q + 1) = int (length (messages_to q MPIR_TOPO_B_TAG (graph_sends n g)))"
    unfolding A B using assms(2) peer_flags_nth by (simp_all add: graph_flags_def graph_arrays_eq [OF assms(1)] e)
qed

lemma mset_concat_map: "mset xs = mset ys \<Longrightarrow> mset (concat (map f xs)) = mset (concat (map f ys))"
  by (simp add: mset_concat comp_def flip: sum_mset_sum_list)

text \<open>One side of the exchange: the messages that hold the edges of one end, in any order.\<close>

lemma received_side:
  assumes "mset inb = mset (concat (map (\<lambda>g. if F g \<noteq> [] then [enc (F g)] else []) parts))"
    and "\<And>es. decode (enc es) = map p es" "enc [] = []"
    and "int (length (concat (map F parts))) \<le> 500000000"
  shows "\<exists>ps. receive_edges weighted (int (length inb)) inb = Some (int (length ps), if ps = [] then None else Some (map fst ps),
      if ps = [] \<or> \<not> weighted then None else Some (map snd ps)) \<and> mset ps = mset (map p (concat (map F parts)))"
    "length inb \<le> length parts"
proof -
  let ?ps = "concat (map decode inb)"
  have "concat (map decode (concat (map (\<lambda>g. if F g \<noteq> [] then [enc (F g)] else []) parts))) = map p (concat (map F parts))"
    by (induction parts) (simp_all add: assms(2))
  then have m: "mset ?ps = mset (map p (concat (map F parts)))" using mset_concat_map [OF assms(1), of decode] by simp
  then have "length ?ps = length (concat (map F parts))" using mset_eq_length by fastforce
  then have "int (length ?ps) \<le> 500000000" using assms(4) by simp
  from receive_edges_eq [OF this, of weighted] m
  show "\<exists>ps. receive_edges weighted (int (length inb)) inb = Some (int (length ps), if ps = [] then None else Some (map fst ps),
      if ps = [] \<or> \<not> weighted then None else Some (map snd ps)) \<and> mset ps = mset (map p (concat (map F parts)))"
    by (intro exI [of _ ?ps]) (simp add: Let_def)
  have "length (concat (map (\<lambda>g. if F g \<noteq> [] then [enc (F g)] else []) parts)) \<le> length parts" by (induction parts) simp_all
  then show "length inb \<le> length parts" using mset_eq_length [OF assms(1)] by simp
qed

lemma sum_flags: "(\<And>g. g \<in> set parts \<Longrightarrow> f g = int (length (h g))) \<Longrightarrow> sum_list (map f parts) = int (length (concat (map h parts)))"
  by (induction parts) simp_all

lemma edges_concat: "concat (map (\<lambda>g. edges_to (part_edges g) q) parts) = edges_to (concat (map part_edges parts)) q"
  "concat (map (\<lambda>g. edges_from (part_edges g) q) parts) = edges_from (concat (map part_edges parts)) q"
  by (induction parts) (simp_all add: edges_to_def edges_from_def)

text \<open>The neighbours a distributed graph stores, with their weights.\<close>

definition stored :: "bool \<Rightarrow> int list option \<Rightarrow> int list option \<Rightarrow> (int \<times> int) multiset" where
  "stored weighted ranks weights =
     (let rs = (case ranks of None \<Rightarrow> [] | Some rs \<Rightarrow> rs) in
      if weighted then mset (zip rs (case weights of None \<Rightarrow> [] | Some ws \<Rightarrow> ws)) else mset (map (\<lambda>r. (r, 0)) rs))"

definition drop_weight :: "bool \<Rightarrow> int \<times> int \<Rightarrow> int \<times> int" where
  "drop_weight weighted = (\<lambda>(r, w). (r, if weighted then w else 0))"

lemma stored_pairs:
  "stored weighted (if ps = [] then None else Some (map fst ps)) (if ps = [] \<or> \<not> weighted then None else Some (map snd ps)) = mset (map (drop_weight weighted) ps)"
  by (cases weighted) (auto simp: stored_def drop_weight_def Let_def zip_map_fst_snd comp_def case_prod_unfold image_mset.compositionality)

lemma pairs_image:
  assumes "mset ps = mset (map f es)"
  shows "mset (map h ps) = mset (map (\<lambda>e. h (f e)) es)" "length ps = length es"
  using assms mset_eq_length [OF assms] by (simp_all add: image_mset.compositionality comp_def)

lemma dist_received:
  assumes "q < length parts" "\<forall>g\<in>set parts. part_ok (length parts) g" "int (length (concat (map part_edges parts))) \<le> 500000000" "dist_env_ok env parts q"
  defines "es \<equiv> concat (map part_edges parts)"
  shows "\<exists>is os. de_reduce_scatter env (graph_flags (length parts) (parts ! q)) = Inr (int (length (de_inbound env)), int (length (de_outbound env)))
    \<and> length (de_inbound env) \<le> length parts \<and> length (de_outbound env) \<le> length parts
    \<and> receive_edges weighted (int (length (de_inbound env))) (de_inbound env) = Some (int (length is), if is = [] then None else Some (map fst is),
        if is = [] \<or> \<not> weighted then None else Some (map snd is))
    \<and> mset is = mset (map (\<lambda>(s, t, w). (s, w)) (edges_to es q))
    \<and> receive_edges weighted (int (length (de_outbound env))) (de_outbound env) = Some (int (length os), if os = [] then None else Some (map fst os),
        if os = [] \<or> \<not> weighted then None else Some (map snd os))
    \<and> mset os = mset (map (\<lambda>(s, t, w). (t, w)) (edges_from es q))"
proof -
  let ?n = "length parts"
  let ?A = "\<lambda>g. messages_to q MPIR_TOPO_A_TAG (graph_sends ?n g)" and ?B = "\<lambda>g. messages_to q MPIR_TOPO_B_TAG (graph_sends ?n g)"
  have pm: "?A g = (if edges_to (part_edges g) q \<noteq> [] then [sources_of (edges_to (part_edges g) q)] else [])"
    "?B g = (if edges_from (part_edges g) q \<noteq> [] then [destinations_of (edges_from (part_edges g) q)] else [])"
    "graph_flags ?n g ! (2 * q) = int (length (?A g))" "graph_flags ?n g ! (2 * q + 1) = int (length (?B g))" if "g \<in> set parts" for g
    using part_messages [of ?n g q] assms(1,2) that by auto
  have N: "de_reduce_scatter env (graph_flags ?n (parts ! q)) = Inr (int (length (de_inbound env)), int (length (de_outbound env)))"
    "mset (de_inbound env) = mset (concat (map ?A parts))" "mset (de_outbound env) = mset (concat (map ?B parts))"
    using assms(4) sum_flags [of parts "\<lambda>g. graph_flags ?n g ! (2 * q)" ?A] sum_flags [of parts "\<lambda>g. graph_flags ?n g ! (2 * q + 1)" ?B] pm(3,4)
    by (auto simp: dist_env_ok_def Let_def dest!: mset_eq_length)
  have maps: "map ?A parts = map (\<lambda>g. if edges_to (part_edges g) q \<noteq> [] then [sources_of (edges_to (part_edges g) q)] else []) parts"
    "map ?B parts = map (\<lambda>g. if edges_from (part_edges g) q \<noteq> [] then [destinations_of (edges_from (part_edges g) q)] else []) parts"
    using pm(1,2) by (auto intro: map_cong)
  have small: "int (length (edges_to es q)) \<le> 500000000" "int (length (edges_from es q)) \<le> 500000000"
    using assms(3) length_filter_le [of "\<lambda>(s, d, w). d = int q" es] length_filter_le [of "\<lambda>(s, d, w). s = int q" es]
    unfolding es_def edges_to_def edges_from_def by linarith+
  have nil: "sources_of [] = []" "destinations_of [] = []" by (simp_all add: sources_of_def destinations_of_def)
  note I = received_side [OF N(2) [unfolded maps(1)] decode_encoded(1) nil(1), unfolded edges_concat, folded es_def, OF small(1)]
  note O = received_side [OF N(3) [unfolded maps(2)] decode_encoded(2) nil(2), unfolded edges_concat, folded es_def, OF small(2)]
  show ?thesis using N(1) I(2) O(2) I(1) [of weighted] O(1) [of weighted] by blast
qed

text \<open>C39: Let the \<open>n\<close> processes of an intracommunicator call \<open>MPI_Dist_graph_create\<close>, each with some of the
  edges of a graph, and let process \<open>q\<close> get the flags and the messages the others send to it, the
  messages in any order.  Then the call returns without leaving an array or tripping an assertion, and
  the communicator process \<open>q\<close> gets has as incoming neighbours exactly the sources of all edges into
  \<open>q\<close> that any process described and as outgoing neighbours exactly the destinations of all edges from
  \<open>q\<close>, each once per edge and with its weight when \<open>q\<close> passed weights.\<close>

theorem dist_graph_create:
  assumes "q < length parts" "\<forall>g\<in>set parts. part_ok (length parts) g" "int (length (concat (map part_edges parts))) \<le> 500000000"
    and "cm_kind comm = INTRACOMM" "cm_rank comm = int q" "cm_local_size comm = int (length parts)"
    and "ce_contextid (te_comm (de_topo env)) False = Inr cid" "cid \<noteq> 0" "ce_comm_create (te_comm (de_topo env)) = None"
      "ce_commit (te_comm (de_topo env)) = None" "te_put (de_topo env) = None" "dist_env_ok env parts q"
  shows "\<exists>newcomm d. MPIR_Dist_graph_create_impl env comm (int (length (gp_sources (parts ! q)))) (gp_sources (parts ! q)) (gp_degrees (parts ! q))
        (gp_destinations (parts ! q)) (gp_weights (parts ! q)) p = Some (graph_sends (length parts) (parts ! q), (None, Some newcomm, []))
    \<and> dist_graph_of newcomm = Some d \<and> dg_is_weighted d = (gp_weights (parts ! q) \<noteq> None)
    \<and> dg_indegree d = int (length (edges_to (concat (map part_edges parts)) q))
    \<and> stored (dg_is_weighted d) (dg_in d) (dg_in_weights d) = mset (map (\<lambda>(s, t, w). drop_weight (dg_is_weighted d) (s, w)) (edges_to (concat (map part_edges parts)) q))
    \<and> dg_outdegree d = int (length (edges_from (concat (map part_edges parts)) q))
    \<and> stored (dg_is_weighted d) (dg_out d) (dg_out_weights d) = mset (map (\<lambda>(s, t, w). drop_weight (dg_is_weighted d) (t, w)) (edges_from (concat (map part_edges parts)) q))"
proof -
  let ?n = "length parts" and ?es = "concat (map part_edges parts)" and ?g = "parts ! q"
  define weighted where "weighted = (gp_weights ?g \<noteq> None)"
  obtain "is" os where R: "de_reduce_scatter env (graph_flags ?n ?g) = Inr (int (length (de_inbound env)), int (length (de_outbound env)))"
    "length (de_inbound env) \<le> ?n" "length (de_outbound env) \<le> ?n"
    "receive_edges weighted (int (length (de_inbound env))) (de_inbound env) = Some (int (length is), if is = [] then None else Some (map fst is),
        if is = [] \<or> \<not> weighted then None else Some (map snd is))"
    "mset is = mset (map (\<lambda>(s, t, w). (s, w)) (edges_to ?es q))"
    "receive_edges weighted (int (length (de_outbound env))) (de_outbound env) = Some (int (length os), if os = [] then None else Some (map fst os),
        if os = [] \<or> \<not> weighted then None else Some (map snd os))"
    "mset os = mset (map (\<lambda>(s, t, w). (t, w)) (edges_from ?es q))"
    using dist_received [OF assms(1-3,12), of weighted] by blast
  have ok: "part_ok ?n ?g" using assms(1,2) by simp
  obtain rin rout where arr: "edge_arrays (int ?n) (int (length (gp_sources ?g))) (gp_sources ?g) (gp_degrees ?g) (gp_destinations ?g) (gp_weights ?g) = Some (rin, rout)"
    "graph_arrays ?n ?g = (rin, rout)" using edge_arrays_eq [OF ok] graph_arrays_eq [OF ok] by blast
  have wait: "de_waitall env = None" using assms(12) by (simp add: dist_env_ok_def Let_def)
  obtain nc where copy: "MPII_Comm_copy (te_comm (de_topo env)) comm (int ?n) None = Some (None, Some nc, [])"
    using assms(1,4-10) by (auto simp: MPII_Comm_copy_def Let_def)
  have pairs: "mset (map (drop_weight b) is) = mset (map (\<lambda>(s, t, w). drop_weight b (s, w)) (edges_to ?es q))"
    "mset (map (drop_weight b) os) = mset (map (\<lambda>(s, t, w). drop_weight b (t, w)) (edges_from ?es q))"
    "length is = length (edges_to ?es q)" "length os = length (edges_from ?es q)" for b
    using pairs_image(1) [OF R(5), of "drop_weight b"] pairs_image(1) [OF R(7), of "drop_weight b"] pairs_image(2) [OF R(5)] pairs_image(2) [OF R(7)]
    by (simp_all add: case_prod_unfold)
  define d where "d = \<lparr>dg_indegree = int (length is), dg_in = (if is = [] then None else Some (map fst is)),
    dg_in_weights = (if is = [] \<or> \<not> weighted then None else Some (map snd is)), dg_outdegree = int (length os),
    dg_out = (if os = [] then None else Some (map fst os)), dg_out_weights = (if os = [] \<or> \<not> weighted then None else Some (map snd os)),
    dg_is_weighted = weighted\<rparr>"
  have "MPIR_Dist_graph_create_impl env comm (int (length (gp_sources ?g))) (gp_sources ?g) (gp_degrees ?g) (gp_destinations ?g) (gp_weights ?g) p
    = Some (graph_sends ?n ?g, (None, Some (nc\<lparr>cm_topology := Some (MPI_DIST_GRAPH d)\<rparr>), []))"
    using R(1-3) unfolding MPIR_Dist_graph_create_impl_def Let_def assms(6) copy arr Option.bind.bind_lunit prod.case graph_flags_def graph_sends_def weighted_def [symmetric]
    by (simp add: R(4,6) wait assms(11) attach_topology_def MPIR_Topology_put_def d_def)
  moreover have "dg_is_weighted d = (gp_weights ?g \<noteq> None)" "dg_indegree d = int (length (edges_to ?es q))" "dg_outdegree d = int (length (edges_from ?es q))"
    by (simp_all add: d_def pairs(3,4) weighted_def)
  moreover have "stored (dg_is_weighted d) (dg_in d) (dg_in_weights d) = mset (map (drop_weight (dg_is_weighted d)) is)"
    "stored (dg_is_weighted d) (dg_out d) (dg_out_weights d) = mset (map (drop_weight (dg_is_weighted d)) os)"
    using stored_pairs [of weighted "is"] stored_pairs [of weighted os] by (simp_all add: d_def)
  ultimately show ?thesis using pairs(1,2)
    by (intro exI [of _ "nc\<lparr>cm_topology := Some (MPI_DIST_GRAPH d)\<rparr>"] exI [of _ d]) (simp add: dist_graph_of_def MPIR_Topology_get_def)
qed

definition dist_parts_ex :: "graph_part list" where
  "dist_parts_ex = [\<lparr>gp_sources = [0, 1], gp_degrees = [1, 1], gp_destinations = [1, 0], gp_weights = Some [7, 9]\<rparr>,
     \<lparr>gp_sources = [0], gp_degrees = [1], gp_destinations = [1], gp_weights = Some [5]\<rparr>]"

definition dist_env_ex :: dist_env where
  "dist_env_ex = \<lparr>de_topo = cart_env_ex [], de_reduce_scatter = (\<lambda>_. Inr (2, 1)), de_inbound = [[0, 5], [0, 7]], de_outbound = [[0, 9]], de_waitall = None\<rparr>"

lemma dist_ex_ok: "\<forall>g\<in>set dist_parts_ex. part_ok (length dist_parts_ex) g" "dist_env_ok dist_env_ex dist_parts_ex 1"
proof -
  show "\<forall>g\<in>set dist_parts_ex. part_ok (length dist_parts_ex) g" by code_simp
  show "dist_env_ok dist_env_ex dist_parts_ex 1" by code_simp
qed

theorem dist_graph_create_witness:
  "\<exists>newcomm d. MPIR_Dist_graph_create_impl dist_env_ex (world_ex 2 1) 1 [0] [1] [1] (Some [5]) None
      = Some (graph_sends 2 (dist_parts_ex ! 1), (None, Some newcomm, []))
    \<and> dist_graph_of newcomm = Some d \<and> dg_indegree d = 2 \<and> stored True (dg_in d) (dg_in_weights d) = {#(0, 7), (0, 5)#}
    \<and> dg_outdegree d = 1 \<and> stored True (dg_out d) (dg_out_weights d) = {#(0, 9)#}"
proof -
  have g: "dist_parts_ex ! 1 = \<lparr>gp_sources = [0], gp_degrees = [1], gp_destinations = [1], gp_weights = Some [5]\<rparr>" "length dist_parts_ex = 2"
    "dist_parts_ex ! Suc 0 = \<lparr>gp_sources = [0], gp_degrees = [1], gp_destinations = [1], gp_weights = Some [5]\<rparr>"
    by (simp_all add: dist_parts_ex_def)
  have e: "concat (map part_edges dist_parts_ex) = [(0, 1, 7), (1, 0, 9), (0, 1, 5)]" by code_simp
  have q: "1 < length dist_parts_ex" "int (length (concat (map part_edges dist_parts_ex))) \<le> 500000000" by (simp_all add: g e)
  have w: "cm_kind (world_ex 2 1) = INTRACOMM" "cm_rank (world_ex 2 1) = int 1" "cm_local_size (world_ex 2 1) = int (length dist_parts_ex)"
    by (simp_all add: world_ex_def MPII_Comm_init_def g)
  have v: "ce_contextid (te_comm (de_topo dist_env_ex)) False = Inr 16" "(16 :: int) \<noteq> 0" "ce_comm_create (te_comm (de_topo dist_env_ex)) = None"
    "ce_commit (te_comm (de_topo dist_env_ex)) = None" "te_put (de_topo dist_env_ex) = None"
    by (simp_all add: dist_env_ex_def cart_env_ex_def split_env_ex_def)
  obtain newcomm d where "MPIR_Dist_graph_create_impl dist_env_ex (world_ex 2 1) 1 [0] [1] [1] (Some [5]) None
      = Some (graph_sends 2 (dist_parts_ex ! 1), (None, Some newcomm, []))" "dist_graph_of newcomm = Some d" "dg_is_weighted d"
    "dg_indegree d = 2" "stored True (dg_in d) (dg_in_weights d) = {#(0, 7), (0, 5)#}"
    "dg_outdegree d = 1" "stored True (dg_out d) (dg_out_weights d) = {#(0, 9)#}"
    using dist_graph_create [OF q(1) dist_ex_ok(1) q(2) w v dist_ex_ok(2), of None, unfolded g e]
    by (auto simp: g edges_to_def edges_from_def drop_weight_def)
  then show ?thesis by blast
qed

end
