(* ===== verification/Topo_Theorems.thy ===== *)
theory Topo_Theorems
  imports Cart_Sub Dist_Theorems
begin

text \<open>
  Topologies of all kinds: duplication of a communicator keeps them, the queries return what the
  creation stored, and the canonical neighbours of a grid are its shifts by one.
\<close>

section \<open>Copies\<close>

definition topo_ok :: "MPIR_Topology \<Rightarrow> bool" where
  "topo_ok t = (case t of
     MPI_CART c \<Rightarrow> ca_ndims c = int (length (ca_dims c)) \<and> ca_ndims c = int (length (ca_periodic c)) \<and> ca_ndims c = int (length (ca_position c))
   | MPI_GRAPH g \<Rightarrow> gr_nnodes g = int (length (gr_index g)) \<and> gr_nedges g = int (length (gr_edges g))
   | MPI_DIST_GRAPH d \<Rightarrow>
       (\<forall>xs. dg_in d = Some xs \<longrightarrow> dg_indegree d = int (length xs)) \<and> (dg_in d = None \<longrightarrow> dg_indegree d = 0)
       \<and> (\<forall>xs. dg_out d = Some xs \<longrightarrow> dg_outdegree d = int (length xs)) \<and> (dg_out d = None \<longrightarrow> dg_outdegree d = 0)
       \<and> (\<forall>xs. dg_in_weights d = Some xs \<longrightarrow> dg_is_weighted d \<and> dg_indegree d = int (length xs))
       \<and> (\<forall>xs. dg_out_weights d = Some xs \<longrightarrow> dg_is_weighted d \<and> dg_outdegree d = int (length xs))
       \<and> (dg_is_weighted d \<and> dg_in_weights d = None \<longrightarrow> dg_indegree d = 0) \<and> (dg_is_weighted d \<and> dg_out_weights d = None \<longrightarrow> dg_outdegree d = 0)
   | MPI_TOPO_OTHER k \<Rightarrow> False)"

lemma copy_array_id: "(case a of None \<Rightarrow> n = 0 | Some xs \<Rightarrow> n = int (length xs)) \<Longrightarrow> MPIR_Copy_array n a = Some a"
  by (cases a) (simp_all add: MPIR_Copy_array_def)

lemma copy_ints_id: "n = int (length xs) \<Longrightarrow> copy_ints n xs = Some xs"
  by (simp add: copy_ints_def copy_array_id)

lemma topology_copy_id:
  assumes "topo_ok t"
  shows "MPIR_Topology_copy_internal t = Some (Inr t)"
proof (cases t)
  case (MPI_DIST_GRAPH d)
  have "MPIR_Copy_array (dg_indegree d) (dg_in d) = Some (dg_in d)" "MPIR_Copy_array (dg_outdegree d) (dg_out d) = Some (dg_out d)"
    using assms by (auto simp: topo_ok_def MPI_DIST_GRAPH intro!: copy_array_id split: option.splits)
  moreover have "(if dg_is_weighted d then MPIR_Copy_array (dg_indegree d) (dg_in_weights d) else Some None) = Some (dg_in_weights d)"
    "(if dg_is_weighted d then MPIR_Copy_array (dg_outdegree d) (dg_out_weights d) else Some None) = Some (dg_out_weights d)"
    using assms by (auto simp: topo_ok_def MPI_DIST_GRAPH intro!: copy_array_id split: option.splits)
  ultimately show ?thesis by (simp add: MPIR_Topology_copy_internal_def MPI_DIST_GRAPH)
qed (use assms in \<open>simp_all add: topo_ok_def MPIR_Topology_copy_internal_def copy_ints_id\<close>)

lemma comm_dup_keeps_topology:
  assumes "MPIR_Comm_dup_impl env copy_stream comm p = Some (None, Some newcomm, freed)" "cm_topology comm = Some t" "topo_ok t"
  shows "cm_topology newcomm = Some t"
  using assms topology_copy_id [OF assms(3)]
  by (auto simp: MPIR_Comm_dup_impl_def MPII_Comm_dup_def topology_attr_dup_def bind_eq_Some_conv split: option.splits)

section \<open>Distributed graphs\<close>

lemma adjacent_then_neighbours:
  assumes "MPIR_Dist_graph_create_adjacent_impl env comm indegree sources (Some sw) outdegree destinations (Some dw) p = Some (None, Some newcomm, freed)"
    and "indegree = int (length sources)" "length sw = length sources" "outdegree = int (length destinations)" "length dw = length destinations"
    and "length sbuf = length sources" "length swbuf = length sources" "length dbuf = length destinations" "length dwbuf = length destinations"
  shows "MPIR_Dist_graph_neighbors_count_impl newcomm = Inr (indegree, outdegree, True)"
    "MPIR_Dist_graph_neighbors_impl newcomm indegree sbuf (Some swbuf) outdegree dbuf (Some dwbuf) = Some (None, (sources, Some sw, destinations, Some dw))"
proof -
  let ?side = "\<lambda>xs ws :: int list. (if xs = [] then None else Some xs, if xs = [] then None else Some ws)"
  have side: "adjacent_side (int (length xs)) xs (Some ws) True = Some (?side xs ws)" if "length ws = length xs" for xs ws
    using that by (auto simp: adjacent_side_def memcpy_new_def)
  have again: "neighbours_side (int (length xs)) (fst (?side xs ws)) (snd (?side xs ws)) True buf (Some wbuf) = Some (xs, Some ws)"
    if "length ws = length xs" "length buf = length xs" "length wbuf = length xs" for xs ws buf wbuf
    using that by (auto simp: neighbours_side_def memcpy_into_def)
  define d where "d = \<lparr>dg_indegree = indegree, dg_in = fst (?side sources sw), dg_in_weights = snd (?side sources sw), dg_outdegree = outdegree,
    dg_out = fst (?side destinations dw), dg_out_weights = snd (?side destinations dw), dg_is_weighted = True\<rparr>"
  have d: "dist_graph_of newcomm = Some d"
    using assms(1) side [OF assms(3)] side [OF assms(5)]
    by (auto simp: MPIR_Dist_graph_create_adjacent_impl_def Let_def assms(2,4) attach_topology_def MPIR_Topology_put_def
        dist_graph_of_def MPIR_Topology_get_def bind_eq_Some_conv d_def split: option.splits)
  show "MPIR_Dist_graph_neighbors_count_impl newcomm = Inr (indegree, outdegree, True)"
    using d by (simp add: MPIR_Dist_graph_neighbors_count_impl_def d_def)
  have "neighbours_side indegree (dg_in d) (dg_in_weights d) True sbuf (Some swbuf) = Some (sources, Some sw)"
    "neighbours_side outdegree (dg_out d) (dg_out_weights d) True dbuf (Some dwbuf) = Some (destinations, Some dw)"
    using again [OF assms(3,6,7)] again [OF assms(5,8,9)] unfolding assms(2,4) d_def by simp_all
  then show "MPIR_Dist_graph_neighbors_impl newcomm indegree sbuf (Some swbuf) outdegree dbuf (Some dwbuf) = Some (None, (sources, Some sw, destinations, Some dw))"
    using d by (simp add: MPIR_Dist_graph_neighbors_impl_def d_def)
qed

text \<open>The copies are as long as the caller's buffers, not as the stored arrays.\<close>

lemma dist_neighbours_overread:
  assumes "dist_graph_of comm = Some d" "dg_in d = Some xs" "int (length xs) < maxindegree"
  shows "MPIR_Dist_graph_neighbors_impl comm maxindegree sources sw maxoutdegree dests dw = None"
  using assms by (simp add: MPIR_Dist_graph_neighbors_impl_def neighbours_side_def memcpy_into_def)

lemma cart_get_overrun:
  assumes "cart_of comm = Some c" "int (length dims) < ca_ndims c"
  shows "MPIR_Cart_get_impl comm (int (length dims)) dims periods coords = None"
  using assms copy_out_short [of dims "ca_ndims c" "ca_dims c"] by (simp add: MPIR_Cart_get_impl_def)

section \<open>Canonical neighbours of a grid\<close>

definition shift_pair :: "MPII_Cart_topology \<Rightarrow> int \<Rightarrow> nat \<Rightarrow> int list" where
  "shift_pair c r d = [proc_of (neighbour c r d (- 1)), proc_of (neighbour c r d 1)]"

lemma length_shift_pairs: "length (concat (map (shift_pair c r) ds)) = 2 * length ds"
  by (induction ds) (simp_all add: shift_pair_def)

lemma nth_shift_pairs:
  assumes "d < n"
  shows "concat (map (shift_pair c r) [0..<n]) ! (2 * d) = proc_of (neighbour c r d (- 1))"
    "concat (map (shift_pair c r) [0..<n]) ! (2 * d + 1) = proc_of (neighbour c r d 1)"
proof -
  have "[0..<n] = [0..<d] @ d # [Suc d..<n]" using upt_add_eq_append [of 0 d "n - d"] upt_conv_Cons [OF assms] assms by simp
  then show "concat (map (shift_pair c r) [0..<n]) ! (2 * d) = proc_of (neighbour c r d (- 1))"
    "concat (map (shift_pair c r) [0..<n]) ! (2 * d + 1) = proc_of (neighbour c r d 1)"
    by (simp_all add: nth_append length_shift_pairs shift_pair_def)
qed

lemma set_pair:
  assumes "length xs = 2 * k" "ys = y # z # zs"
  shows "aset (xs @ ys) (2 * int k) a = Some (xs @ a # z # zs)" "aset (xs @ a # z # zs) (2 * int k + 1) b = Some (xs @ a # b # zs)"
  using assms by (simp_all add: aset_def nat_mult_distrib nat_add_distrib list_update_append)

lemma canon_shifts_walk:
  assumes "grid_comm comm c" "length (ca_dims c) = n" "n \<le> MAX_CART_DIM" "disp_ok c 1" "k \<le> n"
    and "length rs = 2 * (n - k)" "length rd = 2 * (n - k)"
  shows "canon_shifts comm [int k..int n - 1] (concat (map (shift_pair c (cm_rank comm)) [0..<k]) @ rs) (concat (map (shift_pair c (cm_rank comm)) [0..<k]) @ rd)
    = Some (None, concat (map (shift_pair c (cm_rank comm)) [0..<n]), concat (map (shift_pair c (cm_rank comm)) [0..<n]))"
  using assms(5-7)
proof (induction "n - k" arbitrary: k rs rd)
  case (Suc m)
  let ?P = "\<lambda>k. concat (map (shift_pair c (cm_rank comm)) [0..<k])"
  have k: "k < n" using Suc.hyps(2) by simp
  obtain s1 s2 rs' where rs: "rs = s1 # s2 # rs'" using Suc.hyps(2) Suc.prems(2) by (cases rs; cases "List.tl rs") auto
  obtain d1 d2 rd' where rd: "rd = d1 # d2 # rd'" using Suc.hyps(2) Suc.prems(3) by (cases rd; cases "List.tl rd") auto
  have sh: "MPIR_Cart_shift_impl comm (int k) 1 = Some (Inr (proc_of (neighbour c (cm_rank comm) k (- 1)), proc_of (neighbour c (cm_rank comm) k 1)))"
    using cart_shift_eq [OF assms(1), of k 1] assms(2-4) k by simp
  have ij: "[int k..int n - 1] = int k # [int (Suc k)..int n - 1]" using k by (subst upto_rec1) (simp_all add: add.commute)
  note sp = set_pair [OF length_shift_pairs [of c "cm_rank comm" "[0..<k]", unfolded length_upt diff_zero]]
  have IH: "canon_shifts comm [int (Suc k)..int n - 1] (?P (Suc k) @ rs') (?P (Suc k) @ rd') = Some (None, ?P n, ?P n)"
    using Suc.hyps(1) [of "Suc k" rs' rd'] Suc.hyps(2) Suc.prems k by (simp add: rs rd)
  show ?case unfolding ij using IH by (simp add: sh sp [OF rs] sp [OF rd] shift_pair_def)
qed simp

lemma canon_nhb_cart:
  assumes "grid_comm comm c" "length (ca_dims c) \<le> MAX_CART_DIM" "disp_ok c 1"
    and "length sources = 2 * length (ca_dims c)" "length dests = 2 * length (ca_dims c)"
  defines "l \<equiv> concat (map (shift_pair c (cm_rank comm)) [0..<length (ca_dims c)])"
  shows "MPIR_Topo_canon_nhb comm (2 * ca_ndims c) sources iw (2 * ca_ndims c) dests ow = Some (None, (l, iw, l, ow))"
    "MPIR_Topo_canon_nhb_count comm = Some (Inr (2 * ca_ndims c, 2 * ca_ndims c, False))"
proof -
  have t: "MPIR_Topology_get comm = Some (MPI_CART c)"
    using grid_commD(1) [OF assms(1)] by (auto simp: cart_of_def split: option.splits MPIR_Topology.splits)
  note ok = cart_okD [OF grid_commD(2) [OF assms(1)]]
  have "canon_shifts comm [0..int (length (ca_dims c)) - 1] sources dests = Some (None, l, l)"
    using canon_shifts_walk [OF assms(1) refl assms(2,3), of 0 sources dests] assms(4,5) by (simp add: l_def)
  then show "MPIR_Topo_canon_nhb comm (2 * ca_ndims c) sources iw (2 * ca_ndims c) dests ow = Some (None, (l, iw, l, ow))"
    by (simp add: MPIR_Topo_canon_nhb_def t ok(1))
  have "cint (2 * ca_ndims c) = Some (2 * ca_ndims c)" using assms(2) ok(1) by (simp add: cint_def MAX_CART_DIM_def INT_MAX_def)
  then show "MPIR_Topo_canon_nhb_count comm = Some (Inr (2 * ca_ndims c, 2 * ca_ndims c, False))"
    by (simp add: MPIR_Topo_canon_nhb_count_def t)
qed

text \<open>The process one step along a dimension, where the caller would stand at coordinate \<open>x\<close>.\<close>

definition grid_neighbour :: "MPII_Cart_topology \<Rightarrow> nat \<Rightarrow> int \<Rightarrow> int" where
  "grid_neighbour c dir x =
     (if ca_periodic c ! dir = 0 \<and> (x < 0 \<or> ca_dims c ! dir \<le> x) then MPI_PROC_NULL
      else row_major (ca_dims c) ((ca_position c)[dir := x mod ca_dims c ! dir]))"

lemma neighbour_step:
  assumes "grid_comm comm c"
  shows "proc_of (neighbour c (cm_rank comm) dir disp) = grid_neighbour c dir (ca_position c ! dir + disp)"
  using grid_commD(6) [OF assms] by (auto simp: neighbour_def grid_neighbour_def proc_of_def Let_def)

text \<open>C40: \<open>MPIR_Topo_canon_nhb\<close>, from which the neighbourhood collectives take their partners, on a process of
  a grid of \<open>n\<close> dimensions: with buffers of the \<open>2 * n\<close> entries that \<open>MPIR_Topo_canon_nhb_count\<close> announces it
  fills sources and destinations alike; for every dimension, in order, slot \<open>2 * dir\<close> holds the process
  whose coordinate in that dimension is one lower and slot \<open>2 * dir + 1\<close> the process whose coordinate is one
  higher, all other coordinates being those of the caller: around the edge in a periodic dimension,
  \<open>MPI_PROC_NULL\<close> over the edge of another one.  The weights are left alone.\<close>

theorem canon_neighbours:
  assumes "grid_comm comm c" "length (ca_dims c) \<le> MAX_CART_DIM" "disp_ok c 1"
    "length sources = 2 * length (ca_dims c)" "length dests = 2 * length (ca_dims c)"
  shows "MPIR_Topo_canon_nhb_count comm = Some (Inr (2 * int (length (ca_dims c)), 2 * int (length (ca_dims c)), False))
    \<and> (\<exists>l. MPIR_Topo_canon_nhb comm (2 * int (length (ca_dims c))) sources iw (2 * int (length (ca_dims c))) dests ow = Some (None, (l, iw, l, ow))
      \<and> length l = 2 * length (ca_dims c)
      \<and> (\<forall>dir<length (ca_dims c). l ! (2 * dir) = grid_neighbour c dir (ca_position c ! dir - 1)
           \<and> l ! (2 * dir + 1) = grid_neighbour c dir (ca_position c ! dir + 1)))"
proof -
  let ?n = "length (ca_dims c)" and ?l = "concat (map (shift_pair c (cm_rank comm)) [0..<length (ca_dims c)])"
  have n: "ca_ndims c = int ?n" using cart_okD(1) [OF grid_commD(2) [OF assms(1)]] .
  note nhb = canon_nhb_cart(1) [OF assms, of iw ow, unfolded n] canon_nhb_cart(2) [OF assms, unfolded n]
  have "?l ! (2 * dir) = grid_neighbour c dir (ca_position c ! dir - 1) \<and> ?l ! (2 * dir + 1) = grid_neighbour c dir (ca_position c ! dir + 1)"
    if "dir < ?n" for dir
    using neighbour_step [OF assms(1), of dir "- 1"] neighbour_step [OF assms(1), of dir 1] by (simp add: nth_shift_pairs [OF that] del: One_nat_def)
  then show ?thesis using nhb length_shift_pairs [of c "cm_rank comm" "[0..<?n]"] by auto
qed

theorem canon_neighbours_witness:
  "grid_comm (cart_comm_ex 4) (cart_ex 4)
    \<and> MPIR_Topo_canon_nhb (cart_comm_ex 4) 4 [9, 9, 9, 9] None 4 [9, 9, 9, 9] None = Some (None, ([1, MPI_PROC_NULL, 3, 5], None, [1, MPI_PROC_NULL, 3, 5], None))"
proof
  show g: "grid_comm (cart_comm_ex 4) (cart_ex 4)" by (simp add: cart_ex_ok)
  have c: "ca_dims (cart_ex 4) = [2, 3]" "ca_periodic (cart_ex 4) = [0, 1]" "ca_position (cart_ex 4) = [1, 1]" by (simp_all add: cart_ex_def)
  obtain l where l: "MPIR_Topo_canon_nhb (cart_comm_ex 4) 4 [9, 9, 9, 9] None 4 [9, 9, 9, 9] None = Some (None, (l, None, l, None))"
      "length l = 4" "\<And>dir. dir < 2 \<Longrightarrow> l ! (2 * dir) = grid_neighbour (cart_ex 4) dir (ca_position (cart_ex 4) ! dir - 1)
        \<and> l ! (2 * dir + 1) = grid_neighbour (cart_ex 4) dir (ca_position (cart_ex 4) ! dir + 1)"
    using canon_neighbours [OF g, of "[9, 9, 9, 9]" "[9, 9, 9, 9]" None None]
    by (auto simp: c cart_ex_def MAX_CART_DIM_def disp_ok_def INT_MAX_def)
  have "l ! 0 = 1" "l ! 1 = MPI_PROC_NULL" "l ! 2 = 3" "l ! 3 = 5"
    using l(3) [of 0] l(3) [of 1] by (simp_all add: c grid_neighbour_def)
  then have "l = [1, MPI_PROC_NULL, 3, 5]" using l(2)
    by (intro nth_equalityI) (auto simp: less_Suc_eq numeral_eq_Suc)
  then show "MPIR_Topo_canon_nhb (cart_comm_ex 4) 4 [9, 9, 9, 9] None 4 [9, 9, 9, 9] None = Some (None, ([1, MPI_PROC_NULL, 3, 5], None, [1, MPI_PROC_NULL, 3, 5], None))"
    using l(1) by simp
qed

end
