(* ===== verification/Spec2Isabelle.thy ===== *)
theory Spec2Isabelle
  imports Group_Theorems Rma_Theorems Context_Exhaustion Part_Queues Compr_Theorems Topo_Theorems
begin

text \<open>
  \<^bold>\<open>A verification development of ParaStation MPI.\<close>

  psmpi is MPICH (\<open>src/mpich2\<close>) with the ParaStation device \<open>src/mpich2/src/mpid/psp\<close>.  An MPI call
  enters through a generated binding, is carried out in \<open>src/mpich2/src/mpi\<close> on the objects of MPI
  (groups, communicators, info objects, requests), and reaches the device, which sends messages with
  the communication library pscom.  This development models eight parts of the C code and proves
  what makes each correct.  File names below are relative to \<open>src/mpich2/src\<close>.

  \<^bold>\<open>Conventions\<close> (\<open>Psmpi_Prelude\<close>).  A C structure is a record, an enumeration a datatype, a C function
  a definition with the same name, a loop a recursive function.  An MPI error class is a value of
  \<open>mpi_error\<close>.  A computation that reads or writes outside an array, trips an assertion, overflows a
  signed integer, dereferences \<open>NULL\<close> or never ends has the value \<open>None\<close>; a theorem that concludes
  \<open>= Some\<close> therefore excludes all of these.  Unsigned counters and bit masks are words of their width,
  signed integers are \<open>int\<close> with the range checks \<open>cint\<close> and \<open>caint\<close>.  What the code takes from outside
  the repository or from another layer (pscom's progress, the collectives, the schedule engine,
  \<open>MPID_Isend\<close> and \<open>MPID_Irecv\<close>, compressor callbacks, the dynamic loader) is an argument.

  \<^bold>\<open>Process groups\<close>: \<open>mpi/group/grouputil.c\<close>, \<open>mpi/group/group_impl.c\<close>, \<open>include/mpir_group.h\<close>.
  \<^item> \<open>Lpid_List\<close> models \<open>mergesort_lpidarray\<close>, the merge sort that threads an index list through the
    process array; its loops are \<open>partial_function (option)\<close> and are shown to return.
  \<^item> \<open>MPIR_Groups\<close> holds the groups and all operations; \<open>Group_Sets\<close> and \<open>Group_Ranks\<close> prove the walks
    over two ordered lists, the selections by rank and range, the range check and the translation.
  \<^item> \<open>Group_Theorems\<close> states the contract of process sets as the locale \<open>process_sets\<close>, interprets it on
    the three set operations and has the properties: the operations are the operations of MPI on
    lists of processes in rank order, with the rank of the caller, references and errors.  The check
    of repeated ranks and the groups of named process sets are shown to go wrong.  The range check is
    decided for ranges whose \<open>last - first\<close> and one step past \<open>last\<close> are \<open>int\<close>s (\<open>last_fits\<close>, \<open>no_overflow\<close>);
    \<open>INT_MIN / -1\<close> inside it has no result.

  \<^bold>\<open>One-sided synchronisation\<close>: \<open>mpid/psp/src/mpid_rma_sync.c\<close> with the control messages of
  \<open>mpid_psp_ctrl_msgs.c\<close> and the window of \<open>mpidpre.h\<close>.
  \<^item> \<open>Rma_Window\<close> is the window object with the messages it has sent; \<open>Rma_Lock\<close> the lock a window grants
    its peers and the internal lock of the atomic operations, with their common contract, the locale
    \<open>lock_queue\<close>, interpreted on both; \<open>Rma_Sync\<close> the calls at the origin; \<open>Rma_Epochs\<close> the relation of
    all calls and its invariant.  The wait loops return as soon as the progress they are given lets
    their condition hold, and have no result otherwise.
  \<^item> \<open>Rma_Theorems\<close>: an exclusive holder is alone, no request is lost, the lock answers sent are one for
    each request that came as a message and no longer waits, waiting requests are served in order, epochs and counters agree in every reachable window, a call out of its epoch changes nothing.
    \<open>MPID_Win_post\<close> uses the groups of the first part through their rank translation.

  \<^bold>\<open>Context identifiers\<close>: \<open>mpi/comm/contextid.c\<close>, \<open>include/mpir_contextid.h\<close>.
  \<^item> \<open>Context_Id\<close> has the bit fields and the mask of free identifiers, with \<open>uint16_t\<close> identifiers and 64
    mask words as the default configuration has them; \<open>Context_Alloc\<close> the blocking and nonblocking
    allocation, cut at its critical sections.  The blocking loop is \<open>partial_function (option)\<close>.
  \<^item> \<open>Context_Threads\<close> and \<open>Context_System\<close> interleave the critical sections of any number of threads as
    the inductive relation \<open>ctx_step\<close>, with every exit of an allocation: failed reductions, exhausted
    masks, failed insertions into a schedule.  The exhaustion exit clears \<open>mask_in_use\<close> after it has given
    the base segment back; the ghost \<open>sys_stolen\<close> records that it did so while another thread held the
    segment.  The invariant is proved by rule induction for the states where this has not happened.
  \<^item> \<open>Context_Theorems\<close>: in these states a live identifier is never handed out again and the participants of
    an allocation agree.  The allocation of a process's only allocating thread returns, with an
    identifier, an exhaustion error or the error of a failed reduction, which leaves the eager segment
    reserved if it was the first one; freeing undoes an allocation.
  \<^item> \<open>Context_Exhaustion\<close>: a run of three threads in which the exhaustion exit does clear the flag under
    another thread, and two threads hold the base segment at once.

  \<^bold>\<open>Partitioned communication\<close>: \<open>mpid/psp/src/mpid_part.c\<close>.
  \<^item> \<open>Part_Comm\<close> models the whole file on requests, the two matching lists of a process and what it hands
    to the layers below.
  \<^item> \<open>Part_Theorems\<close>: both sides lay out the sub-requests alike, every sub-request of a started send is
    issued exactly once whatever the order of events, and an uneven layout reads the wrong data.
  \<^item> \<open>Part_Queues\<close>: the handshake settles on one number of sub-requests, the inductive relation
    \<open>part_reach\<close> of all calls and messages keeps the matching lists disjoint, a failing compressor
    fails the initialisation.

  \<^bold>\<open>Info objects\<close>: \<open>mpi/info/infoutil.c\<close>, \<open>mpi/info/info_impl.c\<close>, \<open>mpl/src/misc/mpl_misc.c\<close> and
  \<open>MPL_strncpy\<close>, \<open>MPL_strjoin\<close> of \<open>mpl/src/str/mpl_str.c\<close>.
  \<^item> \<open>Info_Objects\<close> has the arrays of entries with their growth, all calls on keys, merging and splitting;
    \<open>Hex_Code\<close> the text form of binary values.
  \<^item> \<open>Info_Store\<close> proves the laws of the entry lists and states the interface of a bounded store as the
    locale \<open>key_value_store\<close>, interpreted on the info objects; \<open>Info_Merge\<close> and \<open>Info_Split\<close> have the loop
    invariants of merge and split, \<open>Hex_Roundtrip\<close> those of encoder and decoder.
  \<^item> \<open>Info_Theorems\<close>: an info object is a finite map under every sequence of calls, splitting undoes
    merging, binary values are read back unchanged.  The bound \<open>INFO_LIMIT\<close> of 200 million entries is
    where \<open>capacity * 5\<close> still fits an \<open>int\<close>; the bound of 511 bytes is what fits the 1024 characters
    of \<open>MPIR_Info_set_hex_impl\<close> whatever the bytes are.

  \<^bold>\<open>Payload compressors\<close>: \<open>mpi/compr/register_compr_impl.c\<close>, \<open>mpi/compr/compr_util.c\<close>.
  \<^item> \<open>Compr_Registry\<close> has the registry and its publication in the environment's info object, built from
    the merge of the info objects; \<open>Compr_Theorems\<close> shows what is published and that the list of names
    fits its buffer, as long as the names, and the program's arguments, take at most \<open>INT_MAX\<close> characters
    with their separators (\<open>join_fits\<close>), since both sizes are kept in an \<open>int\<close>.  The compressors of a request are those of \<open>Part_Comm\<close>.

  \<^bold>\<open>Splitting and copying communicators\<close>: \<open>mpi/comm/comm_split.c\<close>, \<open>MPII_Comm_copy\<close> and \<open>MPII_Comm_dup\<close> of
  \<open>mpi/comm/commutil.c\<close>, \<open>MPIR_Comm_dup_impl\<close> of \<open>mpi/comm/comm_impl.c\<close>.
  \<^item> \<open>Comm_Split\<close> has the communicator and these functions; what the collectives inside return, \<open>qsort\<close>,
    the object allocation and \<open>MPIR_Comm_commit\<close> are the fields of \<open>comm_env\<close>.
  \<^item> \<open>Split_Sort\<close> proves the chain through the color fields and both sorts; \<open>Split_Theorems\<close> shows that a
    split orders the processes of a color by key and old rank, on intra- and intercommunicators.

  \<^bold>\<open>Virtual topologies\<close>: \<open>mpi/topo/topo_impl.c\<close>, \<open>mpi/topo/topoutil.c\<close>, \<open>mpi/topo/dist_graph_create.c\<close>,
  \<open>include/mpir_topo.h\<close>, built from the functions of the previous part.
  \<^item> \<open>Topologies\<close> has the structures, the topology attribute and the Cartesian functions with checked
    32-bit arithmetic; \<open>Topo_Graphs\<close> graphs, distributed graphs given by their neighbours and the
    canonical neighbour lists; \<open>Dist_Graph\<close> distributed graphs given by any edges.
  \<^item> \<open>Cart_Grid\<close> states the numbering of a grid as the locale \<open>grid_numbering\<close>, interpreted on the row-major
    numbering; \<open>Cart_Loops\<close> and \<open>Cart_Theorems\<close> show that the loops compute it: creation, the round trip of
    ranks and coordinates, shifts.  \<open>Cart_Sub\<close> has the sub-grids, composed with the split.
  \<^item> \<open>Dist_Loops\<close> and \<open>Dist_Theorems\<close> follow the edges from the arguments through the arrays, the messages
    and the growing neighbour lists; \<open>Topo_Theorems\<close> has the slots of the canonical neighbours and the copies of
    topologies, and where the queries leave their buffers.
  \<^item> The bounds: the shift is right up to the 16 dimensions of its array and as long as the displaced
    coordinate fits an \<open>int\<close> (\<open>disp_ok\<close>); a distributed graph has at most 500 million edges, so that the
    array sizes fit an \<open>int\<close>.

  \<^bold>\<open>Hypotheses.\<close>  Where a property depends on an argument, the hypothesis is what the other layer
  documents: pscom's progress leaves the local part of a window alone and lets pending operations
  finish, a reduction combines the masks of the participants or fails, \<open>MPID_Isend\<close> succeeds for a started
  request, the binding admits compressor names of 1 to 128 characters,
  an allgather returns what every rank contributes, \<open>qsort\<close> permutes and sorts (\<open>qsort_contract\<close>), and
  the messages of a distributed graph are delivered once each, in any order (\<open>dist_env_ok\<close>).  Every property with a
  hypothesis is followed by a concrete instance, named \<open>_witness\<close>.

  \<^bold>\<open>Not modelled.\<close>  The point-to-point and data-moving one-sided code of the device is a layer over
  pscom, where matching and completion happen, and pscom is not part of the repository.  Connection
  setup, spawn, PMI and the process manager are input and output.  The collective algorithms, the
  datatype engine, ROMIO, the ch3 and ch4 devices, the language bindings and the modules
  are separate systems carried in the repository.  Of \<open>mpi/\<close>, the attribute and keyval machinery, error
  handlers and requests are not reached; nor are the creation of communicators from groups and
  intercommunicators, hints, node hierarchies and fault tolerance, and \<open>MPI_Dims_create\<close>
  (\<open>mpi/topo/dims_create.c\<close>).  Of the modelled parts, exhaustion of memory is modelled for groups only,
  and the release of an info object or a topology is the end of its value.
\<close>

end
